(* ===== verification/Osw_Prelude.thy ===== *)
theory Osw_Prelude
  imports Main "HOL-Library.Word" "HOL-Library.Sublist"
begin

text \<open>
  Shared vocabulary of the development: the machine integer types the sources use, the gRPC
  status a handler returns, the substring operations of \<^verbatim>\<open>std::string_view\<close>, and the list and
  word lemmas that more than one component needs. The collection \<open>osw_defs\<close> holds the
  definitions that component proofs unfold, \<open>osw_inv\<close> the preservation lemmas of the component
  invariants.
\<close>

unbundle bit_operations_syntax

named_theorems osw_defs \<open>definitions unfolded by component proofs\<close>
named_theorems osw_inv \<open>preservation of component invariants\<close>

type_synonym u8 = "8 word"
type_synonym u32 = "32 word"
type_synonym u64 = "64 word"

text \<open>The status codes of \<^verbatim>\<open>grpc::StatusCode\<close> that the sources return.\<close>

datatype status_code =
    OK | INVALID_ARGUMENT | NOT_FOUND | FAILED_PRECONDITION | RESOURCE_EXHAUSTED
  | INTERNAL | UNIMPLEMENTED | UNAVAILABLE | ALREADY_EXISTS | DEADLINE_EXCEEDED
  | PERMISSION_DENIED | ABORTED

text \<open>\<^verbatim>\<open>grpc::Status\<close>: a code and a message; \<^verbatim>\<open>grpc::Status::OK\<close> has the empty message.\<close>

type_synonym grpc_status = "status_code \<times> string"

abbreviation Status_OK :: grpc_status where
  "Status_OK \<equiv> (OK, [])"

text \<open>
  \<^verbatim>\<open>s.size() >= p.size() && s.compare(0, p.size(), p) == 0\<close>, the prefix test that the tier
  classifier, the subscriber filter and the variable denylist all write out.
\<close>

definition has_prefix :: "string \<Rightarrow> string \<Rightarrow> bool" where
  "has_prefix p s \<longleftrightarrow> length p \<le> length s \<and> take (length p) s = p"

text \<open>The last \<open>n\<close> elements of a list.\<close>

definition last_n :: "nat \<Rightarrow> 'a list \<Rightarrow> 'a list" where
  "last_n n xs = drop (length xs - n) xs"

text \<open>Decimal digits of a number, \<^verbatim>\<open>std::to_string\<close> on an unsigned value.\<close>

fun decimal :: "nat \<Rightarrow> string" where
  "decimal n =
     (if n < 10 then [char_of (48 + n)] else decimal (n div 10) @ [char_of (48 + n mod 10)])"

declare decimal.simps [simp del]

text \<open>
  The \<^verbatim>\<open><cctype>\<close> functions in the C locale, and the part of a string that a C interface sees: up
  to its first NUL.
\<close>

definition isspace :: "char \<Rightarrow> bool" where
  "isspace c \<longleftrightarrow> (let n = of_char c :: nat in n = 32 \<or> 9 \<le> n \<and> n \<le> 13)"

definition to_lower :: "char \<Rightarrow> char" where
  "to_lower c = (let n = of_char c :: nat in if 65 \<le> n \<and> n \<le> 90 then char_of (n + 32) else c)"

definition c_str :: "string \<Rightarrow> string" where
  "c_str s = takeWhile (\<lambda>c. c \<noteq> CHR 0x00) s"

text \<open>\<^verbatim>\<open>find(c)\<close>: the first position of a character, None for \<^verbatim>\<open>npos\<close>.\<close>

fun find_char :: "char \<Rightarrow> string \<Rightarrow> nat option" where
  "find_char c [] = None"
| "find_char c (x # xs) = (if x = c then Some 0 else map_option Suc (find_char c xs))"

text \<open>Lemmas on the prefix test.\<close>

lemma has_prefix_iff [simp]: "has_prefix p s \<longleftrightarrow> prefix p s"
proof
  assume "has_prefix p s"
  then have "take (length p) s = p" by (simp add: has_prefix_def)
  then show "prefix p s" by (metis take_is_prefix)
next
  assume "prefix p s"
  then show "has_prefix p s" by (auto simp: has_prefix_def prefix_def)
qed

text \<open>Lemmas on the tail window of a list.\<close>

lemma length_last_n [simp]: "length (last_n n xs) = min n (length xs)"
  by (simp add: last_n_def)

lemma last_n_all [simp]: "length xs \<le> n \<Longrightarrow> last_n n xs = xs"
  by (simp add: last_n_def)

lemma last_n_snoc: "0 < n \<Longrightarrow> last_n n (xs @ [x]) = last_n (n - 1) xs @ [x]"
  by (cases "length xs < n") (auto simp: last_n_def)

lemma last_n_last_n_snoc: "last_n n (last_n n xs @ [x]) = last_n n (xs @ [x])"
proof (cases "length xs < n")
  case True
  then show ?thesis by simp
next
  case False
  then have "length (last_n n xs @ [x]) - n = 1" by simp
  then show ?thesis using False
    by (cases n) (auto simp: last_n_def Suc_diff_Suc)
qed

lemma suffix_last_n: "suffix (last_n n xs) xs"
  by (simp add: last_n_def suffix_drop)

text \<open>A filter over a strictly increasing key keeps exactly a tail.\<close>

lemma sorted_wrt_snoc:
  "sorted_wrt P (xs @ [x]) \<longleftrightarrow> sorted_wrt P xs \<and> (\<forall>y\<in>set xs. P y x)"
  by (simp add: sorted_wrt_append)

text \<open>Lemmas on \<^verbatim>\<open>find\<close>.\<close>

lemma find_char_None: "find_char c s = None \<longleftrightarrow> c \<notin> set s"
  by (induction s) auto

lemma find_char_Some: "find_char c s = Some n \<Longrightarrow> n < length s \<and> c \<notin> set (take n s) \<and> s ! n = c"
  by (induction s arbitrary: n) (auto split: if_splits)

lemma find_char_append: "c \<notin> set xs \<Longrightarrow> find_char c (xs @ c # ys) = Some (length xs)"
  by (induction xs) auto

lemma c_str_id [simp]: "CHR 0x00 \<notin> set s \<Longrightarrow> c_str s = s"
  by (auto simp: c_str_def takeWhile_eq_all_conv)

text \<open>Searching and partial mapping over lists.\<close>

lemma find_in_set: "List.find P xs = Some x \<Longrightarrow> x \<in> set xs \<and> P x"
  by (induction xs) (auto split: if_splits)

lemma set_map_filter_iff: "x \<in> set (List.map_filter f xs) \<longleftrightarrow> (\<exists>y\<in>set xs. f y = Some x)"
  by (force simp: List.map_filter_def)

lemma map_filter_all_Some:
  "(\<forall>x\<in>set xs. \<exists>y. f x = Some y) \<Longrightarrow> length (List.map_filter f xs) = length xs"
  by (induction xs) (auto simp: List.map_filter_simps)

end
