(* ===== verification/Event_Tier.thy ===== *)
theory Event_Tier
  imports Osw_Prelude
begin

text \<open>
  The tier classifier of the event plane: \<^verbatim>\<open>include/osw/events/tier.h\<close> and
  \<^verbatim>\<open>src/events/tier.cc\<close>. An event is routed to one of three rings by its subclass (prefix
  globs, first match wins), then by its exact name, then to the default tier.
\<close>

section \<open>Data\<close>

datatype tier = kUnspecified | k1Critical | k2State | k3Ephemeral

definition Tier_ToString :: "tier \<Rightarrow> string" where
  "Tier_ToString t = (case t of
     k1Critical \<Rightarrow> ''tier1''
   | k2State \<Rightarrow> ''tier2''
   | k3Ephemeral \<Rightarrow> ''tier3''
   | kUnspecified \<Rightarrow> ''unspecified'')"

record tier_rules =
  rules_events :: "string \<rightharpoonup> tier"
  rules_subclass_globs :: "(string \<times> tier) list"
  rules_default_tier :: tier

record compiled_glob =
  glob_prefix :: string
  glob_has_wildcard :: bool
  glob_tier :: tier

record tier_classifier =
  tc_rules :: tier_rules
  tc_compiled_globs :: "compiled_glob list"

section \<open>Default rules\<close>

definition kDefaultTier1Events :: "string list" where
  "kDefaultTier1Events =
     [''CHANNEL_CREATE'', ''CHANNEL_PROGRESS'', ''CHANNEL_ANSWER'', ''CHANNEL_BRIDGE'',
      ''CHANNEL_UNBRIDGE'', ''CHANNEL_DESTROY'', ''CHANNEL_HANGUP_COMPLETE'', ''CDR_REPORT'',
      ''RECORD_START'', ''RECORD_STOP'']"

definition kDefaultTier2Events :: "string list" where
  "kDefaultTier2Events = [''CHANNEL_CALLSTATE'', ''CHANNEL_HOLD'', ''CHANNEL_UNHOLD'', ''DTMF'']"

definition kDefaultTier3Events :: "string list" where
  "kDefaultTier3Events =
     [''HEARTBEAT'', ''RE_SCHEDULE'', ''SESSION_HEARTBEAT'', ''MEDIA_BUG_START'',
      ''MEDIA_BUG_STOP'', ''MESSAGE'', ''CALL_UPDATE'', ''LOG'']"

text \<open>\<^verbatim>\<open>unordered_map::emplace\<close> keeps the value a key already has.\<close>

definition emplace :: "'k \<Rightarrow> 'v \<Rightarrow> ('k \<rightharpoonup> 'v) \<Rightarrow> ('k \<rightharpoonup> 'v)" where
  "emplace k v m = (case m k of None \<Rightarrow> m(k \<mapsto> v) | Some _ \<Rightarrow> m)"

definition MakeDefaultRules :: tier_rules where
  "MakeDefaultRules =
     (let e1 = fold (\<lambda>n. emplace n k1Critical) kDefaultTier1Events Map.empty;
          e2 = fold (\<lambda>n. emplace n k2State) kDefaultTier2Events e1;
          e3 = fold (\<lambda>n. emplace n k3Ephemeral) kDefaultTier3Events e2
      in \<lparr>rules_events = e3,
          rules_subclass_globs =
            [(''osw.recording.relay_started'', k1Critical),
             (''osw.recording.relay_stopped'', k1Critical),
             (''osw.recording.warn_record_before_inject'', k1Critical),
             (''osw.recording.send_overflow'', k2State),
             (''osw.recording.lr_desync'', k2State),
             (''osw.eavesdrop.denied'', k1Critical),
             (''osw.eavesdrop.audit'', k1Critical),
             (''osw.eavesdrop.allowed'', k1Critical),
             (''osw.eavesdrop.detected_post_attach'', k1Critical),
             (''osw.media.bot.started'', k1Critical),
             (''osw.media.bot.stopped'', k1Critical),
             (''osw.media.bot.target_attach_failed'', k1Critical),
             (''osw.media.bot.target_drop'', k2State),
             (''osw.audit.*'', k1Critical),
             (''sofia::register'', k2State),
             (''sofia::unregister'', k2State)],
          rules_default_tier = k3Ephemeral\<rparr>)"

section \<open>The classifier\<close>

text \<open>One iteration of the constructor's loop: a trailing \<open>*\<close> makes a prefix glob.\<close>

definition CompileGlob :: "string \<times> tier \<Rightarrow> compiled_glob" where
  "CompileGlob st = (case st of (src, t) \<Rightarrow>
     if src \<noteq> [] \<and> last src = CHR ''*''
     then \<lparr>glob_prefix = take (length src - 1) src, glob_has_wildcard = True, glob_tier = t\<rparr>
     else \<lparr>glob_prefix = src, glob_has_wildcard = False, glob_tier = t\<rparr>)"

definition TierClassifier :: "tier_rules \<Rightarrow> tier_classifier" where
  "TierClassifier rules =
     \<lparr>tc_rules = rules, tc_compiled_globs = map CompileGlob (rules_subclass_globs rules)\<rparr>"

definition glob_accepts :: "compiled_glob \<Rightarrow> string \<Rightarrow> bool" where
  "glob_accepts g s =
     (if glob_has_wildcard g then has_prefix (glob_prefix g) s else s = glob_prefix g)"

text \<open>The loop over the compiled globs returns the tier of the first one that accepts.\<close>

fun first_glob :: "compiled_glob list \<Rightarrow> string \<Rightarrow> tier option" where
  "first_glob [] s = None"
| "first_glob (g # gs) s = (if glob_accepts g s then Some (glob_tier g) else first_glob gs s)"

definition Classify :: "tier_classifier \<Rightarrow> string \<Rightarrow> string \<Rightarrow> tier" where
  "Classify c event_name subclass_name =
     (case (if subclass_name \<noteq> [] then first_glob (tc_compiled_globs c) subclass_name else None) of
        Some t \<Rightarrow> t
      | None \<Rightarrow>
          (case rules_events (tc_rules c) event_name of
             Some t \<Rightarrow> t
           | None \<Rightarrow> rules_default_tier (tc_rules c)))"

section \<open>The glob interface\<close>

text \<open>
  What the sources call a glob: a pattern whose last character is \<open>*\<close> accepts every string
  with the rest of the pattern as a prefix, every other pattern accepts itself only. The
  classifier implements it on compiled globs, the subscriber filter on the raw pattern.
\<close>

locale prefix_glob =
  fixes accepts :: "string \<Rightarrow> string \<Rightarrow> bool"
  assumes accepts_star: "accepts (p @ ''*'') s \<longleftrightarrow> prefix p s"
    and accepts_literal: "\<not> suffix ''*'' p \<Longrightarrow> accepts p s \<longleftrightarrow> s = p"
begin

lemma accepts_cases:
  "accepts p s \<longleftrightarrow> (\<exists>p'. p = p' @ ''*'' \<and> prefix p' s) \<or> (\<not> suffix ''*'' p \<and> s = p)"
proof (cases "suffix ''*'' p")
  case True
  then obtain p' where "p = p' @ ''*''" by (auto simp: suffix_def)
  then show ?thesis using True by (auto simp: accepts_star)
next
  case False
  then show ?thesis by (auto simp: accepts_literal suffix_def)
qed

lemma accepts_any: "accepts ''*'' s"
  using accepts_star [of "[]" s] by simp

lemma accepts_extend: "suffix ''*'' p \<Longrightarrow> accepts p s \<Longrightarrow> accepts p (s @ t)"
  by (auto simp: accepts_cases suffix_def)

lemma accepts_empty: "accepts p [] \<longleftrightarrow> p = [] \<or> p = ''*''"
  by (auto simp: accepts_cases suffix_def)

end

lemma CompileGlob_star [simp]:
  "CompileGlob (p @ ''*'', t) = \<lparr>glob_prefix = p, glob_has_wildcard = True, glob_tier = t\<rparr>"
  by (simp add: CompileGlob_def)

lemma CompileGlob_literal:
  "\<not> suffix ''*'' p \<Longrightarrow>
   CompileGlob (p, t) = \<lparr>glob_prefix = p, glob_has_wildcard = False, glob_tier = t\<rparr>"
  by (cases p rule: rev_cases) (auto simp: CompileGlob_def suffix_def)

lemma glob_tier_CompileGlob [simp]: "glob_tier (CompileGlob g) = snd g"
  by (simp add: CompileGlob_def split: prod.split)

interpretation tier_glob: prefix_glob "\<lambda>p. glob_accepts (CompileGlob (p, t))" for t
  by unfold_locales (auto simp: glob_accepts_def CompileGlob_literal)


section \<open>Correctness of the classifier\<close>

text \<open>
  The reference classification works on the rules as the operator writes them: the first
  subclass glob in rule order that accepts a non-empty subclass, else the entry of the exact
  event name, else the default tier.
\<close>

definition glob_matches :: "string \<Rightarrow> string \<Rightarrow> bool" where
  "glob_matches p s \<longleftrightarrow>
     (if suffix ''*'' p then prefix (butlast p) s else s = p)"

definition classify_ref :: "tier_rules \<Rightarrow> string \<Rightarrow> string \<Rightarrow> tier" where
  "classify_ref r n s =
     (case (if s = [] then None else find (\<lambda>(p, t). glob_matches p s) (rules_subclass_globs r)) of
        Some (p, t) \<Rightarrow> t
      | None \<Rightarrow> (case rules_events r n of Some t \<Rightarrow> t | None \<Rightarrow> rules_default_tier r))"

interpretation ref_glob: prefix_glob glob_matches
  by unfold_locales (auto simp: glob_matches_def)

lemma glob_accepts_matches: "glob_accepts (CompileGlob (p, t)) s \<longleftrightarrow> glob_matches p s"
  by (simp only: tier_glob.accepts_cases ref_glob.accepts_cases)

lemma first_glob_compiled:
  "first_glob (map CompileGlob gs) s = map_option snd (find (\<lambda>(p, t). glob_matches p s) gs)"
  by (induction gs) (auto simp: glob_accepts_matches)

lemma fold_emplace:
  "fold (\<lambda>n. emplace n t) ns m k =
     (case m k of Some u \<Rightarrow> Some u | None \<Rightarrow> if k \<in> set ns then Some t else None)"
  by (induction ns arbitrary: m) (auto simp: emplace_def split: option.splits)

lemma default_events:
  "rules_events MakeDefaultRules n =
     (if n \<in> set kDefaultTier1Events then Some k1Critical
      else if n \<in> set kDefaultTier2Events then Some k2State
      else if n \<in> set kDefaultTier3Events then Some k3Ephemeral else None)"
  by (simp add: MakeDefaultRules_def Let_def fold_emplace)

lemma default_default_tier [simp]: "rules_default_tier MakeDefaultRules = k3Ephemeral"
  by (simp add: MakeDefaultRules_def Let_def)

lemma classify_specified:
  assumes ev: "kUnspecified \<notin> ran (rules_events r)"
    and gl: "kUnspecified \<notin> snd ` set (rules_subclass_globs r)"
    and df: "rules_default_tier r \<noteq> kUnspecified"
  shows "classify_ref r n s \<noteq> kUnspecified"
proof -
  have 1: "t \<noteq> kUnspecified" if "find P (rules_subclass_globs r) = Some (p, t)" for P p t
    using find_in_set [OF that] gl by force
  have 2: "t \<noteq> kUnspecified" if "rules_events r n = Some t" for t
    using that ev by (auto simp: ran_def)
  show ?thesis
    using 1 2 df by (auto simp: classify_ref_def split: option.splits if_splits)
qed

lemma Classify_ref: "Classify (TierClassifier r) n s = classify_ref r n s"
  by (auto simp: Classify_def TierClassifier_def classify_ref_def first_glob_compiled
      split: option.splits)


text \<open>
  Under the default rules no event is left without a ring: the tier is never
  \<open>kUnspecified\<close>; an event with no subclass is critical exactly when it is one of the ten
  lifecycle and billing events; and every event on the module's own audit channel is critical
  whatever its name.
\<close>

lemma default_rules_classify:
  "Classify (TierClassifier MakeDefaultRules) n s \<noteq> kUnspecified
   \<and> (Classify (TierClassifier MakeDefaultRules) n [] = k1Critical \<longleftrightarrow> n \<in> set kDefaultTier1Events)
   \<and> Classify (TierClassifier MakeDefaultRules) n (''osw.audit.'' @ x) = k1Critical"
proof (intro conjI)
  have ran: "kUnspecified \<notin> ran (rules_events MakeDefaultRules)"
    by (auto simp: ran_def default_events split: if_splits)
  have globs: "kUnspecified \<notin> snd ` set (rules_subclass_globs MakeDefaultRules)"
    by (simp add: MakeDefaultRules_def Let_def)
  show "Classify (TierClassifier MakeDefaultRules) n s \<noteq> kUnspecified"
    by (simp only: Classify_ref) (rule classify_specified [OF ran globs], simp)
  show "Classify (TierClassifier MakeDefaultRules) n [] = k1Critical \<longleftrightarrow> n \<in> set kDefaultTier1Events"
    by (simp add: Classify_def TierClassifier_def default_events)
  show "Classify (TierClassifier MakeDefaultRules) n (''osw.audit.'' @ x) = k1Critical"
    by (simp add: Classify_def TierClassifier_def MakeDefaultRules_def Let_def CompileGlob_def
        glob_accepts_def)
qed

end
