(* ===== verification/Obs_Health.thy ===== *)
theory Obs_Health
  imports Osw_Prelude
begin

text \<open>
  The health counters of \<^verbatim>\<open>include/osw/observability/health.h\<close> and \<^verbatim>\<open>src/observability/health.cc\<close>:
  independent atomics, each with a setter, and a snapshot that loads them one by one.
\<close>

datatype health_status = kHealthUnspecified | kServing | kNotServing | kDraining

record health =
  h_status :: health_status
  h_module_version :: string
  h_freeswitch_version :: string
  h_active_channels :: u64
  h_active_media_bugs :: u64
  h_events_emitted_total :: u64
  h_subscriber_count :: u32
  h_ring_fill_pct :: "nat \<Rightarrow> u32"      \<comment> \<open>tier slots 0, 1, 2\<close>
  h_dropped_total :: "nat \<Rightarrow> u64"      \<comment> \<open>tier slots 0, 1, 2\<close>

definition Health_new :: health where
  "Health_new = \<lparr>h_status = kServing, h_module_version = [], h_freeswitch_version = [],
     h_active_channels = 0, h_active_media_bugs = 0, h_events_emitted_total = 0, h_subscriber_count = 0,
     h_ring_fill_pct = (\<lambda>_. 0), h_dropped_total = (\<lambda>_. 0)\<rparr>"

definition SetVersions :: "string \<Rightarrow> string \<Rightarrow> health \<Rightarrow> health" where
  "SetVersions m f h = h\<lparr>h_module_version := m, h_freeswitch_version := f\<rparr>"

definition SetStatus :: "health_status \<Rightarrow> health \<Rightarrow> health" where
  "SetStatus s h = h\<lparr>h_status := s\<rparr>"

definition SetActiveChannels :: "u64 \<Rightarrow> health \<Rightarrow> health" where
  "SetActiveChannels v h = h\<lparr>h_active_channels := v\<rparr>"

definition SetActiveMediaBugs :: "u64 \<Rightarrow> health \<Rightarrow> health" where
  "SetActiveMediaBugs v h = h\<lparr>h_active_media_bugs := v\<rparr>"

definition SetEventsEmittedTotal :: "u64 \<Rightarrow> health \<Rightarrow> health" where
  "SetEventsEmittedTotal v h = h\<lparr>h_events_emitted_total := v\<rparr>"

definition SetSubscriberCount :: "u32 \<Rightarrow> health \<Rightarrow> health" where
  "SetSubscriberCount v h = h\<lparr>h_subscriber_count := v\<rparr>"

definition SetTierRingFillPct :: "nat \<Rightarrow> u32 \<Rightarrow> health \<Rightarrow> health" where
  "SetTierRingFillPct i v h = h\<lparr>h_ring_fill_pct := (h_ring_fill_pct h)(i := v)\<rparr>"

definition SetTierDroppedTotal :: "nat \<Rightarrow> u64 \<Rightarrow> health \<Rightarrow> health" where
  "SetTierDroppedTotal i v h = h\<lparr>h_dropped_total := (h_dropped_total h)(i := v)\<rparr>"

section \<open>The snapshot and the Health RPC\<close>

text \<open>
  \<^verbatim>\<open>GetSnapshot\<close> loads the counters one after the other, so a writer may run between two loads:
  \<open>obs i\<close> is the state at the \<open>i\<close>-th load, in the order of the source.
\<close>

definition GetSnapshot :: "(nat \<Rightarrow> health) \<Rightarrow> health" where
  "GetSnapshot obs =
     \<lparr>h_status = h_status (obs 0), h_module_version = h_module_version (obs 1),
      h_freeswitch_version = h_freeswitch_version (obs 2), h_active_channels = h_active_channels (obs 3),
      h_active_media_bugs = h_active_media_bugs (obs 4), h_events_emitted_total = h_events_emitted_total (obs 5),
      h_subscriber_count = h_subscriber_count (obs 6),
      h_ring_fill_pct = (\<lambda>i. h_ring_fill_pct (obs (7 + i)) i),
      h_dropped_total = (\<lambda>i. h_dropped_total (obs (10 + i)) i)\<rparr>"

datatype proto_health_status = STATUS_UNSPECIFIED | SERVING | NOT_SERVING | DRAINING

definition MapStatus :: "health_status \<Rightarrow> proto_health_status" where
  "MapStatus s = (case s of
     kServing \<Rightarrow> SERVING | kNotServing \<Rightarrow> NOT_SERVING | kDraining \<Rightarrow> DRAINING
   | kHealthUnspecified \<Rightarrow> STATUS_UNSPECIFIED)"

record health_response =
  hr_status :: proto_health_status
  hr_module_version :: string
  hr_freeswitch_version :: string
  hr_active_channels :: u64
  hr_active_media_bugs :: u64
  hr_events_emitted_total :: u64
  hr_subscriber_count :: u32
  hr_ring_fill_pct :: "nat \<Rightarrow> u32"
  hr_dropped_total :: "nat \<Rightarrow> u64"

text \<open>
  \<open>resp\<close> tells whether the response pointer is non-null; the two versions are the service's own.
\<close>

definition Health_rpc ::
  "bool \<Rightarrow> (nat \<Rightarrow> health) option \<Rightarrow> string \<Rightarrow> string \<Rightarrow> grpc_status \<times> health_response option" where
  "Health_rpc resp hlth module_version freeswitch_version =
     (case hlth of
        None \<Rightarrow> ((INTERNAL, ''health aggregator not initialised''), None)
      | Some obs \<Rightarrow>
          if \<not> resp then ((INTERNAL, ''health aggregator not initialised''), None)
          else (let snap = GetSnapshot obs
                in (Status_OK,
                    Some \<lparr>hr_status = MapStatus (h_status snap),
                          hr_module_version = (if module_version = [] then h_module_version snap else module_version),
                          hr_freeswitch_version =
                            (if freeswitch_version = [] then h_freeswitch_version snap else freeswitch_version),
                          hr_active_channels = h_active_channels snap,
                          hr_active_media_bugs = h_active_media_bugs snap,
                          hr_events_emitted_total = h_events_emitted_total snap,
                          hr_subscriber_count = h_subscriber_count snap,
                          hr_ring_fill_pct = h_ring_fill_pct snap,
                          hr_dropped_total = h_dropped_total snap\<rparr>)))"

end
