(* ===== verification/Event_Ring.thy ===== *)
theory Event_Ring
  imports Event_Tier
begin

text \<open>
  The bounded per-tier ring of the event plane: \<^verbatim>\<open>include/osw/events/ring.h\<close> and
  \<^verbatim>\<open>src/events/ring.cc\<close>. Every public method runs under the ring's mutex, so a method is one
  atomic state change and a concurrent history is a sequence of method calls. The condition
  variable wait of \<^verbatim>\<open>WaitAndPopBatch\<close> releases the mutex; what other threads do meanwhile is the
  argument \<open>wait\<close> of the model (the identity for a timeout in which nothing happened).
\<close>

section \<open>Data\<close>

record ring_entry =
  re_seq :: u64
  re_bytes :: "string option"   \<comment> \<open>\<^verbatim>\<open>shared_ptr<const string>\<close>; None is the null pointer\<close>

record ring =
  ring_capacity :: nat
  ring_q :: "ring_entry list"
  ring_closed :: bool
  ring_drain_notifier :: bool   \<comment> \<open>a drain callback is installed\<close>
  ring_max_seq :: u64           \<comment> \<open>\<^verbatim>\<open>max_seq_ever_pushed_\<close>\<close>

record replay_snapshot =
  found_in_window :: bool
  snap_entries :: "ring_entry list"
  current_min_seq :: u64
  current_max_seq :: u64

section \<open>Operations\<close>

definition Ring_new :: "nat \<Rightarrow> ring" where
  "Ring_new capacity =
     \<lparr>ring_capacity = (if capacity = 0 then 1 else capacity), ring_q = [], ring_closed = False,
      ring_drain_notifier = False, ring_max_seq = 0\<rparr>"

text \<open>
  \<open>Push\<close> returns the new ring, the boolean result and the caller's drop counter (None when
  the caller passed a null pointer).
\<close>

definition Ring_Push :: "ring \<Rightarrow> ring_entry \<Rightarrow> u64 option \<Rightarrow> ring \<times> bool \<times> u64 option" where
  "Ring_Push r entry dropped_out =
     (let evicted = (ring_capacity r \<le> length (ring_q r));
          q = (if evicted then tl (ring_q r) else ring_q r);
          m = (if re_seq entry > ring_max_seq r then re_seq entry else ring_max_seq r);
          d = (if evicted then map_option (\<lambda>n. n + 1) dropped_out else dropped_out)
      in (r\<lparr>ring_q := q @ [entry], ring_max_seq := m\<rparr>, \<not> evicted, d))"

text \<open>The popping methods also return whether the drain callback ran.\<close>

definition Ring_TryPop :: "ring \<Rightarrow> ring_entry option \<times> ring \<times> bool" where
  "Ring_TryPop r =
     (case ring_q r of
        [] \<Rightarrow> (None, r, False)
      | e # q \<Rightarrow> (Some e, r\<lparr>ring_q := q\<rparr>, q = [] \<and> ring_drain_notifier r))"

text \<open>\<^verbatim>\<open>while (!q_.empty() && out.size() < max_batch)\<close>.\<close>

fun pop_loop :: "nat \<Rightarrow> ring_entry list \<Rightarrow> ring_entry list \<Rightarrow> ring_entry list \<times> ring_entry list" where
  "pop_loop max_batch out [] = (out, [])"
| "pop_loop max_batch out (e # q) =
     (if length out < max_batch then pop_loop max_batch (out @ [e]) q else (out, e # q))"

definition Ring_WaitAndPopBatch ::
  "(ring \<Rightarrow> ring) \<Rightarrow> ring \<Rightarrow> nat \<Rightarrow> ring_entry list \<times> ring \<times> bool" where
  "Ring_WaitAndPopBatch wait r0 max_batch =
     (let r = (if ring_q r0 = [] \<and> \<not> ring_closed r0 then wait r0 else r0)
      in if ring_q r = [] then ([], r, False)
         else case pop_loop max_batch [] (ring_q r) of
           (out, q) \<Rightarrow> (out, r\<lparr>ring_q := q\<rparr>, q = [] \<and> ring_drain_notifier r))"

definition Ring_SnapshotFromSeq :: "ring \<Rightarrow> u64 \<Rightarrow> replay_snapshot" where
  "Ring_SnapshotFromSeq r since_seq =
     (if ring_q r = [] then
        (if ring_max_seq r = 0 \<or> since_seq \<ge> ring_max_seq r
         then \<lparr>found_in_window = True, snap_entries = [], current_min_seq = 0, current_max_seq = 0\<rparr>
         else \<lparr>found_in_window = False, snap_entries = [], current_min_seq = 0,
               current_max_seq = ring_max_seq r\<rparr>)
      else
        (let mn = re_seq (hd (ring_q r)); mx = re_seq (last (ring_q r))
         in if since_seq = 0
            then \<lparr>found_in_window = True, snap_entries = [], current_min_seq = mn, current_max_seq = mx\<rparr>
            else if since_seq + 1 < mn
            then \<lparr>found_in_window = False, snap_entries = [], current_min_seq = mn, current_max_seq = mx\<rparr>
            else \<lparr>found_in_window = True,
                  snap_entries = filter (\<lambda>e. re_seq e > since_seq) (ring_q r),
                  current_min_seq = mn, current_max_seq = mx\<rparr>))"

definition Ring_Size :: "ring \<Rightarrow> nat" where
  "Ring_Size r = length (ring_q r)"

definition Ring_Close :: "ring \<Rightarrow> ring" where
  "Ring_Close r = r\<lparr>ring_closed := True\<rparr>"

definition Ring_SetDrainNotifier :: "ring \<Rightarrow> bool \<Rightarrow> ring" where
  "Ring_SetDrainNotifier r notifier = r\<lparr>ring_drain_notifier := notifier\<rparr>"

section \<open>Histories of one ring\<close>

text \<open>
  A ring together with what has happened to it: every entry ever pushed, and every entry ever
  removed in order of removal, marked True when a consumer received it and False when it was
  evicted; and the caller's drop counter.
\<close>

record ring_log =
  log_ring :: ring
  log_pushed :: "ring_entry list"
  log_removed :: "(bool \<times> ring_entry) list"
  log_dropped :: u64

definition log_init :: "nat \<Rightarrow> ring_log" where
  "log_init cap = \<lparr>log_ring = Ring_new cap, log_pushed = [], log_removed = [], log_dropped = 0\<rparr>"

definition log_push :: "ring_entry \<Rightarrow> ring_log \<Rightarrow> ring_log" where
  "log_push e l = (case Ring_Push (log_ring l) e (Some (log_dropped l)) of (r, ok, d) \<Rightarrow>
     \<lparr>log_ring = r, log_pushed = log_pushed l @ [e],
      log_removed = log_removed l @ (if ok then [] else [(False, hd (ring_q (log_ring l)))]),
      log_dropped = (case d of Some n \<Rightarrow> n | None \<Rightarrow> log_dropped l)\<rparr>)"

definition log_try_pop :: "ring_log \<Rightarrow> ring_log" where
  "log_try_pop l = (case Ring_TryPop (log_ring l) of (e, r, _) \<Rightarrow>
     l\<lparr>log_ring := r, log_removed := log_removed l @ (case e of None \<Rightarrow> [] | Some x \<Rightarrow> [(True, x)])\<rparr>)"

definition log_pop_batch :: "nat \<Rightarrow> ring_log \<Rightarrow> ring_log" where
  "log_pop_batch m l = (case Ring_WaitAndPopBatch id (log_ring l) m of (out, r, _) \<Rightarrow>
     l\<lparr>log_ring := r, log_removed := log_removed l @ map (Pair True) out\<rparr>)"

inductive ring_history :: "nat \<Rightarrow> ring_log \<Rightarrow> bool" for cap :: nat where
  hist_new: "ring_history cap (log_init cap)"
| hist_push: "ring_history cap l \<Longrightarrow> ring_history cap (log_push e l)"
| hist_try_pop: "ring_history cap l \<Longrightarrow> ring_history cap (log_try_pop l)"
| hist_pop_batch: "ring_history cap l \<Longrightarrow> ring_history cap (log_pop_batch m l)"
| hist_close: "ring_history cap l \<Longrightarrow> ring_history cap (l\<lparr>log_ring := Ring_Close (log_ring l)\<rparr>)"
| hist_notifier: "ring_history cap l \<Longrightarrow>
     ring_history cap (l\<lparr>log_ring := Ring_SetDrainNotifier (log_ring l) b\<rparr>)"

definition log_delivered :: "ring_log \<Rightarrow> ring_entry list" where
  "log_delivered l = map snd (filter fst (log_removed l))"

definition log_evicted :: "ring_log \<Rightarrow> ring_entry list" where
  "log_evicted l = map snd (filter (Not \<circ> fst) (log_removed l))"

section \<open>The bounded queue contract\<close>

text \<open>
  The contract of a bounded queue with tail insertion, as its clients use it: an insertion puts
  the element at the tail and may remove elements from the head only, a removal takes a prefix.
  The ring meets it by evicting, the subscriber's send queue (theory \<open>Event_Subscriber\<close>)
  by refusing.
\<close>

locale bounded_queue =
  fixes content :: "'q \<Rightarrow> 'a list"
    and bound :: "'q \<Rightarrow> nat"
    and insert_tail :: "'a \<Rightarrow> 'q \<Rightarrow> 'q"
    and remove_head :: "nat \<Rightarrow> 'q \<Rightarrow> 'a list \<times> 'q"
  assumes insert_content:
      "length (content q) \<le> bound q \<Longrightarrow>
       content (insert_tail x q) = content q \<or>
       (\<exists>k. content (insert_tail x q) = drop k (content q) @ [x])"
    and insert_bound: "bound (insert_tail x q) = bound q"
    and insert_room: "length (content q) < bound q \<Longrightarrow> content (insert_tail x q) = content q
                        \<or> content (insert_tail x q) = content q @ [x]"
    and insert_length: "length (content q) \<le> bound q \<Longrightarrow> 0 < bound q \<Longrightarrow>
       length (content (insert_tail x q)) \<le> bound q"
    and remove_content: "remove_head n q = (out, q') \<Longrightarrow>
       out = take n (content q) \<and> content q' = drop n (content q) \<and> bound q' = bound q"
begin

definition within :: "'q \<Rightarrow> bool" where
  "within q \<longleftrightarrow> 0 < bound q \<and> length (content q) \<le> bound q"

lemma within_insert: "within q \<Longrightarrow> within (insert_tail x q)"
  using insert_length [of q x] by (simp add: within_def insert_bound)

lemma within_remove: "within q \<Longrightarrow> remove_head n q = (out, q') \<Longrightarrow> within q'"
  using remove_content [of n q out q'] by (auto simp: within_def)

lemma within_inserts: "within q \<Longrightarrow> within (fold insert_tail xs q)"
  by (induction xs arbitrary: q) (auto intro: within_insert)

lemma remove_all: "remove_head n q = (out, q') \<Longrightarrow> length (content q) \<le> n \<Longrightarrow>
    out = content q \<and> content q' = []"
  using remove_content [of n q out q'] by auto

lemma remove_split: "remove_head n q = (out, q') \<Longrightarrow> content q = out @ content q'"
  using remove_content [of n q out q'] by auto

end

section \<open>Functional behaviour of the operations\<close>

lemma pop_loop_eq: "length out \<le> m \<Longrightarrow>
    pop_loop m out q = (out @ take (m - length out) q, drop (m - length out) q)"
  by (induction m out q rule: pop_loop.induct) (auto simp: take_Cons' drop_Cons')

lemma pop_loop_start [simp]: "pop_loop m [] q = (take m q, drop m q)"
  by (simp add: pop_loop_eq)

lemma Ring_WaitAndPopBatch_blocks:
  "Ring_WaitAndPopBatch wait r m =
     Ring_WaitAndPopBatch id (if ring_q r = [] \<and> \<not> ring_closed r then wait r else r) m"
  by (simp add: Ring_WaitAndPopBatch_def Let_def)

lemma Ring_WaitAndPopBatch_id:
  "Ring_WaitAndPopBatch id r m =
     (take m (ring_q r), r\<lparr>ring_q := drop m (ring_q r)\<rparr>,
      ring_q r \<noteq> [] \<and> drop m (ring_q r) = [] \<and> ring_drain_notifier r)"
  by (auto simp: Ring_WaitAndPopBatch_def Let_def)

lemma Ring_Push_q:
  assumes "length (ring_q r) \<le> ring_capacity r" and "0 < ring_capacity r"
  shows "ring_q (fst (Ring_Push r e d)) = last_n (ring_capacity r) (ring_q r @ [e])"
  using assms by (auto simp: Ring_Push_def Let_def last_n_def drop_Suc)

lemma Ring_Push_frame [simp]:
  "ring_capacity (fst (Ring_Push r e d)) = ring_capacity r"
  "ring_closed (fst (Ring_Push r e d)) = ring_closed r"
  "ring_drain_notifier (fst (Ring_Push r e d)) = ring_drain_notifier r"
  by (simp_all add: Ring_Push_def Let_def)

definition ring_insert :: "ring_entry \<Rightarrow> ring \<Rightarrow> ring" where
  "ring_insert e r = fst (Ring_Push r e None)"

definition ring_remove :: "nat \<Rightarrow> ring \<Rightarrow> ring_entry list \<times> ring" where
  "ring_remove n r = (case Ring_WaitAndPopBatch id r n of (out, r', _) \<Rightarrow> (out, r'))"

interpretation rq: bounded_queue ring_q ring_capacity ring_insert ring_remove
proof (unfold_locales, goal_cases)
  case (1 r e)
  then show ?case
    by (cases "ring_capacity r \<le> length (ring_q r)")
       (auto simp: ring_insert_def Ring_Push_def Let_def intro: exI [of _ 0] exI [of _ "Suc 0"] simp: drop_Suc)
next
  case (2 e r)
  show ?case by (simp add: ring_insert_def)
next
  case (3 r e)
  then show ?case by (simp add: ring_insert_def Ring_Push_def Let_def)
next
  case (4 r e)
  then show ?case by (auto simp: ring_insert_def Ring_Push_def Let_def)
next
  case (5 n r out r')
  then show ?case by (auto simp: ring_remove_def Ring_WaitAndPopBatch_id)
qed


section \<open>Invariants of ring histories\<close>

lemma max_if: "(if m < x then x else m) = max x (m :: 'a :: linorder)"
  by (auto simp: max_def)

definition log_inv :: "nat \<Rightarrow> ring_log \<Rightarrow> bool" where
  "log_inv cap l \<longleftrightarrow>
     ring_capacity (log_ring l) = max 1 cap
     \<and> rq.within (log_ring l)
     \<and> log_pushed l = map snd (log_removed l) @ ring_q (log_ring l)
     \<and> log_dropped l = of_nat (length (log_evicted l))
     \<and> ring_max_seq (log_ring l) = fold max (map re_seq (log_pushed l)) 0"

lemma log_inv_init: "log_inv cap (log_init cap)"
  by (auto simp: log_inv_def log_init_def Ring_new_def rq.within_def log_evicted_def)

lemma log_inv_push:
  assumes "log_inv cap l"
  shows "log_inv cap (log_push e l)"
proof (cases "ring_capacity (log_ring l) \<le> length (ring_q (log_ring l))")
  case True
  then obtain x q where "ring_q (log_ring l) = x # q"
    using assms by (cases "ring_q (log_ring l)") (auto simp: log_inv_def rq.within_def)
  with True assms show ?thesis
    by (auto simp: log_push_def log_inv_def rq.within_def Ring_Push_def Let_def log_evicted_def max_if)
next
  case False
  with assms show ?thesis
    by (auto simp: log_push_def log_inv_def rq.within_def Ring_Push_def Let_def log_evicted_def max_if)
qed

lemma filter_fst_Pair_True [simp]:
  "filter fst (map (Pair True) xs) = map (Pair True) xs"
  "filter (Not \<circ> fst) (map (Pair True) xs) = []"
  by (induction xs) auto

lemma log_inv_batch: "log_inv cap l \<Longrightarrow> log_inv cap (log_pop_batch m l)"
  by (auto simp: log_pop_batch_def log_inv_def rq.within_def Ring_WaitAndPopBatch_id log_evicted_def comp_def)

lemma log_inv_try_pop: "log_inv cap l \<Longrightarrow> log_inv cap (log_try_pop l)"
  by (auto simp: log_try_pop_def log_inv_def rq.within_def Ring_TryPop_def log_evicted_def split: list.splits)

lemma ring_history_inv: "ring_history cap l \<Longrightarrow> log_inv cap l"
proof (induction rule: ring_history.induct)
  case hist_new
  show ?case by (rule log_inv_init)
qed (simp_all add: log_inv_push log_inv_try_pop log_inv_batch,
     simp_all add: log_inv_def rq.within_def Ring_Close_def Ring_SetDrainNotifier_def log_evicted_def)

section \<open>Properties of the ring\<close>

text \<open>
  C4. Conservation and order. In every history of a ring the entries pushed are, in order, the
  entries removed from the head followed by the entries still held; so what consumers receive is
  a subsequence of what was pushed, nothing is duplicated or reordered, and the drop counter is
  the number of evicted entries (modulo its 64 bits).
\<close>

theorem ring_fifo_conservation:
  assumes "ring_history cap l"
  shows "log_pushed l = map snd (log_removed l) @ ring_q (log_ring l)
    \<and> subseq (log_delivered l) (log_pushed l)
    \<and> length (log_pushed l)
        = length (log_delivered l) + length (log_evicted l) + length (ring_q (log_ring l))
    \<and> log_dropped l = of_nat (length (log_evicted l))"
proof -
  from ring_history_inv [OF assms] have inv: "log_inv cap l" .
  have "subseq (map snd (filter fst (log_removed l))) (map snd (log_removed l))"
    by (intro subseq_map subseq_filter_left)
  moreover have "length (filter fst xs) + length (filter (Not \<circ> fst) xs) = length xs"
    for xs :: "(bool \<times> ring_entry) list"
    by (simp add: comp_def sum_length_filter_compl)
  ultimately show ?thesis
    using inv by (auto simp: log_inv_def log_delivered_def log_evicted_def intro: list_emb_append2)
qed


text \<open>
  A history used by the witnesses: a ring of two slots, three pushes (the first is evicted) and
  one batch of one entry.
\<close>

definition entry_n :: "nat \<Rightarrow> ring_entry" where
  "entry_n n = \<lparr>re_seq = of_nat n, re_bytes = Some []\<rparr>"

definition demo_log :: ring_log where
  "demo_log = log_pop_batch 1 (log_push (entry_n 3) (log_push (entry_n 2) (log_push (entry_n 1) (log_init 2))))"

lemma demo_history: "ring_history 2 demo_log"
  unfolding demo_log_def by (intro ring_history.intros)

lemma demo_log_eq:
  "demo_log = \<lparr>log_ring = \<lparr>ring_capacity = 2, ring_q = [entry_n 3], ring_closed = False,
      ring_drain_notifier = False, ring_max_seq = 3\<rparr>,
    log_pushed = [entry_n 1, entry_n 2, entry_n 3],
    log_removed = [(False, entry_n 1), (True, entry_n 2)], log_dropped = 1\<rparr>"
  by (simp add: demo_log_def log_init_def log_push_def log_pop_batch_def Ring_new_def Ring_Push_def
      Ring_WaitAndPopBatch_id entry_n_def)

theorem ring_fifo_conservation_witness:
  "ring_history 2 demo_log \<and> log_delivered demo_log = [entry_n 2]
   \<and> subseq [entry_n 2] (log_pushed demo_log)"
  using demo_history ring_fifo_conservation [OF demo_history]
  by (simp add: demo_log_eq log_delivered_def)

text \<open>
  Bounded memory as a refinement: whatever has been pushed onto a ring, a run of pushes
  leaves exactly the newest \<open>capacity\<close> entries of the old contents followed by the pushed
  ones, and never more than \<open>capacity\<close> of them.
\<close>

lemma ring_push_keeps_newest:
  assumes "ring_history cap l"
  shows "ring_q (fold ring_insert es (log_ring l))
           = last_n (max 1 cap) (ring_q (log_ring l) @ es)
       \<and> length (ring_q (fold ring_insert es (log_ring l))) \<le> max 1 cap"
proof -
  have main: "ring_q (fold ring_insert es r) = last_n (ring_capacity r) (ring_q r @ es)"
    if "rq.within r" for r
    using that
  proof (induction es arbitrary: r rule: rev_induct)
    case Nil
    then show ?case by (simp add: rq.within_def)
  next
    case (snoc e es)
    have w: "rq.within (fold ring_insert es r)"
      by (rule rq.within_inserts [OF snoc.prems])
    have c: "ring_capacity (fold ring_insert es r) = ring_capacity r"
      by (induction es arbitrary: r) (auto simp: ring_insert_def)
    show ?case
      using w c Ring_Push_q [of "fold ring_insert es r" e None] snoc.IH [OF snoc.prems]
      by (simp add: rq.within_def last_n_last_n_snoc flip: ring_insert_def append_assoc)
  qed
  from ring_history_inv [OF assms] show ?thesis
    using main [of "log_ring l"] by (simp add: log_inv_def)
qed

lemma ring_push_keeps_newest_example:
  "ring_history 2 demo_log
   \<and> ring_q (fold ring_insert [entry_n 4, entry_n 5] (log_ring demo_log)) = [entry_n 4, entry_n 5]"
  using demo_history ring_push_keeps_newest [OF demo_history, of "[entry_n 4, entry_n 5]"]
  by (simp add: demo_log_eq last_n_def)

lemma fold_max_upper:
  "(a :: 'a :: linorder) \<in> set xs \<Longrightarrow> a \<le> fold max xs b"
  "b \<le> fold max xs b"
  by (induction xs arbitrary: b) (auto intro: order_trans [OF max.cobounded2] order_trans [OF max.cobounded1])

lemma fold_max_in: "fold max xs (b :: 'a :: linorder) \<in> insert b (set xs)"
proof (induction xs arbitrary: b)
  case (Cons x xs)
  from Cons.IH [of "max x b"] show ?case by (auto simp: max_def split: if_splits)
qed simp

lemma log_inv_max: "log_inv cap l \<Longrightarrow>
    ring_max_seq (log_ring l) = fold max (map re_seq (log_pushed l)) 0"
  by (simp add: log_inv_def)

lemma log_inv_pushed: "log_inv cap l \<Longrightarrow>
    log_pushed l = map snd (log_removed l) @ ring_q (log_ring l)"
  by (simp add: log_inv_def)

lemma replay_complete:
  assumes inv: "log_inv cap l"
    and mono: "sorted_wrt (<) (map re_seq (log_pushed l))"
    and pos: "0 \<notin> re_seq ` set (log_pushed l)"
    and since: "since \<noteq> 0"
    and found: "found_in_window (Ring_SnapshotFromSeq (log_ring l) since)"
  shows "snap_entries (Ring_SnapshotFromSeq (log_ring l) since)
           = filter (\<lambda>e. since < re_seq e) (log_pushed l)"
proof (cases "ring_q (log_ring l)")
  case Nil
  have "re_seq e \<le> since" if e: "e \<in> set (log_pushed l)" for e
  proof -
    have "re_seq e \<le> ring_max_seq (log_ring l)"
      unfolding log_inv_max [OF inv] by (rule fold_max_upper(1)) (simp add: e)
    moreover have "re_seq e \<noteq> 0" using pos e by auto
    ultimately show ?thesis
      using found Nil by (auto simp: Ring_SnapshotFromSeq_def split: if_splits)
  qed
  then show ?thesis
    using Nil by (auto simp: Ring_SnapshotFromSeq_def filter_empty_conv not_less)
next
  case (Cons x xs)
  have nw: "\<not> since + 1 < re_seq x"
    using found since Cons by (auto simp: Ring_SnapshotFromSeq_def Let_def split: if_splits)
  have "re_seq e \<le> since" if e: "e \<in> set (map snd (log_removed l))" for e
  proof -
    have "re_seq e < re_seq x"
      using mono inv e Cons by (auto simp: log_inv_def sorted_wrt_append)
    then show ?thesis using nw by (meson inc_le le_less_trans not_less)
  qed
  then have "filter (\<lambda>e. since < re_seq e) (map snd (log_removed l)) = []"
    by (auto simp: filter_empty_conv not_less)
  moreover have "log_pushed l = map snd (log_removed l) @ ring_q (log_ring l)"
    using inv by (simp add: log_inv_def)
  moreover have "snap_entries (Ring_SnapshotFromSeq (log_ring l) since)
      = filter (\<lambda>e. since < re_seq e) (ring_q (log_ring l))"
    using since Cons nw by (simp add: Ring_SnapshotFromSeq_def Let_def)
  ultimately show ?thesis by (metis append_Nil filter_append)
qed

lemma contiguous_increasing:
  assumes "map (unat \<circ> re_seq) es = [1..<Suc n]"
  shows "sorted_wrt (<) (map re_seq es)" and "0 \<notin> re_seq ` set es"
    and "1 \<le> k \<Longrightarrow> k \<le> n \<Longrightarrow> \<exists>e\<in>set es. unat (re_seq e) = k"
proof -
  have "sorted_wrt (<) (map (unat \<circ> re_seq) es)"
    unfolding assms by (simp only: sorted_wrt_upt)
  then show "sorted_wrt (<) (map re_seq es)"
    by (simp add: sorted_wrt_map word_less_nat_alt comp_def)
  have "set (map (unat \<circ> re_seq) es) = {1..n}" unfolding assms by auto
  then have img: "(\<lambda>e. unat (re_seq e)) ` set es = {1..n}" by (simp add: image_comp comp_def)
  show "0 \<notin> re_seq ` set es"
  proof
    assume "0 \<in> re_seq ` set es"
    then have "0 \<in> (\<lambda>e. unat (re_seq e)) ` set es" by force
    then show False using img by simp
  qed
  show "\<exists>e\<in>set es. unat (re_seq e) = k" if "1 \<le> k" "k \<le> n"
  proof -
    have "k \<in> (\<lambda>e. unat (re_seq e)) ` set es" using that img by simp
    then show ?thesis by blast
  qed
qed



text \<open>
  The window test is exact for the sequence numbers the producer allocates, which count up
  from 1: a resume point other than 0 and the last 64-bit number is reported as evicted exactly
  when some later entry is no longer held.
\<close>

lemma replay_window_exact:
  assumes "ring_history cap l"
    and contig: "map (unat \<circ> re_seq) (log_pushed l) = [1..<Suc n]"
    and since: "since \<noteq> 0" "since + 1 \<noteq> 0"
  shows "found_in_window (Ring_SnapshotFromSeq (log_ring l) since)
     \<longleftrightarrow> (\<forall>e\<in>set (log_pushed l). since < re_seq e \<longrightarrow> e \<in> set (ring_q (log_ring l)))"
    (is "?found \<longleftrightarrow> ?held")
proof
  have inv: "log_inv cap l" using assms(1) by (rule ring_history_inv)
  note inc = contiguous_increasing [OF contig]
  show ?held if ?found
  proof -
    have "set (snap_entries (Ring_SnapshotFromSeq (log_ring l) since)) \<subseteq> set (ring_q (log_ring l))"
      by (auto simp: Ring_SnapshotFromSeq_def Let_def)
    then show ?thesis
      using replay_complete [OF inv inc(1,2) since(1) that] by (auto simp: subset_iff)
  qed
  show ?found if ?held
  proof (rule ccontr)
    assume nf: "\<not> ?found"
    show False
    proof (cases "ring_q (log_ring l)")
      case Nil
      let ?m = "ring_max_seq (log_ring l)"
      have "?m \<noteq> 0" "since < ?m"
        using nf Nil by (auto simp: Ring_SnapshotFromSeq_def not_le split: if_splits)
      moreover have "?m \<in> insert 0 (set (map re_seq (log_pushed l)))"
        unfolding log_inv_max [OF inv] by (rule fold_max_in)
      ultimately show False using that Nil by auto
    next
      case (Cons x xs)
      then have lt: "since + 1 < re_seq x"
        using nf since(1) by (auto simp: Ring_SnapshotFromSeq_def Let_def split: if_splits)
      have k: "unat (since + 1) = Suc (unat since)" using since(2) by (simp add: unat_eq_zero unatSuc add.commute)
      have "x \<in> set (log_pushed l)" using inv Cons by (simp add: log_inv_def)
      then have "unat (re_seq x) \<in> set (map (unat \<circ> re_seq) (log_pushed l))" by simp
      then have "unat (re_seq x) \<le> n" unfolding contig by auto
      then obtain e where e: "e \<in> set (log_pushed l)" "unat (re_seq e) = Suc (unat since)"
        using inc(3) [of "Suc (unat since)"] lt k by (auto simp: word_less_nat_alt)
      then have "since < re_seq e" "re_seq e < re_seq x"
        using lt k by (auto simp: word_less_nat_alt)
      moreover have "\<forall>y\<in>set (x # xs). re_seq x \<le> re_seq y"
        using inc(1) inv Cons by (auto simp: log_inv_def sorted_wrt_append)
      ultimately show False using that e(1) Cons by fastforce
    qed
  qed
qed

lemma replay_window_exact_example:
  "ring_history 2 demo_log
   \<and> found_in_window (Ring_SnapshotFromSeq (log_ring demo_log) 2)
   \<and> \<not> found_in_window (Ring_SnapshotFromSeq (log_ring demo_log) 1)"
proof -
  have c: "map (unat \<circ> re_seq) (log_pushed demo_log) = [1..<Suc 3]"
    by (simp add: demo_log_eq entry_n_def upt_rec)
  have s: "(2::u64) \<noteq> 0" "(2::u64) + 1 \<noteq> 0" "(1::u64) \<noteq> 0" "(1::u64) + 1 \<noteq> 0" by simp_all
  show ?thesis
    using replay_window_exact [OF demo_history c s(1,2)] replay_window_exact [OF demo_history c s(3,4)]
      demo_history
    by (simp add: demo_log_eq entry_n_def)
qed

end
