(* ===== verification/Event_RingSet.thy ===== *)
theory Event_RingSet
  imports Event_Ring
begin

text \<open>
  The bundle of the three tier rings and its drain wait: \<^verbatim>\<open>RingSet\<close> of
  \<^verbatim>\<open>include/osw/events/binder.h\<close>, implemented in \<^verbatim>\<open>src/events/ring_set.cc\<close>. The wait
  \<^verbatim>\<open>WaitUntilAllEmpty\<close> is a loop of critical sections, so it is a small-step machine whose
  steps interleave with the steps of the workers that pop, of producers and of \<^verbatim>\<open>CloseAll\<close>.
\<close>

section \<open>Data and operations\<close>

record ring_set =
  rs_tier1 :: ring
  rs_tier2 :: ring
  rs_tier3 :: ring
  rs_drain_generation :: u64

definition RingSet_new :: "nat \<Rightarrow> nat \<Rightarrow> nat \<Rightarrow> ring_set" where
  "RingSet_new cap1 cap2 cap3 =
     \<lparr>rs_tier1 = Ring_SetDrainNotifier (Ring_new cap1) True,
      rs_tier2 = Ring_SetDrainNotifier (Ring_new cap2) True,
      rs_tier3 = Ring_SetDrainNotifier (Ring_new cap3) True,
      rs_drain_generation = 0\<rparr>"

definition RingSet_Get :: "ring_set \<Rightarrow> tier \<Rightarrow> ring option" where
  "RingSet_Get rs t = (case t of
     k1Critical \<Rightarrow> Some (rs_tier1 rs)
   | k2State \<Rightarrow> Some (rs_tier2 rs)
   | k3Ephemeral \<Rightarrow> Some (rs_tier3 rs)
   | kUnspecified \<Rightarrow> None)"

text \<open>Writing through the pointer that \<open>Get\<close> returned.\<close>

definition RingSet_put :: "ring_set \<Rightarrow> tier \<Rightarrow> ring \<Rightarrow> ring_set" where
  "RingSet_put rs t r = (case t of
     k1Critical \<Rightarrow> rs\<lparr>rs_tier1 := r\<rparr>
   | k2State \<Rightarrow> rs\<lparr>rs_tier2 := r\<rparr>
   | k3Ephemeral \<Rightarrow> rs\<lparr>rs_tier3 := r\<rparr>
   | kUnspecified \<Rightarrow> rs)"

definition RingSet_NotifyDrainTransition :: "ring_set \<Rightarrow> ring_set" where
  "RingSet_NotifyDrainTransition rs = rs\<lparr>rs_drain_generation := rs_drain_generation rs + 1\<rparr>"

definition RingSet_CloseAll :: "ring_set \<Rightarrow> ring_set" where
  "RingSet_CloseAll rs =
     RingSet_NotifyDrainTransition
       (rs\<lparr>rs_tier1 := Ring_Close (rs_tier1 rs), rs_tier2 := Ring_Close (rs_tier2 rs),
           rs_tier3 := Ring_Close (rs_tier3 rs)\<rparr>)"

definition RingSet_AllEmpty :: "ring_set \<Rightarrow> bool" where
  "RingSet_AllEmpty rs \<longleftrightarrow>
     Ring_Size (rs_tier1 rs) = 0 \<and> Ring_Size (rs_tier2 rs) = 0 \<and> Ring_Size (rs_tier3 rs) = 0"

text \<open>
  \<^verbatim>\<open>rings_->Get(t)->Push(...)\<close> and \<^verbatim>\<open>rings_->Get(t)->WaitAndPopBatch(...)\<close>: the ring's drain
  callback, when it runs, is \<open>NotifyDrainTransition\<close>.
\<close>

definition rs_push :: "tier \<Rightarrow> ring_entry \<Rightarrow> ring_set \<Rightarrow> ring_set" where
  "rs_push t e rs = (case RingSet_Get rs t of
     None \<Rightarrow> rs
   | Some r \<Rightarrow> RingSet_put rs t (fst (Ring_Push r e None)))"

definition rs_pop_batch :: "tier \<Rightarrow> nat \<Rightarrow> ring_set \<Rightarrow> ring_entry list \<times> ring_set" where
  "rs_pop_batch t m rs = (case RingSet_Get rs t of
     None \<Rightarrow> ([], rs)
   | Some r \<Rightarrow> (case Ring_WaitAndPopBatch id r m of
       (out, r', notified) \<Rightarrow>
         (out, if notified then RingSet_NotifyDrainTransition (RingSet_put rs t r')
               else RingSet_put rs t r')))"

section \<open>The drain wait\<close>

text \<open>
  Program counter of a thread inside \<^verbatim>\<open>WaitUntilAllEmpty\<close>: before the \<^verbatim>\<open>AllEmpty\<close> test; after it
  failed and before \<^verbatim>\<open>drain_mu_\<close> is taken; asleep in \<^verbatim>\<open>wait_until\<close> with the generation it saw;
  returned. \<open>AllEmpty\<close> is one step: the wait runs at shutdown, where the rings only empty.
\<close>

datatype waiter = W_check | W_snapshot | W_wait u64 | W_return bool

definition waiter_check :: "ring_set \<Rightarrow> waiter" where
  "waiter_check rs = (if RingSet_AllEmpty rs then W_return True else W_snapshot)"

inductive drain_step :: "bool \<Rightarrow> ring_set \<times> waiter \<Rightarrow> ring_set \<times> waiter \<Rightarrow> bool"
  for producers :: bool where
  ds_pop: "drain_step producers (rs, w) (snd (rs_pop_batch t m rs), w)"
| ds_push: "producers \<Longrightarrow> drain_step producers (rs, w) (rs_push t e rs, w)"
| ds_close: "drain_step producers (rs, w) (RingSet_CloseAll rs, w)"
| ds_check: "drain_step producers (rs, W_check) (rs, waiter_check rs)"
| ds_snapshot: "drain_step producers (rs, W_snapshot) (rs, W_wait (rs_drain_generation rs))"
| ds_wake: "rs_drain_generation rs \<noteq> seen \<Longrightarrow> drain_step producers (rs, W_wait seen) (rs, W_check)"
| ds_timeout: "rs_drain_generation rs = seen \<Longrightarrow>
     drain_step producers (rs, W_wait seen) (rs, W_return (RingSet_AllEmpty rs))"

inductive drain_reach :: "bool \<Rightarrow> ring_set \<Rightarrow> ring_set \<times> waiter \<Rightarrow> bool"
  for producers :: bool and rs0 :: ring_set where
  dr_start: "drain_reach producers rs0 (rs0, W_check)"
| dr_step: "drain_reach producers rs0 s \<Longrightarrow> drain_step producers s s' \<Longrightarrow> drain_reach producers rs0 s'"

inductive_cases drain_step_waitE: "drain_step producers (rs, W_wait g) s"

section \<open>Lemmas\<close>

lemma RingSet_Get_put [simp]:
  "RingSet_Get (RingSet_put rs t r) u =
     (if t = u \<and> t \<noteq> kUnspecified then Some r else RingSet_Get rs u)"
  by (cases t; cases u) (simp_all add: RingSet_Get_def RingSet_put_def)

lemma RingSet_put_generation [simp]:
  "rs_drain_generation (RingSet_put rs t r) = rs_drain_generation rs"
  by (cases t) (simp_all add: RingSet_put_def)

lemma AllEmpty_iff:
  "RingSet_AllEmpty rs \<longleftrightarrow> (\<forall>t r. RingSet_Get rs t = Some r \<longrightarrow> ring_q r = [])"
proof
  assume "RingSet_AllEmpty rs"
  then show "\<forall>t r. RingSet_Get rs t = Some r \<longrightarrow> ring_q r = []"
    by (auto simp: RingSet_AllEmpty_def Ring_Size_def RingSet_Get_def split: tier.splits)
next
  assume h: "\<forall>t r. RingSet_Get rs t = Some r \<longrightarrow> ring_q r = []"
  show "RingSet_AllEmpty rs"
    using h [rule_format, of k1Critical] h [rule_format, of k2State] h [rule_format, of k3Ephemeral]
    by (simp add: RingSet_AllEmpty_def Ring_Size_def RingSet_Get_def)
qed

lemma RingSet_Get_Notify [simp]:
  "RingSet_Get (RingSet_NotifyDrainTransition rs) t = RingSet_Get rs t"
  by (simp add: RingSet_NotifyDrainTransition_def RingSet_Get_def split: tier.splits)

lemma RingSet_Get_CloseAll [simp]:
  "RingSet_Get (RingSet_CloseAll rs) t = map_option Ring_Close (RingSet_Get rs t)"
  by (simp add: RingSet_CloseAll_def RingSet_Get_def RingSet_NotifyDrainTransition_def split: tier.splits)

lemma rs_pop_batch_Get:
  "RingSet_Get (snd (rs_pop_batch t m rs)) u =
     (if t = u then map_option (\<lambda>r. r\<lparr>ring_q := drop m (ring_q r)\<rparr>) (RingSet_Get rs t)
      else RingSet_Get rs u)"
  by (cases "RingSet_Get rs t"; cases t)
     (auto simp: rs_pop_batch_def Ring_WaitAndPopBatch_id RingSet_Get_def
        RingSet_put_def RingSet_NotifyDrainTransition_def split: tier.splits)

lemma rs_pop_batch_empty:
  assumes "RingSet_AllEmpty rs"
  shows "snd (rs_pop_batch t m rs) = rs"
proof (cases "RingSet_Get rs t")
  case None
  then show ?thesis by (simp add: rs_pop_batch_def)
next
  case (Some r)
  with assms have "ring_q r = []" by (auto simp: AllEmpty_iff)
  with Some show ?thesis
    by (cases t) (auto simp: rs_pop_batch_def Ring_WaitAndPopBatch_id RingSet_put_def RingSet_Get_def)
qed

lemma AllEmpty_stable:
  assumes "RingSet_AllEmpty rs" and "drain_step False (rs, w) (rs', w')"
  shows "RingSet_AllEmpty rs'"
  using assms(2,1)
  by cases (auto simp: rs_pop_batch_empty AllEmpty_iff Ring_Close_def)

lemma drain_reach_return:
  "drain_reach False rs0 s \<Longrightarrow> snd s = W_return True \<Longrightarrow> RingSet_AllEmpty (fst s)"
proof (induction rule: drain_reach.induct)
  case dr_start
  then show ?case by simp
next
  case (dr_step s s')
  show ?case
  proof (cases "snd s = W_return True")
    case True
    then have "RingSet_AllEmpty (fst s)" by (rule dr_step.IH)
    then show ?thesis
      using dr_step.hyps(2) AllEmpty_stable [of "fst s" "snd s" "fst s'" "snd s'"] by simp
  next
    case False
    from dr_step.hyps(2) False dr_step.prems show ?thesis
      by cases (auto simp: waiter_check_def split: if_splits)
  qed
qed

section \<open>Properties of the drain wait\<close>

text \<open>
  A drain wait that reports success is right: once the producers are stopped, in every
  interleaving of the waiter with the workers and with \<open>CloseAll\<close>, whenever
  \<open>WaitUntilAllEmpty\<close> has returned true all three rings are empty.
\<close>

lemma drain_wait_sound:
  assumes "drain_reach False rs0 (rs, W_return True)"
  shows "RingSet_AllEmpty rs"
  using drain_reach_return [OF assms] by simp

lemma drain_wait_sound_example:
  "drain_reach False (RingSet_new 1 1 1) (RingSet_new 1 1 1, W_return True)
   \<and> RingSet_AllEmpty (RingSet_new 1 1 1)"
proof -
  have "waiter_check (RingSet_new 1 1 1) = W_return True"
    by (simp add: waiter_check_def RingSet_AllEmpty_def RingSet_new_def Ring_new_def Ring_Size_def
        Ring_SetDrainNotifier_def)
  then have "drain_reach False (RingSet_new 1 1 1) (RingSet_new 1 1 1, W_return True)"
    using dr_step [OF dr_start ds_check, of False "RingSet_new 1 1 1"] by simp
  then show ?thesis using drain_wait_sound by blast
qed

text \<open>
  C38. The generation counter does not exclude a lost wake-up: the waiter reads it after its
  \<open>AllEmpty\<close> test, so a drain between the two is not seen. There is a run without producers
  that ends with the rings empty and the waiter asleep on the current generation; from there the
  workers cannot move it, and until \<open>CloseAll\<close> it leaves the wait by its deadline only.
\<close>

theorem drain_wakeup_can_be_lost:
  "\<exists>rs0 rs g. drain_reach False rs0 (rs, W_wait g) \<and> RingSet_AllEmpty rs
     \<and> {s. drain_step False (rs, W_wait g) s}
         = {(rs, W_wait g), (RingSet_CloseAll rs, W_wait g), (rs, W_return True)}"
proof -
  define rs0 where "rs0 = rs_push k1Critical (entry_n 1) (RingSet_new 1 1 1)"
  define rs where "rs = snd (rs_pop_batch k1Critical 64 rs0)"
  have ne: "\<not> RingSet_AllEmpty rs0"
    by (simp add: rs0_def rs_push_def RingSet_Get_def RingSet_put_def RingSet_new_def Ring_new_def
        Ring_SetDrainNotifier_def Ring_Push_def RingSet_AllEmpty_def Ring_Size_def)
  have e: "RingSet_AllEmpty rs"
    by (simp add: rs_def rs0_def rs_push_def RingSet_Get_def RingSet_put_def RingSet_new_def
        Ring_new_def Ring_SetDrainNotifier_def Ring_Push_def RingSet_AllEmpty_def Ring_Size_def
        rs_pop_batch_def Ring_WaitAndPopBatch_id RingSet_NotifyDrainTransition_def)
  have "drain_reach False rs0 (rs0, W_snapshot)"
    using dr_step [OF dr_start ds_check, of False rs0] ne by (simp add: waiter_check_def)
  then have "drain_reach False rs0 (rs, W_snapshot)"
    unfolding rs_def by (rule dr_step) (rule ds_pop)
  then have r: "drain_reach False rs0 (rs, W_wait (rs_drain_generation rs))"
    by (rule dr_step) (rule ds_snapshot)
  have "{s. drain_step False (rs, W_wait (rs_drain_generation rs)) s}
      = {(rs, W_wait (rs_drain_generation rs)), (RingSet_CloseAll rs, W_wait (rs_drain_generation rs)),
         (rs, W_return True)}" (is "?L = ?R")
  proof
    show "?L \<subseteq> ?R" using e by (auto elim!: drain_step_waitE simp: rs_pop_batch_empty)
    have "drain_step False (rs, W_wait (rs_drain_generation rs)) (rs, W_wait (rs_drain_generation rs))"
      using ds_pop [of False rs _ k1Critical 64] e by (simp add: rs_pop_batch_empty)
    moreover have "drain_step False (rs, W_wait (rs_drain_generation rs)) (rs, W_return True)"
      using ds_timeout [of rs "rs_drain_generation rs" False] e by simp
    ultimately show "?R \<subseteq> ?L" by (auto intro: ds_close)
  qed
  with r e show ?thesis by blast
qed

end
