(* ===== verification/Event_Routing.thy ===== *)
theory Event_Routing
  imports Event_Tier
begin

text \<open>
  The wire-format scanner of \<^verbatim>\<open>src/events/subscribe/routing.cc\<close>: it walks the serialized
  envelope and decodes only the fields a subscriber filter looks at. A pointer into the buffer
  is the list of bytes that remain; a failed read makes every caller stop, so a failure is
  \<open>None\<close>.
\<close>

section \<open>The scanner\<close>

text \<open>
  The loop of \<^verbatim>\<open>ReadVarint\<close> at a given shift and accumulator. Shifting a 7-bit group out of the
  64-bit accumulator drops bits, as in the source.
\<close>

fun ReadVarint_loop :: "nat \<Rightarrow> u64 \<Rightarrow> string \<Rightarrow> (u64 \<times> string) option" where
  "ReadVarint_loop shift out [] = None"
| "ReadVarint_loop shift out (c # p) =
     (let b = (of_char c :: u64);
          out' = out OR push_bit shift (b AND 0x7F)
      in if b AND 0x80 = 0 then Some (out', p)
         else if 64 \<le> shift + 7 then None
         else ReadVarint_loop (shift + 7) out' p)"

definition ReadVarint :: "string \<Rightarrow> (u64 \<times> string) option" where
  "ReadVarint p = ReadVarint_loop 0 0 p"

text \<open>Reading a length and the bytes it announces; \<^verbatim>\<open>end - p < len\<close> is a failure.\<close>

definition ReadLengthDelimited :: "string \<Rightarrow> (string \<times> string) option" where
  "ReadLengthDelimited p = (case ReadVarint p of
     None \<Rightarrow> None
   | Some (len, p') \<Rightarrow>
       if length p' < unat len then None else Some (take (unat len) p', drop (unat len) p'))"

definition SkipField :: "string \<Rightarrow> int \<Rightarrow> string option" where
  "SkipField p wire_type =
     (if wire_type = 0 then map_option snd (ReadVarint p)
      else if wire_type = 1 then (if length p < 8 then None else Some (drop 8 p))
      else if wire_type = 2 then map_option snd (ReadLengthDelimited p)
      else if wire_type = 5 then (if length p < 4 then None else Some (drop 4 p))
      else None)"

record routing_fields =
  rf_tier :: tier
  rf_event_name :: string
  rf_subclass_name :: string
  rf_node_id :: string

definition RoutingFields :: routing_fields where
  "RoutingFields = \<lparr>rf_tier = kUnspecified, rf_event_name = [], rf_subclass_name = [], rf_node_id = []\<rparr>"

text \<open>\<^verbatim>\<open>static_cast<int>(key >> 3)\<close> keeps the low 32 bits, read as a signed number.\<close>

definition key_field_num :: "u64 \<Rightarrow> int" where
  "key_field_num key = sint (ucast (drop_bit 3 key) :: u32)"

definition key_wire_type :: "u64 \<Rightarrow> int" where
  "key_wire_type key = uint (key AND 0x7)"

definition tier_of_wire :: "u64 \<Rightarrow> tier" where
  "tier_of_wire v =
     (if v = 1 then k1Critical else if v = 2 then k2State else if v = 3 then k3Ephemeral
      else kUnspecified)"

text \<open>
  One iteration of the scanner's loop, after the key was read: the new fields and the bytes that
  remain, or None for the \<^verbatim>\<open>break\<close>.
\<close>

definition scan_field :: "int \<Rightarrow> int \<Rightarrow> string \<Rightarrow> routing_fields \<Rightarrow> (routing_fields \<times> string) option" where
  "scan_field field_num wire_type p rf =
     (if field_num = 2 \<and> wire_type = 0 then
        (case ReadVarint p of None \<Rightarrow> None | Some (v, p') \<Rightarrow> Some (rf\<lparr>rf_tier := tier_of_wire v\<rparr>, p'))
      else if field_num = 3 \<and> wire_type = 2 then
        (case ReadLengthDelimited p of None \<Rightarrow> None | Some (s, p') \<Rightarrow> Some (rf\<lparr>rf_event_name := s\<rparr>, p'))
      else if field_num = 4 \<and> wire_type = 2 then
        (case ReadLengthDelimited p of None \<Rightarrow> None | Some (s, p') \<Rightarrow> Some (rf\<lparr>rf_subclass_name := s\<rparr>, p'))
      else if field_num = 5 \<and> wire_type = 2 then
        (case ReadLengthDelimited p of None \<Rightarrow> None | Some (s, p') \<Rightarrow> Some (rf\<lparr>rf_node_id := s\<rparr>, p'))
      else
        (case SkipField p wire_type of None \<Rightarrow> None | Some p' \<Rightarrow> Some (rf, p')))"

lemma ReadVarint_loop_shorter:
  "ReadVarint_loop shift out p = Some (v, p') \<Longrightarrow> length p' < length p"
  by (induction shift out p rule: ReadVarint_loop.induct)
     (auto simp: Let_def less_Suc_eq split: if_splits)

lemma ReadVarint_shorter: "ReadVarint p = Some (v, p') \<Longrightarrow> length p' < length p"
  by (simp add: ReadVarint_def ReadVarint_loop_shorter)

lemma ReadLengthDelimited_shorter: "ReadLengthDelimited p = Some (s, p') \<Longrightarrow> length p' < length p"
  by (auto simp: ReadLengthDelimited_def less_imp_diff_less split: option.splits if_splits
      dest!: ReadVarint_shorter)

lemma SkipField_shorter: "SkipField p w = Some p' \<Longrightarrow> length p' < length p"
  by (auto simp: SkipField_def split: if_splits dest: ReadVarint_shorter ReadLengthDelimited_shorter)

lemma scan_field_shorter: "scan_field f w p rf = Some (rf', p') \<Longrightarrow> length p' < length p"
  by (auto simp: scan_field_def split: if_splits option.splits
      dest: ReadVarint_shorter ReadLengthDelimited_shorter SkipField_shorter)

function ExtractRoutingFields_loop :: "string \<Rightarrow> routing_fields \<Rightarrow> routing_fields" where
  "ExtractRoutingFields_loop p rf =
     (if p = [] then rf
      else case ReadVarint p of
        None \<Rightarrow> rf
      | Some (key, p1) \<Rightarrow>
          (case scan_field (key_field_num key) (key_wire_type key) p1 rf of
             None \<Rightarrow> rf
           | Some (rf', p2) \<Rightarrow> ExtractRoutingFields_loop p2 rf'))"
  by pat_completeness auto
termination
  by (relation "measure (\<lambda>(p, rf). length p)")
     (auto dest!: ReadVarint_shorter scan_field_shorter)

declare ExtractRoutingFields_loop.simps [simp del]

definition ExtractRoutingFields :: "string \<Rightarrow> routing_fields" where
  "ExtractRoutingFields bytes = ExtractRoutingFields_loop bytes RoutingFields"

section \<open>The wire format\<close>

text \<open>
  The protobuf wire format, as the encoding guide documents it, is the specification of the
  scanner: base-128 varints, and fields of the four supported wire types under a key
  \<open>(number << 3) | type\<close>.
\<close>

fun encode_varint :: "nat \<Rightarrow> string" where
  "encode_varint n = (if n < 128 then [char_of n] else char_of (n mod 128 + 128) # encode_varint (n div 128))"

declare encode_varint.simps [simp del]

datatype wire_field =
    WVarint nat nat | WFixed64 nat string | WBytes nat string | WFixed32 nat string

fun encode_field :: "wire_field \<Rightarrow> string" where
  "encode_field (WVarint f v) = encode_varint (8 * f) @ encode_varint v"
| "encode_field (WFixed64 f bs) = encode_varint (8 * f + 1) @ bs"
| "encode_field (WBytes f bs) = encode_varint (8 * f + 2) @ encode_varint (length bs) @ bs"
| "encode_field (WFixed32 f bs) = encode_varint (8 * f + 5) @ bs"

fun wf_field :: "wire_field \<Rightarrow> bool" where
  "wf_field (WVarint f v) \<longleftrightarrow> 0 < f \<and> f < 2 ^ 29 \<and> v < 2 ^ 64"
| "wf_field (WFixed64 f bs) \<longleftrightarrow> 0 < f \<and> f < 2 ^ 29 \<and> length bs = 8"
| "wf_field (WBytes f bs) \<longleftrightarrow> 0 < f \<and> f < 2 ^ 29 \<and> length bs < 2 ^ 64"
| "wf_field (WFixed32 f bs) \<longleftrightarrow> 0 < f \<and> f < 2 ^ 29 \<and> length bs = 4"

text \<open>What one field of a message contributes to the routing fields.\<close>

fun apply_field :: "wire_field \<Rightarrow> routing_fields \<Rightarrow> routing_fields" where
  "apply_field (WVarint f v) rf = (if f = 2 then rf\<lparr>rf_tier := tier_of_wire (of_nat v)\<rparr> else rf)"
| "apply_field (WBytes f bs) rf =
     (if f = 3 then rf\<lparr>rf_event_name := bs\<rparr>
      else if f = 4 then rf\<lparr>rf_subclass_name := bs\<rparr>
      else if f = 5 then rf\<lparr>rf_node_id := bs\<rparr> else rf)"
| "apply_field (WFixed64 f bs) rf = rf"
| "apply_field (WFixed32 f bs) rf = rf"

definition encode_message :: "wire_field list \<Rightarrow> string" where
  "encode_message fs = concat (map encode_field fs)"

section \<open>Varints\<close>

lemma byte_bits:
  "\<forall>n\<in>set [0..<128]. (of_nat n :: u64) AND 0x80 = 0 \<and> (of_nat n :: u64) AND 0x7F = of_nat n
     \<and> (of_nat (n + 128) :: u64) AND 0x80 \<noteq> 0 \<and> (of_nat (n + 128) :: u64) AND 0x7F = of_nat n"
  by code_simp

lemma low_byte:
  assumes "n < 128"
  shows "(of_nat n :: u64) AND 0x80 = 0" and "(of_nat n :: u64) AND 0x7F = of_nat n"
    and "(of_nat (n + 128) :: u64) AND 0x80 \<noteq> 0" and "(of_nat (n + 128) :: u64) AND 0x7F = of_nat n"
  using byte_bits assms by auto

lemma of_char_char_of_u64: "n < 256 \<Longrightarrow> (of_char (char_of n :: char) :: u64) = of_nat n"
  by (metis mod_less of_char_of of_nat_of_char)

lemma or_shift_add:
  assumes "unat (out :: u64) < 2 ^ shift" and "n * 2 ^ shift < 2 ^ 64"
  shows "out OR push_bit shift (of_nat n) = out + of_nat (n * 2 ^ shift)"
proof -
  have hi: "k < shift" if "bit out k" for k
  proof -
    have "bit (unat out) k" using that by (simp add: bit_unsigned_iff)
    then have "odd (unat out div 2 ^ k)" by (simp add: bit_iff_odd)
    then have "\<not> unat out < 2 ^ k" by auto
    then have "(2::nat) ^ k < 2 ^ shift" using assms(1) by linarith
    then show ?thesis by simp
  qed
  have "out AND push_bit shift (of_nat n) = 0"
  proof (rule bit_word_eqI)
    fix k
    show "bit (out AND push_bit shift (of_nat n)) k \<longleftrightarrow> bit (0 :: u64) k"
      using hi [of k] by (auto simp: bit_simps)
  qed
  then have "out OR push_bit shift (of_nat n) = out + push_bit shift (of_nat n)"
    by (simp only: disjunctive_add_eq_or)
  moreover have "push_bit shift (of_nat n :: u64) = of_nat (n * 2 ^ shift)"
    by (simp add: push_bit_eq_mult)
  ultimately show ?thesis by simp
qed

lemma ReadVarint_loop_encode:
  assumes "unat out < 2 ^ shift" and "n * 2 ^ shift < 2 ^ 64" and "shift < 64"
  shows "ReadVarint_loop shift out (encode_varint n @ rest) = Some (out + of_nat (n * 2 ^ shift), rest)"
  using assms
proof (induction n arbitrary: shift out rule: encode_varint.induct)
  case (1 n)
  show ?case
  proof (cases "n < 128")
    case True
    then show ?thesis
      using or_shift_add [OF "1.prems"(1,2)]
      by (simp add: encode_varint.simps [of n] of_char_char_of_u64 low_byte del: push_bit_and)
  next
    case False
    let ?m = "n mod 128" and ?d = "n div 128"
    have n: "n = 128 * ?d + ?m" by simp
    have "n * 2 ^ shift = 128 * ?d * 2 ^ shift + ?m * 2 ^ shift"
      by (subst n) (simp only: distrib_right)
    moreover have "128 * ?d * 2 ^ shift = ?d * 2 ^ (shift + 7)" by (simp add: power_add)
    ultimately have split: "n * 2 ^ shift = ?d * 2 ^ (shift + 7) + ?m * 2 ^ shift" by simp
    have d1: "1 \<le> ?d" using False by simp
    then have "2 ^ (shift + 7) \<le> ?d * 2 ^ (shift + 7)" by simp
    then have "(2::nat) ^ (shift + 7) < 2 ^ 64" using split "1.prems"(2) by linarith
    then have s7: "shift + 7 < 64" by (simp only: power_strict_increasing_iff)
    have m64: "?m * 2 ^ shift < 2 ^ 64" and d64: "?d * 2 ^ (shift + 7) < 2 ^ 64"
      using split "1.prems"(2) by linarith+
    let ?out = "out + of_nat (?m * 2 ^ shift) :: u64"
    have "unat out + ?m * 2 ^ shift < 2 ^ shift + 127 * 2 ^ shift"
      using "1.prems"(1) by (intro add_less_le_mono mult_right_mono) simp_all
    then have b: "unat out + ?m * 2 ^ shift < 2 ^ (shift + 7)" by (simp add: power_add)
    then have "unat ?out = unat out + ?m * 2 ^ shift"
      using m64 \<open>2 ^ (shift + 7) < 2 ^ 64\<close>
      by (simp add: unat_word_ariths unat_of_nat del: of_nat_mult)
    with b have ob: "unat ?out < 2 ^ (shift + 7)" by simp
    have "ReadVarint_loop (shift + 7) ?out (encode_varint ?d @ rest)
        = Some (?out + of_nat (?d * 2 ^ (shift + 7)), rest)"
      using "1.IH" [OF False ob d64 s7] .
    moreover have "?out + of_nat (?d * 2 ^ (shift + 7)) = out + of_nat (n * 2 ^ shift)"
      unfolding split by simp
    moreover have "ReadVarint_loop shift out (encode_varint n @ rest)
        = ReadVarint_loop (shift + 7) ?out (encode_varint ?d @ rest)"
      using False s7 or_shift_add [OF "1.prems"(1) m64] low_byte [of ?m]
      by (simp add: encode_varint.simps [of n] of_char_char_of_u64 del: of_nat_mult of_nat_add push_bit_and)
    ultimately show ?thesis by simp
  qed
qed

lemma ReadVarint_encode:
  assumes "n < 2 ^ 64"
  shows "ReadVarint (encode_varint n @ rest) = Some (of_nat n, rest)"
  using ReadVarint_loop_encode [of 0 0 n rest] assms by (simp add: ReadVarint_def)

lemma ReadLengthDelimited_encode:
  assumes "length bs < 2 ^ 64"
  shows "ReadLengthDelimited (encode_varint (length bs) @ bs @ rest) = Some (bs, rest)"
  using assms by (simp add: ReadLengthDelimited_def ReadVarint_encode unat_of_nat)

section \<open>Keys\<close>

lemma ucast_of_nat_u32: "m < 2 ^ 32 \<Longrightarrow> (ucast (of_nat m :: u64) :: u32) = of_nat m"
  by (simp add: unsigned_of_nat take_bit_nat_eq_self)

lemma sint_of_nat_u32: "m < 2 ^ 31 \<Longrightarrow> sint (of_nat m :: u32) = int m"
  by (simp add: signed_of_nat signed_take_bit_int_eq_self_iff)

lemma unat_of_nat_u64: "m < 2 ^ 64 \<Longrightarrow> unat (of_nat m :: u64) = m"
  by (simp add: unat_of_nat)

lemma drop_bit_of_nat_u64:
  assumes "k < 2 ^ 64"
  shows "drop_bit 3 (of_nat k :: u64) = of_nat (k div 8)"
proof (rule word_unat_eq_iff [THEN iffD2])
  have "k div 8 < 2 ^ 64" using assms by linarith
  then show "unat (drop_bit 3 (of_nat k :: u64)) = unat (of_nat (k div 8) :: u64)"
    using unat_of_nat_u64 [of "k div 8"] unat_of_nat_u64 [OF assms] by (simp add: drop_bit_eq_div unat_div)
qed

lemma and_7_mod: "(w :: u64) AND 0x7 = w mod 8"
  using take_bit_eq_mask [of 3 w] by (simp add: take_bit_eq_mod mask_eq_exp_minus_1)

lemma key_decode_aux:
  assumes "k < 2 ^ 32"
  shows "key_field_num (of_nat k) = int (k div 8)" and "key_wire_type (of_nat k) = int (k mod 8)"
proof -
  have k64: "k < 2 ^ 64" and d31: "k div 8 < 2 ^ 31" and d32: "k div 8 < 2 ^ 32"
    using assms by simp_all
  show "key_field_num (of_nat k) = int (k div 8)"
    by (simp only: key_field_num_def drop_bit_of_nat_u64 [OF k64] ucast_of_nat_u32 [OF d32]
        sint_of_nat_u32 [OF d31])
  have "unat ((of_nat k :: u64) mod 8) = k mod 8"
    by (simp add: unat_mod unat_of_nat_u64 [OF k64])
  then have "uint ((of_nat k :: u64) mod 8) = int (k mod 8)" by (simp only: uint_nat)
  then show "key_wire_type (of_nat k) = int (k mod 8)" by (simp only: key_wire_type_def and_7_mod)
qed

lemma key_decode:
  assumes "f < 2 ^ 29" and "w < 8"
  shows "key_field_num (of_nat (8 * f + w)) = int f" and "key_wire_type (of_nat (8 * f + w)) = int w"
  using key_decode_aux [of "8 * f + w"] assms by (simp_all del: of_nat_add of_nat_mult)

section \<open>The scanner inverts the encoding\<close>

lemma scan_encode_field:
  assumes "wf_field fd"
  shows "ExtractRoutingFields_loop (encode_field fd @ rest) rf
           = ExtractRoutingFields_loop rest (apply_field fd rf)"
proof -
  have ne: "encode_varint n \<noteq> []" for n by (simp add: encode_varint.simps)
  have step: "ExtractRoutingFields_loop (encode_varint (8 * f + w) @ p) rf
      = (case scan_field (int f) (int w) p rf of
           None \<Rightarrow> rf | Some (rf', p') \<Rightarrow> ExtractRoutingFields_loop p' rf')"
    if "f < 2 ^ 29" "w < 8" for f w p
    using that ne [of "8 * f + w"] key_decode [OF that]
    by (subst ExtractRoutingFields_loop.simps)
       (simp add: ReadVarint_encode del: of_nat_add of_nat_mult)
  note scan = scan_field_def SkipField_def ReadVarint_encode ReadLengthDelimited_encode
  show ?thesis
  proof (cases fd)
    case (WVarint f v)
    with assms step [of f 0] show ?thesis by (simp add: scan)
  next
    case (WFixed64 f bs)
    with assms step [of f 1] show ?thesis by (simp add: scan)
  next
    case (WBytes f bs)
    with assms step [of f 2] show ?thesis by (simp add: scan)
  next
    case (WFixed32 f bs)
    with assms step [of f 5] show ?thesis by (simp add: scan)
  qed
qed

lemma scan_encode_message:
  "list_all wf_field fs \<Longrightarrow>
   ExtractRoutingFields_loop (encode_message fs @ rest) rf
     = ExtractRoutingFields_loop rest (fold apply_field fs rf)"
  by (induction fs arbitrary: rf) (auto simp: encode_message_def scan_encode_field)

lemma scan_stops: "ReadVarint junk = None \<Longrightarrow> ExtractRoutingFields_loop junk rf = rf"
  by (subst ExtractRoutingFields_loop.simps) simp

section \<open>Properties of the scanner\<close>

text \<open>
  C9. Round trip with the wire format, and behaviour on a damaged tail. For any sequence of
  well-formed fields (unknown ones included, in any order, repeated ones with the last value
  winning), followed by bytes in which no further key can be read (none, for an intact message),
  the scanner returns exactly what the fields say.
\<close>

theorem scanner_decodes_message:
  assumes "list_all wf_field fs" and "ReadVarint junk = None"
  shows "ExtractRoutingFields (encode_message fs @ junk) = fold apply_field fs RoutingFields"
  using assms by (simp add: ExtractRoutingFields_def scan_encode_message scan_stops)

definition demo_fields :: "wire_field list" where
  "demo_fields = [WBytes 1 ''id'', WVarint 2 1, WBytes 3 ''DTMF'', WVarint 12 300, WBytes 5 ''n1'']"

lemma ReadVarint_empty [simp]: "ReadVarint [] = None"
  by (simp add: ReadVarint_def)

theorem scanner_decodes_message_witness:
  "list_all wf_field demo_fields
   \<and> ExtractRoutingFields (encode_message demo_fields @ [])
       = \<lparr>rf_tier = k1Critical, rf_event_name = ''DTMF'', rf_subclass_name = [], rf_node_id = ''n1''\<rparr>"
proof -
  have "list_all wf_field demo_fields" by (simp add: demo_fields_def)
  then show ?thesis
    using scanner_decodes_message [of demo_fields "[]"]
    by (simp add: demo_fields_def RoutingFields_def tier_of_wire_def)
qed

text \<open>
  A malformed tail does not reset what was scanned before it: the result is not the
  default-constructed one.
\<close>

lemma malformed_tail_keeps_fields:
  "ReadVarint [char_of (255::nat)] = None
   \<and> ExtractRoutingFields (encode_message demo_fields @ [char_of (255::nat)]) \<noteq> RoutingFields"
proof -
  have none: "ReadVarint [char_of (255::nat)] = None"
    by (simp add: ReadVarint_def Let_def of_char_char_of_u64)
  have wf: "list_all wf_field demo_fields" by (simp add: demo_fields_def)
  have "ExtractRoutingFields (encode_message demo_fields @ [char_of (255::nat)])
      = fold apply_field demo_fields RoutingFields"
    by (simp add: ExtractRoutingFields_def scan_encode_message [OF wf] scan_stops [OF none])
  with none show ?thesis by (simp add: demo_fields_def RoutingFields_def)
qed

end
