(* ===== verification/Event_Subscriber.thy ===== *)
theory Event_Subscriber
  imports Event_Ring
begin

text \<open>
  A subscriber of the event stream: its bounded outbox
  (\<^verbatim>\<open>src/events/subscribe/send_queue.cc\<close>) and its filter and close protocol
  (\<^verbatim>\<open>src/events/subscribe/subscriber.cc\<close>).
\<close>

section \<open>The send queue\<close>

record send_queue =
  sq_capacity :: nat
  sq_q :: "string option list"     \<comment> \<open>\<^verbatim>\<open>shared_ptr<const string>\<close>; None is the null pointer\<close>
  sq_closed :: bool

definition SendQueue_new :: "nat \<Rightarrow> send_queue" where
  "SendQueue_new capacity =
     \<lparr>sq_capacity = (if capacity = 0 then 1 else capacity), sq_q = [], sq_closed = False\<rparr>"

definition SendQueue_TryPush :: "send_queue \<Rightarrow> string option \<Rightarrow> bool \<times> send_queue" where
  "SendQueue_TryPush s bytes =
     (if sq_closed s then (False, s)
      else if sq_capacity s \<le> length (sq_q s) then (False, s)
      else (True, s\<lparr>sq_q := sq_q s @ [bytes]\<rparr>))"

text \<open>As for the ring, \<open>wait\<close> is what other threads do during the condition variable wait.\<close>

definition SendQueue_WaitAndPop ::
  "(send_queue \<Rightarrow> send_queue) \<Rightarrow> send_queue \<Rightarrow> string option option \<times> send_queue" where
  "SendQueue_WaitAndPop wait s0 =
     (let s = (if sq_q s0 = [] \<and> \<not> sq_closed s0 then wait s0 else s0)
      in case sq_q s of
           [] \<Rightarrow> (None, s)
         | x # xs \<Rightarrow> (Some x, s\<lparr>sq_q := xs\<rparr>))"

definition SendQueue_Close :: "send_queue \<Rightarrow> send_queue" where
  "SendQueue_Close s = s\<lparr>sq_closed := True\<rparr>"

definition SendQueue_Size :: "send_queue \<Rightarrow> nat" where
  "SendQueue_Size s = length (sq_q s)"

section \<open>The subscriber\<close>

datatype kick_reason = kNone | kQueueFull | kReplayEvicted | kShutdown | kClientCancelled

definition KickReason_ToString :: "kick_reason \<Rightarrow> string" where
  "KickReason_ToString r = (case r of
     kQueueFull \<Rightarrow> ''queue_full''
   | kReplayEvicted \<Rightarrow> ''replay_evicted''
   | kShutdown \<Rightarrow> ''shutdown''
   | kClientCancelled \<Rightarrow> ''client_cancelled''
   | kNone \<Rightarrow> ''none'')"

record subscriber_filter =
  sf_tiers :: "tier set"
  sf_event_name_globs :: "string list"
  sf_subclass_globs :: "string list"
  sf_node_id :: string

record subscriber =
  sub_id :: string
  sub_filter :: subscriber_filter
  sub_queue :: send_queue
  sub_close_flag :: bool
  sub_kick_reason :: kick_reason

definition Subscriber :: "string \<Rightarrow> subscriber_filter \<Rightarrow> nat \<Rightarrow> subscriber" where
  "Subscriber i f send_queue_capacity =
     \<lparr>sub_id = i, sub_filter = f, sub_queue = SendQueue_new send_queue_capacity,
      sub_close_flag = False, sub_kick_reason = kNone\<rparr>"

definition Subscriber_IsClosed :: "subscriber \<Rightarrow> bool" where
  "Subscriber_IsClosed s \<longleftrightarrow> sub_close_flag s \<or> sq_closed (sub_queue s)"

text \<open>
  \<^verbatim>\<open>RequestClose\<close> makes three atomic writes, in this order: the compare-and-exchange of the
  kick reason, the close flag, the queue.
\<close>

definition close_cas_reason :: "kick_reason \<Rightarrow> subscriber \<Rightarrow> subscriber" where
  "close_cas_reason r s = (if sub_kick_reason s = kNone then s\<lparr>sub_kick_reason := r\<rparr> else s)"

definition close_set_flag :: "subscriber \<Rightarrow> subscriber" where
  "close_set_flag s = s\<lparr>sub_close_flag := True\<rparr>"

definition close_queue :: "subscriber \<Rightarrow> subscriber" where
  "close_queue s = s\<lparr>sub_queue := SendQueue_Close (sub_queue s)\<rparr>"

definition Subscriber_RequestClose :: "kick_reason \<Rightarrow> subscriber \<Rightarrow> subscriber" where
  "Subscriber_RequestClose reason s = close_queue (close_set_flag (close_cas_reason reason s))"

definition MatchPrefixGlob :: "string \<Rightarrow> string \<Rightarrow> bool" where
  "MatchPrefixGlob pat s =
     (if pat \<noteq> [] \<and> last pat = CHR ''*'' then has_prefix (take (length pat - 1) pat) s
      else s = pat)"

fun MatchAnyPattern :: "string list \<Rightarrow> string \<Rightarrow> bool" where
  "MatchAnyPattern [] s = False"
| "MatchAnyPattern (g # gs) s = (if MatchPrefixGlob g s then True else MatchAnyPattern gs s)"

definition Subscriber_MatchesFilter ::
  "subscriber \<Rightarrow> tier \<Rightarrow> string \<Rightarrow> string \<Rightarrow> string \<Rightarrow> bool" where
  "Subscriber_MatchesFilter s t event_name subclass_name node_id =
     (if sf_tiers (sub_filter s) \<noteq> {} \<and> t \<notin> sf_tiers (sub_filter s) then False
      else if sf_node_id (sub_filter s) \<noteq> [] \<and> node_id \<noteq> sf_node_id (sub_filter s) then False
      else if sf_event_name_globs (sub_filter s) \<noteq> []
              \<and> \<not> MatchAnyPattern (sf_event_name_globs (sub_filter s)) event_name then False
      else if sf_subclass_globs (sub_filter s) \<noteq> []
              \<and> \<not> MatchAnyPattern (sf_subclass_globs (sub_filter s)) subclass_name then False
      else True)"

section \<open>The send queue is a bounded queue\<close>

definition sq_insert :: "string option \<Rightarrow> send_queue \<Rightarrow> send_queue" where
  "sq_insert b s = snd (SendQueue_TryPush s b)"

fun sq_remove :: "nat \<Rightarrow> send_queue \<Rightarrow> string option list \<times> send_queue" where
  "sq_remove 0 s = ([], s)"
| "sq_remove (Suc n) s =
     (case SendQueue_WaitAndPop id s of
        (None, s') \<Rightarrow> ([], s')
      | (Some x, s') \<Rightarrow> (case sq_remove n s' of (xs, s'') \<Rightarrow> (x # xs, s'')))"

lemma SendQueue_WaitAndPop_id:
  "SendQueue_WaitAndPop id s =
     (case sq_q s of [] \<Rightarrow> (None, s) | x # xs \<Rightarrow> (Some x, s\<lparr>sq_q := xs\<rparr>))"
  by (simp add: SendQueue_WaitAndPop_def Let_def)

lemma sq_remove_eq: "sq_remove n s = (take n (sq_q s), s\<lparr>sq_q := drop n (sq_q s)\<rparr>)"
proof (induction n arbitrary: s)
  case (Suc n)
  then show ?case by (cases "sq_q s") (auto simp: SendQueue_WaitAndPop_id)
qed simp

interpretation sq: bounded_queue sq_q sq_capacity sq_insert sq_remove
proof (unfold_locales, goal_cases)
  case (1 s x)
  then show ?case by (auto simp: sq_insert_def SendQueue_TryPush_def intro: exI [of _ 0])
next
  case (5 n s out s')
  then show ?case by (auto simp: sq_remove_eq)
qed (auto simp: sq_insert_def SendQueue_TryPush_def)

section \<open>Lemmas\<close>

interpretation sub_glob: prefix_glob MatchPrefixGlob
proof (unfold_locales, goal_cases)
  case (2 p s)
  then show ?case by (cases p rule: rev_cases) (auto simp: MatchPrefixGlob_def suffix_def)
qed (simp add: MatchPrefixGlob_def)

lemma MatchPrefixGlob_matches: "MatchPrefixGlob p s \<longleftrightarrow> glob_matches p s"
  by (simp only: sub_glob.accepts_cases ref_glob.accepts_cases)

lemma MatchAnyPattern_iff: "MatchAnyPattern ps s \<longleftrightarrow> (\<exists>p\<in>set ps. glob_matches p s)"
  by (induction ps) (auto simp: MatchPrefixGlob_matches)

text \<open>
  A non-CUSTOM event (empty subclass) passes a subclass filter not only through the empty
  pattern: the pattern \<open>*\<close> accepts it too.
\<close>

lemma empty_subclass_accepted: "MatchPrefixGlob p [] \<longleftrightarrow> p = [] \<or> p = ''*''"
  by (rule sub_glob.accepts_empty)

lemma RequestClose_closed [simp]: "Subscriber_IsClosed (Subscriber_RequestClose r s)"
  by (simp add: Subscriber_RequestClose_def Subscriber_IsClosed_def close_queue_def close_set_flag_def)

lemma RequestClose_fields [simp]:
  "sub_id (Subscriber_RequestClose r s) = sub_id s"
  "sub_filter (Subscriber_RequestClose r s) = sub_filter s"
  "sq_q (sub_queue (Subscriber_RequestClose r s)) = sq_q (sub_queue s)"
  "sq_capacity (sub_queue (Subscriber_RequestClose r s)) = sq_capacity (sub_queue s)"
  "sq_closed (sub_queue (Subscriber_RequestClose r s))"
  "sub_kick_reason (Subscriber_RequestClose r s)
     = (if sub_kick_reason s = kNone then r else sub_kick_reason s)"
  by (simp_all add: Subscriber_RequestClose_def close_queue_def close_set_flag_def
      close_cas_reason_def SendQueue_Close_def)

section \<open>Concurrent close requests\<close>

text \<open>
  Several threads (the broadcaster, the replay, the writer loop, shutdown) may run
  \<open>RequestClose\<close> on the same subscriber at once. Thread \<open>i\<close> closes with reason
  \<open>rs ! i\<close>; \<open>pcs ! i\<close> counts the writes it has made. The steps interleave with pushes and
  pops on the queue.
\<close>

inductive close_step ::
  "kick_reason list \<Rightarrow> subscriber \<times> nat list \<Rightarrow> subscriber \<times> nat list \<Rightarrow> bool"
  for rs :: "kick_reason list" where
  cs_cas: "i < length pcs \<Longrightarrow> pcs ! i = 0 \<Longrightarrow>
     close_step rs (s, pcs) (close_cas_reason (rs ! i) s, pcs[i := 1])"
| cs_flag: "i < length pcs \<Longrightarrow> pcs ! i = 1 \<Longrightarrow>
     close_step rs (s, pcs) (close_set_flag s, pcs[i := 2])"
| cs_queue: "i < length pcs \<Longrightarrow> pcs ! i = 2 \<Longrightarrow>
     close_step rs (s, pcs) (close_queue s, pcs[i := 3])"
| cs_push: "close_step rs (s, pcs) (s\<lparr>sub_queue := sq_insert b (sub_queue s)\<rparr>, pcs)"
| cs_pop: "close_step rs (s, pcs) (s\<lparr>sub_queue := snd (SendQueue_WaitAndPop id (sub_queue s))\<rparr>, pcs)"

inductive close_run ::
  "kick_reason list \<Rightarrow> subscriber \<times> nat list \<Rightarrow> subscriber \<times> nat list \<Rightarrow> bool"
  for rs :: "kick_reason list" and c0 :: "subscriber \<times> nat list" where
  cr_start: "close_run rs c0 c0"
| cr_step: "close_run rs c0 c \<Longrightarrow> close_step rs c c' \<Longrightarrow> close_run rs c0 c'"

definition close_inv :: "kick_reason list \<Rightarrow> subscriber \<times> nat list \<Rightarrow> bool" where
  "close_inv rs c \<longleftrightarrow> length (snd c) = length rs
     \<and> (sub_kick_reason (fst c) = kNone \<longrightarrow>
          \<not> Subscriber_IsClosed (fst c) \<and> set (snd c) \<subseteq> {0})
     \<and> (sub_kick_reason (fst c) \<noteq> kNone \<longrightarrow> sub_kick_reason (fst c) \<in> set rs)"

lemma sq_closed_insert [simp]: "sq_closed (sq_insert b s) = sq_closed s"
  by (simp add: sq_insert_def SendQueue_TryPush_def)

lemma sq_closed_pop [simp]: "sq_closed (snd (SendQueue_WaitAndPop id s)) = sq_closed s"
  by (simp add: SendQueue_WaitAndPop_id split: list.split)

lemma close_step_inv:
  assumes step: "close_step rs c c'" and inv: "close_inv rs c" and rs: "kNone \<notin> set rs"
  shows "close_inv rs c'"
  using step
proof cases
  case (cs_cas i pcs s)
  then have "rs ! i \<in> set rs" using inv by (simp add: close_inv_def)
  moreover from this have "rs ! i \<noteq> kNone" using rs by metis
  ultimately show ?thesis
    using cs_cas inv by (auto simp: close_inv_def close_cas_reason_def)
next
  case (cs_flag i pcs s)
  then have "1 \<in> set pcs" by (metis nth_mem)
  then have "sub_kick_reason s \<noteq> kNone" using inv cs_flag by (auto simp: close_inv_def)
  then show ?thesis using inv cs_flag by (simp add: close_inv_def close_set_flag_def)
next
  case (cs_queue i pcs s)
  then have "2 \<in> set pcs" by (metis nth_mem)
  then have "sub_kick_reason s \<noteq> kNone" using inv cs_queue by (auto simp: close_inv_def)
  then show ?thesis using inv cs_queue by (simp add: close_inv_def close_queue_def)
qed (use inv in \<open>simp_all add: close_inv_def Subscriber_IsClosed_def\<close>)

lemma close_run_inv:
  "close_run rs c0 c \<Longrightarrow> close_inv rs c0 \<Longrightarrow> kNone \<notin> set rs \<Longrightarrow> close_inv rs c"
  by (induction rule: close_run.induct) (auto intro: close_step_inv)

lemma close_step_reason_stable:
  "close_step rs c c' \<Longrightarrow> sub_kick_reason (fst c) \<noteq> kNone \<Longrightarrow>
   sub_kick_reason (fst c') = sub_kick_reason (fst c)"
  by (induction rule: close_step.induct)
     (auto simp: close_cas_reason_def close_set_flag_def close_queue_def)

lemma close_run_reason_stable:
  "close_run rs c c' \<Longrightarrow> sub_kick_reason (fst c) \<noteq> kNone \<Longrightarrow>
   sub_kick_reason (fst c') = sub_kick_reason (fst c)"
  by (induction rule: close_run.induct) (auto simp: close_step_reason_stable)

section \<open>Properties of the subscriber\<close>

text \<open>
  The filter is the conjunction of its four axes: an unset axis lets everything pass, a set
  one asks for a listed tier, the named node, or one pattern that accepts the event name or the
  subclass; and the patterns have the same meaning as the tier rules' globs.
\<close>

lemma matches_filter_meaning:
  "Subscriber_MatchesFilter s t n c d \<longleftrightarrow>
     (let f = sub_filter s in
        (sf_tiers f = {} \<or> t \<in> sf_tiers f)
      \<and> (sf_node_id f = [] \<or> d = sf_node_id f)
      \<and> (sf_event_name_globs f = [] \<or> (\<exists>p\<in>set (sf_event_name_globs f). glob_matches p n))
      \<and> (sf_subclass_globs f = [] \<or> (\<exists>p\<in>set (sf_subclass_globs f). glob_matches p c)))"
  by (auto simp: Subscriber_MatchesFilter_def MatchAnyPattern_iff Let_def)

text \<open>
  Closing is first-writer-wins and never anonymous. Whatever threads close a fresh
  subscriber concurrently, interleaved with pushes and pops: a reader that sees it closed sees a
  reason, that reason is one of those given, and it never changes afterwards.
\<close>

lemma close_reason_published_first:
  assumes "close_run rs (Subscriber i f cap, replicate (length rs) 0) c"
    and "kNone \<notin> set rs" and "Subscriber_IsClosed (fst c)" and "close_run rs c c'"
  shows "sub_kick_reason (fst c) \<in> set rs \<and> sub_kick_reason (fst c') = sub_kick_reason (fst c)"
proof -
  have "close_inv rs (Subscriber i f cap, replicate (length rs) 0)"
    by (auto simp: close_inv_def Subscriber_def Subscriber_IsClosed_def SendQueue_new_def)
  then have inv: "close_inv rs c" using close_run_inv assms(1,2) by blast
  then have "sub_kick_reason (fst c) \<noteq> kNone" using assms(3) by (auto simp: close_inv_def)
  then show ?thesis
    using inv close_run_reason_stable [OF assms(4)] by (auto simp: close_inv_def)
qed

lemma close_reason_published_first_example:
  "let c = (close_set_flag (close_cas_reason kShutdown (Subscriber [] \<lparr>sf_tiers = {},
              sf_event_name_globs = [], sf_subclass_globs = [], sf_node_id = []\<rparr> 1)), [0, 2])
   in Subscriber_IsClosed (fst c) \<and> sub_kick_reason (fst c) \<in> set [kQueueFull, kShutdown]"
proof -
  let ?rs = "[kQueueFull, kShutdown]"
  let ?s = "Subscriber [] \<lparr>sf_tiers = {}, sf_event_name_globs = [], sf_subclass_globs = [],
              sf_node_id = []\<rparr> 1"
  let ?c = "(close_set_flag (close_cas_reason kShutdown ?s), [0, 2])"
  have "close_run ?rs (?s, [0, 0]) (close_cas_reason kShutdown ?s, [0, 1])"
    using cr_step [OF cr_start cs_cas [of 1 "[0, 0]" ?rs ?s]] by simp
  then have r: "close_run ?rs (?s, replicate (length ?rs) 0) ?c"
    using cr_step [OF _ cs_flag [of 1 "[0, 1]" ?rs "close_cas_reason kShutdown ?s"]] by (simp add: numeral_2_eq_2)
  have cl: "Subscriber_IsClosed (fst ?c)"
    by (simp add: close_set_flag_def Subscriber_IsClosed_def)
  have "sub_kick_reason (fst ?c) \<in> set ?rs"
    using close_reason_published_first [OF r _ cl cr_start] by simp
  with cl show ?thesis by (simp add: Let_def)
qed

end
