(* ===== verification/Event_Broadcaster.thy ===== *)
theory Event_Broadcaster
  imports Event_RingSet Event_Routing Event_Subscriber
begin

text \<open>
  The broadcaster of \<^verbatim>\<open>src/events/subscribe/broadcaster.cc\<close>: one worker per tier pops batches
  from its ring and offers every entry to every subscriber of a roster snapshot. Subscribers are
  shared objects (\<^verbatim>\<open>shared_ptr<Subscriber>\<close> held by the roster, by roster snapshots and by the
  RPC handler), so they live in a heap and the roster is a list of addresses; a null pointer is
  an address with no object.
\<close>

section \<open>State\<close>

type_synonym addr = nat

record broadcaster =
  bc_heap :: "addr \<rightharpoonup> subscriber"
  bc_roster :: "addr list"
  bc_kick_counters :: "kick_reason \<Rightarrow> u64"
  bc_total_dispatched :: u64
  bc_running :: bool
  bc_stop_requested :: bool
  bc_health_subscribers :: "u32 option"   \<comment> \<open>the count last set on \<^verbatim>\<open>health_\<close>; None: no health object\<close>

definition kBatchMax :: nat where
  "kBatchMax = 64"

definition Broadcaster_new :: "(addr \<rightharpoonup> subscriber) \<Rightarrow> u32 option \<Rightarrow> broadcaster" where
  "Broadcaster_new heap health =
     \<lparr>bc_heap = heap, bc_roster = [], bc_kick_counters = (\<lambda>_. 0), bc_total_dispatched = 0,
      bc_running = False, bc_stop_requested = False, bc_health_subscribers = health\<rparr>"

section \<open>The roster\<close>

definition set_subscriber_count :: "broadcaster \<Rightarrow> broadcaster" where
  "set_subscriber_count b =
     b\<lparr>bc_health_subscribers := map_option (\<lambda>_. of_nat (length (bc_roster b))) (bc_health_subscribers b)\<rparr>"

definition AddSubscriber :: "addr \<Rightarrow> broadcaster \<Rightarrow> broadcaster" where
  "AddSubscriber a b =
     (if bc_heap b a = None then b
      else set_subscriber_count (b\<lparr>bc_roster := bc_roster b @ [a]\<rparr>))"

text \<open>
  The replay closure runs under the roster mutex and writes the subscriber; \<open>None\<close> is an
  empty \<^verbatim>\<open>std::function\<close>.
\<close>

definition AddSubscriberAtomic ::
  "addr \<Rightarrow> (subscriber \<Rightarrow> subscriber) option \<Rightarrow> broadcaster \<Rightarrow> broadcaster" where
  "AddSubscriberAtomic a replay_fn b =
     (case bc_heap b a of
        None \<Rightarrow> b
      | Some s \<Rightarrow>
          (let b1 = (case replay_fn of
                       None \<Rightarrow> b
                     | Some f \<Rightarrow> b\<lparr>bc_heap := (bc_heap b)(a \<mapsto> f s)\<rparr>)
           in set_subscriber_count (b1\<lparr>bc_roster := bc_roster b1 @ [a]\<rparr>)))"

definition has_id :: "broadcaster \<Rightarrow> string \<Rightarrow> addr \<Rightarrow> bool" where
  "has_id b i a = (case bc_heap b a of None \<Rightarrow> False | Some s \<Rightarrow> sub_id s = i)"

definition RemoveSubscriber :: "string \<Rightarrow> broadcaster \<Rightarrow> broadcaster" where
  "RemoveSubscriber i b =
     set_subscriber_count (b\<lparr>bc_roster := filter (\<lambda>a. \<not> has_id b i a) (bc_roster b)\<rparr>)"

definition SubscriberCount :: "broadcaster \<Rightarrow> nat" where
  "SubscriberCount b = length (bc_roster b)"

definition RosterSnapshot :: "broadcaster \<Rightarrow> addr list" where
  "RosterSnapshot b = bc_roster b"

section \<open>Dispatch\<close>

definition effective_tier :: "tier \<Rightarrow> routing_fields \<Rightarrow> tier" where
  "effective_tier t rf = (if t = kUnspecified then rf_tier rf else t)"

text \<open>The body of the loop over the roster.\<close>

definition dispatch_one :: "tier \<Rightarrow> routing_fields \<Rightarrow> string \<Rightarrow> addr \<Rightarrow> broadcaster \<Rightarrow> broadcaster" where
  "dispatch_one eff rf bytes a b =
     (case bc_heap b a of
        None \<Rightarrow> b
      | Some s \<Rightarrow>
          if Subscriber_IsClosed s then b
          else if \<not> Subscriber_MatchesFilter s eff (rf_event_name rf) (rf_subclass_name rf) (rf_node_id rf)
          then b
          else (case SendQueue_TryPush (sub_queue s) (Some bytes) of
                  (True, q) \<Rightarrow> b\<lparr>bc_heap := (bc_heap b)(a \<mapsto> s\<lparr>sub_queue := q\<rparr>)\<rparr>
                | (False, q) \<Rightarrow>
                    b\<lparr>bc_heap := (bc_heap b)(a \<mapsto> Subscriber_RequestClose kQueueFull (s\<lparr>sub_queue := q\<rparr>)),
                      bc_kick_counters :=
                        (bc_kick_counters b)(kQueueFull := bc_kick_counters b kQueueFull + 1)\<rparr>))"

definition Dispatch :: "tier \<Rightarrow> ring_entry \<Rightarrow> addr list \<Rightarrow> broadcaster \<Rightarrow> broadcaster" where
  "Dispatch t entry roster b =
     (case re_bytes entry of
        None \<Rightarrow> b
      | Some bytes \<Rightarrow>
          (let rf = ExtractRoutingFields bytes;
               b1 = fold (dispatch_one (effective_tier t rf) rf bytes) roster b
           in b1\<lparr>bc_total_dispatched := bc_total_dispatched b1 + 1\<rparr>))"

section \<open>Workers, start and stop\<close>

text \<open>
  One turn of the worker loop on a batch: snapshot the roster, dispatch the entries in order.
\<close>

definition dispatch_batch :: "tier \<Rightarrow> ring_entry list \<Rightarrow> broadcaster \<Rightarrow> broadcaster" where
  "dispatch_batch t batch b =
     (let roster = RosterSnapshot b in fold (\<lambda>e. Dispatch t e roster) batch b)"

text \<open>
  The loop. Each element of the first list is what the other threads do while this iteration
  waits on its ring; the result is None while the loop has not returned after that many
  iterations. The body reads the flags and the ring in the source's order.
\<close>

fun WorkerLoop ::
  "(ring_set \<times> broadcaster \<Rightarrow> ring_set \<times> broadcaster) list \<Rightarrow> tier \<Rightarrow> ring_set \<times> broadcaster
     \<Rightarrow> (ring_set \<times> broadcaster) option" where
  "WorkerLoop [] t (rs, b) = None"
| "WorkerLoop (env # envs) t (rs, b) =
     (if RingSet_Get rs t = None then Some (rs, b)
      else if bc_stop_requested b then Some (rs, b)
      else (case env (rs, b) of
        (rs1, b1) \<Rightarrow>
          (case rs_pop_batch t kBatchMax rs1 of
            (batch, rs2) \<Rightarrow>
              if batch = [] then
                (case RingSet_Get rs2 t of
                   None \<Rightarrow> Some (rs2, b1)
                 | Some r \<Rightarrow> if ring_closed r then Some (rs2, b1) else WorkerLoop envs t (rs2, b1))
              else WorkerLoop envs t (rs2, dispatch_batch t batch b1))))"

definition Broadcaster_Start :: "broadcaster \<Rightarrow> broadcaster" where
  "Broadcaster_Start b =
     (if bc_running b then b else b\<lparr>bc_running := True, bc_stop_requested := False\<rparr>)"

text \<open>
  \<open>join\<close> is the effect of the three worker loops running to their end once the rings are
  closed and the stop flag is up.
\<close>

definition close_address :: "addr \<Rightarrow> (addr \<rightharpoonup> subscriber) \<Rightarrow> (addr \<rightharpoonup> subscriber)" where
  "close_address a h = (case h a of None \<Rightarrow> h | Some s \<Rightarrow> h(a \<mapsto> Subscriber_RequestClose kShutdown s))"

definition Broadcaster_Stop ::
  "(ring_set \<times> broadcaster \<Rightarrow> ring_set \<times> broadcaster) \<Rightarrow> ring_set \<times> broadcaster \<Rightarrow> ring_set \<times> broadcaster" where
  "Broadcaster_Stop join rb =
     (case rb of (rs, b) \<Rightarrow>
        if \<not> bc_running b then (rs, b)
        else (case join (RingSet_CloseAll rs, b\<lparr>bc_stop_requested := True\<rparr>) of
          (rs1, b1) \<Rightarrow>
            (rs1, b1\<lparr>bc_running := False, bc_heap := fold close_address (bc_roster b1) (bc_heap b1)\<rparr>)))"

definition KicksForReason :: "broadcaster \<Rightarrow> kick_reason \<Rightarrow> u64" where
  "KicksForReason b r = bc_kick_counters b r"

section \<open>Lemmas on dispatch\<close>

definition entry_matches :: "tier \<Rightarrow> ring_entry \<Rightarrow> subscriber \<Rightarrow> bool" where
  "entry_matches t e s =
     (case re_bytes e of
        None \<Rightarrow> False
      | Some bytes \<Rightarrow>
          (let rf = ExtractRoutingFields bytes
           in Subscriber_MatchesFilter s (effective_tier t rf) (rf_event_name rf) (rf_subclass_name rf)
                (rf_node_id rf)))"

text \<open>What offering one entry does to one subscriber.\<close>

definition offer :: "tier \<Rightarrow> ring_entry \<Rightarrow> subscriber \<Rightarrow> subscriber" where
  "offer t e s =
     (if Subscriber_IsClosed s \<or> \<not> entry_matches t e s then s
      else if length (sq_q (sub_queue s)) < sq_capacity (sub_queue s)
      then s\<lparr>sub_queue := (sub_queue s)\<lparr>sq_q := sq_q (sub_queue s) @ [re_bytes e]\<rparr>\<rparr>
      else Subscriber_RequestClose kQueueFull s)"

lemma dispatch_one_heap:
  assumes "re_bytes e = Some bytes" and "rf = ExtractRoutingFields bytes"
  shows "bc_heap (dispatch_one (effective_tier t rf) rf bytes a b) x
           = (if x = a then map_option (offer t e) (bc_heap b a) else bc_heap b x)"
  using assms
  by (auto simp: dispatch_one_def offer_def entry_matches_def SendQueue_TryPush_def
      Subscriber_IsClosed_def Let_def split: option.splits if_splits)

lemma dispatch_one_frame [simp]:
  "bc_roster (dispatch_one eff rf bytes a b) = bc_roster b"
  "bc_stop_requested (dispatch_one eff rf bytes a b) = bc_stop_requested b"
  "bc_running (dispatch_one eff rf bytes a b) = bc_running b"
  "bc_total_dispatched (dispatch_one eff rf bytes a b) = bc_total_dispatched b"
  "bc_health_subscribers (dispatch_one eff rf bytes a b) = bc_health_subscribers b"
  by (auto simp: dispatch_one_def split: option.splits prod.splits bool.splits)

lemma fold_dispatch_one_frame [simp]:
  "bc_roster (fold (dispatch_one eff rf bytes) as b) = bc_roster b"
  "bc_stop_requested (fold (dispatch_one eff rf bytes) as b) = bc_stop_requested b"
  "bc_running (fold (dispatch_one eff rf bytes) as b) = bc_running b"
  "bc_total_dispatched (fold (dispatch_one eff rf bytes) as b) = bc_total_dispatched b"
  "bc_health_subscribers (fold (dispatch_one eff rf bytes) as b) = bc_health_subscribers b"
  by (induction as arbitrary: b) auto

lemma Dispatch_frame [simp]:
  "bc_roster (Dispatch t e as b) = bc_roster b"
  "bc_stop_requested (Dispatch t e as b) = bc_stop_requested b"
  "bc_running (Dispatch t e as b) = bc_running b"
  "bc_health_subscribers (Dispatch t e as b) = bc_health_subscribers b"
  by (auto simp: Dispatch_def Let_def split: option.splits)

lemma fold_dispatch_one_heap:
  assumes "re_bytes e = Some bytes" and "rf = ExtractRoutingFields bytes" and "distinct as"
  shows "bc_heap (fold (dispatch_one (effective_tier t rf) rf bytes) as b) x
           = (if x \<in> set as then map_option (offer t e) (bc_heap b x) else bc_heap b x)"
  using assms(3)
proof (induction as arbitrary: b)
  case (Cons a as)
  then show ?case
    by (simp add: dispatch_one_heap [OF assms(1,2)])
qed simp

lemma Dispatch_heap:
  assumes "distinct as"
  shows "bc_heap (Dispatch t e as b) x
           = (if x \<in> set as then map_option (offer t e) (bc_heap b x) else bc_heap b x)"
proof (cases "re_bytes e")
  case None
  then show ?thesis by (cases "bc_heap b x") (simp_all add: Dispatch_def offer_def entry_matches_def)
next
  case (Some bytes)
  then show ?thesis
    using fold_dispatch_one_heap [OF Some refl assms, of t b x] by (simp add: Dispatch_def Let_def)
qed

text \<open>Who is kicked by one entry.\<close>

definition overflows :: "tier \<Rightarrow> ring_entry \<Rightarrow> subscriber \<Rightarrow> bool" where
  "overflows t e s \<longleftrightarrow>
     \<not> Subscriber_IsClosed s \<and> entry_matches t e s
     \<and> sq_capacity (sub_queue s) \<le> length (sq_q (sub_queue s))"

definition kicked :: "tier \<Rightarrow> ring_entry \<Rightarrow> (addr \<rightharpoonup> subscriber) \<Rightarrow> addr list \<Rightarrow> addr list" where
  "kicked t e h as =
     filter (\<lambda>a. case h a of None \<Rightarrow> False | Some s \<Rightarrow> overflows t e s) as"

lemma dispatch_one_kicks:
  assumes "re_bytes e = Some bytes" and "rf = ExtractRoutingFields bytes"
  shows "bc_kick_counters (dispatch_one (effective_tier t rf) rf bytes a b) =
           (bc_kick_counters b)(kQueueFull :=
              bc_kick_counters b kQueueFull + of_nat (length (kicked t e (bc_heap b) [a])))"
  using assms
  by (auto simp: dispatch_one_def kicked_def overflows_def entry_matches_def SendQueue_TryPush_def
      Subscriber_IsClosed_def Let_def split: option.splits)

lemma kicked_cong:
  "(\<And>a. a \<in> set as \<Longrightarrow> h a = h' a) \<Longrightarrow> kicked t e h as = kicked t e h' as"
  by (auto simp: kicked_def intro: filter_cong)

lemma kicked_Cons: "kicked t e h (a # as) = kicked t e h [a] @ kicked t e h as"
  by (simp add: kicked_def)

lemma fold_dispatch_one_kicks:
  assumes "re_bytes e = Some bytes" and "rf = ExtractRoutingFields bytes" and "distinct as"
  shows "bc_kick_counters (fold (dispatch_one (effective_tier t rf) rf bytes) as b) =
           (bc_kick_counters b)(kQueueFull :=
              bc_kick_counters b kQueueFull + of_nat (length (kicked t e (bc_heap b) as)))"
  using assms(3)
proof (induction as arbitrary: b)
  case Nil
  then show ?case by (simp add: kicked_def)
next
  case (Cons a as)
  let ?b = "dispatch_one (effective_tier t rf) rf bytes a b"
  have "kicked t e (bc_heap ?b) as = kicked t e (bc_heap b) as"
    using Cons.prems by (intro kicked_cong) (auto simp: dispatch_one_heap [OF assms(1,2)])
  moreover have "bc_kick_counters (fold (dispatch_one (effective_tier t rf) rf bytes) as ?b) =
      (bc_kick_counters ?b)(kQueueFull :=
         bc_kick_counters ?b kQueueFull + of_nat (length (kicked t e (bc_heap ?b) as)))"
    using Cons.prems by (intro Cons.IH) simp
  moreover have "kicked t e (bc_heap b) (a # as) = kicked t e (bc_heap b) [a] @ kicked t e (bc_heap b) as"
    by (rule kicked_Cons)
  ultimately show ?case
    using dispatch_one_kicks [OF assms(1,2), of t a b] by (simp add: add.assoc)
qed

lemma Dispatch_kicks:
  assumes "distinct as"
  shows "bc_kick_counters (Dispatch t e as b) =
           (bc_kick_counters b)(kQueueFull :=
              bc_kick_counters b kQueueFull + of_nat (length (kicked t e (bc_heap b) as)))"
proof (cases "re_bytes e")
  case None
  then have "kicked t e (bc_heap b) as = []"
    by (auto simp: kicked_def overflows_def entry_matches_def filter_empty_conv split: option.splits)
  with None show ?thesis by (simp add: Dispatch_def)
next
  case (Some bytes)
  then show ?thesis
    using fold_dispatch_one_kicks [OF Some refl assms, of t b] by (simp add: Dispatch_def Let_def)
qed

section \<open>Properties of dispatch\<close>

definition demo_subscriber :: "string \<Rightarrow> nat \<Rightarrow> subscriber" where
  "demo_subscriber i cap =
     Subscriber i \<lparr>sf_tiers = {}, sf_event_name_globs = [], sf_subclass_globs = [], sf_node_id = []\<rparr> cap"

definition demo_bcast :: broadcaster where
  "demo_bcast =
     (Broadcaster_new [0 \<mapsto> demo_subscriber ''a'' 1, 1 \<mapsto> demo_subscriber ''b'' 2] (Some 0))
       \<lparr>bc_roster := [0, 1], bc_running := True\<rparr>"

text \<open>
  C13. One entry is offered to every subscriber of the snapshot independently of the others: an
  open subscriber whose filter accepts the entry either has the bytes appended at the tail of its
  queue or, when that queue is full, is closed with the queue left as it was; every other object
  is untouched, so a slow subscriber costs nobody else an event. The queue-full counter grows by
  exactly the number of subscribers kicked and no other counter moves.
\<close>

theorem dispatch_isolates_subscribers:
  assumes "distinct roster"
  shows "bc_heap (Dispatch t e roster b) =
           (\<lambda>a. if a \<in> set roster then map_option (offer t e) (bc_heap b a) else bc_heap b a)
       \<and> (\<forall>r. KicksForReason (Dispatch t e roster b) r =
           KicksForReason b r
             + (if r = kQueueFull then of_nat (length (kicked t e (bc_heap b) roster)) else 0))"
  using assms by (auto simp: KicksForReason_def Dispatch_heap Dispatch_kicks)

theorem dispatch_isolates_subscribers_witness:
  "distinct [0, 1 :: addr]
   \<and> bc_heap (Dispatch k1Critical (entry_n 1) [0, 1] demo_bcast) 0
       = map_option (offer k1Critical (entry_n 1)) (bc_heap demo_bcast 0)
   \<and> KicksForReason (Dispatch k1Critical (entry_n 1) [0, 1] demo_bcast) kShutdown = 0"
  using dispatch_isolates_subscribers [of "[0, 1]" k1Critical "entry_n 1" demo_bcast]
  by (simp add: demo_bcast_def Broadcaster_new_def KicksForReason_def)

section \<open>The worker loop drains a closed ring\<close>

lemma rs_pop_batch_fst:
  "RingSet_Get rs t = Some r \<Longrightarrow> fst (rs_pop_batch t m rs) = take m (ring_q r)"
  by (simp add: rs_pop_batch_def Ring_WaitAndPopBatch_id split: prod.splits)

lemma fold_Dispatch_frame [simp]:
  "bc_roster (fold (\<lambda>e. Dispatch t e as) es b) = bc_roster b"
  "bc_stop_requested (fold (\<lambda>e. Dispatch t e as) es b) = bc_stop_requested b"
  by (induction es arbitrary: b) auto

lemma dispatch_batch_append:
  "dispatch_batch t (es @ es') b = dispatch_batch t es' (dispatch_batch t es b)"
  by (simp add: dispatch_batch_def RosterSnapshot_def Let_def)

lemma dispatch_batch_stop [simp]:
  "bc_stop_requested (dispatch_batch t es b) = bc_stop_requested b"
  by (simp add: dispatch_batch_def Let_def)

lemma WorkerLoop_drain:
  assumes "RingSet_Get rs t = Some r" and "ring_closed r" and "\<not> bc_stop_requested b"
    and "length (ring_q r) \<le> kBatchMax * n"
  shows "\<exists>rs'. WorkerLoop (replicate (Suc n) id) t (rs, b) = Some (rs', dispatch_batch t (ring_q r) b)
               \<and> RingSet_Get rs' t = Some (r\<lparr>ring_q := []\<rparr>)
               \<and> (\<forall>u. u \<noteq> t \<longrightarrow> RingSet_Get rs' u = RingSet_Get rs u)"
  using assms
proof (induction n arbitrary: rs r b)
  case 0
  moreover obtain out rs2 where pop: "rs_pop_batch t kBatchMax rs = (out, rs2)" by fastforce
  ultimately show ?case
    using rs_pop_batch_fst [of rs t r kBatchMax] rs_pop_batch_Get [of t kBatchMax rs]
    by (auto simp: dispatch_batch_def Let_def)
next
  case (Suc n)
  obtain out rs2 where pop: "rs_pop_batch t kBatchMax rs = (out, rs2)" by fastforce
  let ?r2 = "r\<lparr>ring_q := drop kBatchMax (ring_q r)\<rparr>"
  have out: "out = take kBatchMax (ring_q r)"
    using rs_pop_batch_fst [OF Suc.prems(1), of kBatchMax] pop by simp
  have get: "RingSet_Get rs2 u = (if t = u then Some ?r2 else RingSet_Get rs u)" for u
    using rs_pop_batch_Get [of t kBatchMax rs u] pop Suc.prems(1) by auto
  show ?case
  proof (cases "out = []")
    case True
    then have "ring_q r = []" using out by (simp add: kBatchMax_def)
    then show ?thesis
      using pop True get Suc.prems by (auto simp: dispatch_batch_def Let_def)
  next
    case False
    have *: "\<exists>rs'. WorkerLoop (replicate (Suc n) id) t (rs2, dispatch_batch t out b)
                = Some (rs', dispatch_batch t (ring_q ?r2) (dispatch_batch t out b))
              \<and> RingSet_Get rs' t = Some (?r2\<lparr>ring_q := []\<rparr>)
              \<and> (\<forall>u. u \<noteq> t \<longrightarrow> RingSet_Get rs' u = RingSet_Get rs2 u)"
      using Suc.prems get by (intro Suc.IH) auto
    have "dispatch_batch t (ring_q ?r2) (dispatch_batch t out b) = dispatch_batch t (ring_q r) b"
      by (simp add: out dispatch_batch_append [symmetric])
    moreover have "WorkerLoop (replicate (Suc (Suc n)) id) t (rs, b)
                     = WorkerLoop (replicate (Suc n) id) t (rs2, dispatch_batch t out b)"
      using pop False Suc.prems by simp
    moreover obtain rs' where "WorkerLoop (replicate (Suc n) id) t (rs2, dispatch_batch t out b)
                = Some (rs', dispatch_batch t (ring_q ?r2) (dispatch_batch t out b))"
      "RingSet_Get rs' t = Some (r\<lparr>ring_q := []\<rparr>)"
      "\<forall>u. u \<noteq> t \<longrightarrow> RingSet_Get rs' u = RingSet_Get rs u"
      using * by (auto simp: get simp del: WorkerLoop.simps)
    ultimately show ?thesis by metis
  qed
qed

text \<open>
  A worker whose ring has been closed, with no stop request, returns: for a backlog of \<open>n\<close>
  batches of 64 it needs at most \<open>n + 1\<close> iterations. It leaves its ring empty and the other rings
  alone, and has dispatched the whole backlog, oldest entry first, as one sequence of dispatches.
\<close>

lemma worker_drains_closed_ring:
  assumes "RingSet_Get rs t = Some r" and "ring_closed r" and "\<not> bc_stop_requested b"
    and "length (ring_q r) \<le> kBatchMax * n"
  shows "\<exists>rs'. WorkerLoop (replicate (Suc n) id) t (rs, b)
                 = Some (rs', fold (\<lambda>e. Dispatch t e (bc_roster b)) (ring_q r) b)
               \<and> RingSet_Get rs' t = Some (r\<lparr>ring_q := []\<rparr>)
               \<and> (\<forall>u. u \<noteq> t \<longrightarrow> RingSet_Get rs' u = RingSet_Get rs u)"
  using WorkerLoop_drain [OF assms] by (simp add: dispatch_batch_def RosterSnapshot_def Let_def)

definition demo_closed_rings :: ring_set where
  "demo_closed_rings = RingSet_CloseAll (rs_push k1Critical (entry_n 1) (RingSet_new 4 4 4))"

lemma worker_drains_closed_ring_example:
  "\<exists>r rs'. RingSet_Get demo_closed_rings k1Critical = Some r \<and> ring_q r = [entry_n 1]
     \<and> WorkerLoop (replicate (Suc 1) id) k1Critical (demo_closed_rings, demo_bcast)
         = Some (rs', Dispatch k1Critical (entry_n 1) [0, 1] demo_bcast)"
proof -
  let ?r = "rs_tier1 demo_closed_rings"
  have q: "RingSet_Get demo_closed_rings k1Critical = Some ?r" "ring_closed ?r" "ring_q ?r = [entry_n 1]"
    by (simp_all add: demo_closed_rings_def RingSet_CloseAll_def RingSet_NotifyDrainTransition_def
        rs_push_def RingSet_new_def RingSet_Get_def RingSet_put_def Ring_new_def Ring_Push_def
        Ring_Close_def Ring_SetDrainNotifier_def)
  moreover have "\<not> bc_stop_requested demo_bcast" "bc_roster demo_bcast = [0, 1]"
    by (simp_all add: demo_bcast_def Broadcaster_new_def)
  ultimately show ?thesis
    using worker_drains_closed_ring [of demo_closed_rings k1Critical ?r demo_bcast 1]
    by (auto simp: kBatchMax_def simp del: WorkerLoop.simps replicate.simps)
qed

section \<open>Stopping the broadcaster\<close>

lemma close_address_at:
  "close_address a h x = (if x = a then map_option (Subscriber_RequestClose kShutdown) (h a) else h x)"
  by (simp add: close_address_def split: option.split)

lemma RequestClose_idem:
  "Subscriber_RequestClose r (Subscriber_RequestClose r s) = Subscriber_RequestClose r s"
  by (simp add: Subscriber_RequestClose_def close_cas_reason_def close_set_flag_def close_queue_def
      SendQueue_Close_def)

lemma fold_close_address:
  "fold close_address as h x =
     (if x \<in> set as then map_option (Subscriber_RequestClose kShutdown) (h x) else h x)"
proof (induction as arbitrary: h)
  case (Cons a as)
  then show ?case
    by (cases "h x") (auto simp: close_address_at RequestClose_idem)
qed simp

text \<open>
  After \<open>Stop\<close> on a running broadcaster every subscriber in the roster the workers left is
  closed, and its reason is \<open>kShutdown\<close> unless an earlier request had already recorded one; no
  queued event is discarded by the close. A second \<open>Stop\<close> changes nothing.
\<close>

lemma stop_closes_roster:
  assumes "bc_running b"
    and "join (RingSet_CloseAll rs, b\<lparr>bc_stop_requested := True\<rparr>) = (rs1, b1)"
    and "Broadcaster_Stop join (rs, b) = (rs2, b2)"
    and "a \<in> set (bc_roster b1)" and "bc_heap b1 a = Some s"
  shows "(\<exists>s'. bc_heap b2 a = Some s' \<and> Subscriber_IsClosed s'
           \<and> sub_kick_reason s' = (if sub_kick_reason s = kNone then kShutdown else sub_kick_reason s)
           \<and> sq_q (sub_queue s') = sq_q (sub_queue s))
         \<and> Broadcaster_Stop join' (rs2, b2) = (rs2, b2)"
  using assms
  by (auto simp: Broadcaster_Stop_def fold_close_address Subscriber_IsClosed_def
      Subscriber_RequestClose_def close_cas_reason_def close_set_flag_def close_queue_def
      SendQueue_Close_def)

lemma stop_closes_roster_example:
  "bc_running demo_bcast
   \<and> (\<exists>s'. bc_heap (snd (Broadcaster_Stop id (demo_closed_rings, demo_bcast))) 0 = Some s'
        \<and> Subscriber_IsClosed s' \<and> sub_kick_reason s' = kShutdown)"
proof -
  let ?b = "demo_bcast\<lparr>bc_stop_requested := True\<rparr>"
  obtain rs2 b2 where stop: "Broadcaster_Stop id (demo_closed_rings, demo_bcast) = (rs2, b2)"
    by fastforce
  have "bc_running demo_bcast" "0 \<in> set (bc_roster ?b)"
    "bc_heap ?b 0 = Some (demo_subscriber ''a'' 1)"
    "sub_kick_reason (demo_subscriber ''a'' 1) = kNone"
    by (simp_all add: demo_bcast_def Broadcaster_new_def demo_subscriber_def Subscriber_def)
  then show ?thesis
    using stop_closes_roster [OF _ id_apply stop, of 0 "demo_subscriber ''a'' 1"] stop by auto
qed

end
