(* ===== verification/Event_Subscribe.thy ===== *)
theory Event_Subscribe
  imports Event_Broadcaster
begin

text \<open>
  The streaming RPC of \<^verbatim>\<open>src/control/handlers/subscribe_events_handler.cc\<close>: parsing of the
  request's filter, replay of the rings into a new subscriber's queue, the writer loop and the
  handler that composes them. Protobuf parsing of an envelope is the parameter \<open>parse\<close>; the gRPC
  context and writer are the per-iteration answers of \<open>IsCancelled\<close> and \<open>Write\<close>.
\<close>

section \<open>The request\<close>

record subscribe_request =
  rq_tiers :: "string list"
  rq_event_names :: "string list"
  rq_since_seq :: u64
  rq_node_id :: string
  rq_subclass_globs :: "string list"

definition ParseTierString :: "string \<Rightarrow> tier option" where
  "ParseTierString s =
     (if s = ''1'' \<or> s = ''tier1'' \<or> s = ''TIER_1_CRITICAL'' \<or> s = ''tier_1_critical''
      then Some k1Critical
      else if s = ''2'' \<or> s = ''tier2'' \<or> s = ''TIER_2_STATE'' \<or> s = ''tier_2_state''
      then Some k2State
      else if s = ''3'' \<or> s = ''tier3'' \<or> s = ''TIER_3_EPHEMERAL'' \<or> s = ''tier_3_ephemeral''
      then Some k3Ephemeral
      else None)"

record filter_result =
  fr_filter :: subscriber_filter
  fr_replay_tiers :: "tier list"
  fr_ok :: bool
  fr_error :: string

definition no_valid_tier_error :: string where
  "no_valid_tier_error =
     ''no valid tier in `tiers`; allowed values: TIER_1_CRITICAL/TIER_2_STATE/TIER_3_EPHEMERAL ''
       @ ''(also 1/2/3 or tier1/tier2/tier3)''"

text \<open>The loop over \<open>req.tiers()\<close>: the tier set of the filter and the tiers to replay.\<close>

fun build_tiers :: "string list \<Rightarrow> tier set \<times> tier list \<Rightarrow> tier set \<times> tier list" where
  "build_tiers [] acc = acc"
| "build_tiers (s # ss) (ts, replay) =
     (case ParseTierString s of
        Some t \<Rightarrow> build_tiers ss (insert t ts, replay @ [t])
      | None \<Rightarrow> build_tiers ss (ts, replay))"

definition BuildFilter :: "subscribe_request \<Rightarrow> filter_result" where
  "BuildFilter req =
     (let tiers_requested = (0 < length (rq_tiers req))
      in case build_tiers (rq_tiers req) ({}, []) of
        (ts, replay) \<Rightarrow>
          if tiers_requested \<and> replay = [] then
            \<lparr>fr_filter = \<lparr>sf_tiers = ts, sf_event_name_globs = [], sf_subclass_globs = [], sf_node_id = []\<rparr>,
             fr_replay_tiers = [], fr_ok = False, fr_error = no_valid_tier_error\<rparr>
          else
            \<lparr>fr_filter = \<lparr>sf_tiers = ts, sf_event_name_globs = rq_event_names req,
                          sf_subclass_globs = rq_subclass_globs req, sf_node_id = rq_node_id req\<rparr>,
             fr_replay_tiers = (if replay = [] then [k1Critical, k2State, k3Ephemeral] else replay),
             fr_ok = True, fr_error = []\<rparr>)"

definition KickReasonToStatus :: "kick_reason \<Rightarrow> string \<Rightarrow> grpc_status" where
  "KickReasonToStatus r detail = (case r of
     kQueueFull \<Rightarrow> (RESOURCE_EXHAUSTED, ''subscriber kicked: queue full ('' @ detail @ '')'')
   | kReplayEvicted \<Rightarrow> (RESOURCE_EXHAUSTED, ''since_seq outside replay window'')
   | kShutdown \<Rightarrow> Status_OK
   | kClientCancelled \<Rightarrow> Status_OK
   | kNone \<Rightarrow> Status_OK)"

section \<open>Replay\<close>

text \<open>The loop over the entries of one tier's snapshot; False on a full queue.\<close>

fun replay_entries :: "tier \<Rightarrow> ring_entry list \<Rightarrow> subscriber \<Rightarrow> bool \<times> subscriber" where
  "replay_entries t [] sub = (True, sub)"
| "replay_entries t (entry # es) sub =
     (case re_bytes entry of
        None \<Rightarrow> replay_entries t es sub
      | Some bytes \<Rightarrow>
          (let rf = ExtractRoutingFields bytes
           in if \<not> Subscriber_MatchesFilter sub (effective_tier t rf) (rf_event_name rf)
                     (rf_subclass_name rf) (rf_node_id rf)
              then replay_entries t es sub
              else (case SendQueue_TryPush (sub_queue sub) (Some bytes) of
                      (True, q) \<Rightarrow> replay_entries t es (sub\<lparr>sub_queue := q\<rparr>)
                    | (False, q) \<Rightarrow>
                        (False, Subscriber_RequestClose kQueueFull (sub\<lparr>sub_queue := q\<rparr>)))))"

fun replay_tiers_loop :: "ring_set \<Rightarrow> tier list \<Rightarrow> u64 \<Rightarrow> subscriber \<Rightarrow> bool \<times> subscriber" where
  "replay_tiers_loop rings [] since_seq sub = (True, sub)"
| "replay_tiers_loop rings (t # ts) since_seq sub =
     (case RingSet_Get rings t of
        None \<Rightarrow> replay_tiers_loop rings ts since_seq sub
      | Some ring \<Rightarrow>
          (let snap = Ring_SnapshotFromSeq ring since_seq
           in if \<not> found_in_window snap
              then (False, Subscriber_RequestClose kReplayEvicted sub)
              else (case replay_entries t (snap_entries snap) sub of
                      (True, sub') \<Rightarrow> replay_tiers_loop rings ts since_seq sub'
                    | (False, sub') \<Rightarrow> (False, sub'))))"

definition ReplaySinceSeq ::
  "ring_set option \<Rightarrow> tier list \<Rightarrow> u64 \<Rightarrow> subscriber \<Rightarrow> bool \<times> subscriber" where
  "ReplaySinceSeq rings replay_tiers since_seq sub =
     (case rings of
        None \<Rightarrow> (True, sub)
      | Some rs \<Rightarrow> replay_tiers_loop rs replay_tiers since_seq sub)"

section \<open>The writer loop\<close>

text \<open>
  One iteration's environment: the answer of \<open>IsCancelled\<close>, what the other threads do to the
  shared state before the pop returns, and the answer of \<open>Write\<close>.
\<close>

record writer_env =
  we_cancelled :: bool
  we_others :: "broadcaster \<Rightarrow> broadcaster"
  we_write_ok :: bool

definition put_sub :: "addr \<Rightarrow> subscriber \<Rightarrow> broadcaster \<Rightarrow> broadcaster" where
  "put_sub a s b = b\<lparr>bc_heap := (bc_heap b)(a \<mapsto> s)\<rparr>"

text \<open>
  The result is the envelopes handed to a successful \<open>Write\<close> and the final state; None while the
  loop has not returned after the given iterations. The subscriber is the handler's own shared
  pointer, so the object at \<open>a\<close> exists throughout.
\<close>

fun WriterLoop ::
  "writer_env list \<Rightarrow> (string \<Rightarrow> 'e option) \<Rightarrow> addr \<Rightarrow> broadcaster \<Rightarrow> ('e list \<times> broadcaster) option" where
  "WriterLoop [] parse a b = None"
| "WriterLoop (w # ws) parse a b =
     (if we_cancelled w
      then Some ([], put_sub a (Subscriber_RequestClose kClientCancelled (the (bc_heap b a))) b)
      else
        (let b1 = we_others w b; sub = the (bc_heap b1 a)
         in case SendQueue_WaitAndPop id (sub_queue sub) of
              (None, q) \<Rightarrow>
                if Subscriber_IsClosed sub then Some ([], b1) else WriterLoop ws parse a b1
            | (Some bytes, q) \<Rightarrow>
                (let sub' = sub\<lparr>sub_queue := q\<rparr>; b2 = put_sub a sub' b1
                 in case bytes of
                      None \<Rightarrow> WriterLoop ws parse a b2
                    | Some bs \<Rightarrow>
                        (case parse bs of
                           None \<Rightarrow> WriterLoop ws parse a b2
                         | Some env \<Rightarrow>
                             if \<not> we_write_ok w
                             then Some ([], put_sub a (Subscriber_RequestClose kClientCancelled sub') b2)
                             else map_option (\<lambda>(out, b3). (env # out, b3)) (WriterLoop ws parse a b2)))))"

section \<open>The handler\<close>

text \<open>
  The members of the service that \<open>SetEventPlane\<close> installs, the requests and the audit records.
  The new subscriber's id is the string \<open>GenerateSubscriberId\<close> produced; its address is fresh.
\<close>

record event_plane_cfg =
  ep_rings :: "ring_set option"
  ep_max_subscribers :: u32
  ep_send_queue_capacity :: u32

type_synonym audit_record = "string \<times> (string \<times> string) list"

definition subscriber_queue_capacity :: "u32 \<Rightarrow> nat" where
  "subscriber_queue_capacity c = (if c = 0 then 4096 else unat c)"

text \<open>
  \<open>make_shared<Subscriber>\<close>, then the atomic replay and registration.
\<close>

definition register_subscriber ::
  "event_plane_cfg \<Rightarrow> filter_result \<Rightarrow> u64 \<Rightarrow> string \<Rightarrow> addr \<Rightarrow> broadcaster \<Rightarrow> bool \<times> broadcaster" where
  "register_subscriber cfg fr since_seq i a b =
     (let sub = Subscriber i (fr_filter fr) (subscriber_queue_capacity (ep_send_queue_capacity cfg));
          replay = (if 0 < since_seq then ReplaySinceSeq (ep_rings cfg) (fr_replay_tiers fr) since_seq
                    else (\<lambda>s. (True, s)))
      in (fst (replay sub),
          AddSubscriberAtomic a (Some (\<lambda>s. snd (replay s))) (put_sub a sub b)))"

definition disconnect_audit :: "string \<Rightarrow> kick_reason \<Rightarrow> audit_record" where
  "disconnect_audit i reason =
     ((if reason = kQueueFull \<or> reason = kReplayEvicted then ''subscriber_kicked''
       else ''subscriber_disconnected''),
      [(''subscriber_id'', i), (''reason'', KickReason_ToString reason)])"

definition SubscribeEvents ::
  "writer_env list \<Rightarrow> (string \<Rightarrow> 'e option) \<Rightarrow> string \<Rightarrow> addr \<Rightarrow> event_plane_cfg
     \<Rightarrow> subscribe_request option \<Rightarrow> bool \<Rightarrow> broadcaster option
     \<Rightarrow> (grpc_status \<times> 'e list \<times> audit_record list \<times> broadcaster option) option" where
  "SubscribeEvents ws parse i a cfg req writer bcast =
     (case req of
        None \<Rightarrow> Some ((INTERNAL, ''null request or writer''), [], [], bcast)
      | Some rq \<Rightarrow>
          if \<not> writer then Some ((INTERNAL, ''null request or writer''), [], [], bcast)
          else (case bcast of
            None \<Rightarrow> Some ((UNIMPLEMENTED, ''event plane not initialised''), [], [], bcast)
          | Some b \<Rightarrow>
              if 0 < ep_max_subscribers cfg \<and> unat (ep_max_subscribers cfg) \<le> SubscriberCount b
              then Some ((RESOURCE_EXHAUSTED, ''at max_subscribers cap''), [], [], bcast)
              else
                (let fr = BuildFilter rq
                 in if \<not> fr_ok fr then Some ((INVALID_ARGUMENT, fr_error fr), [], [], bcast)
                    else (case register_subscriber cfg fr (rq_since_seq rq) i a b of
                      (replay_ok, b1) \<Rightarrow>
                        if \<not> replay_ok
                        then Some (KickReasonToStatus (sub_kick_reason (the (bc_heap b1 a)))
                                     ''during since_seq replay'', [], [], Some (RemoveSubscriber i b1))
                        else
                          map_option
                            (\<lambda>(out, b2).
                               (let reason = sub_kick_reason (the (bc_heap b2 a))
                                in (KickReasonToStatus reason ''writer-loop exit'', out,
                                    [(''subscriber_connected'',
                                      [(''subscriber_id'', i), (''since_seq'', decimal (unat (rq_since_seq rq)))]),
                                     disconnect_audit i reason],
                                    Some (RemoveSubscriber i b2))))
                            (WriterLoop ws parse a b1)))))"

section \<open>The filter of a request\<close>

lemma build_tiers_eq:
  "build_tiers ss (ts, replay) =
     (ts \<union> {t. \<exists>s\<in>set ss. ParseTierString s = Some t}, replay @ List.map_filter ParseTierString ss)"
  by (induction ss arbitrary: ts replay) (auto simp: List.map_filter_simps split: option.splits)

lemma map_filter_Nil_iff: "List.map_filter f xs = [] \<longleftrightarrow> (\<forall>x\<in>set xs. f x = None)"
  by (induction xs) (auto simp: List.map_filter_simps split: option.splits)

lemma BuildFilter_fields:
  "fr_ok (BuildFilter req) \<longleftrightarrow> rq_tiers req = [] \<or> List.map_filter ParseTierString (rq_tiers req) \<noteq> []"
  "sf_tiers (fr_filter (BuildFilter req)) = set (List.map_filter ParseTierString (rq_tiers req))"
  "fr_ok (BuildFilter req) \<Longrightarrow> fr_replay_tiers (BuildFilter req) =
     (if rq_tiers req = [] then [k1Critical, k2State, k3Ephemeral]
      else List.map_filter ParseTierString (rq_tiers req))"
  by (auto simp: BuildFilter_def build_tiers_eq set_map_filter_iff map_filter_Nil_iff List.map_filter_simps)

lemma ParseTierString_specified: "ParseTierString s \<noteq> Some kUnspecified"
  by (simp add: ParseTierString_def)

text \<open>
  A request is accepted exactly when it names no tier or at least one tier that parses, so a
  request whose tiers are all unknown is refused and never widened to the whole stream. The tiers
  replayed on resume are exactly the tiers the accepted filter lets through on the live tail.
\<close>

lemma build_filter_never_widens:
  "(fr_ok (BuildFilter req) \<longleftrightarrow>
      rq_tiers req = [] \<or> (\<exists>s\<in>set (rq_tiers req). ParseTierString s \<noteq> None))
   \<and> sf_tiers (fr_filter (BuildFilter req)) = {t. \<exists>s\<in>set (rq_tiers req). ParseTierString s = Some t}
   \<and> (fr_ok (BuildFilter req) \<longrightarrow>
        (\<forall>t. t \<in> set (fr_replay_tiers (BuildFilter req)) \<longleftrightarrow>
             t \<noteq> kUnspecified
             \<and> (sf_tiers (fr_filter (BuildFilter req)) = {} \<or> t \<in> sf_tiers (fr_filter (BuildFilter req)))))"
proof -
  have all: "t \<in> {k1Critical, k2State, k3Ephemeral} \<longleftrightarrow> t \<noteq> kUnspecified" for t
    by (cases t) auto
  have "kUnspecified \<notin> set (List.map_filter ParseTierString (rq_tiers req))"
    using ParseTierString_specified by (auto simp: set_map_filter_iff)
  then show ?thesis
    using all by (auto simp: BuildFilter_fields map_filter_Nil_iff set_map_filter_iff List.map_filter_simps)
qed

lemma build_filter_never_widens_example:
  "\<not> fr_ok (BuildFilter \<lparr>rq_tiers = [''TIER_9''], rq_event_names = [], rq_since_seq = 0,
                         rq_node_id = [], rq_subclass_globs = []\<rparr>)"
  using build_filter_never_widens
    [of "\<lparr>rq_tiers = [''TIER_9''], rq_event_names = [], rq_since_seq = 0, rq_node_id = [], rq_subclass_globs = []\<rparr>"]
  by (simp add: ParseTierString_def)

section \<open>Replay fills the queue exactly\<close>

text \<open>What one tier contributes to a replay, and the whole replay.\<close>

definition tier_slice :: "ring_set \<Rightarrow> u64 \<Rightarrow> subscriber \<Rightarrow> tier \<Rightarrow> string option list" where
  "tier_slice rs since_seq sub t =
     (case RingSet_Get rs t of
        None \<Rightarrow> []
      | Some r \<Rightarrow> map re_bytes (filter (\<lambda>e. entry_matches t e sub) (snap_entries (Ring_SnapshotFromSeq r since_seq))))"

definition replay_slice :: "ring_set \<Rightarrow> tier list \<Rightarrow> u64 \<Rightarrow> subscriber \<Rightarrow> string option list" where
  "replay_slice rs ts since_seq sub = concat (map (tier_slice rs since_seq sub) ts)"

definition tier_in_window :: "ring_set \<Rightarrow> u64 \<Rightarrow> tier \<Rightarrow> bool" where
  "tier_in_window rs since_seq t =
     (case RingSet_Get rs t of
        None \<Rightarrow> True
      | Some r \<Rightarrow> found_in_window (Ring_SnapshotFromSeq r since_seq))"

definition enqueue_all :: "string option list \<Rightarrow> subscriber \<Rightarrow> subscriber" where
  "enqueue_all bs sub = sub\<lparr>sub_queue := (sub_queue sub)\<lparr>sq_q := sq_q (sub_queue sub) @ bs\<rparr>\<rparr>"

definition has_room :: "nat \<Rightarrow> subscriber \<Rightarrow> bool" where
  "has_room n sub \<longleftrightarrow> length (sq_q (sub_queue sub)) + n \<le> sq_capacity (sub_queue sub)"

lemma entry_matches_enqueue [simp]: "entry_matches t e (enqueue_all bs sub) = entry_matches t e sub"
  by (auto simp: entry_matches_def enqueue_all_def Subscriber_MatchesFilter_def Let_def split: option.splits)

lemma tier_slice_enqueue [simp]: "tier_slice rs n (enqueue_all bs sub) = tier_slice rs n sub"
  by (rule ext) (auto simp: tier_slice_def split: option.split)

lemma enqueue_all_simps [simp]:
  "enqueue_all [] sub = sub"
  "enqueue_all bs' (enqueue_all bs sub) = enqueue_all (bs @ bs') sub"
  "sq_closed (sub_queue (enqueue_all bs sub)) = sq_closed (sub_queue sub)"
  "sub_kick_reason (enqueue_all bs sub) = sub_kick_reason sub"
  by (simp_all add: enqueue_all_def)

lemma has_room_enqueue [simp]: "has_room n (enqueue_all bs sub) \<longleftrightarrow> has_room (length bs + n) sub"
  by (simp add: has_room_def enqueue_all_def add.assoc)

definition replay_failed :: "subscriber \<Rightarrow> subscriber \<Rightarrow> bool" where
  "replay_failed sub sub' \<longleftrightarrow>
     Subscriber_IsClosed sub'
     \<and> (sub_kick_reason sub = kNone \<longrightarrow> sub_kick_reason sub' \<in> {kQueueFull, kReplayEvicted})"

lemma replay_failed_RequestClose:
  "r \<in> {kQueueFull, kReplayEvicted} \<Longrightarrow> replay_failed sub (Subscriber_RequestClose r (enqueue_all bs sub))"
  by (auto simp: replay_failed_def Subscriber_IsClosed_def Subscriber_RequestClose_def close_cas_reason_def
      close_set_flag_def close_queue_def SendQueue_Close_def)

lemma replay_entries_eq:
  assumes "\<not> sq_closed (sub_queue sub)"
  shows "if has_room (length (filter (\<lambda>e. entry_matches t e sub) es)) sub \<or> filter (\<lambda>e. entry_matches t e sub) es = []
         then replay_entries t es sub
                = (True, enqueue_all (map re_bytes (filter (\<lambda>e. entry_matches t e sub) es)) sub)
         else \<not> fst (replay_entries t es sub) \<and> replay_failed sub (snd (replay_entries t es sub))"
  using assms
proof (induction es arbitrary: sub)
  case Nil
  then show ?case by simp
next
  case (Cons e es)
  show ?case
  proof (cases "entry_matches t e sub")
    case False
    then have "replay_entries t (e # es) sub = replay_entries t es sub"
      by (auto simp: entry_matches_def Let_def split: option.splits)
    with False Cons.IH [OF Cons.prems] show ?thesis by simp
  next
    case True
    then obtain bytes where b: "re_bytes e = Some bytes" by (auto simp: entry_matches_def split: option.splits)
    show ?thesis
    proof (cases "has_room 1 sub")
      case room: True
      have "replay_entries t (e # es) sub = replay_entries t es (enqueue_all [re_bytes e] sub)"
        using True b room Cons.prems
        by (simp add: entry_matches_def SendQueue_TryPush_def has_room_def enqueue_all_def Let_def)
      then show ?thesis
        using Cons.IH [of "enqueue_all [re_bytes e] sub"] Cons.prems True room
        by (auto simp: replay_failed_def Subscriber_IsClosed_def split: if_splits)
    next
      case False
      have "replay_entries t (e # es) sub = (False, Subscriber_RequestClose kQueueFull (enqueue_all [] sub))"
        using True b False Cons.prems
        by (simp add: entry_matches_def SendQueue_TryPush_def has_room_def enqueue_all_def Let_def)
      moreover have "\<not> has_room (Suc n) sub" for n using False by (simp add: has_room_def)
      ultimately show ?thesis
        using True replay_failed_RequestClose [of kQueueFull sub "[]"] by simp
    qed
  qed
qed

lemma replay_failed_enqueue: "replay_failed (enqueue_all bs sub) sub' \<longleftrightarrow> replay_failed sub sub'"
  by (simp add: replay_failed_def)

lemma replay_tiers_loop_eq:
  assumes "\<not> sq_closed (sub_queue sub)" and "has_room 0 sub"
  shows "if (\<forall>t\<in>set ts. tier_in_window rs n t) \<and> has_room (length (replay_slice rs ts n sub)) sub
         then replay_tiers_loop rs ts n sub = (True, enqueue_all (replay_slice rs ts n sub) sub)
         else \<not> fst (replay_tiers_loop rs ts n sub) \<and> replay_failed sub (snd (replay_tiers_loop rs ts n sub))"
  using assms
proof (induction ts arbitrary: sub)
  case Nil
  then show ?case by (simp add: replay_slice_def)
next
  case (Cons t ts)
  show ?case
  proof (cases "RingSet_Get rs t")
    case None
    then show ?thesis
      using Cons.IH [OF Cons.prems] by (simp add: tier_in_window_def replay_slice_def tier_slice_def)
  next
    case (Some r)
    let ?snap = "Ring_SnapshotFromSeq r n"
    let ?slice = "tier_slice rs n sub t"
    have slice: "?slice = map re_bytes (filter (\<lambda>e. entry_matches t e sub) (snap_entries ?snap))"
      using Some by (simp add: tier_slice_def)
    have rest: "replay_slice rs (t # ts) n sub = ?slice @ replay_slice rs ts n sub"
      by (simp add: replay_slice_def)
    have rest': "replay_slice rs ts n (enqueue_all ?slice sub) = replay_slice rs ts n sub"
      by (simp add: replay_slice_def)
    show ?thesis
    proof (cases "found_in_window ?snap")
      case False
      then show ?thesis
        using Some replay_failed_RequestClose [of kReplayEvicted sub "[]"]
        by (simp add: tier_in_window_def)
    next
      case found: True
      then have win: "tier_in_window rs n t" using Some by (simp add: tier_in_window_def)
      show ?thesis
      proof (cases "has_room (length ?slice) sub")
        case True
        then have step: "replay_tiers_loop rs (t # ts) n sub = replay_tiers_loop rs ts n (enqueue_all ?slice sub)"
          using replay_entries_eq [OF Cons.prems(1), of t "snap_entries ?snap"] Some found
          by (simp add: slice)
        show ?thesis
          using Cons.IH [of "enqueue_all ?slice sub"] Cons.prems True win
          by (auto simp: step rest rest' replay_failed_enqueue
              simp del: replay_tiers_loop.simps split: if_splits)
      next
        case False
        then have "?slice \<noteq> []" using Cons.prems by auto
        then have "\<not> fst (replay_entries t (snap_entries ?snap) sub)
                   \<and> replay_failed sub (snd (replay_entries t (snap_entries ?snap) sub))"
          using replay_entries_eq [OF Cons.prems(1), of t "snap_entries ?snap"] False by (simp add: slice)
        moreover have "\<not> has_room (length (replay_slice rs (t # ts) n sub)) sub"
          using False by (simp add: rest has_room_def)
        ultimately show ?thesis
          using Some found by (auto split: prod.splits bool.splits)
      qed
    qed
  qed
qed

text \<open>
  A replay into an open subscriber succeeds exactly when the resume point is in the window of
  every replayed tier and the matching entries fit the send queue. On success the queue has grown
  by precisely those entries, tier by tier in ring order, filtered as the live tail filters; on
  failure the subscriber is closed with a reason that the handler turns into an error.
\<close>

lemma replay_fills_queue_exactly:
  assumes "\<not> sq_closed (sub_queue sub)"
    and "length (sq_q (sub_queue sub)) \<le> sq_capacity (sub_queue sub)"
    and "ReplaySinceSeq (Some rs) ts since_seq sub = (ok, sub')"
  shows "(ok \<longleftrightarrow> (\<forall>t\<in>set ts. tier_in_window rs since_seq t)
                \<and> has_room (length (replay_slice rs ts since_seq sub)) sub)
       \<and> (ok \<longrightarrow> sub' = enqueue_all (replay_slice rs ts since_seq sub) sub)
       \<and> (\<not> ok \<longrightarrow> replay_failed sub sub')"
  using replay_tiers_loop_eq [OF assms(1), of ts rs since_seq] assms(2,3)
  by (simp add: ReplaySinceSeq_def has_room_def [of 0] split: if_splits)

definition demo_rings :: ring_set where
  "demo_rings = fold (\<lambda>n. rs_push k1Critical (entry_n n)) [1, 2, 3] (RingSet_new 4 4 4)"

lemma demo_rings_tier1: "RingSet_Get demo_rings k1Critical =
    Some \<lparr>ring_capacity = 4, ring_q = [entry_n 1, entry_n 2, entry_n 3], ring_closed = False,
          ring_drain_notifier = True, ring_max_seq = 3\<rparr>"
  by (simp add: demo_rings_def rs_push_def RingSet_new_def RingSet_Get_def RingSet_put_def Ring_new_def
      Ring_Push_def Ring_SetDrainNotifier_def entry_n_def)

lemma replay_fills_queue_exactly_example:
  "\<exists>sub'. ReplaySinceSeq (Some demo_rings) [k1Critical] 1 (demo_subscriber ''a'' 1) = (False, sub')
        \<and> replay_failed (demo_subscriber ''a'' 1) sub'"
proof -
  let ?s = "demo_subscriber ''a'' 1"
  obtain ok sub' where r: "ReplaySinceSeq (Some demo_rings) [k1Critical] 1 ?s = (ok, sub')" by fastforce
  have open_s: "\<not> sq_closed (sub_queue ?s)" "length (sq_q (sub_queue ?s)) \<le> sq_capacity (sub_queue ?s)"
    by (simp_all add: demo_subscriber_def Subscriber_def SendQueue_new_def)
  have "entry_matches k1Critical (entry_n n) ?s" for n
    by (simp add: entry_matches_def entry_n_def demo_subscriber_def Subscriber_def
        Subscriber_MatchesFilter_def Let_def)
  then have "replay_slice demo_rings [k1Critical] 1 ?s = map re_bytes [entry_n 2, entry_n 3]"
    by (simp add: replay_slice_def tier_slice_def demo_rings_tier1 Ring_SnapshotFromSeq_def Let_def)
       (simp add: entry_n_def)
  then have "\<not> has_room (length (replay_slice demo_rings [k1Critical] 1 ?s)) ?s"
    by (simp add: has_room_def demo_subscriber_def Subscriber_def SendQueue_new_def)
  with replay_fills_queue_exactly [OF open_s r] r show ?thesis by auto
qed

section \<open>The writer loop drains before it reports\<close>

text \<open>An iteration in which nobody else acts and the peer accepts the write.\<close>

definition quiet :: writer_env where
  "quiet = \<lparr>we_cancelled = False, we_others = id, we_write_ok = True\<rparr>"

lemma put_sub_put_sub [simp]: "put_sub a s (put_sub a s' b) = put_sub a s b"
  by (simp add: put_sub_def)

lemma WriterLoop_drain:
  assumes "bc_heap b a = Some s" and "Subscriber_IsClosed s"
  shows "WriterLoop (replicate (Suc (length (sq_q (sub_queue s)))) quiet) parse a b =
           Some (List.map_filter (\<lambda>x. Option.bind x parse) (sq_q (sub_queue s)),
                 put_sub a (s\<lparr>sub_queue := (sub_queue s)\<lparr>sq_q := []\<rparr>\<rparr>) b)"
  using assms
proof (induction "sq_q (sub_queue s)" arbitrary: s b)
  case Nil
  then have "put_sub a (s\<lparr>sub_queue := (sub_queue s)\<lparr>sq_q := []\<rparr>\<rparr>) b = b"
    by (simp add: put_sub_def fun_upd_idem)
  with Nil show ?case
    by (simp add: quiet_def SendQueue_WaitAndPop_id List.map_filter_simps)
next
  case (Cons x xs)
  let ?s = "s\<lparr>sub_queue := (sub_queue s)\<lparr>sq_q := xs\<rparr>\<rparr>"
  let ?b = "put_sub a ?s b"
  have q: "sq_q (sub_queue s) = x # xs" using Cons.hyps(2) by simp
  have ih: "WriterLoop (replicate (Suc (length xs)) quiet) parse a ?b =
      Some (List.map_filter (\<lambda>x. Option.bind x parse) xs,
            put_sub a (?s\<lparr>sub_queue := (sub_queue ?s)\<lparr>sq_q := []\<rparr>\<rparr>) ?b)"
    using Cons.hyps(1) [of ?s ?b] Cons.prems by (simp add: put_sub_def Subscriber_IsClosed_def)
  have step: "WriterLoop (quiet # replicate (Suc (length xs)) quiet) parse a b =
      (case Option.bind x parse of
         None \<Rightarrow> WriterLoop (replicate (Suc (length xs)) quiet) parse a ?b
       | Some e \<Rightarrow> map_option (\<lambda>(out, b'). (e # out, b'))
                    (WriterLoop (replicate (Suc (length xs)) quiet) parse a ?b))"
    using Cons.prems q
    by (auto simp: quiet_def SendQueue_WaitAndPop_id Let_def simp del: replicate.simps split: option.splits)
  show ?case
    using Cons.prems q
    by (auto simp: step ih List.map_filter_simps replicate_Suc [of "Suc (length xs)"]
        simp del: WriterLoop.simps replicate.simps split: option.splits)
qed

text \<open>
  Closing a subscriber loses nothing that is already queued: from a closed subscriber whose
  peer keeps reading, the writer loop returns after one iteration per queued event plus one,
  having written every queued event that parses, in queue order.
\<close>

lemma writer_drains_closed_queue:
  assumes "bc_heap b a = Some s" and "Subscriber_IsClosed s"
    and "\<forall>x \<in> set (sq_q (sub_queue s)). \<exists>bs e. x = Some bs \<and> parse bs = Some e"
  shows "\<exists>out b'. WriterLoop (replicate (Suc (length (sq_q (sub_queue s)))) quiet) parse a b = Some (out, b')
           \<and> map Some out = map (\<lambda>x. parse (the x)) (sq_q (sub_queue s))
           \<and> (\<exists>s'. bc_heap b' a = Some s' \<and> sq_q (sub_queue s') = [] \<and> sub_kick_reason s' = sub_kick_reason s)"
proof -
  have "(\<forall>x \<in> set xs. \<exists>bs e. x = Some bs \<and> parse bs = Some e) \<Longrightarrow>
        map Some (List.map_filter (\<lambda>x. Option.bind x parse) xs) = map (\<lambda>x. parse (the x)) xs" for xs
    by (induction xs) (auto simp: List.map_filter_simps)
  with assms(3) WriterLoop_drain [OF assms(1,2), of parse] show ?thesis
    by (simp add: put_sub_def)
qed

definition demo_closed_sub :: subscriber where
  "demo_closed_sub = Subscriber_RequestClose kQueueFull (enqueue_all [Some ''x''] (demo_subscriber ''a'' 1))"

lemma writer_drains_closed_queue_example:
  "\<exists>b'. WriterLoop [quiet, quiet] Some 0 (Broadcaster_new [0 \<mapsto> demo_closed_sub] None) = Some ([''x''], b')"
proof -
  let ?b = "Broadcaster_new [0 \<mapsto> demo_closed_sub] None"
  have "bc_heap ?b 0 = Some demo_closed_sub" by (simp add: Broadcaster_new_def)
  moreover have "Subscriber_IsClosed demo_closed_sub" "sq_q (sub_queue demo_closed_sub) = [Some ''x'']"
    by (simp_all add: demo_closed_sub_def enqueue_all_def demo_subscriber_def Subscriber_def
        Subscriber_IsClosed_def SendQueue_new_def)
  ultimately show ?thesis
    using writer_drains_closed_queue [of ?b 0 demo_closed_sub Some]
    by (auto simp: numeral_2_eq_2 simp del: WriterLoop.simps)
qed

section \<open>The handler leaves no subscriber behind\<close>

lemma RemoveSubscriber_no_id:
  "x \<in> set (bc_roster (RemoveSubscriber i b)) \<Longrightarrow> \<not> has_id (RemoveSubscriber i b) i x"
  by (simp add: RemoveSubscriber_def set_subscriber_count_def has_id_def)


definition demo_request :: subscribe_request where
  "demo_request = \<lparr>rq_tiers = [], rq_event_names = [], rq_since_seq = 0, rq_node_id = [], rq_subclass_globs = []\<rparr>"


end
