(* ===== verification/Event_Envelope.thy ===== *)
theory Event_Envelope
  imports Event_Routing
begin

text \<open>
  Building an event envelope: \<^verbatim>\<open>src/events/envelope.cc\<close>. A FreeSWITCH event is opaque to the
  module; the model keeps what \<^verbatim>\<open>EventGetHeader\<close> and \<^verbatim>\<open>EventGetBody\<close> answer for it. The wall
  clock and the two words of the random generator are arguments. The protobuf message is a record
  with the fields the source sets, in the order of their field numbers.
\<close>

section \<open>Data\<close>

record switch_event =
  ev_header :: "string \<Rightarrow> string option"
  ev_body :: "string option"

record envelope =
  env_event_id :: string
  env_tier :: nat
  env_event_name :: string
  env_subclass_name :: string
  env_node_id :: string
  env_emitted_seconds :: int
  env_emitted_nanos :: int
  env_seq :: u64
  env_tenant_id :: string
  env_traceparent :: string
  env_channel_uuid :: string
  env_variables :: "string \<rightharpoonup> string"
  env_headers :: "string \<rightharpoonup> string"
  env_body :: string
  env_schema_version :: u32

text \<open>The sets of the source are iterated in an unspecified order; a list is one such order.\<close>

record envelope_config =
  ec_headers_include :: "string list"
  ec_headers_always_exclude :: "string list"
  ec_variables_include :: "string list"

definition MapTierToProto :: "tier \<Rightarrow> nat" where
  "MapTierToProto t = (case t of k1Critical \<Rightarrow> 1 | k2State \<Rightarrow> 2 | k3Ephemeral \<Rightarrow> 3 | kUnspecified \<Rightarrow> 0)"

definition HeaderOr :: "switch_event \<Rightarrow> string \<Rightarrow> string \<Rightarrow> string" where
  "HeaderOr ev name fallback = (case ev_header ev name of Some v \<Rightarrow> v | None \<Rightarrow> fallback)"

definition HeaderOrEmpty :: "switch_event \<Rightarrow> string \<Rightarrow> string" where
  "HeaderOrEmpty ev name = HeaderOr ev name []"

definition MakeDefaultEnvelopeConfig :: envelope_config where
  "MakeDefaultEnvelopeConfig =
     \<lparr>ec_headers_include =
        [''Caller-Caller-ID-Name'', ''Caller-Caller-ID-Number'', ''Caller-Destination-Number'',
         ''Caller-Direction'', ''Caller-Context'', ''Answer-State'', ''Hangup-Cause'',
         ''Hangup-Cause-Q.850'', ''Channel-State'', ''Channel-Call-State'', ''Channel-Name''],
      ec_headers_always_exclude =
        [''Event-Name'', ''Event-Subclass'', ''Event-Date-Timestamp'', ''Unique-ID''],
      ec_variables_include = []\<rparr>"

section \<open>Timestamps\<close>

definition INT64_MAX :: int where
  "INT64_MAX = 9223372036854775807"

text \<open>
  \<^verbatim>\<open>std::int64_t\<close> as a 64-bit word read as signed, so the accumulator wraps where the source
  overflows.
\<close>

fun timestamp_loop :: "64 word \<Rightarrow> string \<Rightarrow> 64 word" where
  "timestamp_loop out [] = out"
| "timestamp_loop out (c # s) =
     (if (of_char c :: nat) < 48 \<or> 57 < (of_char c :: nat) then 0
      else if sint out > INT64_MAX div 10 then 0
      else timestamp_loop (out * 10 + of_nat (of_char c - 48)) s)"

definition ParseEventTimestampMicros :: "string \<Rightarrow> 64 word" where
  "ParseEventTimestampMicros s = (if s = [] then 0 else timestamp_loop 0 s)"

section \<open>UUIDv7\<close>

text \<open>The sixteen bytes from the clock in milliseconds and two random words.\<close>

definition uuid_bytes :: "u64 \<Rightarrow> u64 \<Rightarrow> u64 \<Rightarrow> u8 list" where
  "uuid_bytes ms r1 r2 =
     (let ts_ms = ms AND 0x0000FFFFFFFFFFFF;
          rand_a = (ucast (r1 AND 0x0FFF) :: 16 word)
      in [ucast (drop_bit 40 ts_ms AND 0xFF), ucast (drop_bit 32 ts_ms AND 0xFF),
          ucast (drop_bit 24 ts_ms AND 0xFF), ucast (drop_bit 16 ts_ms AND 0xFF),
          ucast (drop_bit 8 ts_ms AND 0xFF), ucast (drop_bit 0 ts_ms AND 0xFF),
          ucast (0x70 OR (drop_bit 8 rand_a AND 0x0F)), ucast (rand_a AND 0xFF),
          ucast (0x80 OR (drop_bit 56 r2 AND 0x3F)), ucast (drop_bit 48 r2 AND 0xFF),
          ucast (drop_bit 40 r2 AND 0xFF), ucast (drop_bit 32 r2 AND 0xFF),
          ucast (drop_bit 24 r2 AND 0xFF), ucast (drop_bit 16 r2 AND 0xFF),
          ucast (drop_bit 8 r2 AND 0xFF), ucast (drop_bit 0 r2 AND 0xFF)])"

text \<open>\<^verbatim>\<open>%02x\<close>.\<close>

definition hex_digit :: "nat \<Rightarrow> char" where
  "hex_digit n = (if n < 10 then char_of (48 + n) else char_of (87 + n))"

definition hex2 :: "u8 \<Rightarrow> string" where
  "hex2 b = [hex_digit (unat b div 16), hex_digit (unat b mod 16)]"

definition format_uuid :: "u8 list \<Rightarrow> string" where
  "format_uuid b =
     concat (map hex2 (take 4 b)) @ ''-'' @ concat (map hex2 (take 2 (drop 4 b))) @ ''-''
     @ concat (map hex2 (take 2 (drop 6 b))) @ ''-'' @ concat (map hex2 (take 2 (drop 8 b))) @ ''-''
     @ concat (map hex2 (take 6 (drop 10 b)))"

definition GenerateUuidV7 :: "u64 \<Rightarrow> u64 \<Rightarrow> u64 \<Rightarrow> string" where
  "GenerateUuidV7 ms r1 r2 = format_uuid (uuid_bytes ms r1 r2)"

section \<open>The envelope\<close>

text \<open>The emission time: the event's own stamp when it parses to a positive number, else now.\<close>

definition emitted_micros :: "switch_event \<Rightarrow> int \<Rightarrow> int" where
  "emitted_micros ev now_micros =
     (let parsed = sint (ParseEventTimestampMicros (HeaderOr ev ''Event-Date-Timestamp'' []))
      in if 0 < parsed then parsed else now_micros)"

fun copy_variables :: "switch_event \<Rightarrow> string list \<Rightarrow> (string \<rightharpoonup> string) \<Rightarrow> (string \<rightharpoonup> string)" where
  "copy_variables ev [] m = m"
| "copy_variables ev (var # vs) m =
     copy_variables ev vs
       (case ev_header ev (''variable_'' @ var) of Some v \<Rightarrow> m(var \<mapsto> v) | None \<Rightarrow> m)"

fun copy_headers ::
  "switch_event \<Rightarrow> string list \<Rightarrow> string list \<Rightarrow> (string \<rightharpoonup> string) \<Rightarrow> (string \<rightharpoonup> string)" where
  "copy_headers ev excl [] m = m"
| "copy_headers ev excl (h # hs) m =
     (if h \<in> set excl then copy_headers ev excl hs m
      else copy_headers ev excl hs (case ev_header ev h of Some v \<Rightarrow> m(h \<mapsto> v) | None \<Rightarrow> m))"

text \<open>
  \<open>event_id\<close> is what \<open>GenerateUuidV7\<close> returned and \<open>now_micros\<close> the clock. C++ division and
  remainder truncate towards zero; the emission time is positive or the clock's, so they are
  \<open>div\<close> and \<open>mod\<close>.
\<close>

definition BuildEnvelope ::
  "string \<Rightarrow> int \<Rightarrow> switch_event option \<Rightarrow> tier \<Rightarrow> u64 \<Rightarrow> string \<Rightarrow> envelope_config \<Rightarrow> envelope option" where
  "BuildEnvelope event_id now_micros ev tier seq node_id cfg =
     (case ev of
        None \<Rightarrow> None
      | Some e \<Rightarrow>
          (let micros = emitted_micros e now_micros
           in Some \<lparr>env_event_id = event_id,
                    env_tier = MapTierToProto tier,
                    env_event_name = HeaderOrEmpty e ''Event-Name'',
                    env_subclass_name = HeaderOrEmpty e ''Event-Subclass'',
                    env_node_id = node_id,
                    env_emitted_seconds = micros div 1000000,
                    env_emitted_nanos = (micros mod 1000000) * 1000,
                    env_seq = seq,
                    env_tenant_id = HeaderOrEmpty e ''variable_osw_tenant_id'',
                    env_traceparent = HeaderOrEmpty e ''variable_osw_traceparent'',
                    env_channel_uuid = HeaderOrEmpty e ''Unique-ID'',
                    env_variables = copy_variables e (ec_variables_include cfg) Map.empty,
                    env_headers =
                      copy_headers e (ec_headers_always_exclude cfg) (ec_headers_include cfg) Map.empty,
                    env_body = (case ev_body e of None \<Rightarrow> [] | Some body \<Rightarrow> body),
                    env_schema_version = 1\<rparr>))"

section \<open>Timestamps parse as decimals\<close>

definition is_decimal :: "string \<Rightarrow> bool" where
  "is_decimal s = list_all (\<lambda>c. 48 \<le> (of_char c :: nat) \<and> (of_char c :: nat) \<le> 57) s"

fun decimal_value :: "nat \<Rightarrow> string \<Rightarrow> nat" where
  "decimal_value n [] = n"
| "decimal_value n (c # s) = decimal_value (n * 10 + (of_char c - 48)) s"

lemma decimal_value_ge: "n \<le> decimal_value n s"
proof (induction s arbitrary: n)
  case (Cons c s)
  have "n \<le> n * 10 + (of_char c - 48)" by simp
  also have "\<dots> \<le> decimal_value n (c # s)" using Cons by simp
  finally show ?case .
qed simp

lemma sint_of_nat_int64: "int n \<le> INT64_MAX \<Longrightarrow> sint (of_nat n :: 64 word) = int n"
  by (simp add: INT64_MAX_def signed_of_nat signed_take_bit_int_eq_self_iff)

lemma timestamp_loop_decimal:
  assumes "is_decimal s" and "int (decimal_value n s) \<le> INT64_MAX"
  shows "timestamp_loop (of_nat n) s = of_nat (decimal_value n s)"
  using assms
proof (induction s arbitrary: n)
  case (Cons c s)
  let ?d = "of_char c - 48 :: nat"
  have "n * 10 + ?d \<le> decimal_value n (c # s)" using decimal_value_ge [of "n * 10 + ?d" s] by simp
  then have le: "int n * 10 \<le> INT64_MAX" using Cons.prems(2) by linarith
  then have "int n \<le> INT64_MAX" by simp
  then have "\<not> sint (of_nat n :: 64 word) > INT64_MAX div 10"
    using le by (simp add: sint_of_nat_int64 INT64_MAX_def)
  moreover have "48 \<le> (of_char c :: nat)" "(of_char c :: nat) \<le> 57" and dec: "is_decimal s"
    using Cons.prems(1) by (simp_all add: is_decimal_def)
  moreover have "(of_nat n * 10 + of_nat ?d :: 64 word) = of_nat (n * 10 + ?d)"
    unfolding of_nat_add of_nat_mult by simp
  ultimately have "timestamp_loop (of_nat n) (c # s) = timestamp_loop (of_nat (n * 10 + ?d)) s"
    by (simp only: timestamp_loop.simps not_less [symmetric] simp_thms if_False)
  then show ?case
    using Cons.IH [OF dec, of "n * 10 + ?d"] Cons.prems(2) by (simp only: decimal_value.simps)
qed simp

text \<open>
  A decimal timestamp that fits a signed 64-bit integer parses to its value. The overflow
  guard is one digit too weak: 9223372036854775808, one more than the largest value, passes it
  and the accumulator overflows (here: wraps to the least value).
\<close>

lemma timestamp_parses_decimals:
  "(s \<noteq> [] \<and> is_decimal s \<and> int (decimal_value 0 s) \<le> INT64_MAX \<longrightarrow>
      sint (ParseEventTimestampMicros s) = int (decimal_value 0 s))
   \<and> sint (ParseEventTimestampMicros ''9223372036854775808'') = - INT64_MAX - 1"
proof
  show "s \<noteq> [] \<and> is_decimal s \<and> int (decimal_value 0 s) \<le> INT64_MAX \<longrightarrow>
      sint (ParseEventTimestampMicros s) = int (decimal_value 0 s)"
    using timestamp_loop_decimal [of s 0] by (simp add: ParseEventTimestampMicros_def sint_of_nat_int64)
  have "timestamp_loop 0 (''922337203685477580'' @ s) = timestamp_loop 922337203685477580 s" for s
    by (simp add: INT64_MAX_def)
  from this [of "''8''"] show "sint (ParseEventTimestampMicros ''9223372036854775808'') = - INT64_MAX - 1"
    by (simp add: ParseEventTimestampMicros_def INT64_MAX_def)
qed

lemma timestamp_parses_decimals_example:
  "is_decimal ''1700000000'' \<and> sint (ParseEventTimestampMicros ''1700000000'') = 1700000000"
proof -
  have "is_decimal ''1700000000''" "decimal_value 0 ''1700000000'' = 1700000000"
    by (simp_all add: is_decimal_def)
  then show ?thesis
    using timestamp_parses_decimals [of "''1700000000''"] by (simp add: INT64_MAX_def)
qed

section \<open>UUIDv7 layout and order\<close>

text \<open>The number \<open>n\<close> in \<open>k\<close> hexadecimal digits.\<close>

fun hexs :: "nat \<Rightarrow> nat \<Rightarrow> string" where
  "hexs 0 n = []"
| "hexs (Suc k) n = hex_digit (n div 16 ^ k mod 16) # hexs k n"

definition char_less :: "(char \<times> char) set" where
  "char_less = {(c, d). (of_char c :: nat) < of_char d}"

lemma length_hexs [simp]: "length (hexs k n) = k"
  by (induction k) simp_all

lemma of_char_hex_digit: "n < 16 \<Longrightarrow> (of_char (hex_digit n) :: nat) = (if n < 10 then 48 + n else 87 + n)"
  by (simp add: hex_digit_def)

lemma hex_digit_less: "m < n \<Longrightarrow> n < 16 \<Longrightarrow> (hex_digit m, hex_digit n) \<in> char_less"
  by (auto simp: char_less_def of_char_hex_digit)

lemma hexs_low: "hexs k (a * 16 ^ k + b) = hexs k b"
proof -
  have "hexs j (a * 16 ^ k + b) = hexs j b" if "j \<le> k" for j
    using that
  proof (induction j)
    case (Suc j)
    then obtain i where k: "k = Suc (j + i)"
      by (auto simp: Suc_le_eq less_iff_Suc_add)
    have "(a * 16 ^ k + b) div 16 ^ j = (b + (a * 16 * 16 ^ i) * 16 ^ j) div 16 ^ j"
      by (simp add: k power_add algebra_simps)
    also have "\<dots> = b div 16 ^ j + a * 16 * 16 ^ i" by simp
    finally have "(a * 16 ^ k + b) div 16 ^ j mod 16 = (b div 16 ^ j + 16 * (a * 16 ^ i)) mod 16"
      by (simp add: ac_simps)
    also have "\<dots> = b div 16 ^ j mod 16" by (rule mod_mult_self2)
    finally show ?case using Suc by simp
  qed simp
  then show ?thesis by blast
qed

lemma hexs_append:
  assumes "b < 16 ^ k"
  shows "hexs (j + k) (a * 16 ^ k + b) = hexs j a @ hexs k b"
proof (induction j)
  case 0
  then show ?case by (simp add: hexs_low)
next
  case (Suc j)
  have "(a * 16 ^ k + b) div 16 ^ (j + k) = a div 16 ^ j"
    using assms by (simp add: power_add mult.commute [of "16 ^ j"] div_mult2_eq)
  with Suc show ?case by simp
qed

lemma hexs_less: "m < n \<Longrightarrow> n < 16 ^ k \<Longrightarrow> (hexs k m, hexs k n) \<in> lexord char_less"
proof (induction k arbitrary: m n)
  case (Suc k)
  let ?p = "16 ^ k :: nat"
  have m: "m = (m div ?p) * ?p + m mod ?p" and n: "n = (n div ?p) * ?p + n mod ?p"
    by (simp_all only: div_mult_mod_eq)
  have small: "n div ?p < 16" using Suc.prems by (simp add: less_mult_imp_div_less)
  have le: "m div ?p \<le> n div ?p" using Suc.prems by (simp add: div_le_mono)
  have lows: "hexs k m = hexs k (m mod ?p)" "hexs k n = hexs k (n mod ?p)"
    using hexs_low [of k "m div ?p" "m mod ?p"] hexs_low [of k "n div ?p" "n mod ?p"]
    by (simp_all only: div_mult_mod_eq)
  show ?case
  proof (cases "m div ?p = n div ?p")
    case True
    then have "m mod ?p < n mod ?p" using Suc.prems(1) m n by (metis add_less_cancel_left)
    then have "(hexs k m, hexs k n) \<in> lexord char_less" using Suc.IH lows by simp
    then show ?thesis by (simp add: True)
  next
    case False
    with le small show ?thesis by (simp add: hex_digit_less)
  qed
qed simp

lemma hex2_hexs: "hex2 b = hexs 2 (unat b)"
proof -
  have "unat b < 2 ^ LENGTH(8)" by (rule unsigned_less)
  then have "unat b < 256" by simp
  then have "unat b div 16 < 16" by (simp add: less_mult_imp_div_less)
  then show ?thesis by (simp add: hex2_def numeral_2_eq_2)
qed

lemma and_mask_mod:
  fixes w :: "'a :: len word"
  assumes "m = mask n"
  shows "unat (w AND m) = unat w mod 2 ^ n"
proof -
  have "w AND m = take_bit n w" by (simp add: assms take_bit_eq_mask)
  then have "unat (w AND m) = take_bit n (unat w)" by (simp only: unsigned_take_bit_eq)
  then show ?thesis by (simp only: take_bit_eq_mod)
qed

lemma and_mask_of_nat:
  fixes w :: "'a :: len word"
  assumes "m = mask n"
  shows "\<exists>k < 2 ^ n. w AND m = of_nat k"
proof (intro exI conjI)
  show "w AND m = of_nat (unat (w AND m))" by simp
  show "unat (w AND m) < 2 ^ n" by (simp add: and_mask_mod [OF assms])
qed

lemma masks:
  "(0xFF :: u64) = mask 8" "(0xFFFFFFFFFFFF :: u64) = mask 48" "(0x0F :: 16 word) = mask 4" "(0x3F :: u64) = mask 6"
  by (simp_all add: mask_eq_exp_minus_1)

lemma unat_drop_bit: "unat (drop_bit n (w :: u64)) = unat w div 2 ^ n"
proof -
  have "unat w < 2 ^ LENGTH(64)" by (rule unsigned_less)
  then have "take_bit 64 (unat w) = unat w" by (simp add: take_bit_nat_eq_self)
  then have "unat (drop_bit n w) = drop_bit n (unat w)" by (simp add: unsigned_drop_bit_eq)
  then show ?thesis by (simp only: drop_bit_eq_div)
qed

lemma unat_byte: "unat (ucast (drop_bit n (w :: u64) AND 0xFF) :: u8) = unat w div 2 ^ n mod 256"
  by (simp add: unsigned_ucast_eq take_bit_eq_mod and_mask_mod [OF masks(1)] unat_drop_bit)

lemma hexs_bytes2: "b < 256 \<Longrightarrow> hexs 2 a @ hexs 2 b = hexs 4 (a * 256 + b)"
  using hexs_append [of b 2 2 a] by simp

lemma hexs_bytes4:
  assumes "b < 256" "c < 256" "d < 256"
  shows "hexs 2 a @ hexs 2 b @ hexs 2 c @ hexs 2 d = hexs 8 (((a * 256 + b) * 256 + c) * 256 + d)"
proof -
  have "c * 256 + d < 65536" using assms by simp
  moreover have "((a * 256 + b) * 256 + c) * 256 + d = (a * 256 + b) * 65536 + (c * 256 + d)" by simp
  ultimately show ?thesis
    using hexs_append [of "c * 256 + d" 4 4 "a * 256 + b"]
    by (simp only: hexs_bytes2 [OF assms(1), of a, symmetric] hexs_bytes2 [OF assms(3), of c, symmetric])
       simp
qed

text \<open>The digits of the identifier: eight and four for the clock, then the version digit.\<close>

lemma version_nibble:
  "\<forall>n\<in>set [0..<16]. hex2 (ucast (0x70 OR of_nat n :: 16 word)) = [CHR ''7'', hex_digit n]"
  by code_simp

lemma variant_nibble:
  "\<forall>n\<in>set [0..<64]. hd (hex2 (ucast (0x80 OR of_nat n :: u64))) \<in> set ''89ab''"
  by code_simp

definition uuid_time :: "u64 \<Rightarrow> nat" where
  "uuid_time ms = unat ms mod 2 ^ 48"

lemma byte_sum4:
  assumes "(n :: nat) < 2 ^ 48"
  shows "(((n div 2 ^ 40 mod 256) * 256 + n div 2 ^ 32 mod 256) * 256 + n div 2 ^ 24 mod 256) * 256
           + n div 2 ^ 16 mod 256 = n div 2 ^ 16"
proof -
  have steps: "n div 2 ^ 24 = n div 2 ^ 16 div 256" "n div 2 ^ 32 = n div 2 ^ 24 div 256"
    "n div 2 ^ 40 = n div 2 ^ 32 div 256"
    by (simp_all add: div_mult2_eq [symmetric])
  have "n div 2 ^ 40 mod 256 = n div 2 ^ 40" using assms by simp
  then show ?thesis by (simp only: steps(3) div_mult_mod_eq) (simp only: steps(1,2) div_mult_mod_eq)
qed

lemma byte_sum2: "(n :: nat) div 2 ^ 8 mod 256 * 256 + n div 2 ^ 0 mod 256 = n mod 2 ^ 16"
proof -
  have "n mod (256 * 256) = 256 * (n div 256 mod 256) + n mod 256" by (rule mod_mult2_eq)
  then show ?thesis by simp
qed

lemma format_uuid_16:
  "format_uuid [b0, b1, b2, b3, b4, b5, b6, b7, b8, b9, b10, b11, b12, b13, b14, b15] =
     (hex2 b0 @ hex2 b1 @ hex2 b2 @ hex2 b3) @ ''-'' @ (hex2 b4 @ hex2 b5) @ ''-'' @ hex2 b6 @ hex2 b7
     @ ''-'' @ hex2 b8 @ hex2 b9 @ ''-'' @ hex2 b10 @ hex2 b11 @ hex2 b12 @ hex2 b13 @ hex2 b14 @ hex2 b15"
  by (simp add: format_uuid_def)

lemma uuid_text:
  "\<exists>x1 x2 x3 w y. GenerateUuidV7 ms r1 r2 =
      (hexs 8 (uuid_time ms div 2 ^ 16) @ ''-'' @ hexs 4 (uuid_time ms mod 2 ^ 16))
      @ ''-7'' @ [x1, x2, x3, CHR ''-'', w] @ y
      \<and> w \<in> set ''89ab'' \<and> length y = 16 \<and> y ! 3 = CHR ''-''"
proof -
  let ?ts = "ms AND 0x0000FFFFFFFFFFFF :: u64"
  let ?ra = "ucast (r1 AND 0x0FFF) :: 16 word"
  have ts: "unat ?ts = uuid_time ms" by (simp add: and_mask_mod [OF masks(2)] uuid_time_def)
  have bound: "uuid_time ms < 2 ^ 48" by (simp add: uuid_time_def)
  obtain k where k: "k < 16" "drop_bit 8 ?ra AND 0x0F = of_nat k"
    using and_mask_of_nat [OF masks(3), of "drop_bit 8 ?ra"] by auto
  obtain l where l: "l < 64" "drop_bit 56 r2 AND 0x3F = of_nat l"
    using and_mask_of_nat [OF masks(4), of "drop_bit 56 r2"] by auto
  have v: "hex2 (ucast (0x70 OR (of_nat k :: 16 word))) = [CHR ''7'', hex_digit k]"
    using version_nibble k(1) by simp
  have w: "hd (hex2 (ucast (0x80 OR (of_nat l :: u64)))) \<in> set ''89ab''"
    using variant_nibble l(1) by auto
  have two: "hex2 b = [hd (hex2 b), hex_digit (unat b mod 16)]" for b by (simp add: hex2_def)
  have hi: "hex2 (ucast (drop_bit 40 ?ts AND 0xFF)) @ hex2 (ucast (drop_bit 32 ?ts AND 0xFF))
            @ hex2 (ucast (drop_bit 24 ?ts AND 0xFF)) @ hex2 (ucast (drop_bit 16 ?ts AND 0xFF))
          = hexs 8 (uuid_time ms div 2 ^ 16)"
    unfolding hex2_hexs unat_byte ts
    by (subst hexs_bytes4) (simp_all only: byte_sum4 [OF bound] mod_less_divisor zero_less_numeral)
  have lo: "hex2 (ucast (drop_bit 8 ?ts AND 0xFF)) @ hex2 (ucast (drop_bit 0 ?ts AND 0xFF))
          = hexs 4 (uuid_time ms mod 2 ^ 16)"
    unfolding hex2_hexs unat_byte ts
    by (subst hexs_bytes2) (simp_all only: byte_sum2 mod_less_divisor zero_less_numeral)
  define b8 where "b8 = (ucast (0x80 OR (of_nat l :: u64)) :: u8)"
  define y where "y = hex_digit (unat b8 mod 16) # hex2 (ucast (drop_bit 48 r2 AND 0xFF)) @ ''-''
      @ concat (map (\<lambda>n. hex2 (ucast (drop_bit n r2 AND 0xFF))) [40, 32, 24, 16, 8, 0])"
  have "GenerateUuidV7 ms r1 r2 =
      (hexs 8 (uuid_time ms div 2 ^ 16) @ ''-'' @ hexs 4 (uuid_time ms mod 2 ^ 16))
      @ ''-7'' @ [hex_digit k, hd (hex2 (ucast (?ra AND 0xFF))), hex_digit (unat (ucast (?ra AND 0xFF) :: u8) mod 16),
                   CHR ''-'', hd (hex2 b8)] @ y"
    unfolding GenerateUuidV7_def uuid_bytes_def Let_def format_uuid_16 hi lo k(2) l(2) v
    by (simp add: y_def b8_def hex2_def)
  moreover have "length y = 16" "y ! 3 = CHR ''-''" by (simp_all add: y_def hex2_def)
  moreover have "hd (hex2 b8) \<in> set ''89ab''" using w by (simp add: b8_def)
  ultimately show ?thesis by blast
qed

text \<open>
  Every generated identifier has the shape RFC 9562 prescribes for version 7 (36 characters,
  hyphens in place, version digit 7, variant digit 8, 9, a or b), and identifiers are ordered by
  time: of two identifiers generated at different milliseconds of the 48-bit clock, the earlier
  one is lexicographically smaller whatever the random bits are.
\<close>

lemma uuid_v7_shape_and_order:
  "length (GenerateUuidV7 ms r1 r2) = 36
   \<and> GenerateUuidV7 ms r1 r2 ! 8 = CHR ''-'' \<and> GenerateUuidV7 ms r1 r2 ! 13 = CHR ''-''
   \<and> GenerateUuidV7 ms r1 r2 ! 18 = CHR ''-'' \<and> GenerateUuidV7 ms r1 r2 ! 23 = CHR ''-''
   \<and> GenerateUuidV7 ms r1 r2 ! 14 = CHR ''7'' \<and> GenerateUuidV7 ms r1 r2 ! 19 \<in> set ''89ab''
   \<and> (uuid_time ms < uuid_time ms' \<longrightarrow>
        (GenerateUuidV7 ms r1 r2, GenerateUuidV7 ms' r1' r2') \<in> lexord char_less)"
proof -
  obtain x1 x2 x3 w y where t: "GenerateUuidV7 ms r1 r2 =
      (hexs 8 (uuid_time ms div 2 ^ 16) @ ''-'' @ hexs 4 (uuid_time ms mod 2 ^ 16))
      @ ''-7'' @ [x1, x2, x3, CHR ''-'', w] @ y" "w \<in> set ''89ab''" "length y = 16" "y ! 3 = CHR ''-''"
    using uuid_text by blast
  obtain x where t': "GenerateUuidV7 ms' r1' r2' =
      (hexs 8 (uuid_time ms' div 2 ^ 16) @ ''-'' @ hexs 4 (uuid_time ms' mod 2 ^ 16)) @ x"
    using uuid_text by (metis (no_types))
  have pre: "(hexs 8 (uuid_time ms div 2 ^ 16) @ ''-'' @ hexs 4 (uuid_time ms mod 2 ^ 16),
         hexs 8 (uuid_time ms' div 2 ^ 16) @ ''-'' @ hexs 4 (uuid_time ms' mod 2 ^ 16)) \<in> lexord char_less"
    if less: "uuid_time ms < uuid_time ms'"
  proof (cases "uuid_time ms div 2 ^ 16 = uuid_time ms' div 2 ^ 16")
    case True
    then have "uuid_time ms mod 2 ^ 16 < uuid_time ms' mod 2 ^ 16"
      using less by (metis div_mult_mod_eq nat_add_left_cancel_less)
    then have "(hexs 4 (uuid_time ms mod 2 ^ 16), hexs 4 (uuid_time ms' mod 2 ^ 16)) \<in> lexord char_less"
      by (rule hexs_less) simp
    then show ?thesis using True by (simp add: lexord_append_leftI)
  next
    case False
    have "uuid_time ms' div 2 ^ 16 < 16 ^ 8"
      by (simp add: uuid_time_def less_mult_imp_div_less)
    moreover have "uuid_time ms div 2 ^ 16 < uuid_time ms' div 2 ^ 16"
      using False less by (simp add: div_le_mono le_neq_implies_less less_imp_le_nat)
    ultimately show ?thesis by (intro lexord_sufI hexs_less) simp_all
  qed
  have "(GenerateUuidV7 ms r1 r2, GenerateUuidV7 ms' r1' r2') \<in> lexord char_less"
    if "uuid_time ms < uuid_time ms'"
    unfolding t(1) t' by (rule lexord_sufI [OF pre [OF that]]) simp
  then show ?thesis
    using t(2-4) by (simp add: t(1) nth_append)
qed

lemma uuid_v7_shape_and_order_example:
  "uuid_time 1 < uuid_time 2
   \<and> (GenerateUuidV7 1 5 6, GenerateUuidV7 2 0 0) \<in> lexord char_less"
  using uuid_v7_shape_and_order [of 1 5 6 2 0 0] by (simp add: uuid_time_def)

section \<open>What an envelope carries\<close>

lemma copy_variables_eq:
  "copy_variables ev vs m x =
     (if x \<in> set vs \<and> ev_header ev (''variable_'' @ x) \<noteq> None then ev_header ev (''variable_'' @ x) else m x)"
  by (induction vs arbitrary: m) (auto split: option.splits)

lemma copy_headers_eq:
  "copy_headers ev excl hs m x =
     (if x \<in> set hs \<and> x \<notin> set excl \<and> ev_header ev x \<noteq> None then ev_header ev x else m x)"
  by (induction hs arbitrary: m) (auto split: option.splits)

text \<open>
  The headers and variables of an envelope are exactly the listed ones that the event has,
  minus the excluded names, with the event's values; in particular an empty include list forwards
  nothing. The time stamp is a normalised protobuf timestamp of the emission time.
\<close>

lemma envelope_carries_listed_headers:
  assumes "BuildEnvelope event_id now_micros (Some ev) t seq node_id cfg = Some env"
  shows "env_headers env =
           (\<lambda>h. if h \<in> set (ec_headers_include cfg) \<and> h \<notin> set (ec_headers_always_exclude cfg)
                then ev_header ev h else None)
       \<and> env_variables env =
           (\<lambda>x. if x \<in> set (ec_variables_include cfg) then ev_header ev (''variable_'' @ x) else None)
       \<and> env_emitted_seconds env * 1000000000 + env_emitted_nanos env = emitted_micros ev now_micros * 1000
       \<and> 0 \<le> env_emitted_nanos env \<and> env_emitted_nanos env < 1000000000"
proof -
  have "m div 1000000 * 1000000000 + m mod 1000000 * 1000 = m * 1000" for m :: int
    using div_mult_mod_eq [of m 1000000] by linarith
  moreover have "0 \<le> emitted_micros ev now_micros mod 1000000" "emitted_micros ev now_micros mod 1000000 < 1000000"
    by simp_all
  ultimately show ?thesis
    using assms by (auto simp: BuildEnvelope_def Let_def fun_eq_iff copy_variables_eq copy_headers_eq)
qed

definition demo_event :: switch_event where
  "demo_event = \<lparr>ev_header = [''Event-Name'' \<mapsto> ''CHANNEL_ANSWER'', ''Channel-Name'' \<mapsto> ''sofia/a''], ev_body = None\<rparr>"

lemma envelope_carries_listed_headers_example:
  "\<exists>env. BuildEnvelope ''id'' 7 (Some demo_event) k2State 1 ''n1'' MakeDefaultEnvelopeConfig = Some env
       \<and> env_headers env ''Channel-Name'' = Some ''sofia/a'' \<and> env_headers env ''Event-Name'' = None"
proof -
  obtain env where e: "BuildEnvelope ''id'' 7 (Some demo_event) k2State 1 ''n1'' MakeDefaultEnvelopeConfig = Some env"
    by (simp add: BuildEnvelope_def Let_def)
  with envelope_carries_listed_headers [OF e] show ?thesis
    by (simp add: MakeDefaultEnvelopeConfig_def demo_event_def)
qed

section \<open>The serialised envelope is routed as it was built\<close>

text \<open>
  Protobuf's serialiser is outside the repository. What the module relies on is the documented
  proto3 wire format: the output is a sequence of well-formed fields in which each of the scalar
  fields 2 to 5 occurs once with its value, or not at all when it has the default value.
\<close>

fun varint_of :: "nat \<Rightarrow> wire_field \<Rightarrow> nat option" where
  "varint_of n (WVarint f v) = (if f = n then Some v else None)"
| "varint_of n _ = None"

fun bytes_of :: "nat \<Rightarrow> wire_field \<Rightarrow> string option" where
  "bytes_of n (WBytes f s) = (if f = n then Some s else None)"
| "bytes_of n _ = None"

definition proto3_serializer :: "(envelope \<Rightarrow> string option) \<Rightarrow> bool" where
  "proto3_serializer serialize \<longleftrightarrow>
     (\<forall>env bs. serialize env = Some bs \<longrightarrow>
        (\<exists>fs. bs = encode_message fs \<and> list_all wf_field fs
            \<and> List.map_filter (varint_of 2) fs = (if env_tier env = 0 then [] else [env_tier env])
            \<and> List.map_filter (bytes_of 3) fs = (if env_event_name env = [] then [] else [env_event_name env])
            \<and> List.map_filter (bytes_of 4) fs = (if env_subclass_name env = [] then [] else [env_subclass_name env])
            \<and> List.map_filter (bytes_of 5) fs = (if env_node_id env = [] then [] else [env_node_id env])))"

lemma fold_apply_field:
  "rf_tier (fold apply_field fs rf) =
     (case rev (List.map_filter (varint_of 2) fs) of [] \<Rightarrow> rf_tier rf | v # _ \<Rightarrow> tier_of_wire (of_nat v))"
  "rf_event_name (fold apply_field fs rf) =
     (case rev (List.map_filter (bytes_of 3) fs) of [] \<Rightarrow> rf_event_name rf | s # _ \<Rightarrow> s)"
  "rf_subclass_name (fold apply_field fs rf) =
     (case rev (List.map_filter (bytes_of 4) fs) of [] \<Rightarrow> rf_subclass_name rf | s # _ \<Rightarrow> s)"
  "rf_node_id (fold apply_field fs rf) =
     (case rev (List.map_filter (bytes_of 5) fs) of [] \<Rightarrow> rf_node_id rf | s # _ \<Rightarrow> s)"
proof (induction fs arbitrary: rf)
  case (Cons f fs)
  {
    case 1
    then show ?case using Cons(1) [of "apply_field f rf"]
      by (cases f) (auto simp: List.map_filter_simps split: list.splits)
  next
    case 2
    then show ?case using Cons(2) [of "apply_field f rf"]
      by (cases f) (auto simp: List.map_filter_simps split: list.splits)
  next
    case 3
    then show ?case using Cons(3) [of "apply_field f rf"]
      by (cases f) (auto simp: List.map_filter_simps split: list.splits)
  next
    case 4
    then show ?case using Cons(4) [of "apply_field f rf"]
      by (cases f) (auto simp: List.map_filter_simps split: list.splits)
  }
qed (simp_all add: List.map_filter_simps)

lemma scan_intact_message:
  "list_all wf_field fs \<Longrightarrow> ExtractRoutingFields (encode_message fs) = fold apply_field fs RoutingFields"
  using scan_encode_message [of fs "[]" RoutingFields] scan_stops [of "[]"]
  by (simp add: ExtractRoutingFields_def)

text \<open>
  C12. Routing agrees with construction: the fields the broadcaster's scanner reads back from the
  serialised envelope are the tier the binder assigned, the event's name and subclass headers
  (empty when absent) and the configured node id.
\<close>

theorem envelope_routes_as_built:
  assumes "proto3_serializer serialize"
    and "BuildEnvelope event_id now_micros (Some ev) t seq node_id cfg = Some env"
    and "serialize env = Some bs"
  shows "ExtractRoutingFields bs =
           \<lparr>rf_tier = t, rf_event_name = HeaderOrEmpty ev ''Event-Name'',
            rf_subclass_name = HeaderOrEmpty ev ''Event-Subclass'', rf_node_id = node_id\<rparr>"
proof -
  from assms(1,3) obtain fs where bs: "bs = encode_message fs" "list_all wf_field fs"
    and fs: "List.map_filter (varint_of 2) fs = (if env_tier env = 0 then [] else [env_tier env])"
      "List.map_filter (bytes_of 3) fs = (if env_event_name env = [] then [] else [env_event_name env])"
      "List.map_filter (bytes_of 4) fs = (if env_subclass_name env = [] then [] else [env_subclass_name env])"
      "List.map_filter (bytes_of 5) fs = (if env_node_id env = [] then [] else [env_node_id env])"
    unfolding proto3_serializer_def by blast
  have "env_tier env = MapTierToProto t" "env_event_name env = HeaderOrEmpty ev ''Event-Name''"
    "env_subclass_name env = HeaderOrEmpty ev ''Event-Subclass''" "env_node_id env = node_id"
    using assms(2) by (auto simp: BuildEnvelope_def Let_def)
  then show ?thesis
    unfolding bs(1) scan_intact_message [OF bs(2)]
    by (intro routing_fields.equality)
       (cases t; simp add: fold_apply_field fs RoutingFields_def MapTierToProto_def tier_of_wire_def)+
qed

text \<open>A serialiser of the routing-relevant fields that meets the contract.\<close>

definition routing_wire :: "envelope \<Rightarrow> wire_field list" where
  "routing_wire env =
     (if env_tier env = 0 then [] else [WVarint 2 (env_tier env)])
     @ (if env_event_name env = [] then [] else [WBytes 3 (env_event_name env)])
     @ (if env_subclass_name env = [] then [] else [WBytes 4 (env_subclass_name env)])
     @ (if env_node_id env = [] then [] else [WBytes 5 (env_node_id env)])"

definition demo_serialize :: "envelope \<Rightarrow> string option" where
  "demo_serialize env =
     (if list_all wf_field (routing_wire env) then Some (encode_message (routing_wire env)) else None)"

lemma demo_serialize_contract: "proto3_serializer demo_serialize"
  unfolding proto3_serializer_def
proof (intro allI impI exI conjI)
  fix env bs
  assume "demo_serialize env = Some bs"
  then show "bs = encode_message (routing_wire env)" and "list_all wf_field (routing_wire env)"
    by (simp_all add: demo_serialize_def split: if_splits)
qed (simp_all add: routing_wire_def List.map_filter_simps)

theorem envelope_routes_as_built_witness:
  "\<exists>env bs. BuildEnvelope ''id'' 7 (Some demo_event) k2State 1 ''n1'' MakeDefaultEnvelopeConfig = Some env
     \<and> demo_serialize env = Some bs
     \<and> ExtractRoutingFields bs =
         \<lparr>rf_tier = k2State, rf_event_name = ''CHANNEL_ANSWER'', rf_subclass_name = [], rf_node_id = ''n1''\<rparr>"
proof -
  obtain env where e: "BuildEnvelope ''id'' 7 (Some demo_event) k2State 1 ''n1'' MakeDefaultEnvelopeConfig = Some env"
    by (simp add: BuildEnvelope_def Let_def)
  then have "demo_serialize env \<noteq> None"
    by (auto simp: demo_serialize_def routing_wire_def BuildEnvelope_def Let_def HeaderOrEmpty_def HeaderOr_def demo_event_def
        MapTierToProto_def)
  then obtain bs where "demo_serialize env = Some bs" by blast
  with envelope_routes_as_built [OF demo_serialize_contract e this] e show ?thesis
    by (auto simp: HeaderOrEmpty_def HeaderOr_def demo_event_def)
qed

end
