(* ===== verification/Event_Binder.thy ===== *)
theory Event_Binder
  imports Event_RingSet Event_Envelope Obs_Health
begin

text \<open>
  The producer side of the event plane, \<^verbatim>\<open>Binder\<close> of \<^verbatim>\<open>include/osw/events/binder.h\<close> and
  \<^verbatim>\<open>src/events/binder.cc\<close>: an event from FreeSWITCH is classified, numbered per tier, built into
  an envelope, serialised and pushed. Protobuf serialisation is the argument \<open>serialize\<close>; the
  identifier and the clock that \<open>BuildEnvelope\<close> reads are arguments of the handler. The
  registration with FreeSWITCH is the answer of \<open>EventBind\<close>.
\<close>

section \<open>State and operations\<close>

record event_binder =
  bd_rings :: "ring_set option"
  bd_classifier :: "tier_classifier option"
  bd_envelope_cfg :: envelope_config
  bd_node_id :: string
  bd_health :: "health option"
  bd_next_seq :: "nat \<Rightarrow> u64"
  bd_dropped :: "nat \<Rightarrow> u64"
  bd_events_emitted :: u64
  bd_active :: bool

definition TierIndex :: "tier \<Rightarrow> nat" where
  "TierIndex t = (case t of k1Critical \<Rightarrow> 0 | k2State \<Rightarrow> 1 | k3Ephemeral \<Rightarrow> 2 | kUnspecified \<Rightarrow> 2)"

definition Binder_new ::
  "ring_set option \<Rightarrow> tier_classifier option \<Rightarrow> envelope_config \<Rightarrow> string \<Rightarrow> health option \<Rightarrow> event_binder" where
  "Binder_new rings classifier cfg node_id health =
     \<lparr>bd_rings = rings, bd_classifier = classifier, bd_envelope_cfg = cfg, bd_node_id = node_id,
      bd_health = health, bd_next_seq = (\<lambda>_. 0), bd_dropped = (\<lambda>_. 0), bd_events_emitted = 0,
      bd_active = False\<rparr>"

text \<open>
  The process-wide slot that the C callback reads holds the address of the published binder.
\<close>

definition Binder_Init :: "bool \<Rightarrow> nat \<Rightarrow> nat option \<Rightarrow> event_binder \<Rightarrow> bool \<times> nat option \<times> event_binder" where
  "Binder_Init bind_ok self slot b =
     (if bd_active b then (True, slot, b)
      else (case slot of
              Some _ \<Rightarrow> (False, slot, b)
            | None \<Rightarrow>
                if \<not> bind_ok then (False, None, b)
                else (True, Some self, b\<lparr>bd_active := True\<rparr>)))"

definition Binder_Stop :: "nat option \<Rightarrow> event_binder \<Rightarrow> nat option \<times> event_binder" where
  "Binder_Stop slot b =
     (if \<not> bd_active b then (slot, b) else (None, b\<lparr>bd_active := False\<rparr>))"

text \<open>\<^verbatim>\<open>cap == 0 ? 0 : static_cast<uint32_t>((sz * 100) / cap)\<close>.\<close>

definition fill_pct :: "ring \<Rightarrow> u32" where
  "fill_pct r = (if ring_capacity r = 0 then 0 else of_nat ((Ring_Size r * 100) div ring_capacity r))"

definition set_fill :: "ring_set \<Rightarrow> tier \<Rightarrow> health \<Rightarrow> health" where
  "set_fill rs t h = (case RingSet_Get rs t of
     None \<Rightarrow> h
   | Some r \<Rightarrow> SetTierRingFillPct (TierIndex t) (fill_pct r) h)"

definition IncrementHealthCounters :: "event_binder \<Rightarrow> event_binder" where
  "IncrementHealthCounters b =
     (case bd_health b of
        None \<Rightarrow> b
      | Some h \<Rightarrow>
          (let h1 = SetEventsEmittedTotal (bd_events_emitted b) h;
               h2 = (case bd_rings b of
                       None \<Rightarrow> h1
                     | Some rs \<Rightarrow>
                         SetTierDroppedTotal 2 (bd_dropped b 2)
                           (SetTierDroppedTotal 1 (bd_dropped b 1)
                             (SetTierDroppedTotal 0 (bd_dropped b 0)
                               (set_fill rs k3Ephemeral (set_fill rs k2State (set_fill rs k1Critical h1))))))
           in b\<lparr>bd_health := Some h2\<rparr>))"

text \<open>
  The push at the end of the handler: the ring's own drop count of this call is added to the
  tier's total.
\<close>

definition push_entry :: "tier \<Rightarrow> ring_set \<Rightarrow> ring_entry \<Rightarrow> event_binder \<Rightarrow> event_binder" where
  "push_entry t rs entry b =
     (case RingSet_Get rs t of
        None \<Rightarrow> b
      | Some r \<Rightarrow>
          (case Ring_Push r entry (Some 0) of
             (r', _, dropped) \<Rightarrow>
               (let local_dropped = the dropped;
                    b1 = b\<lparr>bd_rings := Some (RingSet_put rs t r')\<rparr>;
                    b2 = (if 0 < local_dropped
                          then b1\<lparr>bd_dropped := (bd_dropped b1)(TierIndex t := bd_dropped b1 (TierIndex t) + local_dropped)\<rparr>
                          else b1)
                in IncrementHealthCounters (b2\<lparr>bd_events_emitted := bd_events_emitted b2 + 1\<rparr>))))"

definition HandleEvent ::
  "(envelope \<Rightarrow> string option) \<Rightarrow> string \<Rightarrow> int \<Rightarrow> switch_event option \<Rightarrow> event_binder \<Rightarrow> event_binder" where
  "HandleEvent serialize event_id now_micros ev b =
     (case (ev, bd_rings b, bd_classifier b) of
        (Some e, Some rs, Some classifier) \<Rightarrow>
          (let event_name = HeaderOr e ''Event-Name'' [];
               subclass_name = HeaderOr e ''Event-Subclass'' [];
               t = Classify classifier event_name subclass_name
           in case RingSet_Get rs t of
                None \<Rightarrow> b
              | Some ring \<Rightarrow>
                  (let tidx = TierIndex t;
                       seq = bd_next_seq b tidx + 1;
                       b1 = b\<lparr>bd_next_seq := (bd_next_seq b)(tidx := bd_next_seq b tidx + 1)\<rparr>
                   in case BuildEnvelope event_id now_micros ev t seq (bd_node_id b) (bd_envelope_cfg b) of
                        None \<Rightarrow> b1
                      | Some env \<Rightarrow>
                          (case serialize env of
                             None \<Rightarrow> b1
                           | Some bytes \<Rightarrow> push_entry t rs \<lparr>re_seq = seq, re_bytes = Some bytes\<rparr> b1)))
      | _ \<Rightarrow> b)"

definition DropsForTier :: "event_binder \<Rightarrow> tier \<Rightarrow> u64" where
  "DropsForTier b t = bd_dropped b (TierIndex t)"

text \<open>The C callback: no event or no published binder is a no-op.\<close>

definition osw_event_handler ::
  "(switch_event option \<Rightarrow> event_binder \<Rightarrow> event_binder) \<Rightarrow> switch_event option \<Rightarrow> nat option \<Rightarrow> (nat \<Rightarrow> event_binder) \<Rightarrow> (nat \<Rightarrow> event_binder)" where
  "osw_event_handler handle event slot binders =
     (case (event, slot) of
        (Some e, Some a) \<Rightarrow> binders(a := handle event (binders a))
      | _ \<Rightarrow> binders)"

section \<open>Handling a sequence of events\<close>

text \<open>An arriving event with the identifier and the clock reading its envelope gets.\<close>

type_synonym arrival = "string \<times> int \<times> switch_event"

definition arrival_tier :: "tier_classifier \<Rightarrow> arrival \<Rightarrow> tier" where
  "arrival_tier cl x =
     (case x of (i, now, ev) \<Rightarrow> Classify cl (HeaderOr ev ''Event-Name'' []) (HeaderOr ev ''Event-Subclass'' []))"

definition handle_all ::
  "(envelope \<Rightarrow> string option) \<Rightarrow> arrival list \<Rightarrow> event_binder \<Rightarrow> event_binder" where
  "handle_all serialize xs b = fold (\<lambda>(i, now, ev). HandleEvent serialize i now (Some ev)) xs b"

text \<open>The entry that the \<open>n\<close>-th event of a tier becomes, and the whole log of a tier.\<close>

definition arrival_entry ::
  "(envelope \<Rightarrow> string option) \<Rightarrow> string \<Rightarrow> envelope_config \<Rightarrow> tier \<Rightarrow> nat \<Rightarrow> arrival \<Rightarrow> ring_entry" where
  "arrival_entry serialize node_id cfg t n x =
     (case x of (i, now, ev) \<Rightarrow>
        \<lparr>re_seq = of_nat n,
         re_bytes = Option.bind (BuildEnvelope i now (Some ev) t (of_nat n) node_id cfg) serialize\<rparr>)"

definition tier_arrivals :: "tier_classifier \<Rightarrow> tier \<Rightarrow> arrival list \<Rightarrow> arrival list" where
  "tier_arrivals cl t xs = filter (\<lambda>x. arrival_tier cl x = t) xs"

definition tier_log ::
  "(envelope \<Rightarrow> string option) \<Rightarrow> string \<Rightarrow> envelope_config \<Rightarrow> tier_classifier \<Rightarrow> tier \<Rightarrow> arrival list \<Rightarrow> ring_entry list" where
  "tier_log serialize node_id cfg cl t xs =
     map (\<lambda>(n, x). arrival_entry serialize node_id cfg t n x) (List.enumerate 1 (tier_arrivals cl t xs))"

lemma push_entry_fields:
  assumes "RingSet_Get rs t = Some r"
  shows "bd_rings (push_entry t rs e b) = Some (RingSet_put rs t (fst (Ring_Push r e None)))"
    and "bd_dropped (push_entry t rs e b) = (bd_dropped b)(TierIndex t :=
           bd_dropped b (TierIndex t) + (if ring_capacity r \<le> length (ring_q r) then 1 else 0))"
    and "bd_events_emitted (push_entry t rs e b) = bd_events_emitted b + 1"
    and "bd_next_seq (push_entry t rs e b) = bd_next_seq b"
    and "bd_classifier (push_entry t rs e b) = bd_classifier b"
    and "bd_envelope_cfg (push_entry t rs e b) = bd_envelope_cfg b"
    and "bd_node_id (push_entry t rs e b) = bd_node_id b"
  using assms
  by (auto simp: push_entry_def IncrementHealthCounters_def Ring_Push_def Let_def split: option.splits)

lemma HandleEvent_step:
  assumes "bd_rings b = Some rs" and "bd_classifier b = Some cl" and "\<And>env. serialize env \<noteq> None"
    and "arrival_tier cl (i, now, ev) = t"
  shows "HandleEvent serialize i now (Some ev) b =
    (if t = kUnspecified then b
     else push_entry t rs
            \<lparr>re_seq = bd_next_seq b (TierIndex t) + 1,
             re_bytes = Option.bind (BuildEnvelope i now (Some ev) t (bd_next_seq b (TierIndex t) + 1)
                          (bd_node_id b) (bd_envelope_cfg b)) serialize\<rparr>
            (b\<lparr>bd_next_seq := (bd_next_seq b)(TierIndex t := bd_next_seq b (TierIndex t) + 1)\<rparr>))"
proof -
  obtain env where "BuildEnvelope i now (Some ev) t (bd_next_seq b (TierIndex t) + 1) (bd_node_id b) (bd_envelope_cfg b) = Some env"
    by (simp add: BuildEnvelope_def Let_def)
  moreover obtain bs where "serialize env = Some bs" using assms(3) [of env] by auto
  moreover have "RingSet_Get rs t = None \<longleftrightarrow> t = kUnspecified" by (cases t) (simp_all add: RingSet_Get_def)
  ultimately show ?thesis
    using assms(1,2,4) by (auto simp: HandleEvent_def arrival_tier_def Let_def split: option.splits)
qed

lemma TierIndex_inj: "t \<noteq> kUnspecified \<Longrightarrow> u \<noteq> kUnspecified \<Longrightarrow> TierIndex t = TierIndex u \<longleftrightarrow> t = u"
  by (cases t; cases u) (simp_all add: TierIndex_def)

text \<open>The state of one tier after a sequence of arrivals.\<close>

definition tier_state ::
  "(envelope \<Rightarrow> string option) \<Rightarrow> string \<Rightarrow> envelope_config \<Rightarrow> tier_classifier \<Rightarrow> nat \<Rightarrow> arrival list
     \<Rightarrow> event_binder \<Rightarrow> tier \<Rightarrow> bool" where
  "tier_state serialize node_id cfg cl cap xs b t \<longleftrightarrow>
     (\<exists>r. Option.bind (bd_rings b) (\<lambda>rs. RingSet_Get rs t) = Some r
        \<and> ring_capacity r = cap
        \<and> ring_q r = last_n cap (tier_log serialize node_id cfg cl t xs))
     \<and> bd_next_seq b (TierIndex t) = of_nat (length (tier_arrivals cl t xs))
     \<and> DropsForTier b t = of_nat (length (tier_arrivals cl t xs) - cap)"

lemma tier_log_snoc:
  "tier_log serialize node_id cfg cl t (xs @ [x]) =
     (if arrival_tier cl x = t
      then tier_log serialize node_id cfg cl t xs
           @ [arrival_entry serialize node_id cfg t (Suc (length (tier_arrivals cl t xs))) x]
      else tier_log serialize node_id cfg cl t xs)"
  by (simp add: tier_log_def tier_arrivals_def enumerate_append_eq)

lemma length_tier_log [simp]:
  "length (tier_log serialize node_id cfg cl t xs) = length (tier_arrivals cl t xs)"
  by (simp add: tier_log_def)

lemma tier_arrivals_snoc:
  "tier_arrivals cl t (xs @ [x]) =
     (if arrival_tier cl x = t then tier_arrivals cl t xs @ [x] else tier_arrivals cl t xs)"
  by (simp add: tier_arrivals_def)

definition run_state ::
  "(envelope \<Rightarrow> string option) \<Rightarrow> string \<Rightarrow> envelope_config \<Rightarrow> tier_classifier \<Rightarrow> (tier \<Rightarrow> nat) \<Rightarrow> arrival list
     \<Rightarrow> event_binder \<Rightarrow> bool" where
  "run_state serialize node_id cfg cl cap xs b \<longleftrightarrow>
     bd_classifier b = Some cl \<and> bd_node_id b = node_id \<and> bd_envelope_cfg b = cfg
     \<and> (\<forall>t. t \<noteq> kUnspecified \<longrightarrow> tier_state serialize node_id cfg cl (cap t) xs b t)
     \<and> bd_events_emitted b = of_nat (length (filter (\<lambda>x. arrival_tier cl x \<noteq> kUnspecified) xs))"

lemma run_state_step:
  assumes st: "run_state serialize node_id cfg cl cap xs b" and cap: "\<And>t. 0 < cap t"
    and ser: "\<And>env. serialize env \<noteq> None"
  shows "run_state serialize node_id cfg cl cap (xs @ [(i, now, ev)]) (HandleEvent serialize i now (Some ev) b)"
proof -
  let ?x = "(i, now, ev)"
  let ?t = "arrival_tier cl ?x"
  from st have cl: "bd_classifier b = Some cl" and node: "bd_node_id b = node_id" and cfg: "bd_envelope_cfg b = cfg"
    and em: "bd_events_emitted b = of_nat (length (filter (\<lambda>x. arrival_tier cl x \<noteq> kUnspecified) xs))"
    and tiers: "\<And>t. t \<noteq> kUnspecified \<Longrightarrow> tier_state serialize node_id cfg cl (cap t) xs b t"
    by (auto simp: run_state_def)
  from tiers [of k1Critical] obtain rs where rs: "bd_rings b = Some rs"
    by (auto simp: tier_state_def split: bind_splits)
  show ?thesis
  proof (cases "?t = kUnspecified")
    case True
    then show ?thesis
      using st HandleEvent_step [where i = i and now = now and ev = ev, OF rs cl ser refl]
      by (auto simp: run_state_def tier_state_def tier_log_snoc tier_arrivals_snoc)
  next
    case False
    let ?k = "length (tier_arrivals cl ?t xs)"
    let ?e = "arrival_entry serialize node_id cfg ?t (Suc ?k) ?x"
    let ?b1 = "b\<lparr>bd_next_seq := (bd_next_seq b)(TierIndex ?t := bd_next_seq b (TierIndex ?t) + 1)\<rparr>"
    from tiers [OF False] rs obtain r where r: "RingSet_Get rs ?t = Some r" "ring_capacity r = cap ?t"
        "ring_q r = last_n (cap ?t) (tier_log serialize node_id cfg cl ?t xs)"
      and seq: "bd_next_seq b (TierIndex ?t) = of_nat ?k" and drops: "DropsForTier b ?t = of_nat (?k - cap ?t)"
      by (auto simp: tier_state_def)
    have b': "HandleEvent serialize i now (Some ev) b = push_entry ?t rs ?e ?b1"
      using HandleEvent_step [where i = i and now = now and ev = ev, OF rs cl ser refl] False
      by (simp add: seq arrival_entry_def node cfg add.commute)
    have q: "ring_q (fst (Ring_Push r ?e None)) = last_n (cap ?t) (tier_log serialize node_id cfg cl ?t xs @ [?e])"
      using Ring_Push_q [of r ?e None] r(2,3) cap [of ?t] by (simp add: last_n_last_n_snoc)
    have d: "of_nat (?k - cap ?t) + (if cap ?t \<le> ?k then 1 else 0 :: u64) = of_nat (Suc ?k - cap ?t)"
      by (auto simp: Suc_diff_le not_le)
    have "tier_state serialize node_id cfg cl (cap u) (xs @ [?x]) (push_entry ?t rs ?e ?b1) u"
      if u: "u \<noteq> kUnspecified" for u
    proof (cases "u = ?t")
      case True
      then show ?thesis
        using r q d seq drops False
        by (simp add: tier_state_def push_entry_fields [OF r(1)] tier_log_snoc tier_arrivals_snoc DropsForTier_def
            add.commute)
    next
      case ne: False
      then show ?thesis
        using tiers [OF u] rs TierIndex_inj [OF u False]
        by (auto simp: tier_state_def push_entry_fields [OF r(1)] tier_log_snoc tier_arrivals_snoc DropsForTier_def)
    qed
    then show ?thesis
      unfolding b' run_state_def
      using cl node cfg em False by (simp add: push_entry_fields [OF r(1)] add.commute)
  qed
qed

lemma run_state_handle_all:
  assumes "run_state serialize node_id cfg cl cap [] b" and "\<And>t. 0 < cap t" and "\<And>env. serialize env \<noteq> None"
  shows "run_state serialize node_id cfg cl cap xs (handle_all serialize xs b)"
proof (induction xs rule: rev_induct)
  case Nil
  then show ?case using assms(1) by (simp add: handle_all_def)
next
  case (snoc x xs)
  obtain i now ev where "x = (i, now, ev)" by (cases x)
  with run_state_step [OF snoc assms(2,3), of i now ev] show ?case
    by (simp add: handle_all_def)
qed

definition tier_capacity :: "nat \<Rightarrow> nat \<Rightarrow> nat \<Rightarrow> tier \<Rightarrow> nat" where
  "tier_capacity c1 c2 c3 t = max 1 (case t of k1Critical \<Rightarrow> c1 | k2State \<Rightarrow> c2 | _ \<Rightarrow> c3)"

lemma run_state_new:
  "run_state serialize node_id cfg cl (tier_capacity c1 c2 c3) []
     (Binder_new (Some (RingSet_new c1 c2 c3)) (Some cl) cfg node_id health)"
proof -
  have "tier_state serialize node_id cfg cl (tier_capacity c1 c2 c3 t) []
     (Binder_new (Some (RingSet_new c1 c2 c3)) (Some cl) cfg node_id health) t" if "t \<noteq> kUnspecified" for t
    using that
    by (cases t) (auto simp: tier_state_def Binder_new_def RingSet_new_def RingSet_Get_def Ring_new_def
        Ring_SetDrainNotifier_def tier_capacity_def tier_log_def tier_arrivals_def last_n_def DropsForTier_def)
  then show ?thesis by (simp add: run_state_def Binder_new_def)
qed

text \<open>
  C15. A binder fed with events one after the other, and whose envelopes serialise, loses count of
  nothing: the \<open>n\<close>-th event of a tier gets sequence number \<open>n\<close>; each ring holds the newest events
  of its tier up to its capacity, in order; the tier's drop counter is the number of events pushed
  out; the emission counter is the number of events that have a tier (all modulo \<open>2 ^ 64\<close>).
\<close>

theorem handle_events_accounting:
  assumes "\<forall>env. serialize env \<noteq> None" and "t \<noteq> kUnspecified"
    and "b = handle_all serialize xs (Binder_new (Some (RingSet_new c1 c2 c3)) (Some cl) cfg node_id health)"
  shows "(\<exists>rs r. bd_rings b = Some rs \<and> RingSet_Get rs t = Some r
            \<and> ring_q r = last_n (tier_capacity c1 c2 c3 t) (tier_log serialize node_id cfg cl t xs))
       \<and> DropsForTier b t = of_nat (length (tier_arrivals cl t xs) - tier_capacity c1 c2 c3 t)
       \<and> bd_next_seq b (TierIndex t) = of_nat (length (tier_arrivals cl t xs))
       \<and> bd_events_emitted b = of_nat (length (filter (\<lambda>x. arrival_tier cl x \<noteq> kUnspecified) xs))"
proof -
  have "run_state serialize node_id cfg cl (tier_capacity c1 c2 c3) xs b"
    unfolding assms(3) using assms(1) by (intro run_state_handle_all run_state_new) (simp_all add: tier_capacity_def)
  then have "tier_state serialize node_id cfg cl (tier_capacity c1 c2 c3 t) xs b t"
    and "bd_events_emitted b = of_nat (length (filter (\<lambda>x. arrival_tier cl x \<noteq> kUnspecified) xs))"
    using assms(2) by (simp_all add: run_state_def)
  then show ?thesis by (auto simp: tier_state_def bind_eq_Some_conv)
qed

definition demo_classifier :: tier_classifier where
  "demo_classifier = TierClassifier MakeDefaultRules"

theorem handle_events_accounting_witness:
  "k2State \<noteq> kUnspecified
   \<and> DropsForTier
       (handle_all (\<lambda>_. Some []) []
         (Binder_new (Some (RingSet_new 1 1 1)) (Some demo_classifier) MakeDefaultEnvelopeConfig ''n1'' None))
       k2State = 0
   \<and> bd_next_seq
       (handle_all (\<lambda>_. Some []) [(''id'', 7, demo_event)]
         (Binder_new (Some (RingSet_new 1 1 1)) (Some demo_classifier) MakeDefaultEnvelopeConfig ''n1'' None))
       (TierIndex k2State) = of_nat (length (tier_arrivals demo_classifier k2State [(''id'', 7, demo_event)]))"
  using handle_events_accounting [of "\<lambda>_. Some []" k2State _ "[]" 1 1 1 demo_classifier MakeDefaultEnvelopeConfig "''n1''" None]
    handle_events_accounting [of "\<lambda>_. Some []" k2State _ "[(''id'', 7, demo_event)]" 1 1 1 demo_classifier
      MakeDefaultEnvelopeConfig "''n1''" None]
  by (simp add: tier_arrivals_def)

section \<open>Concurrent producers\<close>

text \<open>
  FreeSWITCH dispatches events on several threads. The handler numbers an event with one atomic
  increment and pushes it later, in a separate critical section, so the two are separate steps.
  The state is the tier's counter, the numbers allocated and not yet pushed, the ring, and the
  entries pushed so far.
\<close>

inductive producer_step ::
  "u64 \<times> u64 list \<times> ring \<times> ring_entry list \<Rightarrow> u64 \<times> u64 list \<times> ring \<times> ring_entry list \<Rightarrow> bool" where
  ps_alloc: "producer_step (n, pend, r, log) (n + 1, pend @ [n + 1], r, log)"
| ps_push: "s \<in> set pend \<Longrightarrow> e = \<lparr>re_seq = s, re_bytes = Some bytes\<rparr> \<Longrightarrow>
     producer_step (n, pend, r, log) (n, remove1 s pend, fst (Ring_Push r e None), log @ [e])"

inductive producer_reach :: "nat \<Rightarrow> u64 \<times> u64 list \<times> ring \<times> ring_entry list \<Rightarrow> bool" for cap :: nat where
  pr_start: "producer_reach cap (0, [], Ring_new cap, [])"
| pr_step: "producer_reach cap s \<Longrightarrow> producer_step s s' \<Longrightarrow> producer_reach cap s'"

text \<open>
  C40. With two concurrent producers the replay guarantee of the ring fails: there is a run in
  which the second number is pushed before the first, so that a resume from 1 is reported as in
  the window with nothing to replay, although event 2 was pushed, was never handed to anybody and
  is gone.
\<close>

theorem concurrent_producers_break_replay:
  "\<exists>r log e. producer_reach 1 (2, [], r, log)
     \<and> e \<in> set log \<and> 1 < re_seq e \<and> e \<notin> set (ring_q r)
     \<and> found_in_window (Ring_SnapshotFromSeq r 1) \<and> snap_entries (Ring_SnapshotFromSeq r 1) = []"
proof -
  let ?e1 = "\<lparr>re_seq = 1, re_bytes = Some ''a''\<rparr>" and ?e2 = "\<lparr>re_seq = 2, re_bytes = Some ''b''\<rparr>"
  let ?r1 = "fst (Ring_Push (Ring_new 1) ?e2 None)"
  let ?r2 = "fst (Ring_Push ?r1 ?e1 None)"
  have "producer_reach 1 (0 + 1, [] @ [0 + 1], Ring_new 1, [])"
    by (rule pr_step [OF pr_start ps_alloc])
  from pr_step [OF this ps_alloc] have "producer_reach 1 (2, [1, 2], Ring_new 1, [])" by simp
  from pr_step [OF this ps_push [of 2 _ ?e2 "''b''"]] have "producer_reach 1 (2, [1], ?r1, [?e2])" by simp
  from pr_step [OF this ps_push [of 1 _ ?e1 "''a''"]] have "producer_reach 1 (2, [], ?r2, [?e2, ?e1])" by simp
  moreover have "ring_q ?r2 = [?e1]" by (simp add: Ring_Push_def Ring_new_def Let_def)
  ultimately show ?thesis
    by (intro exI [of _ ?r2] exI [of _ "[?e2, ?e1]"] exI [of _ ?e2])
       (simp add: Ring_SnapshotFromSeq_def Let_def)
qed

section \<open>Publication of the callback\<close>

text \<open>
  The callback acts only on a binder that is initialised and not stopped: starting from an
  empty slot, a successful \<open>Init\<close> publishes the binder and makes it active, a failed bind leaves
  the slot empty and the binder inactive, a second binder is refused, and after \<open>Stop\<close> the
  callback changes nothing whatever event arrives.
\<close>

lemma callback_only_while_active:
  assumes "\<not> bd_active b" and "Binder_Init bind_ok self None b = (ok, slot, b1)"
  shows "(ok \<longleftrightarrow> bind_ok) \<and> (slot = Some self \<longleftrightarrow> bind_ok) \<and> (slot = None \<longleftrightarrow> \<not> bind_ok) \<and> (bd_active b1 \<longleftrightarrow> bind_ok)
       \<and> (ok \<and> \<not> bd_active b' \<longrightarrow> fst (Binder_Init bind_ok' other slot b') = False)
       \<and> osw_event_handler handle event (fst (Binder_Stop slot b1)) binders = binders
       \<and> \<not> bd_active (snd (Binder_Stop slot b1))"
  using assms
  by (auto simp: Binder_Init_def Binder_Stop_def osw_event_handler_def split: if_splits option.splits)

lemma callback_only_while_active_example:
  "\<exists>ok slot b1. Binder_Init True 3 None (Binder_new None None MakeDefaultEnvelopeConfig [] None) = (ok, slot, b1)
     \<and> ok \<and> slot = Some 3
     \<and> osw_event_handler (\<lambda>_ b. b\<lparr>bd_active := True\<rparr>) (Some demo_event) (fst (Binder_Stop slot b1)) (\<lambda>_. b1) = (\<lambda>_. b1)"
proof -
  let ?b = "Binder_new None None MakeDefaultEnvelopeConfig [] None"
  obtain ok slot b1 where i: "Binder_Init True 3 None ?b = (ok, slot, b1)" by (cases "Binder_Init True 3 None ?b")
  have "\<not> bd_active ?b" by (simp add: Binder_new_def)
  from callback_only_while_active [OF this i] i show ?thesis by blast
qed

end
