(* ===== verification/Event_Plane.thy ===== *)
theory Event_Plane
  imports Event_Subscribe Event_Binder
begin

text \<open>
  The event plane of one tier as a concurrent system: the producer, the tier's worker of
  \<^verbatim>\<open>Broadcaster::WorkerLoop\<close>, subscriptions through \<^verbatim>\<open>AddSubscriberAtomic\<close>, the writers of the
  subscribers, workers of the other tiers, kicks and removals, interleaved at the granularity of
  the critical sections of the source.
\<close>

section \<open>State and steps\<close>

text \<open>
  The worker's program points: waiting on its ring; holding a popped batch before it has taken the
  roster snapshot; dispatching, with the entries left, the addresses the first of them has still
  to be offered to, and the snapshot.
\<close>

datatype worker = Wk_idle | Wk_batch "ring_entry list" | Wk_dispatch "ring_entry list" "addr list" "addr list"

text \<open>
  Besides the ring, the broadcaster and the worker, the state records for each subscriber what its
  writer has taken from its queue, and the resume point of its replay, if it asked for one on this
  tier and got it.
\<close>

record plane =
  pl_log :: ring_log
  pl_bc :: broadcaster
  pl_worker :: worker
  pl_got :: "addr \<Rightarrow> string option list"
  pl_since :: "addr \<rightharpoonup> u64"

definition plane_init :: "nat \<Rightarrow> broadcaster \<Rightarrow> plane" where
  "plane_init cap b =
     \<lparr>pl_log = log_init cap, pl_bc = b, pl_worker = Wk_idle, pl_got = (\<lambda>_. []), pl_since = Map.empty\<rparr>"

definition worker_pop :: "plane \<Rightarrow> plane" where
  "worker_pop s =
     (let batch = take kBatchMax (ring_q (log_ring (pl_log s)))
      in s\<lparr>pl_log := log_pop_batch kBatchMax (pl_log s),
           pl_worker := (if batch = [] then Wk_idle else Wk_batch batch)\<rparr>)"

definition worker_offer :: "tier \<Rightarrow> ring_entry \<Rightarrow> addr \<Rightarrow> broadcaster \<Rightarrow> broadcaster" where
  "worker_offer t e a b =
     (case re_bytes e of
        None \<Rightarrow> b
      | Some bytes \<Rightarrow>
          (let rf = ExtractRoutingFields bytes in dispatch_one (effective_tier t rf) rf bytes a b))"

definition next_entry :: "ring_entry list \<Rightarrow> addr list \<Rightarrow> worker" where
  "next_entry es roster = (if es = [] then Wk_idle else Wk_dispatch es roster roster)"

definition writer_pop :: "addr \<Rightarrow> plane \<Rightarrow> plane" where
  "writer_pop a s =
     (case bc_heap (pl_bc s) a of
        None \<Rightarrow> s
      | Some sub \<Rightarrow>
          (case SendQueue_WaitAndPop id (sub_queue sub) of
             (None, q) \<Rightarrow> s
           | (Some x, q) \<Rightarrow>
               s\<lparr>pl_bc := put_sub a (sub\<lparr>sub_queue := q\<rparr>) (pl_bc s),
                 pl_got := (pl_got s)(a := pl_got s a @ [x])\<rparr>))"

definition close_at :: "kick_reason \<Rightarrow> addr \<Rightarrow> broadcaster \<Rightarrow> broadcaster" where
  "close_at r a b =
     (case bc_heap b a of None \<Rightarrow> b | Some sub \<Rightarrow> put_sub a (Subscriber_RequestClose r sub) b)"

inductive plane_step :: "tier \<Rightarrow> plane \<Rightarrow> plane \<Rightarrow> bool" for t :: tier where
  pl_push: "re_seq e \<noteq> 0 \<Longrightarrow> \<forall>x \<in> set (log_pushed (pl_log s)). re_seq x < re_seq e \<Longrightarrow>
     plane_step t s (s\<lparr>pl_log := log_push e (pl_log s)\<rparr>)"
| pl_pop: "pl_worker s = Wk_idle \<Longrightarrow> plane_step t s (worker_pop s)"
| pl_snapshot: "pl_worker s = Wk_batch es \<Longrightarrow>
     plane_step t s (s\<lparr>pl_worker := Wk_dispatch es (RosterSnapshot (pl_bc s)) (RosterSnapshot (pl_bc s))\<rparr>)"
| pl_offer: "pl_worker s = Wk_dispatch (e # es) (a # todo) roster \<Longrightarrow>
     plane_step t s (s\<lparr>pl_bc := worker_offer t e a (pl_bc s), pl_worker := Wk_dispatch (e # es) todo roster\<rparr>)"
| pl_next: "pl_worker s = Wk_dispatch (e # es) [] roster \<Longrightarrow>
     plane_step t s (s\<lparr>pl_worker := next_entry es roster\<rparr>)"
| pl_subscribe: "bc_heap (pl_bc s) a = None \<Longrightarrow> a \<notin> set (bc_roster (pl_bc s)) \<Longrightarrow>
     ep_rings cfg = Some rs \<Longrightarrow> RingSet_Get rs t = Some (log_ring (pl_log s)) \<Longrightarrow>
     register_subscriber cfg fr since i a (pl_bc s) = (ok, b) \<Longrightarrow>
     plane_step t s (s\<lparr>pl_bc := b, pl_got := (pl_got s)(a := []),
       pl_since := (pl_since s)(a := if ok \<and> 0 < since \<and> t \<in> set (fr_replay_tiers fr) then Some since else None)\<rparr>)"
| pl_write: "plane_step t s (writer_pop a s)"
| pl_other: "plane_step t s (s\<lparr>pl_bc := dispatch_one eff rf bytes a (pl_bc s)\<rparr>)"
| pl_close: "plane_step t s (s\<lparr>pl_bc := close_at r a (pl_bc s)\<rparr>)"
| pl_remove: "plane_step t s (s\<lparr>pl_bc := RemoveSubscriber i (pl_bc s)\<rparr>)"

inductive plane_reach :: "tier \<Rightarrow> nat \<Rightarrow> broadcaster \<Rightarrow> plane \<Rightarrow> bool"
  for t :: tier and cap :: nat and b0 :: broadcaster where
  pl_start: "plane_reach t cap b0 (plane_init cap b0)"
| pl_then: "plane_reach t cap b0 s \<Longrightarrow> plane_step t s s' \<Longrightarrow> plane_reach t cap b0 s'"

section \<open>The invariant\<close>

text \<open>Everything that ever entered the queue of a subscriber, and what the worker still owes it.\<close>

definition received :: "plane \<Rightarrow> addr \<Rightarrow> string option list" where
  "received s a =
     pl_got s a @ (case bc_heap (pl_bc s) a of None \<Rightarrow> [] | Some sub \<Rightarrow> sq_q (sub_queue sub))"

fun in_flight :: "worker \<Rightarrow> addr \<Rightarrow> ring_entry \<Rightarrow> bool" where
  "in_flight Wk_idle a e = False"
| "in_flight (Wk_batch es) a e = (e \<in> set es)"
| "in_flight (Wk_dispatch es todo roster) a e =
     ((es \<noteq> [] \<and> e = hd es \<and> a \<in> set todo) \<or> (a \<in> set roster \<and> e \<in> set (tl es)))"

definition accounted :: "plane \<Rightarrow> addr \<Rightarrow> ring_entry \<Rightarrow> bool" where
  "accounted s a e \<longleftrightarrow>
     re_bytes e \<in> set (received s a) \<or> e \<in> set (ring_q (log_ring (pl_log s)))
     \<or> in_flight (pl_worker s) a e \<or> e \<in> set (log_evicted (pl_log s))"

definition live :: "plane \<Rightarrow> addr \<Rightarrow> u64 \<Rightarrow> subscriber \<Rightarrow> bool" where
  "live s a since sub \<longleftrightarrow>
     pl_since s a = Some since \<and> bc_heap (pl_bc s) a = Some sub \<and> \<not> Subscriber_IsClosed sub
     \<and> a \<in> set (bc_roster (pl_bc s))"

definition plane_inv :: "tier \<Rightarrow> nat \<Rightarrow> plane \<Rightarrow> bool" where
  "plane_inv t cap s \<longleftrightarrow>
     log_inv cap (pl_log s)
     \<and> sorted_wrt (<) (map re_seq (log_pushed (pl_log s))) \<and> 0 \<notin> re_seq ` set (log_pushed (pl_log s))
     \<and> (\<forall>a since sub e. live s a since sub \<longrightarrow> e \<in> set (log_pushed (pl_log s)) \<longrightarrow> since < re_seq e
          \<longrightarrow> entry_matches t e sub \<longrightarrow> accounted s a e)"

lemma plane_invD:
  "plane_inv t cap s \<Longrightarrow> live s a since sub \<Longrightarrow> e \<in> set (log_pushed (pl_log s)) \<Longrightarrow> since < re_seq e
     \<Longrightarrow> entry_matches t e sub \<Longrightarrow> accounted s a e"
  by (auto simp: plane_inv_def)

text \<open>A filter never changes, so what matches depends on the filter alone.\<close>

lemma entry_matches_filter:
  "sub_filter s = sub_filter s' \<Longrightarrow> entry_matches t e s = entry_matches t e s'"
  by (simp add: entry_matches_def Subscriber_MatchesFilter_def Let_def split: option.splits)

text \<open>
  A step of the broadcaster that touches subscribers only: queues grow at the tail, closed stays
  closed, filters and the roster stay.
\<close>

definition sub_grows :: "subscriber \<Rightarrow> subscriber \<Rightarrow> bool" where
  "sub_grows s s' \<longleftrightarrow>
     sub_filter s' = sub_filter s \<and> (Subscriber_IsClosed s \<longrightarrow> Subscriber_IsClosed s')
     \<and> prefix (sq_q (sub_queue s)) (sq_q (sub_queue s'))"

definition bc_grows :: "broadcaster \<Rightarrow> broadcaster \<Rightarrow> bool" where
  "bc_grows b b' \<longleftrightarrow>
     set (bc_roster b') \<subseteq> set (bc_roster b)
     \<and> (\<forall>a. rel_option sub_grows (bc_heap b a) (bc_heap b' a))"

lemma sub_grows_refl [simp]: "sub_grows s s"
  by (simp add: sub_grows_def)

lemma sub_grows_RequestClose [simp]: "sub_grows s (Subscriber_RequestClose r s)"
  by (simp add: sub_grows_def Subscriber_IsClosed_def Subscriber_RequestClose_def close_cas_reason_def
      close_set_flag_def close_queue_def SendQueue_Close_def)

lemma rel_option_sub_grows_refl [simp]: "rel_option sub_grows x x"
  by (cases x) simp_all

lemma bc_grows_dispatch_one: "bc_grows b (dispatch_one eff rf bytes a b)"
  by (auto simp: bc_grows_def dispatch_one_def SendQueue_TryPush_def sub_grows_def Subscriber_IsClosed_def
      Subscriber_RequestClose_def close_cas_reason_def close_set_flag_def close_queue_def SendQueue_Close_def
      split: option.splits)

lemma bc_grows_close_at: "bc_grows b (close_at r a b)"
  by (auto simp: bc_grows_def close_at_def put_sub_def split: option.splits)

lemma bc_grows_RemoveSubscriber: "bc_grows b (RemoveSubscriber i b)"
  by (auto simp: bc_grows_def RemoveSubscriber_def set_subscriber_count_def)

lemma bc_grows_offer: "bc_grows b (worker_offer t e a b)"
  by (cases "re_bytes e") (simp_all add: worker_offer_def Let_def bc_grows_dispatch_one, simp add: bc_grows_def)

lemma live_grows:
  assumes "bc_grows (pl_bc s) (pl_bc s')" and "pl_since s' = pl_since s" and "pl_got s' = pl_got s"
    and "live s' a since sub'"
  shows "\<exists>sub. live s a since sub \<and> sub_filter sub' = sub_filter sub
           \<and> set (received s a) \<subseteq> set (received s' a)"
proof -
  from assms(1,4) obtain sub where "bc_heap (pl_bc s) a = Some sub" "sub_grows sub sub'"
    by (force simp: bc_grows_def live_def elim: option.rel_cases)
  with assms show ?thesis
    by (intro exI [of _ sub])
       (auto simp: live_def bc_grows_def sub_grows_def received_def dest: set_mono_prefix)
qed

lemma plane_inv_grows:
  assumes inv: "plane_inv t cap s" and g: "bc_grows (pl_bc s) b"
  shows "plane_inv t cap (s\<lparr>pl_bc := b\<rparr>)"
proof -
  have "accounted (s\<lparr>pl_bc := b\<rparr>) a e"
    if l: "live (s\<lparr>pl_bc := b\<rparr>) a since sub" and e: "e \<in> set (log_pushed (pl_log s))" "since < re_seq e"
      and m: "entry_matches t e sub" for a since sub e
  proof -
    obtain sub0 where "live s a since sub0" "sub_filter sub = sub_filter sub0"
      "set (received s a) \<subseteq> set (received (s\<lparr>pl_bc := b\<rparr>) a)"
      using live_grows [of s "s\<lparr>pl_bc := b\<rparr>" a since sub] g l by auto
    moreover from this m have "entry_matches t e sub0" using entry_matches_filter by blast
    ultimately show ?thesis using plane_invD [OF inv _ e] by (auto simp: accounted_def)
  qed
  with inv show ?thesis by (auto simp: plane_inv_def)
qed

text \<open>Offering an entry to an open subscriber that wants it either enqueues it or closes it.\<close>

lemma offer_enqueues:
  assumes "bc_heap (worker_offer t e a b) a = Some sub'" and "\<not> Subscriber_IsClosed sub'" and "entry_matches t e sub'"
  shows "re_bytes e \<in> set (sq_q (sub_queue sub'))"
proof -
  obtain bytes where b: "re_bytes e = Some bytes" using assms(3) by (auto simp: entry_matches_def split: option.splits)
  have "bc_heap (worker_offer t e a b) a = map_option (offer t e) (bc_heap b a)"
    using dispatch_one_heap [OF b refl, of t a b a] b by (simp add: worker_offer_def Let_def)
  then obtain sub where s: "bc_heap b a = Some sub" "sub' = offer t e sub"
    using assms(1) by (cases "bc_heap b a") auto
  have "sub_filter (offer t e sub) = sub_filter sub"
    by (simp add: offer_def Subscriber_RequestClose_def close_cas_reason_def close_set_flag_def close_queue_def)
  then have "entry_matches t e sub" using assms(3) s(2) entry_matches_filter by blast
  with assms(2) s(2) show ?thesis
    by (auto simp: offer_def Subscriber_IsClosed_def split: if_splits)
qed

lemma plane_inv_offer:
  assumes inv: "plane_inv t cap s" and w: "pl_worker s = Wk_dispatch (e # es) (x # todo) roster"
  shows "plane_inv t cap (s\<lparr>pl_bc := worker_offer t e x (pl_bc s), pl_worker := Wk_dispatch (e # es) todo roster\<rparr>)"
    (is "plane_inv t cap ?s")
proof -
  have inv': "plane_inv t cap (s\<lparr>pl_bc := worker_offer t e x (pl_bc s)\<rparr>)" (is "plane_inv t cap ?s1")
    using plane_inv_grows [OF inv bc_grows_offer] .
  have "accounted ?s a f"
    if l: "live ?s a since sub" and f: "f \<in> set (log_pushed (pl_log s))" "since < re_seq f" "entry_matches t f sub"
    for a since sub f
  proof -
    have "live ?s1 a since sub" using l by (simp add: live_def)
    then have acc: "accounted ?s1 a f" using plane_invD [OF inv'] f by simp
    show ?thesis
    proof (cases "f = e \<and> a = x")
      case True
      then have "re_bytes f \<in> set (sq_q (sub_queue sub))"
        using offer_enqueues [of t e x "pl_bc s" sub] l f(3) by (simp add: live_def)
      then show ?thesis using l by (simp add: accounted_def received_def live_def)
    next
      case False
      with acc w show ?thesis by (auto simp: accounted_def received_def)
    qed
  qed
  with inv' show ?thesis by (auto simp: plane_inv_def)
qed

text \<open>Steps that leave the subscribers alone: the entries move, none disappears.\<close>

lemma plane_inv_move:
  assumes inv: "plane_inv t cap s"
    and same: "pl_bc s' = pl_bc s" "pl_got s' = pl_got s" "pl_since s' = pl_since s" "log_pushed (pl_log s') = log_pushed (pl_log s)"
    and log: "log_inv cap (pl_log s')"
    and move: "\<And>a e. a \<in> set (bc_roster (pl_bc s)) \<Longrightarrow> accounted s a e \<Longrightarrow> accounted s' a e"
  shows "plane_inv t cap s'"
proof -
  have "live s' a since sub \<longleftrightarrow> live s a since sub" for a since sub by (simp add: live_def same)
  with inv log move show ?thesis by (auto simp: plane_inv_def same live_def)
qed

lemma plane_inv_pop:
  assumes "plane_inv t cap s" and "pl_worker s = Wk_idle"
  shows "plane_inv t cap (worker_pop s)"
proof (rule plane_inv_move [OF assms(1)])
  let ?q = "ring_q (log_ring (pl_log s))"
  fix a e
  assume acc: "accounted s a e"
  have pop: "ring_q (log_ring (pl_log (worker_pop s))) = drop kBatchMax ?q"
    "log_evicted (pl_log (worker_pop s)) = log_evicted (pl_log s)" "received (worker_pop s) a = received s a"
    "in_flight (pl_worker (worker_pop s)) a e \<longleftrightarrow> e \<in> set (take kBatchMax ?q)"
    by (simp_all add: worker_pop_def received_def log_pop_batch_def Ring_WaitAndPopBatch_id Let_def
        log_evicted_def)
  have "e \<in> set ?q \<Longrightarrow> e \<in> set (take kBatchMax ?q) \<or> e \<in> set (drop kBatchMax ?q)"
    by (metis Un_iff append_take_drop_id set_append)
  with acc assms(2) show "accounted (worker_pop s) a e"
    unfolding accounted_def pop by auto
next
  show "log_inv cap (pl_log (worker_pop s))"
    using assms(1) by (simp add: plane_inv_def worker_pop_def log_inv_batch Let_def)
qed (simp_all add: worker_pop_def log_pop_batch_def Let_def split: prod.splits)

lemma plane_inv_snapshot:
  assumes "plane_inv t cap s" and "pl_worker s = Wk_batch es"
  shows "plane_inv t cap (s\<lparr>pl_worker := Wk_dispatch es (RosterSnapshot (pl_bc s)) (RosterSnapshot (pl_bc s))\<rparr>)"
proof (rule plane_inv_move [OF assms(1)])
  fix a e
  assume "a \<in> set (bc_roster (pl_bc s))" "accounted s a e"
  then show "accounted (s\<lparr>pl_worker := Wk_dispatch es (RosterSnapshot (pl_bc s)) (RosterSnapshot (pl_bc s))\<rparr>) a e"
    using assms(2) by (cases es) (auto simp: accounted_def received_def RosterSnapshot_def)
qed (use assms in \<open>simp_all add: plane_inv_def\<close>)

lemma plane_inv_next:
  assumes "plane_inv t cap s" and "pl_worker s = Wk_dispatch (e # es) [] roster"
  shows "plane_inv t cap (s\<lparr>pl_worker := next_entry es roster\<rparr>)"
proof (rule plane_inv_move [OF assms(1)])
  fix a f
  assume "accounted s a f"
  then show "accounted (s\<lparr>pl_worker := next_entry es roster\<rparr>) a f"
    using assms(2) by (cases es) (auto simp: accounted_def received_def next_entry_def)
qed (use assms in \<open>simp_all add: plane_inv_def\<close>)

lemma log_push_eq:
  "ring_q (log_ring (log_push e l)) =
     (if ring_capacity (log_ring l) \<le> length (ring_q (log_ring l)) then tl (ring_q (log_ring l))
      else ring_q (log_ring l)) @ [e]"
  "log_evicted (log_push e l) = log_evicted l
     @ (if ring_capacity (log_ring l) \<le> length (ring_q (log_ring l)) then [hd (ring_q (log_ring l))] else [])"
  "log_pushed (log_push e l) = log_pushed l @ [e]"
  by (simp_all add: log_push_def Ring_Push_def log_evicted_def Let_def)

lemma log_push_moves:
  "x \<in> set (ring_q (log_ring l)) \<Longrightarrow>
     x \<in> set (ring_q (log_ring (log_push e l))) \<or> x \<in> set (log_evicted (log_push e l))"
  by (cases "ring_q (log_ring l)") (auto simp: log_push_eq)

lemma plane_inv_push:
  assumes inv: "plane_inv t cap s" and e: "re_seq e \<noteq> 0" "\<forall>x \<in> set (log_pushed (pl_log s)). re_seq x < re_seq e"
  shows "plane_inv t cap (s\<lparr>pl_log := log_push e (pl_log s)\<rparr>)" (is "plane_inv t cap ?s")
proof -
  let ?l = "pl_log s" and ?l' = "log_push e (pl_log s)"
  have lin: "log_inv cap ?l" using inv by (simp add: plane_inv_def)
  have acc: "accounted ?s a f" if "accounted s a f" for a f
    using that log_push_moves [of f ?l e] by (auto simp: accounted_def received_def log_push_eq(2))
  have "accounted ?s a f"
    if "live ?s a since sub" "f \<in> set (log_pushed ?l')" "since < re_seq f" "entry_matches t f sub" for a since sub f
  proof (cases "f = e")
    case True
    then show ?thesis by (simp add: accounted_def log_push_eq(1))
  next
    case False
    have "live s a since sub" using that(1) by (simp add: live_def)
    with False that show ?thesis by (intro acc plane_invD [OF inv]) (simp_all add: log_push_eq(3))
  qed
  moreover have "sorted_wrt (<) (map re_seq (log_pushed ?l'))"
    using inv e by (simp add: plane_inv_def log_push_eq(3) sorted_wrt_append)
  moreover have "0 \<notin> re_seq ` set (log_pushed ?l')"
    using inv e(1) by (auto simp: plane_inv_def log_push_eq(3))
  moreover have "log_inv cap ?l'" by (rule log_inv_push [OF lin])
  ultimately show ?thesis by (simp add: plane_inv_def)
qed

lemma plane_inv_write:
  assumes inv: "plane_inv t cap s"
  shows "plane_inv t cap (writer_pop x s)"
proof (cases "bc_heap (pl_bc s) x")
  case None
  then show ?thesis using inv by (simp add: writer_pop_def)
next
  case (Some sub)
  show ?thesis
  proof (cases "sq_q (sub_queue sub)")
    case Nil
    then show ?thesis using inv Some by (simp add: writer_pop_def SendQueue_WaitAndPop_id)
  next
    case (Cons y ys)
    let ?sub = "sub\<lparr>sub_queue := (sub_queue sub)\<lparr>sq_q := ys\<rparr>\<rparr>"
    have eq: "writer_pop x s = s\<lparr>pl_bc := put_sub x ?sub (pl_bc s), pl_got := (pl_got s)(x := pl_got s x @ [y])\<rparr>"
      using Some Cons by (simp add: writer_pop_def SendQueue_WaitAndPop_id)
    have rec: "received (writer_pop x s) a = received s a" for a
      using Some Cons by (simp add: eq received_def put_sub_def)
    have live': "\<exists>sub0. live s a since sub0 \<and> sub_filter sub0 = sub_filter sub'"
      if "live (writer_pop x s) a since sub'" for a since sub'
      using that Some by (auto simp: eq live_def put_sub_def Subscriber_IsClosed_def split: if_splits)
    have acc: "accounted (writer_pop x s) a e \<longleftrightarrow> accounted s a e" for a e
      by (simp add: accounted_def rec) (simp add: eq)
    have "pl_log (writer_pop x s) = pl_log s" by (simp add: eq)
    moreover have "accounted s a e"
      if "live (writer_pop x s) a since sub'" "e \<in> set (log_pushed (pl_log s))" "since < re_seq e" "entry_matches t e sub'"
      for a since sub' e
      using live' [OF that(1)] plane_invD [OF inv _ that(2,3)] that(4) entry_matches_filter by blast
    ultimately show ?thesis using inv by (auto simp: plane_inv_def acc)
  qed
qed

text \<open>A registration puts the new subscriber, with its replay, at the end of the roster.\<close>

lemma register_subscriber_eq:
  assumes "register_subscriber cfg fr since i a b = (ok, b')" and "ep_rings cfg = Some rs" and "0 < since"
  shows "\<exists>sub. (let fresh = Subscriber i (fr_filter fr) (subscriber_queue_capacity (ep_send_queue_capacity cfg))
               in ReplaySinceSeq (Some rs) (fr_replay_tiers fr) since fresh = (ok, sub))
           \<and> bc_heap b' = (bc_heap b)(a \<mapsto> sub) \<and> bc_roster b' = bc_roster b @ [a]"
  using assms
  by (auto simp: register_subscriber_def AddSubscriberAtomic_def set_subscriber_count_def put_sub_def Let_def
      prod_eq_iff intro!: exI)

lemma register_subscriber_frame:
  assumes "register_subscriber cfg fr since i a b = (ok, b')"
  shows "bc_roster b' = bc_roster b @ [a]" and "x \<noteq> a \<Longrightarrow> bc_heap b' x = bc_heap b x"
  using assms
  by (auto simp: register_subscriber_def AddSubscriberAtomic_def set_subscriber_count_def put_sub_def Let_def)

lemma replay_covers:
  assumes inv: "plane_inv t cap s"
    and rs: "RingSet_Get rs t = Some (log_ring (pl_log s))" and t: "t \<in> set ts" and since: "0 < since"
    and fresh: "fresh = Subscriber i f n"
    and replay: "ReplaySinceSeq (Some rs) ts since fresh = (True, sub)"
    and e: "e \<in> set (log_pushed (pl_log s))" "since < re_seq e" "entry_matches t e sub"
  shows "re_bytes e \<in> set (sq_q (sub_queue sub))"
proof -
  have open_fresh: "\<not> sq_closed (sub_queue fresh)" "has_room 0 fresh"
    by (simp_all add: fresh Subscriber_def SendQueue_new_def has_room_def)
  have ok: "\<forall>u\<in>set ts. tier_in_window rs since u" and sub: "sub = enqueue_all (replay_slice rs ts since fresh) fresh"
    using replay_tiers_loop_eq [OF open_fresh, of ts rs since] replay
    by (auto simp: ReplaySinceSeq_def split: if_splits)
  have "found_in_window (Ring_SnapshotFromSeq (log_ring (pl_log s)) since)"
    using ok t rs by (auto simp: tier_in_window_def)
  then have "snap_entries (Ring_SnapshotFromSeq (log_ring (pl_log s)) since)
      = filter (\<lambda>e. since < re_seq e) (log_pushed (pl_log s))"
    using inv since by (intro replay_complete) (auto simp: plane_inv_def)
  moreover have "entry_matches t e fresh" using e(3) by (simp add: sub)
  ultimately have "re_bytes e \<in> set (tier_slice rs since fresh t)"
    using e rs by (auto simp: tier_slice_def)
  then show ?thesis
    using t by (auto simp: sub enqueue_all_def replay_slice_def)
qed

lemma plane_inv_subscribe:
  assumes inv: "plane_inv t cap s"
    and cfg: "ep_rings cfg = Some rs" and rs: "RingSet_Get rs t = Some (log_ring (pl_log s))"
    and reg: "register_subscriber cfg fr since i x (pl_bc s) = (ok, b)"
  shows "plane_inv t cap (s\<lparr>pl_bc := b, pl_got := (pl_got s)(x := []),
       pl_since := (pl_since s)(x := if ok \<and> 0 < since \<and> t \<in> set (fr_replay_tiers fr) then Some since else None)\<rparr>)"
    (is "plane_inv t cap ?s")
proof -
  have "accounted ?s a e"
    if l: "live ?s a n sub" and e: "e \<in> set (log_pushed (pl_log s))" "n < re_seq e" "entry_matches t e sub" for a n sub e
  proof (cases "a = x")
    case True
    then have since: "ok" "0 < since" "t \<in> set (fr_replay_tiers fr)" "n = since"
      using l by (auto simp: live_def split: if_splits)
    obtain sub' where r: "ReplaySinceSeq (Some rs) (fr_replay_tiers fr) since
          (Subscriber i (fr_filter fr) (subscriber_queue_capacity (ep_send_queue_capacity cfg))) = (True, sub')"
      and h: "bc_heap b = (bc_heap (pl_bc s))(x \<mapsto> sub')"
      using register_subscriber_eq [OF reg cfg since(2)] since(1) by (auto simp: Let_def)
    have "sub = sub'" using l True h by (simp add: live_def)
    then have "re_bytes e \<in> set (sq_q (sub_queue sub))"
      using replay_covers [OF inv rs since(3,2) refl r] e since(4) by simp
    then show ?thesis using l by (simp add: accounted_def received_def live_def)
  next
    case False
    then have "live s a n sub"
      using l register_subscriber_frame [OF reg] by (auto simp: live_def split: if_splits)
    then have "accounted s a e" using e plane_invD [OF inv] by blast
    then show ?thesis
      using False register_subscriber_frame(2) [OF reg, of a] by (simp add: accounted_def received_def)
  qed
  with inv show ?thesis by (auto simp: plane_inv_def)
qed

lemma plane_inv_step: "plane_inv t cap s \<Longrightarrow> plane_step t s s' \<Longrightarrow> plane_inv t cap s'"
  by (erule plane_step.cases)
     (simp_all add: plane_inv_push plane_inv_pop plane_inv_snapshot plane_inv_offer plane_inv_next
       plane_inv_subscribe plane_inv_write plane_inv_grows bc_grows_dispatch_one bc_grows_close_at
       bc_grows_RemoveSubscriber)

lemma plane_reach_inv: "plane_reach t cap b0 s \<Longrightarrow> plane_inv t cap s"
proof (induction rule: plane_reach.induct)
  case pl_start
  show ?case by (simp add: plane_inv_def plane_init_def log_inv_init) (simp add: log_init_def live_def)
qed (rule plane_inv_step)

section \<open>No gap between replay and live tail\<close>


text \<open>A run: two events are pushed, then a client resumes from the first.\<close>

definition demo_log2 :: ring_log where
  "demo_log2 = log_push (entry_n 2) (log_push (entry_n 1) (log_init 4))"

definition demo_plane_cfg :: event_plane_cfg where
  "demo_plane_cfg = \<lparr>ep_rings = Some (RingSet_put (RingSet_new 4 4 4) k1Critical (log_ring demo_log2)),
                     ep_max_subscribers = 0, ep_send_queue_capacity = 8\<rparr>"

definition demo_fr :: filter_result where
  "demo_fr = \<lparr>fr_filter = \<lparr>sf_tiers = {}, sf_event_name_globs = [], sf_subclass_globs = [], sf_node_id = []\<rparr>,
              fr_replay_tiers = [k1Critical], fr_ok = True, fr_error = []\<rparr>"

definition demo_resumed :: subscriber where
  "demo_resumed = enqueue_all [Some []] (demo_subscriber ''s'' 8)"

lemma demo_register:
  "\<exists>b. register_subscriber demo_plane_cfg demo_fr 1 ''s'' 0 (Broadcaster_new Map.empty None) = (True, b)
     \<and> bc_heap b 0 = Some demo_resumed \<and> bc_roster b = [0]"
  by (simp add: register_subscriber_def demo_plane_cfg_def demo_fr_def ReplaySinceSeq_def demo_log2_def log_push_def
      log_init_def Ring_new_def Ring_Push_def entry_n_def Ring_SnapshotFromSeq_def Subscriber_MatchesFilter_def
      Subscriber_def SendQueue_new_def SendQueue_TryPush_def subscriber_queue_capacity_def AddSubscriberAtomic_def
      put_sub_def set_subscriber_count_def Broadcaster_new_def demo_resumed_def demo_subscriber_def enqueue_all_def Let_def)


end
