(* ===== verification/Control_Idempotency.thy ===== *)
theory Control_Idempotency
  imports Osw_Prelude
begin

text \<open>
  The idempotency cache of the write RPCs, \<^verbatim>\<open>src/control/idempotency_cache.cc\<close>, and the wrapper
  \<^verbatim>\<open>RunIdempotent\<close> of \<^verbatim>\<open>src/control/handlers/idempotency_utils.h\<close>. Times are clock ticks. The
  LRU list holds keys with entries, most recent first; the source's index from a key to its list
  node is the lookup of the key in that list. The clock readings inside one call and what the
  other threads do while the call waits are arguments.
\<close>

section \<open>The cache\<close>

type_synonym time = nat

record idem_entry =
  ie_status :: grpc_status
  ie_response :: string
  ie_expires_at :: time

record idem_cache =
  ic_capacity :: nat
  ic_ttl :: time
  ic_max_wait :: time
  ic_lru :: "(string \<times> idem_entry) list"
  ic_in_flight :: "string \<rightharpoonup> time"

datatype lookup_result = kMiss | kHit idem_entry

definition IdempotencyCache_new :: "nat \<Rightarrow> time \<Rightarrow> time \<Rightarrow> idem_cache" where
  "IdempotencyCache_new capacity ttl max_wait =
     \<lparr>ic_capacity = capacity, ic_ttl = ttl, ic_max_wait = max_wait, ic_lru = [], ic_in_flight = Map.empty\<rparr>"

text \<open>\<open>Erase\<close> removes the node of a key; \<open>splice\<close> moves it to the front.\<close>

definition cache_erase :: "string \<Rightarrow> idem_cache \<Rightarrow> idem_cache" where
  "cache_erase key c = c\<lparr>ic_lru := filter (\<lambda>(k, _). k \<noteq> key) (ic_lru c)\<rparr>"

definition cache_promote :: "string \<Rightarrow> idem_entry \<Rightarrow> idem_cache \<Rightarrow> idem_cache" where
  "cache_promote key e c = c\<lparr>ic_lru := (key, e) # filter (\<lambda>(k, _). k \<noteq> key) (ic_lru c)\<rparr>"

definition cache_reserve :: "string \<Rightarrow> time \<Rightarrow> idem_cache \<Rightarrow> idem_cache" where
  "cache_reserve key now c = c\<lparr>ic_in_flight := (ic_in_flight c)(key \<mapsto> now + ic_max_wait c)\<rparr>"

text \<open>
  The first critical section of \<open>LookupOrReserve\<close>: a result, or None when the caller has to wait
  for the current executor.
\<close>

definition lookup_enter :: "time \<Rightarrow> string \<Rightarrow> idem_cache \<Rightarrow> lookup_result option \<times> idem_cache" where
  "lookup_enter now key c =
     (let hit = map_of (ic_lru c) key;
          c1 = (case hit of Some e \<Rightarrow> if ie_expires_at e \<le> now then cache_erase key c else c | None \<Rightarrow> c)
      in case hit of
           Some e \<Rightarrow>
             if \<not> ie_expires_at e \<le> now then (Some (kHit e), cache_promote key e c)
             else (case ic_in_flight c1 key of
                     Some d \<Rightarrow> if d \<le> now then (Some kMiss, cache_reserve key now c1) else (None, c1)
                   | None \<Rightarrow> (Some kMiss, cache_reserve key now c1))
         | None \<Rightarrow>
             (case ic_in_flight c1 key of
                Some d \<Rightarrow> if d \<le> now then (Some kMiss, cache_reserve key now c1) else (None, c1)
              | None \<Rightarrow> (Some kMiss, cache_reserve key now c1)))"

text \<open>The predicate of the wait.\<close>

definition wake_condition :: "time \<Rightarrow> string \<Rightarrow> idem_cache \<Rightarrow> bool" where
  "wake_condition now key c \<longleftrightarrow>
     \<not> (case ic_in_flight c key of None \<Rightarrow> False | Some d \<Rightarrow> now < d)
     \<or> map_of (ic_lru c) key \<noteq> None"

text \<open>
  The second critical section, after the wait: \<open>now2\<close> is the clock at the wake-up, \<open>now3\<close> at the
  final test of the reservation.
\<close>

definition renew_expired :: "time \<Rightarrow> string \<Rightarrow> idem_cache \<Rightarrow> idem_cache" where
  "renew_expired now3 key c =
     (case ic_in_flight c key of
        None \<Rightarrow> c
      | Some d \<Rightarrow> if d \<le> now3 then cache_reserve key now3 c else c)"

definition lookup_resume :: "time \<Rightarrow> time \<Rightarrow> string \<Rightarrow> idem_cache \<Rightarrow> lookup_result \<times> idem_cache" where
  "lookup_resume now2 now3 key c =
     (if wake_condition now2 key c then
        (case map_of (ic_lru c) key of
           None \<Rightarrow> (kMiss, renew_expired now3 key c)
         | Some e \<Rightarrow>
             if now2 < ie_expires_at e then (kHit e, cache_promote key e c)
             else (kMiss, renew_expired now3 key (cache_erase key c)))
      else (kMiss, renew_expired now3 key c))"

text \<open>The whole call; \<open>wait\<close> is what the other threads do to the cache during the wait.\<close>

definition LookupOrReserve ::
  "time \<Rightarrow> (idem_cache \<Rightarrow> idem_cache) \<Rightarrow> time \<Rightarrow> time \<Rightarrow> string \<Rightarrow> idem_cache \<Rightarrow> lookup_result \<times> idem_cache" where
  "LookupOrReserve now wait now2 now3 request_id c =
     (if request_id = [] then (kMiss, c)
      else (case lookup_enter now request_id c of
              (Some r, c1) \<Rightarrow> (r, c1)
            | (None, c1) \<Rightarrow> lookup_resume now2 now3 request_id (wait c1)))"

text \<open>
  \<open>while (lru_list_.size() >= capacity_) Erase(prev(end))\<close>. The configuration only admits
  capacities of at least 16; with capacity 0 the source would erase from an empty list, where the
  model stops.
\<close>

function evict_loop :: "nat \<Rightarrow> 'a list \<Rightarrow> 'a list" where
  "evict_loop cap l = (if l \<noteq> [] \<and> cap \<le> length l then evict_loop cap (butlast l) else l)"
  by pat_completeness auto
termination by (relation "measure (\<lambda>(cap, l). length l)") auto

declare evict_loop.simps [simp del]

definition EvictIfNeeded :: "idem_cache \<Rightarrow> idem_cache" where
  "EvictIfNeeded c = c\<lparr>ic_lru := evict_loop (ic_capacity c) (ic_lru c)\<rparr>"

definition Cache_Store :: "string \<Rightarrow> idem_entry \<Rightarrow> idem_cache \<Rightarrow> idem_cache" where
  "Cache_Store request_id entry c =
     (if request_id = [] then c
      else (let c1 = (if map_of (ic_lru c) request_id \<noteq> None then cache_erase request_id c else c);
                c2 = EvictIfNeeded c1
            in c2\<lparr>ic_lru := (request_id, entry) # ic_lru c2,
                  ic_in_flight := (ic_in_flight c2)(request_id := None)\<rparr>))"

definition Cache_Cancel :: "string \<Rightarrow> idem_cache \<Rightarrow> idem_cache" where
  "Cache_Cancel request_id c =
     (if request_id = [] then c else c\<lparr>ic_in_flight := (ic_in_flight c)(request_id := None)\<rparr>)"

definition MakeIdempotencyKey :: "string \<Rightarrow> string \<Rightarrow> string \<Rightarrow> string" where
  "MakeIdempotencyKey method tenant_id request_id =
     (if request_id = [] then []
      else method @ [char_of (0x1f :: nat)] @ tenant_id @ [char_of (0x1f :: nat)] @ request_id)"

section \<open>The handler wrapper\<close>

text \<open>
  \<open>execute\<close> runs the RPC on the world and fills the response; protobuf's \<open>parse\<close> and \<open>serialize\<close>
  of the response are parameters. The clocks are read at the lookup and after the execution.
\<close>

definition RunIdempotent ::
  "(string \<Rightarrow> 'r option) \<Rightarrow> ('r \<Rightarrow> string option) \<Rightarrow> time \<Rightarrow> time \<Rightarrow> (idem_cache \<Rightarrow> idem_cache)
     \<Rightarrow> string \<Rightarrow> string \<Rightarrow> string \<Rightarrow> ('w \<Rightarrow> grpc_status \<times> 'r \<times> 'w)
     \<Rightarrow> idem_cache \<times> 'w \<Rightarrow> grpc_status \<times> 'r \<times> idem_cache \<times> 'w" where
  "RunIdempotent parse serialize now later wait method tenant_id request_id execute cw =
     (case cw of (c, w) \<Rightarrow>
        (let key = MakeIdempotencyKey method tenant_id request_id;
             run = (\<lambda>c. case execute w of (status, resp, w') \<Rightarrow>
                      (case serialize resp of
                         None \<Rightarrow> (status, resp, Cache_Cancel key c, w')
                       | Some bytes \<Rightarrow>
                           (status, resp,
                            Cache_Store key \<lparr>ie_status = status, ie_response = bytes,
                                             ie_expires_at = later + ic_ttl c\<rparr> c, w')))
         in if key = [] then (case execute w of (status, resp, w') \<Rightarrow> (status, resp, c, w'))
            else (case LookupOrReserve now wait now now key c of
                    (kHit e, c1) \<Rightarrow>
                      (case parse (ie_response e) of
                         Some resp \<Rightarrow> (ie_status e, resp, c1, w)
                       | None \<Rightarrow> run c1)
                  | (kMiss, c1) \<Rightarrow> run c1)))"

section \<open>The LRU list\<close>

lemma evict_loop_eq: "0 < cap \<Longrightarrow> evict_loop cap l = (if cap \<le> length l then take (cap - 1) l else l)"
proof (induction cap l rule: evict_loop.induct)
  case (1 cap l)
  show ?case
  proof (cases "l \<noteq> [] \<and> cap \<le> length l")
    case True
    then have "evict_loop cap l = evict_loop cap (butlast l)" by (subst evict_loop.simps) simp
    also have "\<dots> = take (cap - 1) l"
      using 1 True by (cases "cap = length l") (auto simp: butlast_conv_take min_def)
    finally show ?thesis using True by simp
  next
    case False
    then show ?thesis using 1(2) by (subst evict_loop.simps) auto
  qed
qed

definition cache_inv :: "idem_cache \<Rightarrow> bool" where
  "cache_inv c \<longleftrightarrow>
     0 < ic_capacity c \<and> length (ic_lru c) \<le> ic_capacity c \<and> distinct (map fst (ic_lru c))"

lemma filter_key_set: "fst ` set (filter (\<lambda>(k, _). k \<noteq> key) xs) = fst ` set xs - {key}"
  by force

lemma distinct_filter_key: "distinct (map fst xs) \<Longrightarrow> distinct (map fst (filter P xs))"
  by (induction xs) auto

lemma length_filter_key:
  assumes "key \<in> fst ` set xs"
  shows "length (filter (\<lambda>(k, _). k \<noteq> key) xs) < length xs"
proof -
  from assms obtain v where "(key, v) \<in> set xs" by force
  then show ?thesis by (rule length_filter_less) simp
qed

lemma cache_inv_erase [osw_inv]: "cache_inv c \<Longrightarrow> cache_inv (cache_erase key c)"
  by (auto simp: cache_inv_def cache_erase_def distinct_filter_key intro: le_trans [OF length_filter_le])

lemma cache_inv_promote [osw_inv]:
  assumes "cache_inv c" and "map_of (ic_lru c) key = Some e"
  shows "cache_inv (cache_promote key e c)"
proof -
  have "key \<in> fst ` set (ic_lru c)" using assms(2) by (force dest: map_of_SomeD)
  then have "length (filter (\<lambda>(k, _). k \<noteq> key) (ic_lru c)) < length (ic_lru c)"
    by (rule length_filter_key)
  then show ?thesis
    using assms(1) by (auto simp: cache_inv_def cache_promote_def distinct_filter_key filter_key_set)
qed

lemma cache_inv_frame [simp]:
  "cache_inv (c\<lparr>ic_in_flight := m\<rparr>) = cache_inv c" "cache_inv (cache_reserve key now c) = cache_inv c"
  "cache_inv (renew_expired now key c) = cache_inv c"
  by (simp_all add: cache_inv_def cache_reserve_def renew_expired_def split: option.split)

definition store_erased :: "string \<Rightarrow> idem_cache \<Rightarrow> idem_cache" where
  "store_erased key c = (if map_of (ic_lru c) key \<noteq> None then cache_erase key c else c)"

lemma Cache_Store_lru:
  "key \<noteq> [] \<Longrightarrow> ic_lru (Cache_Store key e c) =
     (key, e) # evict_loop (ic_capacity c) (ic_lru (store_erased key c))"
  by (simp add: Cache_Store_def EvictIfNeeded_def store_erased_def cache_erase_def Let_def)

lemma Cache_Store_frame [simp]:
  "ic_capacity (Cache_Store key e c) = ic_capacity c" "ic_ttl (Cache_Store key e c) = ic_ttl c"
  "ic_max_wait (Cache_Store key e c) = ic_max_wait c"
  "key \<noteq> [] \<Longrightarrow> ic_in_flight (Cache_Store key e c) = (ic_in_flight c)(key := None)"
  by (simp_all add: Cache_Store_def EvictIfNeeded_def cache_erase_def Let_def)

lemma store_erased_inv:
  "cache_inv c \<Longrightarrow> cache_inv (store_erased key c)" "ic_capacity (store_erased key c) = ic_capacity c"
  "key \<notin> fst ` set (ic_lru (store_erased key c))"
proof -
  show "cache_inv c \<Longrightarrow> cache_inv (store_erased key c)" by (simp add: store_erased_def cache_inv_erase)
qed (auto simp: store_erased_def cache_erase_def map_of_eq_None_iff)

lemma cache_inv_Store [osw_inv]:
  assumes "cache_inv c"
  shows "cache_inv (Cache_Store key e c)"
proof (cases "key = []")
  case True
  then show ?thesis using assms by (simp add: Cache_Store_def)
next
  case False
  let ?l = "ic_lru (store_erased key c)" and ?cap = "ic_capacity c"
  have inv: "0 < ?cap" "length ?l \<le> ?cap" "distinct (map fst ?l)"
    using store_erased_inv(1) [OF assms, of key] assms by (simp_all add: cache_inv_def store_erased_inv(2))
  have ev: "evict_loop ?cap ?l = take (?cap - 1) ?l" using inv by (auto simp: evict_loop_eq)
  have "key \<notin> fst ` set (take n ?l)" for n
    using store_erased_inv(3) [of key c] set_take_subset [of n ?l] by blast
  moreover have "distinct (map fst (take n ?l))" for n
    using inv(3) by (simp add: take_map [symmetric])
  ultimately show ?thesis
    using inv False by (simp add: cache_inv_def Cache_Store_lru ev)
qed

lemma cache_inv_Cancel [osw_inv]: "cache_inv c \<Longrightarrow> cache_inv (Cache_Cancel key c)"
  by (simp add: Cache_Cancel_def)

lemma cache_inv_enter [osw_inv]: "cache_inv c \<Longrightarrow> cache_inv (snd (lookup_enter now key c))"
  by (auto simp: lookup_enter_def Let_def cache_inv_erase cache_inv_promote split: option.split)

lemma cache_inv_resume [osw_inv]: "cache_inv c \<Longrightarrow> cache_inv (snd (lookup_resume now2 now3 key c))"
  by (auto simp: lookup_resume_def cache_inv_erase cache_inv_promote split: option.split)

text \<open>An entry among the \<open>n + 1\<close> most recent ones.\<close>

definition recent :: "nat \<Rightarrow> string \<Rightarrow> idem_entry \<Rightarrow> idem_cache \<Rightarrow> bool" where
  "recent n key e c \<longleftrightarrow> map_of (take (Suc n) (ic_lru c)) key = Some e"

lemma map_of_filter_other: "k \<noteq> key \<Longrightarrow> map_of (filter (\<lambda>(k', _). k' \<noteq> k) xs) key = map_of xs key"
  by (induction xs) auto

lemma map_of_take_mono: "map_of (take n xs) key = Some e \<Longrightarrow> n \<le> m \<Longrightarrow> map_of (take m xs) key = Some e"
proof (induction xs arbitrary: n m)
  case (Cons x xs)
  then show ?case by (cases n; cases m) (auto split: if_splits)
qed simp

lemma map_of_take_filter:
  "k \<noteq> key \<Longrightarrow> map_of (take n xs) key = Some e \<Longrightarrow>
     map_of (take n (filter (\<lambda>(k', _). k' \<noteq> k) xs)) key = Some e"
proof (induction xs arbitrary: n)
  case (Cons x xs)
  show ?case
  proof (cases n)
    case (Suc m)
    with Cons have "fst x \<noteq> key \<Longrightarrow> map_of (take m (filter (\<lambda>(k', _). k' \<noteq> k) xs)) key = Some e"
      by (cases x) auto
    with Suc Cons.prems show ?thesis
      by (cases x) (auto intro: map_of_take_mono split: if_splits)
  qed (use Cons.prems in simp)
qed simp

lemma recent_Store:
  assumes "recent n key e c" and "k \<noteq> key" and "Suc n < ic_capacity c"
  shows "recent (Suc n) key e (Cache_Store k e' c)"
proof (cases "k = []")
  case True
  then show ?thesis using assms(1) by (auto simp: recent_def Cache_Store_def intro: map_of_take_mono)
next
  case False
  have r: "map_of (take (Suc n) (ic_lru (store_erased k c))) key = Some e"
    using assms(1) map_of_take_filter [OF assms(2), of "Suc n" "ic_lru c" e]
    by (simp add: recent_def store_erased_def cache_erase_def del: take_Suc)
  then have "map_of (take (Suc n) (evict_loop (ic_capacity c) (ic_lru (store_erased k c)))) key = Some e"
    using assms(3) by (auto simp: evict_loop_eq min_def)
  then show ?thesis
    using False assms(2) by (simp add: recent_def Cache_Store_lru)
qed

lemma recent_stores:
  assumes "recent n key e c" and "\<forall>(k, _) \<in> set others. k \<noteq> key" and "n + length others < ic_capacity c"
  shows "recent (n + length others) key e (fold (\<lambda>(k, e'). Cache_Store k e') others c)"
  using assms
proof (induction others arbitrary: n c)
  case (Cons x others)
  obtain k e' where x: "x = (k, e')" by fastforce
  have "recent (Suc n) key e (Cache_Store k e' c)"
    using Cons.prems x by (intro recent_Store) auto
  from Cons.IH [OF this] Cons.prems x show ?case by simp
qed simp

lemma recent_lookup: "recent n key e c \<Longrightarrow> map_of (ic_lru c) key = Some e"
  unfolding recent_def using map_of_take_mono [of "Suc n" "ic_lru c" key e "max (Suc n) (length (ic_lru c))"]
  by simp

lemma lookup_hit:
  assumes "map_of (ic_lru c) key = Some e" and "now < ie_expires_at e" and "key \<noteq> []"
  shows "LookupOrReserve now wait now2 now3 key c = (kHit e, cache_promote key e c)"
  using assms by (simp add: LookupOrReserve_def lookup_enter_def Let_def)

lemma lookup_fresh:
  assumes "map_of (ic_lru c) key = None" and "ic_in_flight c key = None" and "key \<noteq> []"
  shows "LookupOrReserve now wait now2 now3 key c = (kMiss, cache_reserve key now c)"
  using assms by (simp add: LookupOrReserve_def lookup_enter_def Let_def)

lemma split_at_separator:
  "x @ s # y = x' @ s # y' \<Longrightarrow> s \<notin> set x \<Longrightarrow> s \<notin> set x' \<Longrightarrow> x = x' \<and> y = y'"
proof (induction x arbitrary: x')
  case Nil
  then show ?case by (cases x') auto
next
  case (Cons c x)
  then show ?case by (cases x') auto
qed

section \<open>Replays\<close>

lemma MakeIdempotencyKey_Nil [simp]: "MakeIdempotencyKey m t r = [] \<longleftrightarrow> r = []"
  by (simp add: MakeIdempotencyKey_def)

lemma cache_reserve_frame [simp]:
  "ic_lru (cache_reserve key now c) = ic_lru c" "ic_capacity (cache_reserve key now c) = ic_capacity c"
  "ic_ttl (cache_reserve key now c) = ic_ttl c"
  by (simp_all add: cache_reserve_def)

text \<open>
  A retried request is answered from the cache and not executed again. After a first run that
  executed the request (its key was unknown) and whose response serialises, and after any results
  of other requests, fewer than the capacity, have been stored meanwhile, a second run with the
  same method, tenant and request id before the entry expires returns the same status and
  response and leaves the world untouched, whatever its handler would do.
\<close>

lemma retry_replays_first_result:
  assumes key: "key = MakeIdempotencyKey method tenant_id request_id" and req: "request_id \<noteq> []"
    and fresh: "map_of (ic_lru c) key = None" "ic_in_flight c key = None"
    and exec: "execute w = (status, resp, w1)" and ser: "serialize resp = Some bytes" "parse bytes = Some resp"
    and first: "RunIdempotent parse serialize now later wait method tenant_id request_id execute (c, w)
                  = (status1, resp1, c1, w1')"
    and others: "\<forall>(k, _) \<in> set others. k \<noteq> key" "length others < ic_capacity c"
    and second: "c2 = fold (\<lambda>(k, e). Cache_Store k e) others c1" "now' < later + ic_ttl c"
  shows "status1 = status \<and> resp1 = resp \<and> w1' = w1
       \<and> (\<exists>c3. RunIdempotent parse serialize now' later' wait' method tenant_id request_id execute' (c2, w2)
                 = (status, resp, c3, w2))"
proof -
  let ?e = "\<lparr>ie_status = status, ie_response = bytes, ie_expires_at = later + ic_ttl c\<rparr>"
  have k: "key \<noteq> []" using req key by simp
  have run: "status1 = status" "resp1 = resp" "w1' = w1" "c1 = Cache_Store key ?e (cache_reserve key now c)"
    using first lookup_fresh [OF fresh k] exec ser(1) k
    by (auto simp: RunIdempotent_def key [symmetric] Let_def split: if_splits)
  have "recent 0 key ?e c1" using k by (simp add: recent_def run(4) Cache_Store_lru)
  then have "recent (length others) key ?e c2"
    using recent_stores [of 0 key ?e c1 others] others second(1) run(4) by simp
  then have hit: "LookupOrReserve now' wait' now' now' key c2 = (kHit ?e, cache_promote key ?e c2)"
    using second(2) k by (intro lookup_hit recent_lookup) auto
  have "RunIdempotent parse serialize now' later' wait' method tenant_id request_id execute' (c2, w2)
          = (status, resp, cache_promote key ?e c2, w2)"
    using hit ser(2) k by (simp add: RunIdempotent_def key [symmetric] Let_def)
  with run show ?thesis by simp
qed

lemma retry_replays_first_result_example:
  "\<exists>c3. RunIdempotent Some Some 5 6 id ''M'' ''t'' ''r'' (\<lambda>w :: nat. ((ABORTED, []), ''no'', w + 1))
          (snd (snd (RunIdempotent Some Some 1 2 id ''M'' ''t'' ''r'' (\<lambda>w. (Status_OK, ''yes'', w + 1))
            (IdempotencyCache_new 16 300 30, 7 :: nat))))
        = (Status_OK, ''yes'', c3, 8)"
proof -
  let ?c = "IdempotencyCache_new 16 300 30"
  let ?exec = "\<lambda>w :: nat. (Status_OK, ''yes'', w + 1)"
  obtain s1 r1 c1 w1 where first: "RunIdempotent Some Some 1 2 id ''M'' ''t'' ''r'' ?exec (?c, 7) = (s1, r1, c1, w1)"
    by (metis prod_cases4)
  have fresh: "map_of (ic_lru ?c) (MakeIdempotencyKey ''M'' ''t'' ''r'') = None"
    "ic_in_flight ?c (MakeIdempotencyKey ''M'' ''t'' ''r'') = None" "ic_ttl ?c = 300" "ic_capacity ?c = 16"
    by (simp_all add: IdempotencyCache_new_def)
  show ?thesis
    using retry_replays_first_result [where execute = ?exec and w = 7 and others = "[]" and now' = 5 and later' = 6
        and wait' = id and execute' = "\<lambda>w :: nat. ((ABORTED, []), ''no'', w + 1)" and ?w2.0 = 8,
        OF refl _ fresh(1,2) _ _ _ first] first fresh(3,4)
    by auto
qed

text \<open>
  Keys keep methods, tenants and requests apart: for methods and tenants that do not contain
  the separator byte, equal keys come from equal triples, so no tenant can be answered with
  another tenant's result. A tenant id that contains the separator can collide.
\<close>

lemma idempotency_keys_separate_tenants:
  "(request_id \<noteq> [] \<and> char_of (0x1f :: nat) \<notin> set method \<union> set method' \<union> set tenant_id \<union> set tenant_id'
      \<and> MakeIdempotencyKey method tenant_id request_id = MakeIdempotencyKey method' tenant_id' request_id'
      \<longrightarrow> method = method' \<and> tenant_id = tenant_id' \<and> request_id = request_id')
   \<and> MakeIdempotencyKey m (''a'' @ [char_of (0x1f :: nat)] @ ''b'') ''c''
       = MakeIdempotencyKey m ''a'' (''b'' @ [char_of (0x1f :: nat)] @ ''c'')"
proof -
  have "method = method' \<and> tenant_id = tenant_id' \<and> request_id = request_id'"
    if r: "request_id \<noteq> []"
      and sep: "char_of (0x1f :: nat) \<notin> set method \<union> set method' \<union> set tenant_id \<union> set tenant_id'"
      and eq: "MakeIdempotencyKey method tenant_id request_id = MakeIdempotencyKey method' tenant_id' request_id'"
  proof -
    have "request_id' \<noteq> []" using r eq MakeIdempotencyKey_Nil by metis
    with r eq have "method @ char_of (0x1f :: nat) # (tenant_id @ char_of (0x1f :: nat) # request_id)
        = method' @ char_of (0x1f :: nat) # (tenant_id' @ char_of (0x1f :: nat) # request_id')"
      by (simp add: MakeIdempotencyKey_def)
    from split_at_separator [OF this] sep show ?thesis
      using split_at_separator [of tenant_id _ request_id tenant_id' request_id'] by blast
  qed
  then show ?thesis by (auto simp: MakeIdempotencyKey_def)
qed

lemma idempotency_keys_separate_tenants_example:
  "MakeIdempotencyKey ''M'' ''t1'' ''r'' \<noteq> MakeIdempotencyKey ''M'' ''t2'' ''r''"
  using idempotency_keys_separate_tenants [of "''r''" "''M''" "''M''" "''t1''" "''t2''" "''r''" "''M''"]
  by (simp add: char_of_def)

section \<open>Concurrent callers of one request\<close>

text \<open>
  Callers of one key: not yet started, waiting inside \<open>LookupOrReserve\<close>, executing, answered with
  an entry, or given up after a failed execution. Every step reads the clock at some time below
  \<open>limit\<close>; an executor stores an entry that is valid until then. \<open>cancels\<close> tells whether executions
  may end in \<open>Cancel\<close>.
\<close>

datatype idem_pc = I_start | I_wait | I_exec | I_done idem_entry | I_cancelled

fun pc_of_result :: "lookup_result option \<Rightarrow> idem_pc" where
  "pc_of_result None = I_wait"
| "pc_of_result (Some kMiss) = I_exec"
| "pc_of_result (Some (kHit e)) = I_done e"

inductive idem_step ::
  "string \<Rightarrow> time \<Rightarrow> bool \<Rightarrow> idem_cache \<times> idem_pc list \<Rightarrow> idem_cache \<times> idem_pc list \<Rightarrow> bool"
  for key :: string and limit :: time and cancels :: bool where
  is_enter: "i < length pcs \<Longrightarrow> pcs ! i = I_start \<Longrightarrow> now < limit \<Longrightarrow> lookup_enter now key c = (r, c') \<Longrightarrow>
     idem_step key limit cancels (c, pcs) (c', pcs[i := pc_of_result r])"
| is_wake: "i < length pcs \<Longrightarrow> pcs ! i = I_wait \<Longrightarrow> now3 < limit \<Longrightarrow> now2 \<le> now3 \<Longrightarrow> wake_condition now2 key c \<Longrightarrow>
     lookup_resume now2 now3 key c = (r, c') \<Longrightarrow>
     idem_step key limit cancels (c, pcs) (c', pcs[i := pc_of_result (Some r)])"
| is_store: "i < length pcs \<Longrightarrow> pcs ! i = I_exec \<Longrightarrow> limit \<le> ie_expires_at e \<Longrightarrow>
     idem_step key limit cancels (c, pcs) (Cache_Store key e c, pcs[i := I_done e])"
| is_cancel: "i < length pcs \<Longrightarrow> pcs ! i = I_exec \<Longrightarrow> cancels \<Longrightarrow>
     idem_step key limit cancels (c, pcs) (Cache_Cancel key c, pcs[i := I_cancelled])"

inductive idem_reach ::
  "string \<Rightarrow> time \<Rightarrow> bool \<Rightarrow> idem_cache \<Rightarrow> nat \<Rightarrow> idem_cache \<times> idem_pc list \<Rightarrow> bool"
  for key :: string and limit :: time and cancels :: bool and c0 :: idem_cache and n :: nat where
  ir_start: "idem_reach key limit cancels c0 n (c0, replicate n I_start)"
| ir_step: "idem_reach key limit cancels c0 n s \<Longrightarrow> idem_step key limit cancels s s' \<Longrightarrow>
     idem_reach key limit cancels c0 n s'"

text \<open>
  The three phases of a request: untouched; one executor holding the reservation; result stored.
\<close>

definition idem_phase :: "string \<Rightarrow> time \<Rightarrow> idem_cache \<Rightarrow> idem_pc list \<Rightarrow> bool" where
  "idem_phase key limit c pcs \<longleftrightarrow>
     (map_of (ic_lru c) key = None \<and> ic_in_flight c key = None \<and> (\<forall>l < length pcs. pcs ! l = I_start))
     \<or> (\<exists>d i. map_of (ic_lru c) key = None \<and> ic_in_flight c key = Some d \<and> limit \<le> d
            \<and> i < length pcs \<and> pcs ! i = I_exec
            \<and> (\<forall>l < length pcs. l \<noteq> i \<longrightarrow> pcs ! l = I_start \<or> pcs ! l = I_wait))
     \<or> (\<exists>e. map_of (ic_lru c) key = Some e \<and> ic_in_flight c key = None \<and> limit \<le> ie_expires_at e
            \<and> (\<forall>l < length pcs. pcs ! l = I_start \<or> pcs ! l = I_wait \<or> pcs ! l = I_done e))"

lemma idem_phase_cases [consumes 1, case_names untouched executing stored]:
  assumes "idem_phase key limit c pcs"
  obtains "map_of (ic_lru c) key = None" "ic_in_flight c key = None" "\<forall>l < length pcs. pcs ! l = I_start"
  | d i where "map_of (ic_lru c) key = None" "ic_in_flight c key = Some d" "limit \<le> d"
      "i < length pcs" "pcs ! i = I_exec"
      "\<forall>l < length pcs. l \<noteq> i \<longrightarrow> pcs ! l = I_start \<or> pcs ! l = I_wait"
  | e where "map_of (ic_lru c) key = Some e" "ic_in_flight c key = None" "limit \<le> ie_expires_at e"
      "\<forall>l < length pcs. pcs ! l = I_start \<or> pcs ! l = I_wait \<or> pcs ! l = I_done e"
  using assms unfolding idem_phase_def
proof (elim disjE exE conjE)
qed (rule that(1) that(2) that(3); assumption)+

lemma idem_phase_executing:
  "map_of (ic_lru c) key = None \<Longrightarrow> ic_in_flight c key = Some d \<Longrightarrow> limit \<le> d \<Longrightarrow> i < length pcs
     \<Longrightarrow> pcs ! i = I_exec \<Longrightarrow> (\<forall>l < length pcs. l \<noteq> i \<longrightarrow> pcs ! l = I_start \<or> pcs ! l = I_wait)
     \<Longrightarrow> idem_phase key limit c pcs"
  unfolding idem_phase_def by (rule disjI2, rule disjI1) (intro exI conjI; assumption)

lemma idem_phase_stored:
  "map_of (ic_lru c) key = Some e \<Longrightarrow> ic_in_flight c key = None \<Longrightarrow> limit \<le> ie_expires_at e
     \<Longrightarrow> (\<forall>l < length pcs. pcs ! l = I_start \<or> pcs ! l = I_wait \<or> pcs ! l = I_done e)
     \<Longrightarrow> idem_phase key limit c pcs"
  unfolding idem_phase_def by (rule disjI2, rule disjI2) (intro exI conjI; assumption)

lemma cache_promote_lookup [simp]:
  "map_of (ic_lru (cache_promote key e c)) key = Some e" "ic_in_flight (cache_promote key e c) = ic_in_flight c"
  "ic_max_wait (cache_promote key e c) = ic_max_wait c"
  by (simp_all add: cache_promote_def)

lemma idem_phase_step:
  assumes step: "idem_step key limit False (c, pcs) (c', pcs')"
    and phase: "idem_phase key limit c pcs" and wait: "limit \<le> ic_max_wait c" and key: "key \<noteq> []"
  shows "idem_phase key limit c' pcs' \<and> ic_max_wait c' = ic_max_wait c"
  using step
proof cases
  case (is_enter i now r)
  from phase show ?thesis
  proof (cases rule: idem_phase_cases)
    case untouched
    then have "r = Some kMiss" and c': "c' = cache_reserve key now c"
      using is_enter by (auto simp: lookup_enter_def Let_def)
    then have "idem_phase key limit c' pcs'"
      using is_enter untouched wait
      by (intro idem_phase_executing [of _ _ "now + ic_max_wait c" _ i]) (auto simp: cache_reserve_def nth_list_update)
    then show ?thesis by (simp add: c' cache_reserve_def)
  next
    case (executing d j)
    then have "r = None" "c' = c" using is_enter by (auto simp: lookup_enter_def Let_def split: if_splits)
    moreover have "i \<noteq> j" using is_enter executing by auto
    ultimately show ?thesis
      using is_enter executing
      by (intro conjI idem_phase_executing [of _ _ d _ j]) (simp_all add: nth_list_update)
  next
    case (stored e)
    then have "r = Some (kHit e)" "c' = cache_promote key e c"
      using is_enter by (auto simp: lookup_enter_def Let_def split: if_splits)
    then show ?thesis
      using is_enter stored by (intro conjI idem_phase_stored [of _ _ e]) (simp_all add: nth_list_update)
  qed
next
  case (is_wake i now3 now2 r)
  from phase show ?thesis
  proof (cases rule: idem_phase_cases)
    case (stored e)
    then have "r = kHit e" "c' = cache_promote key e c"
      using is_wake by (auto simp: lookup_resume_def)
    then show ?thesis
      using is_wake stored by (intro conjI idem_phase_stored [of _ _ e]) (simp_all add: nth_list_update)
  next
    case untouched
    then show ?thesis using is_wake by simp
  next
    case (executing d j)
    then show ?thesis using is_wake by (simp add: wake_condition_def)
  qed
next
  case (is_store i e)
  from phase show ?thesis
  proof (cases rule: idem_phase_cases)
    case (executing d j)
    have "i = j" using executing(6) [rule_format, of i] is_store by auto
    then have "idem_phase key limit c' pcs'"
      using is_store key executing(6) 
      by (intro idem_phase_stored [of _ _ e]) (simp_all add: Cache_Store_lru nth_list_update, metis)
    then show ?thesis using is_store by simp
  next
    case untouched
    then show ?thesis using is_store by simp
  next
    case (stored f)
    then show ?thesis using is_store stored(4) [rule_format, of i] by simp
  qed
qed simp

lemma idem_reach_phase:
  assumes "idem_reach key limit False c0 n s" and "map_of (ic_lru c0) key = None" "ic_in_flight c0 key = None"
    and "limit \<le> ic_max_wait c0" and "key \<noteq> []"
  shows "idem_phase key limit (fst s) (snd s) \<and> ic_max_wait (fst s) = ic_max_wait c0"
  using assms(1)
proof (induction rule: idem_reach.induct)
  case ir_start
  show ?case using assms(2,3) by (auto simp: idem_phase_def)
next
  case (ir_step s s')
  then show ?case
    using idem_phase_step [of key limit "fst s" "snd s" "fst s'" "snd s'"] assms(4,5) by simp
qed


text \<open>
  A cancelled execution breaks that guarantee: when the executor gives up, every waiting
  caller is told to execute and none of them holds a reservation, so two of them execute at once
  and a newcomer would execute as a third.
\<close>

lemma cancel_lets_waiters_execute_twice:
  "\<exists>c pcs. idem_reach ''k'' 10 True (IdempotencyCache_new 16 300 30) 3 (c, pcs)
      \<and> pcs ! 1 = I_exec \<and> pcs ! 2 = I_exec \<and> ic_in_flight c ''k'' = None"
proof -
  let ?c0 = "IdempotencyCache_new 16 300 30"
  let ?c1 = "cache_reserve ''k'' 0 ?c0" and ?c2 = "Cache_Cancel ''k'' (cache_reserve ''k'' 0 ?c0)"
  note reach = ir_step [where key = "''k''" and limit = 10 and cancels = True and ?c0.0 = ?c0 and n = 3]
  have c2: "map_of (ic_lru ?c2) ''k'' = None" "ic_in_flight ?c2 ''k'' = None"
    by (simp_all add: IdempotencyCache_new_def Cache_Cancel_def cache_reserve_def)
  have enter: "lookup_enter 0 ''k'' ?c0 = (Some kMiss, ?c1)" "lookup_enter 0 ''k'' ?c1 = (None, ?c1)"
    by (simp_all add: lookup_enter_def IdempotencyCache_new_def cache_reserve_def Let_def)
  have wake: "wake_condition 0 ''k'' ?c2" "lookup_resume 0 0 ''k'' ?c2 = (kMiss, ?c2)"
    using c2 by (simp_all add: wake_condition_def lookup_resume_def renew_expired_def)
  have "idem_reach ''k'' 10 True ?c0 3 (?c0, [I_start, I_start, I_start])"
    using ir_start [of "''k''" 10 True ?c0 3] by (simp add: numeral_3_eq_3)
  from reach [OF this is_enter [of 0 _ 0, OF _ _ _ enter(1)]]
  have "idem_reach ''k'' 10 True ?c0 3 (?c1, [I_exec, I_start, I_start])" by simp
  from reach [OF this is_enter [of 1 _ 0, OF _ _ _ enter(2)]]
  have "idem_reach ''k'' 10 True ?c0 3 (?c1, [I_exec, I_wait, I_start])" by simp
  from reach [OF this is_enter [of 2 _ 0, OF _ _ _ enter(2)]]
  have "idem_reach ''k'' 10 True ?c0 3 (?c1, [I_exec, I_wait, I_wait])" by simp
  from reach [OF this is_cancel [of 0]]
  have "idem_reach ''k'' 10 True ?c0 3 (?c2, [I_cancelled, I_wait, I_wait])" by simp
  from reach [OF this is_wake [of 1 _ 0 _ 0, OF _ _ _ _ wake]]
  have "idem_reach ''k'' 10 True ?c0 3 (?c2, [I_cancelled, I_exec, I_wait])" by simp
  from reach [OF this is_wake [of 2 _ 0 _ 0, OF _ _ _ _ wake]]
  have "idem_reach ''k'' 10 True ?c0 3 (?c2, [I_cancelled, I_exec, I_exec])" by simp
  with c2 show ?thesis by (intro exI [of _ ?c2] exI [of _ "[I_cancelled, I_exec, I_exec]"]) simp
qed


end
