(* ===== verification/Core_Config.thy ===== *)
theory Core_Config
  imports Osw_Prelude
begin

text \<open>
  The module configuration: the struct \<open>Config\<close> of \<^verbatim>\<open>include/osw/core/config.h\<close> with its member
  initialisers, and the loader \<open>LoadConfigFromFile\<close> of \<^verbatim>\<open>src/core/config_fs.cc\<close> with its instruction
  table. FreeSWITCH's table-driven XML parser is a parameter: it receives the table and answers with
  its status and, per key, what it wrote (an integer slot, a boolean slot, or a call of the string
  callback). Unsigned fields keep their width.
\<close>

section \<open>The configuration struct\<close>

record Config =
  grpc_listen_address :: string
  grpc_max_concurrent_streams :: u32
  grpc_drain_deadline_seconds :: u32
  grpc_tls_cert_path :: string
  grpc_tls_key_path :: string
  grpc_tls_ca_path :: string
  grpc_tls_require_client_cert :: bool
  event_ring_capacity_tier1 :: u32
  event_ring_capacity_tier2 :: u32
  event_ring_capacity_tier3 :: u32
  subscriber_send_queue_capacity :: u32
  max_subscribers :: u32
  idempotency_ttl_seconds :: u32
  idempotency_cache_capacity :: u32
  idempotency_in_flight_max_wait_seconds :: u32
  drain_timeout_seconds :: u32
  event_drain_timeout_seconds :: u32
  osw_panic_on_unhandled :: bool
  osw_install_signal_handlers :: bool
  pii_redaction_patterns :: "string list"
  tenant_allowed_contexts :: string
  eavesdrop_policy :: string
  tenant_eavesdrop_policies :: string
  log_level :: string
  metrics_enabled :: bool
  metrics_bind_address :: string
  metrics_port :: "16 word"
  tts_jitter_buffer_ms :: u32
  tts_preroll_ms :: u32
  tts_high_water_ms :: u32
  tts_max_jitter_buffer_ms :: u32
  tts_underrun_policy :: string
  recording_send_ring_ms :: u32
  stereo_desync_warn_ms :: u32
  stereo_desync_timeout_ms :: u32
  recording_default_rate_hz :: u32
  warn_record_before_inject :: bool
  silence_driver_enabled :: bool
  max_silence_drivers :: u32
  bot_max_targets :: u32
  bot_target_queue_ms :: u32
  bot_drain_timeout_ms :: u32
  max_bots_per_channel :: u32

text \<open>The member initialisers, \<^verbatim>\<open>Config{}\<close>.\<close>

definition Config_default :: Config where
  "Config_default =
     \<lparr>grpc_listen_address = ''0.0.0.0:50061'',
      grpc_max_concurrent_streams = 256,
      grpc_drain_deadline_seconds = 2,
      grpc_tls_cert_path = [],
      grpc_tls_key_path = [],
      grpc_tls_ca_path = [],
      grpc_tls_require_client_cert = False,
      event_ring_capacity_tier1 = 16384,
      event_ring_capacity_tier2 = 8192,
      event_ring_capacity_tier3 = 4096,
      subscriber_send_queue_capacity = 4096,
      max_subscribers = 16,
      idempotency_ttl_seconds = 300,
      idempotency_cache_capacity = 1500,
      idempotency_in_flight_max_wait_seconds = 30,
      drain_timeout_seconds = 30,
      event_drain_timeout_seconds = 5,
      osw_panic_on_unhandled = False,
      osw_install_signal_handlers = False,
      pii_redaction_patterns = [],
      tenant_allowed_contexts = [],
      eavesdrop_policy = ''deny'',
      tenant_eavesdrop_policies = [],
      log_level = ''info'',
      metrics_enabled = True,
      metrics_bind_address = ''127.0.0.1'',
      metrics_port = 9090,
      tts_jitter_buffer_ms = 1000,
      tts_preroll_ms = 200,
      tts_high_water_ms = 3000,
      tts_max_jitter_buffer_ms = 5000,
      tts_underrun_policy = ''silence'',
      recording_send_ring_ms = 500,
      stereo_desync_warn_ms = 5,
      stereo_desync_timeout_ms = 25,
      recording_default_rate_hz = 8000,
      warn_record_before_inject = True,
      silence_driver_enabled = True,
      max_silence_drivers = 200,
      bot_max_targets = 2,
      bot_target_queue_ms = 500,
      bot_drain_timeout_ms = 2000,
      max_bots_per_channel = 1\<rparr>"

section \<open>The instruction table\<close>

text \<open>
  A row: key, default value and, for integers, the enforced minimum (\<^verbatim>\<open>opt_ge<n>\<close>).
\<close>

datatype config_item =
    Int_item string int int
  | Bool_item string bool
  | String_item string string

definition instructions_server :: "config_item list" where
  "instructions_server =
     [String_item ''grpc_listen_address'' ''0.0.0.0:50061'',
      Int_item ''grpc_max_concurrent_streams'' 256 1,
      Int_item ''grpc_drain_deadline_seconds'' 2 1,
      String_item ''grpc_tls_cert_path'' [],
      String_item ''grpc_tls_key_path'' [],
      String_item ''grpc_tls_ca_path'' [],
      Bool_item ''grpc_tls_require_client_cert'' False,
      Int_item ''event_ring_capacity_tier1'' 16384 256,
      Int_item ''event_ring_capacity_tier2'' 8192 256,
      Int_item ''event_ring_capacity_tier3'' 4096 256,
      Int_item ''subscriber_send_queue_capacity'' 4096 64,
      Int_item ''max_subscribers'' 16 1]"

definition instructions_policy :: "config_item list" where
  "instructions_policy =
     [Int_item ''idempotency_ttl_seconds'' 300 1,
      Int_item ''idempotency_cache_capacity'' 1500 16,
      Int_item ''idempotency_in_flight_max_wait_seconds'' 30 1,
      Int_item ''drain_timeout_seconds'' 30 1,
      Int_item ''event_drain_timeout_seconds'' 5 1,
      Bool_item ''osw_panic_on_unhandled'' False,
      Bool_item ''osw_install_signal_handlers'' False,
      String_item ''log_level'' ''info'',
      String_item ''pii_redaction_patterns'' [],
      String_item ''tenant_allowed_contexts'' [],
      String_item ''eavesdrop_policy'' ''deny'',
      String_item ''tenant_eavesdrop_policies'' []]"

definition instructions_media :: "config_item list" where
  "instructions_media =
     [Int_item ''tts_jitter_buffer_ms'' 1000 200,
      Int_item ''tts_preroll_ms'' 200 50,
      Int_item ''tts_high_water_ms'' 3000 200,
      Int_item ''tts_max_jitter_buffer_ms'' 5000 200,
      String_item ''tts_underrun_policy'' ''silence'',
      Int_item ''recording_send_ring_ms'' 500 50,
      Int_item ''stereo_desync_warn_ms'' 5 1,
      Int_item ''stereo_desync_timeout_ms'' 25 1,
      Int_item ''recording_default_rate_hz'' 8000 1,
      Bool_item ''warn_record_before_inject'' True,
      Bool_item ''silence_driver_enabled'' True,
      Int_item ''max_silence_drivers'' 200 1,
      Int_item ''bot_max_targets'' 2 1,
      Int_item ''bot_target_queue_ms'' 500 50,
      Int_item ''bot_drain_timeout_ms'' 2000 1,
      Int_item ''max_bots_per_channel'' 1 1]"

definition instructions :: "config_item list" where
  "instructions = instructions_server @ instructions_policy @ instructions_media"

section \<open>Loading\<close>

datatype config_write = Wr_int int | Wr_bool bool | Wr_string "string option"

type_synonym xml_parser = "config_item list \<Rightarrow> bool \<times> (string \<Rightarrow> config_write option)"

text \<open>
  The string callback: a value is assigned, a null value assigns the row's default; without a call
  the target keeps its contents.
\<close>

definition StringCallback :: "string \<Rightarrow> config_write option \<Rightarrow> string \<Rightarrow> string" where
  "StringCallback default_value w target =
     (case w of
        Some (Wr_string (Some newvalue)) \<Rightarrow> newvalue
      | Some (Wr_string None) \<Rightarrow> default_value
      | _ \<Rightarrow> target)"

definition int_slot :: "config_write option \<Rightarrow> int \<Rightarrow> int" where
  "int_slot w i = (case w of Some (Wr_int v) \<Rightarrow> v | _ \<Rightarrow> i)"

definition bool_slot :: "config_write option \<Rightarrow> bool \<Rightarrow> bool" where
  "bool_slot w b = (case w of Some (Wr_bool v) \<Rightarrow> v | _ \<Rightarrow> b)"

text \<open>The pipe-separated pattern list; the loop's start offset is the suffix it points to.\<close>

function SplitPipeList :: "string \<Rightarrow> string list" where
  "SplitPipeList src =
     (case find_char (CHR ''|'') src of
        None \<Rightarrow> if src = [] then [] else [src]
      | Some e \<Rightarrow>
          (if take e src = [] then [] else [take e src]) @ SplitPipeList (drop (e + 1) src))"
  by pat_completeness auto
termination
  by (relation "measure length") (auto dest: find_char_Some)

declare SplitPipeList.simps [simp del]

text \<open>
  The string callbacks write into the result while FreeSWITCH parses; integers and booleans go
  through slots that start with the defaults and are copied back only when the parse succeeds.
\<close>

definition load_strings :: "(string \<Rightarrow> config_write option) \<Rightarrow> Config \<Rightarrow> Config" where
  "load_strings w out = out\<lparr>
     grpc_listen_address := StringCallback ''0.0.0.0:50061'' (w ''grpc_listen_address'') (grpc_listen_address out),
     grpc_tls_cert_path := StringCallback [] (w ''grpc_tls_cert_path'') (grpc_tls_cert_path out),
     grpc_tls_key_path := StringCallback [] (w ''grpc_tls_key_path'') (grpc_tls_key_path out),
     grpc_tls_ca_path := StringCallback [] (w ''grpc_tls_ca_path'') (grpc_tls_ca_path out),
     log_level := StringCallback ''info'' (w ''log_level'') (log_level out),
     tenant_allowed_contexts := StringCallback [] (w ''tenant_allowed_contexts'') (tenant_allowed_contexts out),
     eavesdrop_policy := StringCallback ''deny'' (w ''eavesdrop_policy'') (eavesdrop_policy out),
     tenant_eavesdrop_policies := StringCallback [] (w ''tenant_eavesdrop_policies'') (tenant_eavesdrop_policies out),
     tts_underrun_policy := StringCallback ''silence'' (w ''tts_underrun_policy'') (tts_underrun_policy out)\<rparr>"

definition load_numbers :: "(string \<Rightarrow> config_write option) \<Rightarrow> Config \<Rightarrow> Config" where
  "load_numbers w out = out\<lparr>
     grpc_max_concurrent_streams := word_of_int (int_slot (w ''grpc_max_concurrent_streams'') (sint (grpc_max_concurrent_streams out))),
     grpc_drain_deadline_seconds := word_of_int (int_slot (w ''grpc_drain_deadline_seconds'') (sint (grpc_drain_deadline_seconds out))),
     event_ring_capacity_tier1 := word_of_int (int_slot (w ''event_ring_capacity_tier1'') (sint (event_ring_capacity_tier1 out))),
     event_ring_capacity_tier2 := word_of_int (int_slot (w ''event_ring_capacity_tier2'') (sint (event_ring_capacity_tier2 out))),
     event_ring_capacity_tier3 := word_of_int (int_slot (w ''event_ring_capacity_tier3'') (sint (event_ring_capacity_tier3 out))),
     subscriber_send_queue_capacity := word_of_int (int_slot (w ''subscriber_send_queue_capacity'') (sint (subscriber_send_queue_capacity out))),
     max_subscribers := word_of_int (int_slot (w ''max_subscribers'') (sint (max_subscribers out))),
     idempotency_ttl_seconds := word_of_int (int_slot (w ''idempotency_ttl_seconds'') (sint (idempotency_ttl_seconds out))),
     idempotency_cache_capacity := word_of_int (int_slot (w ''idempotency_cache_capacity'') (sint (idempotency_cache_capacity out))),
     idempotency_in_flight_max_wait_seconds := word_of_int (int_slot (w ''idempotency_in_flight_max_wait_seconds'') (sint (idempotency_in_flight_max_wait_seconds out))),
     drain_timeout_seconds := word_of_int (int_slot (w ''drain_timeout_seconds'') (sint (drain_timeout_seconds out))),
     event_drain_timeout_seconds := word_of_int (int_slot (w ''event_drain_timeout_seconds'') (sint (event_drain_timeout_seconds out))),
     tts_jitter_buffer_ms := word_of_int (int_slot (w ''tts_jitter_buffer_ms'') (sint (tts_jitter_buffer_ms out))),
     tts_preroll_ms := word_of_int (int_slot (w ''tts_preroll_ms'') (sint (tts_preroll_ms out))),
     tts_high_water_ms := word_of_int (int_slot (w ''tts_high_water_ms'') (sint (tts_high_water_ms out))),
     tts_max_jitter_buffer_ms := word_of_int (int_slot (w ''tts_max_jitter_buffer_ms'') (sint (tts_max_jitter_buffer_ms out))),
     recording_send_ring_ms := word_of_int (int_slot (w ''recording_send_ring_ms'') (sint (recording_send_ring_ms out))),
     stereo_desync_warn_ms := word_of_int (int_slot (w ''stereo_desync_warn_ms'') (sint (stereo_desync_warn_ms out))),
     stereo_desync_timeout_ms := word_of_int (int_slot (w ''stereo_desync_timeout_ms'') (sint (stereo_desync_timeout_ms out))),
     recording_default_rate_hz := word_of_int (int_slot (w ''recording_default_rate_hz'') (sint (recording_default_rate_hz out))),
     max_silence_drivers := word_of_int (int_slot (w ''max_silence_drivers'') (sint (max_silence_drivers out))),
     bot_max_targets := word_of_int (int_slot (w ''bot_max_targets'') (sint (bot_max_targets out))),
     bot_target_queue_ms := word_of_int (int_slot (w ''bot_target_queue_ms'') (sint (bot_target_queue_ms out))),
     bot_drain_timeout_ms := word_of_int (int_slot (w ''bot_drain_timeout_ms'') (sint (bot_drain_timeout_ms out))),
     max_bots_per_channel := word_of_int (int_slot (w ''max_bots_per_channel'') (sint (max_bots_per_channel out))),
     grpc_tls_require_client_cert := bool_slot (w ''grpc_tls_require_client_cert'') (grpc_tls_require_client_cert out),
     osw_panic_on_unhandled := bool_slot (w ''osw_panic_on_unhandled'') (osw_panic_on_unhandled out),
     osw_install_signal_handlers := bool_slot (w ''osw_install_signal_handlers'') (osw_install_signal_handlers out),
     warn_record_before_inject := bool_slot (w ''warn_record_before_inject'') (warn_record_before_inject out),
     silence_driver_enabled := bool_slot (w ''silence_driver_enabled'') (silence_driver_enabled out)\<rparr>"

definition LoadConfigFromFile :: "xml_parser \<Rightarrow> bool \<times> Config" where
  "LoadConfigFromFile parse_module_settings =
     (let out = Config_default;
          (ok, w) = parse_module_settings instructions;
          out1 = load_strings w out;
          pii_pipe = StringCallback [] (w ''pii_redaction_patterns'') []
      in if ok then (True, (load_numbers w out1)\<lparr>pii_redaction_patterns := SplitPipeList pii_pipe\<rparr>)
         else (False, out1))"

section \<open>The table, the struct and the loader agree\<close>

text \<open>
  The documented behaviour of FreeSWITCH's parser on an integer row with an enforced minimum: a
  value it writes is a C \<^verbatim>\<open>int\<close> not below the minimum.
\<close>

definition enforces_minimum :: "xml_parser \<Rightarrow> bool" where
  "enforces_minimum parse \<longleftrightarrow>
     (\<forall>key d m v. Int_item key d m \<in> set instructions \<longrightarrow>
        snd (parse instructions) key = Some (Wr_int v) \<longrightarrow> m \<le> v \<and> v < 2 ^ 31)"

text \<open>The unsigned fields: key of the row, field, initial value, least accepted value.\<close>

definition int_fields :: "(string \<times> (Config \<Rightarrow> u32) \<times> int \<times> int) list" where
  "int_fields =
     [(''grpc_max_concurrent_streams'', grpc_max_concurrent_streams, 256, 1),
      (''grpc_drain_deadline_seconds'', grpc_drain_deadline_seconds, 2, 1),
      (''event_ring_capacity_tier1'', event_ring_capacity_tier1, 16384, 256),
      (''event_ring_capacity_tier2'', event_ring_capacity_tier2, 8192, 256),
      (''event_ring_capacity_tier3'', event_ring_capacity_tier3, 4096, 256),
      (''subscriber_send_queue_capacity'', subscriber_send_queue_capacity, 4096, 64),
      (''max_subscribers'', max_subscribers, 16, 1),
      (''idempotency_ttl_seconds'', idempotency_ttl_seconds, 300, 1),
      (''idempotency_cache_capacity'', idempotency_cache_capacity, 1500, 16),
      (''idempotency_in_flight_max_wait_seconds'', idempotency_in_flight_max_wait_seconds, 30, 1),
      (''drain_timeout_seconds'', drain_timeout_seconds, 30, 1),
      (''event_drain_timeout_seconds'', event_drain_timeout_seconds, 5, 1),
      (''tts_jitter_buffer_ms'', tts_jitter_buffer_ms, 1000, 200),
      (''tts_preroll_ms'', tts_preroll_ms, 200, 50),
      (''tts_high_water_ms'', tts_high_water_ms, 3000, 200),
      (''tts_max_jitter_buffer_ms'', tts_max_jitter_buffer_ms, 5000, 200),
      (''recording_send_ring_ms'', recording_send_ring_ms, 500, 50),
      (''stereo_desync_warn_ms'', stereo_desync_warn_ms, 5, 1),
      (''stereo_desync_timeout_ms'', stereo_desync_timeout_ms, 25, 1),
      (''recording_default_rate_hz'', recording_default_rate_hz, 8000, 1),
      (''max_silence_drivers'', max_silence_drivers, 200, 1),
      (''bot_max_targets'', bot_max_targets, 2, 1),
      (''bot_target_queue_ms'', bot_target_queue_ms, 500, 50),
      (''bot_drain_timeout_ms'', bot_drain_timeout_ms, 2000, 1),
      (''max_bots_per_channel'', max_bots_per_channel, 1, 1)]"

definition row_respected :: "xml_parser \<Rightarrow> string \<Rightarrow> (Config \<Rightarrow> u32) \<Rightarrow> int \<Rightarrow> int \<Rightarrow> bool" where
  "row_respected parse key field d m \<longleftrightarrow>
     Int_item key d m \<in> set instructions \<and> uint (field Config_default) = d \<and> m \<le> d
     \<and> (let (ok, cfg) = LoadConfigFromFile parse;
            written = (if ok then snd (parse instructions) key else None)
         in uint (field cfg) = int_slot written d \<and> m \<le> uint (field cfg))"

lemma slot_value:
  assumes "\<And>v. w = Some (Wr_int v) \<Longrightarrow> m \<le> v \<and> v < 2 ^ 31" "0 \<le> m" "m \<le> d" "d < 2 ^ 31"
  shows "uint (word_of_int (int_slot w d) :: u32) = int_slot w d" "m \<le> int_slot w d"
proof -
  have b: "m \<le> int_slot w d \<and> int_slot w d < 2 ^ 31"
    using assms by (auto simp: int_slot_def split: option.splits config_write.splits)
  then show "m \<le> int_slot w d" by simp
  have "take_bit 32 (int_slot w d) = int_slot w d"
    using b \<open>0 \<le> m\<close> by (intro take_bit_int_eq_self) auto
  then show "uint (word_of_int (int_slot w d) :: u32) = int_slot w d"
    by (simp add: uint_word_of_int_eq)
qed

lemma row_respectedI:
  assumes "enforces_minimum parse" and row: "Int_item key d m \<in> set instructions"
    and "0 \<le> m" "m \<le> d" "d < 2 ^ 31" and "uint (field Config_default) = d"
    and keep: "\<And>w. field (load_strings w Config_default) = field Config_default"
    and num: "\<And>w ps. field ((load_numbers w (load_strings w Config_default))\<lparr>pii_redaction_patterns := ps\<rparr>)
                = word_of_int (int_slot (w key) d)"
  shows "row_respected parse key field d m"
proof -
  obtain ok w where p: "parse instructions = (ok, w)" by force
  have "\<And>v. w key = Some (Wr_int v) \<Longrightarrow> m \<le> v \<and> v < 2 ^ 31"
    using assms(1) row p by (auto simp: enforces_minimum_def)
  note v = slot_value [OF this assms(3-5)]
  show ?thesis
  proof (cases ok)
    case True
    then show ?thesis using p row v assms(4,6) num
      by (simp add: row_respected_def LoadConfigFromFile_def)
  next
    case False
    then show ?thesis using p row assms(4,6) keep
      by (simp add: row_respected_def LoadConfigFromFile_def int_slot_def)
  qed
qed

lemmas config_tables = instructions_def instructions_server_def instructions_policy_def instructions_media_def

text \<open>
  C31. The instruction table, the struct and the loader agree on every unsigned field: the row's
  default is the member initialiser and satisfies the row's minimum, and after loading the field
  holds exactly the value FreeSWITCH wrote (or the default), at or above the minimum, so the
  conversion from \<^verbatim>\<open>int\<close> never wraps. The three metrics fields have no row: no file can change
  them.
\<close>

theorem loader_respects_table:
  assumes "enforces_minimum parse"
  shows "(\<forall>(key, field, d, m) \<in> set int_fields. row_respected parse key field d m)
         \<and> metrics_enabled (snd (LoadConfigFromFile parse))
         \<and> metrics_bind_address (snd (LoadConfigFromFile parse)) = ''127.0.0.1''
         \<and> metrics_port (snd (LoadConfigFromFile parse)) = 9090"
proof (intro conjI)
  show "\<forall>(key, field, d, m) \<in> set int_fields. row_respected parse key field d m"
    unfolding int_fields_def list.set ball_simps split_conv
    by (intro conjI TrueI; rule row_respectedI [OF assms];
        simp add: config_tables Config_default_def load_strings_def load_numbers_def)
qed (cases "parse instructions";
     simp add: LoadConfigFromFile_def load_strings_def load_numbers_def Config_default_def Let_def)+

text \<open>A file that sets two fields, one of them exactly to its minimum.\<close>

definition demo_parser :: xml_parser where
  "demo_parser items =
     (True, [''event_ring_capacity_tier1'' \<mapsto> Wr_int 256, ''grpc_listen_address'' \<mapsto> Wr_string (Some '':1'')])"

theorem loader_respects_table_witness:
  "enforces_minimum demo_parser
   \<and> row_respected demo_parser ''event_ring_capacity_tier1'' event_ring_capacity_tier1 16384 256
   \<and> uint (event_ring_capacity_tier1 (snd (LoadConfigFromFile demo_parser))) = 256"
proof -
  have e: "enforces_minimum demo_parser"
    by (auto simp: enforces_minimum_def demo_parser_def config_tables split: if_splits)
  moreover have "row_respected demo_parser ''event_ring_capacity_tier1'' event_ring_capacity_tier1 16384 256"
    using loader_respects_table [OF e] by (simp add: int_fields_def)
  moreover from this have "uint (event_ring_capacity_tier1 (snd (LoadConfigFromFile demo_parser))) = 256"
    by (simp add: row_respected_def demo_parser_def LoadConfigFromFile_def int_slot_def)
  ultimately show ?thesis by blast
qed

end
