(* ===== verification/Security_Eavesdrop.thy ===== *)
theory Security_Eavesdrop
  imports Core_Config
begin

text \<open>
  Supervisor eavesdropping on bot calls, \<^verbatim>\<open>src/security/\<close>: the policy strings of the configuration
  and their resolution per tenant (\<^verbatim>\<open>eavesdrop_policy.cc\<close>), the markers on a bot's channel
  (\<^verbatim>\<open>eavesdrop_marker.cc\<close>), the audit record (\<^verbatim>\<open>eavesdrop_audit.cc\<close>), the dialplan application that
  asks before attaching (\<^verbatim>\<open>eavesdrop_app.cc\<close>) and the detector behind it (\<^verbatim>\<open>eavesdrop_detector.cc\<close>).
  FreeSWITCH sessions are arguments: a session is its uuid and, when it has a channel, the
  channel's variables; \<open>locate\<close> is \<^verbatim>\<open>switch_core_session_locate\<close>, \<open>set_variable\<close> is
  \<^verbatim>\<open>switch_channel_set_variable\<close>.
\<close>

section \<open>Policy strings\<close>

datatype EavesdropPolicy = kDeny | kAudit | kAllow

definition TrimView :: "string \<Rightarrow> string" where
  "TrimView raw = rev (dropWhile isspace (rev (dropWhile isspace raw)))"

definition LowerTrim :: "string \<Rightarrow> string" where
  "LowerTrim raw = map to_lower (TrimView raw)"

text \<open>\<open>SplitTenantEntry\<close> answers false (None) or the three parts \<open>tenant:policy[:gate]\<close>.\<close>

definition SplitTenantEntry :: "string \<Rightarrow> (string \<times> string \<times> string) option" where
  "SplitTenantEntry entry =
     (case find_char (CHR '':'') entry of
        None \<Rightarrow> None
      | Some first \<Rightarrow>
          if first = 0 then None
          else let tenant = TrimView (take first entry); rest = drop (first + 1) entry
               in if tenant = [] then None
                  else (case find_char (CHR '':'') rest of
                          None \<Rightarrow>
                            (let policy = TrimView rest
                             in if policy = [] then None else Some (tenant, policy, []))
                        | Some second \<Rightarrow>
                            (let policy = TrimView (take second rest);
                                 gate = TrimView (drop (second + 1) rest)
                             in if policy = [] then None else Some (tenant, policy, gate))))"

definition GateForcesDeny :: "string \<Rightarrow> bool" where
  "GateForcesDeny raw_gate =
     (let gate = LowerTrim raw_gate
      in gate = ''deny'' \<or> gate = ''false'' \<or> gate = ''0'' \<or> gate = ''off'')"

definition ParseEavesdropPolicy :: "string \<Rightarrow> EavesdropPolicy" where
  "ParseEavesdropPolicy raw =
     (let s = LowerTrim raw
      in if s = ''audit'' then kAudit else if s = ''allow'' then kAllow else kDeny)"

fun EavesdropPolicyName :: "EavesdropPolicy \<Rightarrow> string" where
  "EavesdropPolicyName kAudit = ''audit''"
| "EavesdropPolicyName kAllow = ''allow''"
| "EavesdropPolicyName kDeny = ''deny''"

definition IsKnownEavesdropPolicy :: "string \<Rightarrow> bool" where
  "IsKnownEavesdropPolicy raw =
     (let s = LowerTrim raw in s = ''deny'' \<or> s = ''audit'' \<or> s = ''allow'')"

text \<open>One turn of the loop over \<^verbatim>\<open>;\<close>-separated entries: the trimmed entry and what remains.\<close>

definition pop_entry :: "string \<Rightarrow> string \<times> string" where
  "pop_entry remaining =
     (case find_char (CHR '';'') remaining of
        None \<Rightarrow> (TrimView remaining, [])
      | Some sep \<Rightarrow> (TrimView (take sep remaining), drop (sep + 1) remaining))"

lemma pop_entry_shrinks: "remaining \<noteq> [] \<Longrightarrow> pop_entry remaining = (e, rest) \<Longrightarrow> length rest < length remaining"
  by (auto simp: pop_entry_def split: option.splits)

text \<open>\<open>ResolveEffectivePolicy\<close>; None is falling out of the loop without an override.\<close>

function resolve_loop :: "string \<Rightarrow> string \<Rightarrow> EavesdropPolicy option" where
  "resolve_loop tenant_id remaining =
     (if remaining = [] then None
      else case pop_entry remaining of (entry, rest) \<Rightarrow>
        if entry = [] then resolve_loop tenant_id rest
        else (case SplitTenantEntry entry of
                None \<Rightarrow> resolve_loop tenant_id rest
              | Some (tenant, policy_raw, gate) \<Rightarrow>
                  if tenant \<noteq> tenant_id then resolve_loop tenant_id rest
                  else if gate \<noteq> [] \<and> GateForcesDeny gate then Some kDeny
                  else Some (ParseEavesdropPolicy policy_raw)))"
  by pat_completeness auto
termination
  by (relation "measure (\<lambda>(_, remaining). length remaining)")
    (simp_all add: pop_entry_shrinks [OF _ sym])

declare resolve_loop.simps [simp del]

definition ResolveEffectivePolicy :: "Config \<Rightarrow> string \<Rightarrow> EavesdropPolicy" where
  "ResolveEffectivePolicy config tenant_id =
     (case resolve_loop tenant_id (tenant_eavesdrop_policies config) of
        Some policy \<Rightarrow> policy
      | None \<Rightarrow> ParseEavesdropPolicy (eavesdrop_policy config))"

text \<open>\<open>ValidateTenantEavesdropPolicies\<close>; None is success, Some carries the error text.\<close>

function ValidateTenantEavesdropPolicies :: "string \<Rightarrow> string option" where
  "ValidateTenantEavesdropPolicies remaining =
     (if remaining = [] then None
      else case pop_entry remaining of (entry, rest) \<Rightarrow>
        if entry = [] then ValidateTenantEavesdropPolicies rest
        else (case SplitTenantEntry entry of
                None \<Rightarrow> Some ''tenant_eavesdrop_policies entry must be tenant:policy[:allow|deny]''
              | Some (tenant, policy, gate) \<Rightarrow>
                  if \<not> IsKnownEavesdropPolicy policy then Some ''tenant_eavesdrop_policies contains unknown policy''
                  else if gate \<noteq> [] \<and>
                    (let g = LowerTrim gate
                     in g \<noteq> ''allow'' \<and> g \<noteq> ''true'' \<and> g \<noteq> ''1'' \<and> g \<noteq> ''on'' \<and> \<not> GateForcesDeny g)
                  then Some ''tenant_eavesdrop_policies gate must be allow/deny or true/false''
                  else ValidateTenantEavesdropPolicies rest))"
  by pat_completeness auto
termination
  by (relation "measure length") (simp_all add: pop_entry_shrinks [OF _ sym])

declare ValidateTenantEavesdropPolicies.simps [simp del]

section \<open>Channel markers, audit, application and detector\<close>

abbreviation kBotSessionVar :: string where "kBotSessionVar \<equiv> ''osw_bot_session''"
abbreviation kBotPurposeVar :: string where "kBotPurposeVar \<equiv> ''osw_bot_purpose''"
abbreviation kEavesdropPolicyVar :: string where "kEavesdropPolicyVar \<equiv> ''osw_eavesdrop_policy''"
abbreviation kTenantVar :: string where "kTenantVar \<equiv> ''osw_tenant''"

type_synonym channel_vars = "string \<rightharpoonup> string"

record fs_session =
  fs_uuid :: string
  fs_channel :: "channel_vars option"

definition ChannelGetVariable :: "fs_session option \<Rightarrow> string \<Rightarrow> string option" where
  "ChannelGetVariable session name =
     (case session of None \<Rightarrow> None
      | Some s \<Rightarrow> (case fs_channel s of None \<Rightarrow> None | Some vars \<Rightarrow> vars name))"

definition MarkBotSession ::
  "(string \<Rightarrow> string \<Rightarrow> channel_vars \<Rightarrow> channel_vars) \<Rightarrow> string \<Rightarrow> EavesdropPolicy \<Rightarrow> string \<Rightarrow>
   fs_session \<Rightarrow> fs_session" where
  "MarkBotSession set_variable purpose policy tenant_id session =
     (case fs_channel session of
        None \<Rightarrow> session
      | Some v0 \<Rightarrow>
          (let v1 = set_variable kBotSessionVar ''true'' v0;
               v2 = set_variable kBotPurposeVar (c_str purpose) v1;
               v3 = set_variable kEavesdropPolicyVar (c_str (EavesdropPolicyName policy)) v2;
               v4 = set_variable kTenantVar (c_str tenant_id) v3
           in session\<lparr>fs_channel := Some v4\<rparr>))"

text \<open>What the application and the detector do to the world, in order.\<close>

datatype eavesdrop_action =
    Emit_audit string "(string \<times> string) list"
  | Hangup_rejected fs_session
  | Ivr_eavesdrop fs_session string

definition AuditName :: "EavesdropPolicy \<Rightarrow> string \<Rightarrow> string" where
  "AuditName policy layer =
     (if layer = ''2_post_attach_detection'' then ''osw.eavesdrop.detected_post_attach''
      else case policy of kAudit \<Rightarrow> ''osw.eavesdrop.audit'' | kAllow \<Rightarrow> ''osw.eavesdrop.allowed''
           | kDeny \<Rightarrow> ''osw.eavesdrop.denied'')"

definition AddHeader :: "string \<Rightarrow> string option \<Rightarrow> (string \<times> string) list \<Rightarrow> (string \<times> string) list" where
  "AddHeader name value headers =
     (case value of None \<Rightarrow> headers | Some v \<Rightarrow> if v = [] then headers else headers @ [(name, v)])"

definition EmitEavesdropAudit ::
  "fs_session option \<Rightarrow> fs_session \<Rightarrow> EavesdropPolicy \<Rightarrow> string \<Rightarrow> string \<Rightarrow> eavesdrop_action" where
  "EmitEavesdropAudit supervisor target policy layer decision =
     (let h1 = AddHeader ''target_uuid'' (Some (fs_uuid target)) [];
          h2 = AddHeader ''target_tenant'' (ChannelGetVariable (Some target) kTenantVar) h1;
          h3 = AddHeader ''target_bot_purpose'' (ChannelGetVariable (Some target) kBotPurposeVar) h2;
          h4 = AddHeader ''policy_applied'' (Some (EavesdropPolicyName policy)) h3;
          h5 = AddHeader ''decision'' (Some decision) h4;
          h6 = AddHeader ''layer'' (Some layer) h5;
          h9 = (case supervisor of
                  Some s \<Rightarrow>
                    if fs_channel s \<noteq> None then
                      AddHeader ''Unique-ID'' (Some (fs_uuid s))
                        (AddHeader ''supervisor_ip'' (ChannelGetVariable supervisor ''sip_network_ip'')
                          (AddHeader ''supervisor_identity'' (ChannelGetVariable supervisor ''sip_from_uri'') h6))
                    else AddHeader ''Unique-ID'' (Some (fs_uuid target)) h6
                | None \<Rightarrow> AddHeader ''Unique-ID'' (Some (fs_uuid target)) h6)
      in Emit_audit (AuditName policy layer) h9)"

definition marked_policy :: "fs_session \<Rightarrow> EavesdropPolicy" where
  "marked_policy target =
     (case ChannelGetVariable (Some target) kEavesdropPolicyVar of
        Some raw \<Rightarrow> ParseEavesdropPolicy raw | None \<Rightarrow> kDeny)"

definition HandleOswEavesdropApp ::
  "(string \<Rightarrow> fs_session option) \<Rightarrow> fs_session option \<Rightarrow> string option \<Rightarrow> eavesdrop_action list" where
  "HandleOswEavesdropApp locate session data =
     (case session of None \<Rightarrow> [] | Some supervisor \<Rightarrow>
      (case data of None \<Rightarrow> [] | Some uuid \<Rightarrow>
       if uuid = [] then []
       else case locate uuid of None \<Rightarrow> [] | Some target \<Rightarrow>
         if ChannelGetVariable (Some target) kBotSessionVar \<noteq> Some ''true'' then [Ivr_eavesdrop supervisor uuid]
         else (let policy = marked_policy target; denied = (policy = kDeny);
                   audit = EmitEavesdropAudit session target policy ''1_pre_attach''
                             (if denied then ''hangup'' else ''permitted'')
               in if denied then [audit, Hangup_rejected supervisor]
                  else [audit, Ivr_eavesdrop supervisor uuid])))"

definition OnMediaBugStart ::
  "(string \<Rightarrow> fs_session option) \<Rightarrow> (string \<Rightarrow> string option) option \<Rightarrow> eavesdrop_action list" where
  "OnMediaBugStart locate event =
     (case event of None \<Rightarrow> [] | Some header \<Rightarrow>
      if header ''Media-Bug-Function'' \<noteq> Some ''eavesdrop'' then []
      else (case header ''Unique-ID'' of None \<Rightarrow> [] | Some uuid \<Rightarrow>
        if uuid = [] then []
        else case locate uuid of None \<Rightarrow> [] | Some target \<Rightarrow>
          if fs_channel target = None then []
          else if ChannelGetVariable (Some target) kBotSessionVar \<noteq> Some ''true'' then []
          else (let policy = marked_policy target; fail_closed = (policy = kDeny);
                    audit = EmitEavesdropAudit None target policy ''2_post_attach_detection''
                              (if fail_closed then ''detected_hangup_target'' else ''detected_only'')
                in if fail_closed then [audit, Hangup_rejected target] else [audit])))"

section \<open>The loops and their reference meaning\<close>

fun split_on :: "char \<Rightarrow> string \<Rightarrow> string list" where
  "split_on c [] = [[]]"
| "split_on c (x # xs) =
     (let ys = split_on c xs in if x = c then [] # ys else (x # hd ys) # tl ys)"

definition raw_entries :: "string \<Rightarrow> string list" where
  "raw_entries s = filter (\<lambda>e. e \<noteq> []) (map TrimView (split_on (CHR '';'') s))"

definition policy_entries :: "string \<Rightarrow> (string \<times> string \<times> string) list" where
  "policy_entries s = List.map_filter SplitTenantEntry (raw_entries s)"

definition entry_policy :: "string \<times> string \<times> string \<Rightarrow> EavesdropPolicy" where
  "entry_policy = (\<lambda>(_, policy, gate).
     if gate \<noteq> [] \<and> GateForcesDeny gate then kDeny else ParseEavesdropPolicy policy)"

definition entry_ok :: "string \<times> string \<times> string \<Rightarrow> bool" where
  "entry_ok = (\<lambda>(_, policy, gate). IsKnownEavesdropPolicy policy
     \<and> (gate = [] \<or> LowerTrim gate \<in> {''allow'', ''true'', ''1'', ''on''} \<or> GateForcesDeny gate))"

lemma split_on_not_Nil [simp]: "split_on c s \<noteq> []"
  by (cases s) (auto simp: Let_def)

lemma split_on_find:
  "split_on c s = (case find_char c s of None \<Rightarrow> [s] | Some n \<Rightarrow> take n s # split_on c (drop (n + 1) s))"
  by (induction s) (auto simp: Let_def split: option.splits)

lemma TrimView_Nil [simp]: "TrimView [] = []"
  by (simp add: TrimView_def)

lemma raw_entries_Nil [simp]: "raw_entries [] = []"
  by (simp add: raw_entries_def)

lemma raw_entries_pop:
  assumes "pop_entry s = (e, rest)"
  shows "raw_entries s = (if e = [] then [] else [e]) @ raw_entries rest"
proof (cases "find_char (CHR '';'') s")
  case None
  then have "split_on (CHR '';'') s = [s]" by (subst split_on_find) simp
  moreover have "e = TrimView s" "rest = []" using assms None by (simp_all add: pop_entry_def)
  ultimately show ?thesis by (simp add: raw_entries_def)
next
  case (Some n)
  then have "split_on (CHR '';'') s = take n s # split_on (CHR '';'') (drop (n + 1) s)"
    by (subst split_on_find) simp
  moreover have "e = TrimView (take n s)" "rest = drop (n + 1) s" using assms Some by (simp_all add: pop_entry_def)
  ultimately show ?thesis by (simp add: raw_entries_def)
qed

lemma resolve_loop_first_match:
  "resolve_loop t s = map_option entry_policy (List.find (\<lambda>e. fst e = t) (policy_entries s))"
proof (induction t s rule: resolve_loop.induct)
  case (1 t s)
  show ?case
  proof (cases "s = []")
    case True
    then show ?thesis by (simp add: resolve_loop.simps policy_entries_def map_filter_simps)
  next
    case False
    obtain e rest where p: "pop_entry s = (e, rest)" by force
    have r: "policy_entries s =
        (if e = [] then [] else case SplitTenantEntry e of None \<Rightarrow> [] | Some x \<Rightarrow> [x]) @ policy_entries rest"
      by (auto simp: policy_entries_def raw_entries_pop [OF p] map_filter_simps split: option.splits)
    show ?thesis
    proof (cases "e = [] \<or> SplitTenantEntry e = None \<or> (\<exists>x. SplitTenantEntry e = Some x \<and> fst x \<noteq> t)")
      case True
      then have "resolve_loop t s = resolve_loop t rest"
        using False p by (subst resolve_loop.simps) (auto split: option.splits)
      then show ?thesis using 1 [OF False p [symmetric]] True r by (auto split: option.splits)
    next
      case outer: False
      then obtain x where "e \<noteq> []" "SplitTenantEntry e = Some x" "fst x = t" by auto
      then show ?thesis using False p r
        by (subst resolve_loop.simps) (cases x; simp add: entry_policy_def)
    qed
  qed
qed

lemma to_lower_isspace [simp]: "isspace (to_lower c) = isspace c"
  by (auto simp: isspace_def to_lower_def Let_def of_char_of)

lemma to_lower_idem [simp]: "to_lower (to_lower c) = to_lower c"
  by (auto simp: to_lower_def Let_def of_char_of)

lemma dropWhile_map_to_lower: "dropWhile isspace (map to_lower s) = map to_lower (dropWhile isspace s)"
  by (induction s) auto

lemma TrimView_map_to_lower [simp]: "TrimView (map to_lower s) = map to_lower (TrimView s)"
  by (simp add: TrimView_def dropWhile_map_to_lower rev_map)

lemma TrimView_idem [simp]: "TrimView (TrimView s) = TrimView s"
proof -
  let ?a = "dropWhile isspace s" and ?b = "rev (dropWhile isspace (rev (dropWhile isspace s)))"
  have "\<exists>zs. ?a = ?b @ zs"
    by (metis rev_append rev_rev_ident takeWhile_dropWhile_id)
  then have "?b = [] \<or> \<not> isspace (hd ?b)"
    by (metis append_is_Nil_conv hd_append2 hd_dropWhile)
  then have "dropWhile isspace ?b = ?b" by (simp only: dropWhile_eq_self_iff)
  then show ?thesis by (simp add: TrimView_def)
qed

lemma LowerTrim_idem [simp]: "LowerTrim (LowerTrim s) = LowerTrim s"
  by (simp add: LowerTrim_def comp_def)

lemma GateForcesDeny_LowerTrim [simp]: "GateForcesDeny (LowerTrim g) = GateForcesDeny g"
  by (simp add: GateForcesDeny_def)

lemma validate_entries:
  "ValidateTenantEavesdropPolicies s = None \<longleftrightarrow>
     (\<forall>e\<in>set (raw_entries s). \<exists>x. SplitTenantEntry e = Some x \<and> entry_ok x)"
proof (induction s rule: ValidateTenantEavesdropPolicies.induct)
  case (1 s)
  show ?case
  proof (cases "s = []")
    case True
    then show ?thesis by (simp add: ValidateTenantEavesdropPolicies.simps)
  next
    case False
    obtain e rest where p: "pop_entry s = (e, rest)" by force
    have IH: "ValidateTenantEavesdropPolicies rest = None \<longleftrightarrow>
        (\<forall>e\<in>set (raw_entries rest). \<exists>x. SplitTenantEntry e = Some x \<and> entry_ok x)"
      if "e = [] \<or> (\<exists>x. SplitTenantEntry e = Some x \<and> entry_ok x)"
      using that 1 [OF False p [symmetric]] by (cases "e = []") (auto simp: entry_ok_def)
    show ?thesis
      using False p IH raw_entries_pop [OF p]
      by (subst ValidateTenantEavesdropPolicies.simps)
        (auto simp: entry_ok_def Let_def split: option.splits)
  qed
qed

lemma Parse_not_Deny:
  "ParseEavesdropPolicy raw \<noteq> kDeny \<Longrightarrow> LowerTrim raw = EavesdropPolicyName (ParseEavesdropPolicy raw)"
  by (auto simp: ParseEavesdropPolicy_def Let_def split: if_splits)

text \<open>
  C20. Policy resolution fails closed. For a tenant list that passed validation no non-blank entry is
  skipped, and the effective policy of a tenant is that of its first entry, or the module default
  when it has none. Anything but deny needs the policy word itself (up to case and blanks) in that
  entry, without a gate or with an allowing one, or, without any entry for the tenant, in the module
  default.
\<close>

theorem policy_resolution_fails_closed:
  assumes valid: "ValidateTenantEavesdropPolicies (tenant_eavesdrop_policies cfg) = None"
  shows "length (policy_entries (tenant_eavesdrop_policies cfg)) = length (raw_entries (tenant_eavesdrop_policies cfg))
    \<and> ResolveEffectivePolicy cfg t =
        (case List.find (\<lambda>e. fst e = t) (policy_entries (tenant_eavesdrop_policies cfg)) of
           Some e \<Rightarrow> entry_policy e | None \<Rightarrow> ParseEavesdropPolicy (eavesdrop_policy cfg))
    \<and> (ResolveEffectivePolicy cfg t \<noteq> kDeny \<longrightarrow>
        (\<exists>p g. (t, p, g) \<in> set (policy_entries (tenant_eavesdrop_policies cfg))
           \<and> LowerTrim p = EavesdropPolicyName (ResolveEffectivePolicy cfg t)
           \<and> (g = [] \<or> LowerTrim g \<in> {''allow'', ''true'', ''1'', ''on''}))
        \<or> t \<notin> fst ` set (policy_entries (tenant_eavesdrop_policies cfg))
           \<and> LowerTrim (eavesdrop_policy cfg) = EavesdropPolicyName (ResolveEffectivePolicy cfg t))"
    (is "?len \<and> ?res \<and> (?nd \<longrightarrow> ?P \<or> ?Q)")
proof (intro conjI impI)
  let ?es = "policy_entries (tenant_eavesdrop_policies cfg)"
  have ok: "\<forall>e\<in>set (raw_entries (tenant_eavesdrop_policies cfg)). \<exists>x. SplitTenantEntry e = Some x \<and> entry_ok x"
    using valid by (simp only: validate_entries)
  then show ?len unfolding policy_entries_def by (intro map_filter_all_Some) blast
  show res: ?res
    by (simp add: ResolveEffectivePolicy_def resolve_loop_first_match split: option.split)
  assume nd: ?nd
  show "?P \<or> ?Q"
  proof (cases "List.find (\<lambda>e. fst e = t) ?es")
    case None
    then have "t \<notin> fst ` set ?es" by (auto simp: find_None_iff)
    moreover have "ResolveEffectivePolicy cfg t = ParseEavesdropPolicy (eavesdrop_policy cfg)"
      using res None by simp
    ultimately show ?thesis using nd by (metis Parse_not_Deny)
  next
    case (Some x)
    then have "x \<in> set ?es" "fst x = t" using find_in_set by fast+
    moreover obtain t' p g where "x = (t', p, g)" by (rule prod_cases3)
    ultimately have x: "x = (t, p, g)" "(t, p, g) \<in> set ?es" by simp_all
    obtain e where "e \<in> set (raw_entries (tenant_eavesdrop_policies cfg))" "SplitTenantEntry e = Some (t, p, g)"
      using x(2) unfolding policy_entries_def set_map_filter_iff by blast
    then have "entry_ok (t, p, g)" using ok by force
    moreover have r: "ResolveEffectivePolicy cfg t = entry_policy (t, p, g)" using res Some x by simp
    then have "\<not> (g \<noteq> [] \<and> GateForcesDeny g)" using nd by (simp add: entry_policy_def split: if_splits)
    moreover have "LowerTrim p = EavesdropPolicyName (ResolveEffectivePolicy cfg t)"
      using r nd Parse_not_Deny [of p] by (auto simp: entry_policy_def split: if_splits)
    ultimately have "(t, p, g) \<in> set ?es \<and> LowerTrim p = EavesdropPolicyName (ResolveEffectivePolicy cfg t)
        \<and> (g = [] \<or> LowerTrim g \<in> {''allow'', ''true'', ''1'', ''on''})"
      using x(2) unfolding entry_ok_def split_conv by blast
    then show ?thesis by blast
  qed
qed

definition demo_policy_config :: Config where
  "demo_policy_config = Config_default\<lparr>tenant_eavesdrop_policies := '' acme : Audit ; evil:allow:Off''\<rparr>"

lemma demo_policy_config [simp]:
  "tenant_eavesdrop_policies demo_policy_config = '' acme : Audit ; evil:allow:Off''"
  by (simp add: demo_policy_config_def)

lemma demo_resolved:
  "resolve_loop ''acme'' '' acme : Audit ; evil:allow:Off'' = Some kAudit"
  "resolve_loop ''evil'' '' acme : Audit ; evil:allow:Off'' = Some kDeny"
  "ValidateTenantEavesdropPolicies '' acme : Audit ; evil:allow:Off'' = None"
  "length (raw_entries '' acme : Audit ; evil:allow:Off'') = 2"
  by code_simp+

theorem policy_resolution_fails_closed_witness:
  "ValidateTenantEavesdropPolicies (tenant_eavesdrop_policies demo_policy_config) = None
   \<and> ResolveEffectivePolicy demo_policy_config ''acme'' = kAudit
   \<and> ResolveEffectivePolicy demo_policy_config ''evil'' = kDeny
   \<and> length (policy_entries (tenant_eavesdrop_policies demo_policy_config)) = 2"
proof -
  have v: "ValidateTenantEavesdropPolicies (tenant_eavesdrop_policies demo_policy_config) = None"
    by (simp only: demo_policy_config demo_resolved)
  have "length (policy_entries (tenant_eavesdrop_policies demo_policy_config)) = 2"
    using conjunct1 [OF policy_resolution_fails_closed [OF v]] by (simp only: demo_policy_config demo_resolved)
  then show ?thesis using v by (simp only: ResolveEffectivePolicy_def demo_policy_config demo_resolved option.case simp_thms)
qed

text \<open>
  The documented behaviour of channel variables: a non-empty value that was set is read back, and
  setting one variable leaves the others alone.
\<close>

definition channel_store :: "(string \<Rightarrow> string \<Rightarrow> channel_vars \<Rightarrow> channel_vars) \<Rightarrow> bool" where
  "channel_store set_variable \<longleftrightarrow>
     (\<forall>n v vars. v \<noteq> [] \<longrightarrow> set_variable n v vars n = Some v)
     \<and> (\<forall>n n' v vars. n' \<noteq> n \<longrightarrow> set_variable n v vars n' = vars n')"

lemma Parse_words:
  "ParseEavesdropPolicy ''deny'' = kDeny" "ParseEavesdropPolicy ''audit'' = kAudit" "ParseEavesdropPolicy ''allow'' = kAllow"
  by code_simp+

lemma Parse_Name [simp]: "ParseEavesdropPolicy (EavesdropPolicyName p) = p"
  by (cases p) (simp_all add: Parse_words)

lemma marked_session:
  assumes "channel_store set_variable" "fs_channel s \<noteq> None"
  shows "ChannelGetVariable (Some (MarkBotSession set_variable purpose policy tenant s)) kBotSessionVar = Some ''true''"
    and "marked_policy (MarkBotSession set_variable purpose policy tenant s) = policy"
    and "fs_channel (MarkBotSession set_variable purpose policy tenant s) \<noteq> None"
    and "fs_uuid (MarkBotSession set_variable purpose policy tenant s) = fs_uuid s"
proof -
  have "c_str (EavesdropPolicyName policy) = EavesdropPolicyName policy" "EavesdropPolicyName policy \<noteq> []"
    by (cases policy; simp)+
  then show "marked_policy (MarkBotSession set_variable purpose policy tenant s) = policy"
    and "ChannelGetVariable (Some (MarkBotSession set_variable purpose policy tenant s)) kBotSessionVar = Some ''true''"
    and "fs_channel (MarkBotSession set_variable purpose policy tenant s) \<noteq> None"
    and "fs_uuid (MarkBotSession set_variable purpose policy tenant s) = fs_uuid s"
    using assms
    by (auto simp: MarkBotSession_def marked_policy_def ChannelGetVariable_def channel_store_def Let_def)
qed

text \<open>
  C21. Eavesdropping on a marked bot session follows the policy it was marked with. Under deny the
  application hangs up the supervisor and never attaches; a bug that was attached past the
  application makes the detector hang up the bot's channel. Under audit and allow the application
  attaches and the detector only records. Each of the two writes exactly one audit record, before
  it acts.
\<close>

theorem marked_policy_is_enforced:
  assumes "channel_store set_variable" "fs_channel session \<noteq> None" "uuid \<noteq> []"
    and located: "locate uuid = Some (MarkBotSession set_variable purpose policy tenant session)"
    and event: "header ''Media-Bug-Function'' = Some ''eavesdrop''" "header ''Unique-ID'' = Some uuid"
  shows "(\<exists>hs. HandleOswEavesdropApp locate (Some supervisor) (Some uuid) =
            [Emit_audit (AuditName policy ''1_pre_attach'') hs,
             if policy = kDeny then Hangup_rejected supervisor else Ivr_eavesdrop supervisor uuid])
       \<and> (\<exists>hs. OnMediaBugStart locate (Some header) =
            Emit_audit ''osw.eavesdrop.detected_post_attach'' hs #
            (if policy = kDeny then [Hangup_rejected (MarkBotSession set_variable purpose policy tenant session)]
             else []))"
  using assms(3) located event marked_session [OF assms(1,2), of purpose policy tenant]
  by (auto simp: HandleOswEavesdropApp_def OnMediaBugStart_def EmitEavesdropAudit_def AuditName_def Let_def)

definition demo_bot :: fs_session where
  "demo_bot = \<lparr>fs_uuid = ''b'', fs_channel = Some Map.empty\<rparr>"

definition demo_set :: "string \<Rightarrow> string \<Rightarrow> channel_vars \<Rightarrow> channel_vars" where
  "demo_set n v vars = vars(n \<mapsto> v)"

theorem marked_policy_is_enforced_witness:
  "channel_store demo_set \<and>
   (\<exists>hs. HandleOswEavesdropApp
      [''b'' \<mapsto> MarkBotSession demo_set ''stt'' (ResolveEffectivePolicy demo_policy_config ''evil'') ''evil'' demo_bot]
      (Some \<lparr>fs_uuid = ''s'', fs_channel = None\<rparr>) (Some ''b'')
     = [Emit_audit ''osw.eavesdrop.denied'' hs, Hangup_rejected \<lparr>fs_uuid = ''s'', fs_channel = None\<rparr>])"
proof -
  have s: "channel_store demo_set" by (simp add: channel_store_def demo_set_def)
  have p: "ResolveEffectivePolicy demo_policy_config ''evil'' = kDeny"
    by (simp add: ResolveEffectivePolicy_def demo_resolved)
  have "fs_channel demo_bot \<noteq> None" by (simp add: demo_bot_def)
  then show ?thesis
    using s p marked_policy_is_enforced [OF s, of demo_bot "''b''"
      "[''b'' \<mapsto> MarkBotSession demo_set ''stt'' kDeny ''evil'' demo_bot]" "''stt''" kDeny "''evil''"
      "[''Media-Bug-Function'' \<mapsto> ''eavesdrop'', ''Unique-ID'' \<mapsto> ''b'']"
      "\<lparr>fs_uuid = ''s'', fs_channel = None\<rparr>"]
    by (simp add: AuditName_def)
qed

end
