(* ===== verification/Core_Validate.thy ===== *)
theory Core_Validate
  imports Security_Eavesdrop
begin

text \<open>
  Validation of the configuration (\<open>Validate\<close> of \<^verbatim>\<open>src/core/config.cc\<close>) and the credentials the gRPC
  server is started with (\<^verbatim>\<open>src/control/tls.cc\<close>, \<^verbatim>\<open>config_tls.cc\<close>). The standard library's regular
  expression compiler is a parameter (the error text of a pattern it rejects), as is the file
  system: \<open>slurp\<close> gives the contents of a path, empty when it cannot be read.
\<close>

section \<open>Validate\<close>

datatype ConfigValidation = Ok | Fail string

text \<open>The UTF-8 bytes of the dash in the messages.\<close>

definition em_dash :: string where
  "em_dash = [CHR 0xE2, CHR 0x80, CHR 0x94]"

text \<open>The loop over the redaction patterns.\<close>

fun validate_patterns :: "(string \<Rightarrow> string option) \<Rightarrow> nat \<Rightarrow> string list \<Rightarrow> ConfigValidation" where
  "validate_patterns regex_error i [] = Ok"
| "validate_patterns regex_error i (p # ps) =
     (case regex_error p of
        Some what \<Rightarrow> Fail (''pii_redaction_patterns['' @ decimal i @ ''] is not a valid regex: '' @ what)
      | None \<Rightarrow> validate_patterns regex_error (i + 1) ps)"

text \<open>The limits of the media components; the underrun policy is compared and never refused.\<close>

definition validate_media :: "Config \<Rightarrow> ConfigValidation" where
  "validate_media cfg =
     (if tts_max_jitter_buffer_ms cfg < 200 then Fail ''tts_max_jitter_buffer_ms must be >= 200''
      else if tts_jitter_buffer_ms cfg < 200 \<or> tts_jitter_buffer_ms cfg > tts_max_jitter_buffer_ms cfg
        then Fail ''tts_jitter_buffer_ms must be in [200, tts_max_jitter_buffer_ms]''
      else if tts_preroll_ms cfg < 50 \<or> tts_preroll_ms cfg > tts_jitter_buffer_ms cfg
        then Fail ''tts_preroll_ms must be in [50, tts_jitter_buffer_ms]''
      else if tts_high_water_ms cfg < tts_jitter_buffer_ms cfg \<or> tts_high_water_ms cfg > tts_max_jitter_buffer_ms cfg
        then Fail ''tts_high_water_ms must be in [tts_jitter_buffer_ms, tts_max_jitter_buffer_ms]''
      else if recording_send_ring_ms cfg < 50 \<or> recording_send_ring_ms cfg > 5000
        then Fail ''recording_send_ring_ms must be in [50, 5000]''
      else if stereo_desync_timeout_ms cfg = 0 \<or> stereo_desync_timeout_ms cfg > 100
        then Fail ''stereo_desync_timeout_ms must be in [1, 100]''
      else if stereo_desync_warn_ms cfg > stereo_desync_timeout_ms cfg
        then Fail ''stereo_desync_warn_ms must be <= stereo_desync_timeout_ms''
      else if recording_default_rate_hz cfg \<noteq> 8000 \<and> recording_default_rate_hz cfg \<noteq> 16000
          \<and> recording_default_rate_hz cfg \<noteq> 24000 \<and> recording_default_rate_hz cfg \<noteq> 48000
        then Fail ''recording_default_rate_hz must be one of 8000, 16000, 24000, 48000''
      else if max_silence_drivers cfg < 1 \<or> max_silence_drivers cfg > 5000
        then Fail ''max_silence_drivers must be in [1, 5000]''
      else if bot_max_targets cfg < 1 \<or> bot_max_targets cfg > 8
        then Fail ''bot_max_targets must be in [1, 8]''
      else if bot_target_queue_ms cfg < 50 \<or> bot_target_queue_ms cfg > 5000
        then Fail ''bot_target_queue_ms must be in [50, 5000]''
      else if bot_drain_timeout_ms cfg < 100 \<or> bot_drain_timeout_ms cfg > 10000
        then Fail ''bot_drain_timeout_ms must be in [100, 10000]''
      else if max_bots_per_channel cfg < 1 \<or> max_bots_per_channel cfg > 4
        then Fail ''max_bots_per_channel must be in [1, 4]''
      else Ok)"

definition validate_limits :: "(string \<Rightarrow> string option) \<Rightarrow> Config \<Rightarrow> ConfigValidation" where
  "validate_limits regex_error cfg =
     (if event_ring_capacity_tier1 cfg < 256 then Fail ''event_ring_capacity_tier1 must be >= 256''
      else if event_ring_capacity_tier2 cfg < 256 then Fail ''event_ring_capacity_tier2 must be >= 256''
      else if event_ring_capacity_tier3 cfg < 256 then Fail ''event_ring_capacity_tier3 must be >= 256''
      else if subscriber_send_queue_capacity cfg < 64 then Fail ''subscriber_send_queue_capacity must be >= 64''
      else if max_subscribers cfg < 1 then Fail ''max_subscribers must be >= 1''
      else if idempotency_ttl_seconds cfg = 0 then Fail ''idempotency_ttl_seconds must be > 0''
      else if idempotency_cache_capacity cfg < 16 then Fail ''idempotency_cache_capacity must be >= 16''
      else if idempotency_in_flight_max_wait_seconds cfg = 0
        then Fail ''idempotency_in_flight_max_wait_seconds must be > 0''
      else if drain_timeout_seconds cfg = 0 then Fail ''drain_timeout_seconds must be > 0''
      else if grpc_drain_deadline_seconds cfg = 0 then Fail ''grpc_drain_deadline_seconds must be > 0''
      else if log_level cfg \<notin> {''trace'', ''debug'', ''info'', ''warn'', ''error'', ''crit''}
        then Fail (''log_level must be one of trace/debug/info/warn/error/crit; got: '' @ log_level cfg)
      else case validate_patterns regex_error 0 (pii_redaction_patterns cfg) of
             Fail e \<Rightarrow> Fail e
           | Ok \<Rightarrow> validate_media cfg)"

definition Validate :: "(string \<Rightarrow> string option) \<Rightarrow> Config \<Rightarrow> ConfigValidation" where
  "Validate regex_error cfg =
     (if grpc_listen_address cfg = [] then Fail ''grpc_listen_address must be set''
      else if find_char (CHR '':'') (grpc_listen_address cfg) = None
        then Fail ''grpc_listen_address must contain a ':' (e.g. 0.0.0.0:50061)''
      else if grpc_tls_cert_path cfg \<noteq> [] \<and> grpc_tls_key_path cfg = []
        then Fail (''grpc_tls_cert_path set but grpc_tls_key_path is empty '' @ em_dash @ '' both required for TLS'')
      else if grpc_tls_key_path cfg = [] \<and> grpc_tls_ca_path cfg \<noteq> []
        then Fail (''grpc_tls_ca_path set without grpc_tls_cert_path '' @ em_dash @ '' mTLS requires server cert + key'')
      else if grpc_tls_require_client_cert cfg \<and> grpc_tls_cert_path cfg = []
        then Fail (''grpc_tls_require_client_cert=true but grpc_tls_cert_path is empty '' @ em_dash @
                   '' mTLS requires server cert + key'')
      else if \<not> IsKnownEavesdropPolicy (eavesdrop_policy cfg)
        then Fail ''eavesdrop_policy must be deny, audit, or allow''
      else case ValidateTenantEavesdropPolicies (tenant_eavesdrop_policies cfg) of
             Some error \<Rightarrow> Fail error
           | None \<Rightarrow> validate_limits regex_error cfg)"

section \<open>Server credentials\<close>

record TlsConfig =
  cert_path :: string
  key_path :: string
  ca_path :: string
  require_client_cert :: bool

definition tls_enabled :: "TlsConfig \<Rightarrow> bool" where
  "tls_enabled cfg \<longleftrightarrow> cert_path cfg \<noteq> []"

text \<open>
  The credentials: plaintext, or TLS with the client certificate request, the root bundle and the
  key/certificate pair. The pointer is null (None) on a broken TLS configuration.
\<close>

datatype ServerCredentials =
    InsecureServerCredentials
  | SslServerCredentials (verify_client: bool) (pem_root_certs: string) (private_key: string) (cert_chain: string)

fun LooksLikePem :: "string \<Rightarrow> bool" where
  "LooksLikePem [] = False"
| "LooksLikePem (c # s) = (has_prefix ''-----BEGIN'' (c # s) \<or> LooksLikePem s)"

definition BuildServerCredentials :: "(string \<Rightarrow> string) \<Rightarrow> TlsConfig \<Rightarrow> ServerCredentials option" where
  "BuildServerCredentials slurp cfg =
     (if \<not> tls_enabled cfg then Some InsecureServerCredentials
      else let cert = slurp (cert_path cfg) in
        if cert = [] \<or> \<not> LooksLikePem cert then None
        else let key = slurp (key_path cfg) in
          if key = [] \<or> \<not> LooksLikePem key then None
          else if ca_path cfg \<noteq> [] then
            (let ca = slurp (ca_path cfg)
             in if ca = [] \<or> \<not> LooksLikePem ca then None
                else Some (SslServerCredentials (require_client_cert cfg) ca key cert))
          else Some (SslServerCredentials (require_client_cert cfg) [] key cert))"

definition TlsConfigFromConfig :: "Config \<Rightarrow> TlsConfig" where
  "TlsConfigFromConfig config =
     \<lparr>cert_path = grpc_tls_cert_path config, key_path = grpc_tls_key_path config,
      ca_path = grpc_tls_ca_path config,
      require_client_cert = grpc_tls_require_client_cert config \<or> grpc_tls_ca_path config \<noteq> []\<rparr>"

definition MakeServerCreds :: "(string \<Rightarrow> string) \<Rightarrow> Config \<Rightarrow> ServerCredentials option" where
  "MakeServerCreds slurp config =
     BuildServerCredentials slurp
       \<lparr>cert_path = grpc_tls_cert_path config, key_path = grpc_tls_key_path config,
        ca_path = grpc_tls_ca_path config,
        require_client_cert = grpc_tls_require_client_cert config \<or> grpc_tls_ca_path config \<noteq> []\<rparr>"

section \<open>What a validated configuration guarantees\<close>

lemma Validate_Ok:
  "Validate regex_error cfg = Ok \<longleftrightarrow>
     CHR '':'' \<in> set (grpc_listen_address cfg)
     \<and> (grpc_tls_cert_path cfg \<noteq> [] \<longrightarrow> grpc_tls_key_path cfg \<noteq> [])
     \<and> (grpc_tls_ca_path cfg \<noteq> [] \<longrightarrow> grpc_tls_key_path cfg \<noteq> [])
     \<and> (grpc_tls_require_client_cert cfg \<longrightarrow> grpc_tls_cert_path cfg \<noteq> [])
     \<and> IsKnownEavesdropPolicy (eavesdrop_policy cfg)
     \<and> ValidateTenantEavesdropPolicies (tenant_eavesdrop_policies cfg) = None
     \<and> validate_limits regex_error cfg = Ok"
  by (auto simp: Validate_def find_char_None split: option.splits)

lemma validate_patterns_Ok: "validate_patterns regex_error i ps = Ok \<longleftrightarrow> (\<forall>p\<in>set ps. regex_error p = None)"
  by (induction ps arbitrary: i) (auto split: option.splits)

lemma validate_limits_Ok:
  "validate_limits regex_error cfg = Ok \<longleftrightarrow>
     256 \<le> unat (event_ring_capacity_tier1 cfg) \<and> 256 \<le> unat (event_ring_capacity_tier2 cfg)
     \<and> 256 \<le> unat (event_ring_capacity_tier3 cfg)
     \<and> 64 \<le> unat (subscriber_send_queue_capacity cfg) \<and> 1 \<le> unat (max_subscribers cfg)
     \<and> 1 \<le> unat (idempotency_ttl_seconds cfg) \<and> 16 \<le> unat (idempotency_cache_capacity cfg)
     \<and> 1 \<le> unat (idempotency_in_flight_max_wait_seconds cfg)
     \<and> 1 \<le> unat (drain_timeout_seconds cfg) \<and> 1 \<le> unat (grpc_drain_deadline_seconds cfg)
     \<and> log_level cfg \<in> {''trace'', ''debug'', ''info'', ''warn'', ''error'', ''crit''}
     \<and> (\<forall>p\<in>set (pii_redaction_patterns cfg). regex_error p = None)
     \<and> validate_media cfg = Ok"
  unfolding validate_limits_def word_less_nat_alt word_unat_eq_iff
  by (auto simp: validate_patterns_Ok [of _ 0, symmetric] not_less Suc_le_eq split: ConfigValidation.splits)

lemma validate_media_Ok:
  "validate_media cfg = Ok \<longleftrightarrow>
     50 \<le> unat (tts_preroll_ms cfg) \<and> unat (tts_preroll_ms cfg) \<le> unat (tts_jitter_buffer_ms cfg)
     \<and> 200 \<le> unat (tts_jitter_buffer_ms cfg) \<and> unat (tts_jitter_buffer_ms cfg) \<le> unat (tts_high_water_ms cfg)
     \<and> unat (tts_high_water_ms cfg) \<le> unat (tts_max_jitter_buffer_ms cfg)
     \<and> unat (recording_send_ring_ms cfg) \<in> {50..5000}
     \<and> unat (stereo_desync_timeout_ms cfg) \<in> {1..100}
     \<and> unat (stereo_desync_warn_ms cfg) \<le> unat (stereo_desync_timeout_ms cfg)
     \<and> unat (recording_default_rate_hz cfg) \<in> {8000, 16000, 24000, 48000}
     \<and> unat (max_silence_drivers cfg) \<in> {1..5000} \<and> unat (bot_max_targets cfg) \<in> {1..8}
     \<and> unat (bot_target_queue_ms cfg) \<in> {50..5000} \<and> unat (bot_drain_timeout_ms cfg) \<in> {100..10000}
     \<and> unat (max_bots_per_channel cfg) \<in> {1..4}"
  unfolding validate_media_def word_less_nat_alt word_unat_eq_iff
  by (auto simp: not_less Suc_le_eq)

lemma deny_known: "IsKnownEavesdropPolicy ''deny''"
  by code_simp

lemma default_limits_valid: "validate_limits regex_error Config_default = Ok"
  by (simp add: validate_limits_Ok validate_media_Ok Config_default_def)

text \<open>The shipped defaults pass, so a module without a configuration file starts.\<close>

lemma default_config_valid: "Validate regex_error Config_default = Ok"
  unfolding Validate_Ok
  by (simp add: default_limits_valid) (simp add: Config_default_def deny_known ValidateTenantEavesdropPolicies.simps)

text \<open>
  C29. The transport of a validated configuration. Plaintext is served exactly when no certificate is
  configured, so an explicit demand for client certificates never ends in plaintext. TLS uses the
  certificate and key read from the configured paths, verifies clients exactly when that was
  demanded or a CA bundle is configured, and an unreadable or non-PEM file yields no credentials at
  all.
\<close>

theorem tls_posture_of_validated_config:
  assumes "Validate regex_error cfg = Ok"
  shows "(MakeServerCreds slurp cfg = Some InsecureServerCredentials \<longleftrightarrow> grpc_tls_cert_path cfg = [])
    \<and> (grpc_tls_require_client_cert cfg \<longrightarrow> MakeServerCreds slurp cfg \<noteq> Some InsecureServerCredentials)
    \<and> (\<forall>v r k c. MakeServerCreds slurp cfg = Some (SslServerCredentials v r k c) \<longrightarrow>
         v = (grpc_tls_require_client_cert cfg \<or> grpc_tls_ca_path cfg \<noteq> [])
         \<and> c = slurp (grpc_tls_cert_path cfg) \<and> k = slurp (grpc_tls_key_path cfg)
         \<and> grpc_tls_key_path cfg \<noteq> [] \<and> LooksLikePem c \<and> LooksLikePem k
         \<and> (grpc_tls_ca_path cfg \<noteq> [] \<longrightarrow> r = slurp (grpc_tls_ca_path cfg) \<and> LooksLikePem r))
    \<and> (grpc_tls_cert_path cfg \<noteq> [] \<and>
        (\<exists>path \<in> {grpc_tls_cert_path cfg, grpc_tls_key_path cfg}. \<not> LooksLikePem (slurp path)) \<longrightarrow>
        MakeServerCreds slurp cfg = None)"
proof -
  have key: "grpc_tls_cert_path cfg \<noteq> [] \<Longrightarrow> grpc_tls_key_path cfg \<noteq> []"
    and req: "grpc_tls_require_client_cert cfg \<Longrightarrow> grpc_tls_cert_path cfg \<noteq> []"
    using assms by (simp_all add: Validate_Ok)
  have pem: "\<not> LooksLikePem []" by simp
  show ?thesis
    using key req pem
    by (auto simp: MakeServerCreds_def BuildServerCredentials_def tls_enabled_def Let_def split: if_splits)
qed

definition demo_tls_config :: Config where
  "demo_tls_config = Config_default
     \<lparr>grpc_tls_cert_path := ''c'', grpc_tls_key_path := ''k'', grpc_tls_ca_path := ''a''\<rparr>"

lemma demo_tls_valid: "Validate (\<lambda>_. None) demo_tls_config = Ok"
  unfolding Validate_Ok validate_limits_Ok validate_media_Ok
  by (simp add: demo_tls_config_def Config_default_def deny_known ValidateTenantEavesdropPolicies.simps)

theorem tls_posture_of_validated_config_witness:
  "Validate (\<lambda>_. None) demo_tls_config = Ok
   \<and> MakeServerCreds (\<lambda>path. ''-----BEGIN '' @ path) demo_tls_config \<noteq> Some InsecureServerCredentials
   \<and> MakeServerCreds (\<lambda>path. []) demo_tls_config = None"
  using demo_tls_valid tls_posture_of_validated_config [OF demo_tls_valid, of "\<lambda>path. ''-----BEGIN '' @ path"]
    tls_posture_of_validated_config [OF demo_tls_valid, of "\<lambda>path. []"]
  by (auto simp: demo_tls_config_def)

text \<open>
  A CA bundle does not protect the transport when the certificate path is missing: a
  configuration with a CA bundle and a key but no certificate passes validation, and the server then
  serves plaintext without client verification, whatever the files contain.
\<close>

lemma ca_bundle_without_cert_is_plaintext:
  "\<exists>cfg. (\<forall>regex_error. Validate regex_error cfg = Ok)
     \<and> grpc_tls_ca_path cfg \<noteq> [] \<and> require_client_cert (TlsConfigFromConfig cfg)
     \<and> (\<forall>slurp. MakeServerCreds slurp cfg = Some InsecureServerCredentials)"
proof (intro exI conjI allI)
  let ?cfg = "Config_default\<lparr>grpc_tls_key_path := ''k'', grpc_tls_ca_path := ''a''\<rparr>"
  show "Validate regex_error ?cfg = Ok" for regex_error
    unfolding Validate_Ok validate_limits_Ok validate_media_Ok
    by (simp add: Config_default_def deny_known ValidateTenantEavesdropPolicies.simps)
qed (simp_all add: Config_default_def TlsConfigFromConfig_def MakeServerCreds_def BuildServerCredentials_def
      tls_enabled_def)

end
