(* ===== verification/Media_Frame.thy ===== *)
theory Media_Frame
  imports Osw_Prelude
begin

text \<open>
  Audio frames, \<^verbatim>\<open>include/osw/media/audio_frame.h\<close> and \<^verbatim>\<open>src/media/audio_frame.cc\<close>: signed 16-bit PCM
  samples (kept as 16-bit words) with their metadata, and the conversion from and to the wire
  message, whose payload is the little-endian byte image of the samples.
\<close>

type_synonym sample = "16 word"

text \<open>\<^verbatim>\<open>static_cast<std::uint32_t>\<close> of a \<^verbatim>\<open>size_t\<close>.\<close>

definition to_u32 :: "nat \<Rightarrow> nat" where
  "to_u32 n = n mod 2 ^ 32"

record audio_frame =
  af_samples :: "sample list"
  af_sample_rate_hz :: u32
  af_channels :: u32
  af_channel :: u32
  af_channel_uuid :: string
  af_seq :: u64
  af_timestamp_samples :: u64

abbreviation sample_count :: "audio_frame \<Rightarrow> nat" where
  "sample_count f \<equiv> length (af_samples f)"

definition duration_samples :: "audio_frame \<Rightarrow> nat" where
  "duration_samples f = (if af_channels f > 0 then to_u32 (sample_count f div unat (af_channels f)) else 0)"

definition duration_ms :: "audio_frame \<Rightarrow> nat" where
  "duration_ms f =
     (if af_sample_rate_hz f = 0 \<or> af_channels f = 0 then 0
      else to_u32 (duration_samples f * 1000 div unat (af_sample_rate_hz f)))"

record proto_frame =
  pf_seq :: u64
  pf_timestamp_samples :: u64
  pf_duration_samples :: u32
  pf_channel :: u32
  pf_channel_uuid :: string
  pf_payload :: "u8 list"

fun bytes_of_samples :: "sample list \<Rightarrow> u8 list" where
  "bytes_of_samples [] = []"
| "bytes_of_samples (s # ss) = ucast s # ucast (drop_bit 8 s) # bytes_of_samples ss"

fun samples_of_bytes :: "u8 list \<Rightarrow> sample list" where
  "samples_of_bytes (b0 # b1 # bs) = (ucast b0 OR push_bit 8 (ucast b1)) # samples_of_bytes bs"
| "samples_of_bytes _ = []"

text \<open>
  \<open>FromProto\<close>: the \<^verbatim>\<open>size_t\<close> products are taken modulo \<open>2 ^ 64\<close>; the sample vector is zeroed and then
  overwritten by the payload.
\<close>

definition FromProto :: "proto_frame \<Rightarrow> u32 \<Rightarrow> u32 \<Rightarrow> audio_frame option" where
  "FromProto proto sample_rate_hz channels =
     (let expected_bytes = unat (pf_duration_samples proto) * unat channels * 2 mod 2 ^ 64;
          total_samples = unat (pf_duration_samples proto) * unat channels mod 2 ^ 64;
          copied = samples_of_bytes (pf_payload proto)
      in if length (pf_payload proto) \<noteq> expected_bytes then None
         else Some \<lparr>af_samples = copied @ replicate (total_samples - length copied) 0,
                    af_sample_rate_hz = sample_rate_hz, af_channels = channels,
                    af_channel = pf_channel proto, af_channel_uuid = pf_channel_uuid proto,
                    af_seq = pf_seq proto, af_timestamp_samples = pf_timestamp_samples proto\<rparr>)"

definition ToProto :: "audio_frame \<Rightarrow> proto_frame" where
  "ToProto f =
     \<lparr>pf_seq = af_seq f, pf_timestamp_samples = af_timestamp_samples f,
      pf_duration_samples = word_of_nat (duration_samples f), pf_channel = af_channel f,
      pf_channel_uuid = af_channel_uuid f, pf_payload = bytes_of_samples (af_samples f)\<rparr>"

lemma to_u32_id [simp]: "n < 2 ^ 32 \<Longrightarrow> to_u32 n = n"
  by (simp add: to_u32_def)

lemma length_bytes_of_samples [simp]: "length (bytes_of_samples ss) = 2 * length ss"
  by (induction ss) simp_all

lemma word16_split: "(ucast (ucast s :: u8) :: sample) OR push_bit 8 (ucast (ucast (drop_bit 8 s) :: u8)) = s"
  by (rule bit_word_eqI) (auto simp: bit_simps)

lemma samples_of_bytes_of_samples [simp]: "samples_of_bytes (bytes_of_samples ss) = ss"
  by (induction ss) (simp_all add: word16_split)

text \<open>
  Audio frames survive the wire exactly when their samples divide evenly among the channels: then
  parsing a serialised frame with its own rate and channel count gives the frame back, otherwise the
  receiver rejects it.
\<close>

lemma frame_proto_roundtrip:
  assumes "0 < af_channels f" "sample_count f < 2 ^ 32"
  shows "FromProto (ToProto f) (af_sample_rate_hz f) (af_channels f) =
           (if unat (af_channels f) dvd sample_count f then Some f else None)"
proof -
  let ?c = "unat (af_channels f)" and ?n = "sample_count f"
  have c: "0 < ?c" using assms(1) by (simp add: word_greater_zero_iff unat_gt_0)
  have d: "duration_samples f = ?n div ?c"
    using assms by (simp add: duration_samples_def le_less_trans [OF div_le_dividend])
  have u: "unat (pf_duration_samples (ToProto f)) = ?n div ?c"
    using assms(2) d by (simp add: ToProto_def unat_of_nat take_bit_nat_eq_self le_less_trans [OF div_le_dividend])
  obtain k where k: "?n div ?c * ?c = k" "k \<le> ?n" by simp
  have lt: "k * 2 < 2 ^ 64" "k < 2 ^ 64" using k(2) assms(2) by simp_all
  have len: "length (pf_payload (ToProto f)) = 2 * ?n" by (simp add: ToProto_def)
  have cp: "samples_of_bytes (pf_payload (ToProto f)) = af_samples f" by (simp add: ToProto_def)
  have dvd: "k = ?n \<longleftrightarrow> ?c dvd ?n" using k(1) by (metis dvd_div_mult_self dvd_triv_right)
  show ?thesis
  proof (cases "?c dvd ?n")
    case True
    then have "k = ?n" using dvd by simp
    then show ?thesis using True lt k(1) u len cp
      by (simp add: FromProto_def Let_def) (simp add: ToProto_def)
  next
    case False
    then have "k \<noteq> ?n" using dvd by simp
    then show ?thesis using False lt k u len by (simp add: FromProto_def Let_def)
  qed
qed

definition demo_frame :: audio_frame where
  "demo_frame = \<lparr>af_samples = [1, 2, 0xFFFF, 4], af_sample_rate_hz = 8000, af_channels = 2, af_channel = 0,
                 af_channel_uuid = ''u'', af_seq = 7, af_timestamp_samples = 320\<rparr>"

lemma frame_proto_roundtrip_example:
  "0 < af_channels demo_frame \<and> sample_count demo_frame < 2 ^ 32
   \<and> FromProto (ToProto demo_frame) 8000 2 = Some demo_frame
   \<and> FromProto (ToProto (demo_frame\<lparr>af_samples := [1, 2, 3]\<rparr>)) 8000 2 = None"
  using frame_proto_roundtrip [of demo_frame] frame_proto_roundtrip [of "demo_frame\<lparr>af_samples := [1, 2, 3]\<rparr>"]
  by (simp add: demo_frame_def)

end
