(* ===== verification/Media_Playout.thy ===== *)
theory Media_Playout
  imports Media_Frame
begin

text \<open>
  The jitter buffer between the text-to-speech stream and the FreeSWITCH media callback,
  \<^verbatim>\<open>src/media/tts_playout_buffer.cc\<close>. A method runs under the buffer's mutex and is one function on
  the state; the clock, the environment variable of the debug capture and the caller's output array
  are arguments. Log lines are left out; audit events and debug files are appended to lists of the
  state.
\<close>

section \<open>State\<close>

datatype UnderrunPolicy = kSilence | kRepeatLast

record playout_config =
  pc_target_ms :: nat
  pc_preroll_ms :: nat
  pc_high_water_ms :: nat
  pc_underrun :: UnderrunPolicy
  pc_channel_sample_rate_hz :: u32
  pc_channels :: u32

type_synonym audit_event = "string \<times> (string \<times> string) list"

record playout_debug =
  dbg_enabled :: bool
  dbg_checked :: bool
  dbg_flushed :: bool
  dbg_max_samples :: nat
  dbg_dir :: string
  dbg_push_samples :: "sample list"
  dbg_pop_samples :: "sample list"
  dbg_files :: "(string \<times> sample list) list"

record playout =
  pb_cfg :: playout_config
  pb_queue :: "audio_frame list"
  pb_front_offset :: nat
  pb_depth_ms :: nat
  pb_last_frame :: "audio_frame option"
  pb_first_push_logged :: bool
  pb_first_pop_logged :: bool
  pb_preroll_reached :: bool
  pb_eos :: bool
  pb_underrun_count :: u64
  pb_overrun_count :: u64
  pb_playback_started :: bool
  pb_last_underrun_emit :: nat
  pb_last_overrun_emit :: nat
  pb_underrun_suppressed :: u64
  pb_overrun_suppressed :: u64
  pb_stream_id :: string
  pb_tenant_id :: string
  pb_audits :: "audit_event list"
  pb_debug :: playout_debug

definition TtsPlayoutBuffer_new :: "playout_config \<Rightarrow> playout" where
  "TtsPlayoutBuffer_new cfg =
     \<lparr>pb_cfg = cfg, pb_queue = [], pb_front_offset = 0, pb_depth_ms = 0, pb_last_frame = None,
      pb_first_push_logged = False, pb_first_pop_logged = False, pb_preroll_reached = False, pb_eos = False,
      pb_underrun_count = 0, pb_overrun_count = 0, pb_playback_started = False,
      pb_last_underrun_emit = 0, pb_last_overrun_emit = 0, pb_underrun_suppressed = 0, pb_overrun_suppressed = 0,
      pb_stream_id = [], pb_tenant_id = [], pb_audits = [],
      pb_debug = \<lparr>dbg_enabled = False, dbg_checked = False, dbg_flushed = False, dbg_max_samples = 0,
                   dbg_dir = [], dbg_push_samples = [], dbg_pop_samples = [], dbg_files = []\<rparr>\<rparr>"

section \<open>Helpers\<close>

definition DurationMsForSamples :: "nat \<Rightarrow> u32 \<Rightarrow> u32 \<Rightarrow> nat" where
  "DurationMsForSamples samples sample_rate_hz channels =
     (if samples = 0 \<or> sample_rate_hz = 0 \<or> channels = 0 then 0
      else to_u32 (samples * 1000 div (unat sample_rate_hz * unat channels)))"

text \<open>\<^verbatim>\<open>memcpy\<close> and \<^verbatim>\<open>memset\<close> into the caller's array: overwrite from a position on.\<close>

definition write_at :: "'a list \<Rightarrow> nat \<Rightarrow> 'a list \<Rightarrow> 'a list" where
  "write_at out pos xs = take pos out @ xs @ drop (pos + length xs) out"

text \<open>The loop of \<open>FillRepeatLast\<close>: what it writes into \<open>cap\<close> samples.\<close>

function fill_repeat :: "sample list \<Rightarrow> nat \<Rightarrow> sample list" where
  "fill_repeat lst cap =
     (if cap = 0 \<or> lst = [] then []
      else take cap lst @ fill_repeat lst (cap - min cap (length lst)))"
  by pat_completeness auto
termination by (relation "measure snd") auto

declare fill_repeat.simps [simp del]

definition FillRepeatLast :: "nat \<Rightarrow> audio_frame \<Rightarrow> sample list" where
  "FillRepeatLast out_cap_samples last_frame =
     (if out_cap_samples = 0 \<or> to_u32 (sample_count last_frame) = 0 then []
      else fill_repeat (take (to_u32 (sample_count last_frame)) (af_samples last_frame)) out_cap_samples)"

definition SanitizePathComponent :: "string \<Rightarrow> string" where
  "SanitizePathComponent value =
     (let safe = (\<lambda>ch. let n = of_char ch :: nat in
                    97 \<le> n \<and> n \<le> 122 \<or> 65 \<le> n \<and> n \<le> 90 \<or> 48 \<le> n \<and> n \<le> 57 \<or> n = 45 \<or> n = 95);
          out = map (\<lambda>ch. if safe ch then ch else CHR ''_'') value
      in if out = [] then ''unknown'' else out)"

text \<open>\<open>RecomputeDepth\<close>: the remaining duration of the queue, saturated at the largest \<^verbatim>\<open>uint32\<close>.\<close>

definition remaining_in_front :: "nat \<Rightarrow> nat \<Rightarrow> nat" where
  "remaining_in_front off samples = (if samples \<le> off then 0 else samples - off)"

fun queue_ms :: "nat \<Rightarrow> audio_frame list \<Rightarrow> nat" where
  "queue_ms off [] = 0"
| "queue_ms off (f # fs) =
     DurationMsForSamples (remaining_in_front off (to_u32 (sample_count f))) (af_sample_rate_hz f) (af_channels f)
     + queue_ms 0 fs"

definition RecomputeDepth :: "playout \<Rightarrow> playout" where
  "RecomputeDepth b = b\<lparr>pb_depth_ms := min (queue_ms (pb_front_offset b) (pb_queue b)) (2 ^ 32 - 1)\<rparr>"

definition EmitUnderrunEvent :: "nat \<Rightarrow> nat \<Rightarrow> nat \<Rightarrow> playout \<Rightarrow> playout" where
  "EmitUnderrunEvent now samples_silenced depth_ms b =
     (if now - pb_last_underrun_emit b < 1000000000
      then b\<lparr>pb_underrun_suppressed := pb_underrun_suppressed b + 1\<rparr>
      else b\<lparr>pb_last_underrun_emit := now, pb_underrun_suppressed := 0,
             pb_audits := pb_audits b @
               [(''media.tts.underrun'',
                 [(''stream_id'', pb_stream_id b), (''tenant_id'', pb_tenant_id b),
                  (''depth_ms'', decimal depth_ms), (''samples_silenced'', decimal samples_silenced),
                  (''suppressed_count'', decimal (unat (pb_underrun_suppressed b)))])]\<rparr>)"

definition EmitOverrunEvent :: "nat \<Rightarrow> nat \<Rightarrow> nat \<Rightarrow> playout \<Rightarrow> playout" where
  "EmitOverrunEvent now frames_dropped depth_ms b =
     (if now - pb_last_overrun_emit b < 1000000000
      then b\<lparr>pb_overrun_suppressed := pb_overrun_suppressed b + 1\<rparr>
      else b\<lparr>pb_last_overrun_emit := now, pb_overrun_suppressed := 0,
             pb_audits := pb_audits b @
               [(''media.tts.overrun'',
                 [(''stream_id'', pb_stream_id b), (''tenant_id'', pb_tenant_id b),
                  (''depth_ms'', decimal depth_ms), (''frames_dropped'', decimal frames_dropped),
                  (''suppressed_count'', decimal (unat (pb_overrun_suppressed b)))])]\<rparr>)"

section \<open>Debug capture\<close>

definition InitDebugDumpLocked :: "string option \<Rightarrow> playout \<Rightarrow> playout" where
  "InitDebugDumpLocked dump_dir b =
     (let d = pb_debug b; d1 = d\<lparr>dbg_checked := True\<rparr> in
      if dbg_checked d then b
      else case dump_dir of None \<Rightarrow> b\<lparr>pb_debug := d1\<rparr>
        | Some dir \<Rightarrow>
            if dir = [] then b\<lparr>pb_debug := d1\<rparr>
            else let max_samples = unat (pc_channel_sample_rate_hz (pb_cfg b)) * unat (pc_channels (pb_cfg b)) * 90 mod 2 ^ 64;
                     d2 = d1\<lparr>dbg_dir := dir, dbg_max_samples := max_samples\<rparr>
                 in b\<lparr>pb_debug := (if max_samples = 0 then d2 else d2\<lparr>dbg_enabled := True\<rparr>)\<rparr>)"

definition capture :: "playout_debug \<Rightarrow> sample list \<Rightarrow> sample list \<Rightarrow> sample list" where
  "capture d dst samples =
     (if \<not> dbg_enabled d \<or> samples = [] \<or> dbg_max_samples d \<le> length dst then dst
      else dst @ take (dbg_max_samples d - length dst) samples)"

definition capture_push :: "sample list \<Rightarrow> playout \<Rightarrow> playout" where
  "capture_push samples b =
     b\<lparr>pb_debug := (pb_debug b)\<lparr>dbg_push_samples := capture (pb_debug b) (dbg_push_samples (pb_debug b)) samples\<rparr>\<rparr>"

definition capture_pop :: "sample list \<Rightarrow> playout \<Rightarrow> playout" where
  "capture_pop samples b =
     b\<lparr>pb_debug := (pb_debug b)\<lparr>dbg_pop_samples := capture (pb_debug b) (dbg_pop_samples (pb_debug b)) samples\<rparr>\<rparr>"

definition DebugFlushDumpsLocked :: "playout \<Rightarrow> playout" where
  "DebugFlushDumpsLocked b =
     (let d = pb_debug b;
          base = dbg_dir d @ ''/osw-tts-'' @ SanitizePathComponent (pb_stream_id b);
          rate = ''.rate'' @ decimal (unat (pc_channel_sample_rate_hz (pb_cfg b))) @ ''.s16le'';
          stage = (\<lambda>name samples. if samples = [] then [] else [(base @ ''.'' @ name @ rate, samples)])
      in if \<not> dbg_enabled d \<or> dbg_flushed d then b
         else b\<lparr>pb_debug := d\<lparr>dbg_flushed := True,
                  dbg_files := dbg_files d @ stage ''push'' (dbg_push_samples d) @ stage ''pop'' (dbg_pop_samples d)\<rparr>\<rparr>)"

section \<open>Push and Pop\<close>

text \<open>Dropping the oldest frames above the high-water mark; the second component counts them.\<close>

function drop_over_high_water :: "playout \<Rightarrow> nat \<Rightarrow> playout \<times> nat" where
  "drop_over_high_water b dropped =
     (if to_u32 (pc_high_water_ms (pb_cfg b)) < pb_depth_ms b \<and> 1 < length (pb_queue b)
      then drop_over_high_water (RecomputeDepth (b\<lparr>pb_front_offset := 0, pb_queue := tl (pb_queue b)\<rparr>)) (dropped + 1)
      else (b, dropped))"
  by pat_completeness auto
termination
  by (relation "measure (\<lambda>(b, _). length (pb_queue b))") (auto simp: RecomputeDepth_def)

declare drop_over_high_water.simps [simp del]

definition PlayoutPush :: "nat \<Rightarrow> audio_frame \<Rightarrow> playout \<Rightarrow> playout" where
  "PlayoutPush now frame b =
     (if sample_count frame = 0 then b
      else
        let b1 = capture_push (take (to_u32 (sample_count frame)) (af_samples frame)) b;
            b2 = RecomputeDepth (b1\<lparr>pb_queue := pb_queue b1 @ [frame]\<rparr>);
            b3 = b2\<lparr>pb_first_push_logged := True\<rparr>;
            (b4, dropped) = drop_over_high_water b3 0;
            b5 = (if 0 < dropped
                  then EmitOverrunEvent now dropped (pb_depth_ms b4)
                         (b4\<lparr>pb_overrun_count := pb_overrun_count b4 + word_of_nat dropped\<rparr>)
                  else b4)
        in if \<not> pb_preroll_reached b5 \<and> to_u32 (pc_preroll_ms (pb_cfg b5)) \<le> pb_depth_ms b5
           then b5\<lparr>pb_preroll_reached := True\<rparr> else b5)"

text \<open>
  The copy loop of \<open>Pop\<close>: number of samples written, remaining queue, offset into its front, last
  frame kept for the repeat policy, and the output array.
\<close>

function drain_loop ::
  "UnderrunPolicy \<Rightarrow> nat \<Rightarrow> nat \<Rightarrow> audio_frame list \<Rightarrow> nat \<Rightarrow> audio_frame option \<Rightarrow> sample list \<Rightarrow>
   nat \<times> audio_frame list \<times> nat \<times> audio_frame option \<times> sample list" where
  "drain_loop policy cap written q off lst out =
     (if written < cap \<and> q \<noteq> [] then
        let front = hd q;
            total = to_u32 (sample_count front);
            avail = (if total \<le> off then 0 else total - off)
        in if avail = 0 then drain_loop policy cap written (tl q) 0 lst out
           else
             let n = min (cap - written) avail;
                 out' = write_at out written (take n (drop off (af_samples front)));
                 lst' = (if policy = kRepeatLast then Some front else lst)
             in if total \<le> off + n then drain_loop policy cap (written + n) (tl q) 0 lst' out'
                else drain_loop policy cap (written + n) q (off + n) lst' out'
      else (written, q, off, lst, out))"
  by pat_completeness auto
termination
  by (relation "measures [\<lambda>(_, _, _, q, _). length q, \<lambda>(_, cap, written, _). cap - written]")
    (auto split: if_splits)

declare drain_loop.simps [simp del]

text \<open>What an underrun writes into \<open>n\<close> samples at position \<open>pos\<close>.\<close>

definition write_underrun :: "playout \<Rightarrow> nat \<Rightarrow> nat \<Rightarrow> sample list \<Rightarrow> nat \<times> sample list" where
  "write_underrun b pos n out =
     (case (pc_underrun (pb_cfg b), pb_last_frame b) of
        (kRepeatLast, Some f) \<Rightarrow> (length (FillRepeatLast n f), write_at out pos (FillRepeatLast n f))
      | _ \<Rightarrow> (n, write_at out pos (replicate n 0)))"

text \<open>
  \<open>Pop\<close> on a non-null array with room for \<open>cap\<close> samples: the return value, the array afterwards and
  the new state.
\<close>

definition PlayoutPop :: "nat \<Rightarrow> nat \<Rightarrow> sample list \<Rightarrow> playout \<Rightarrow> nat \<times> sample list \<times> playout" where
  "PlayoutPop now cap out b =
     (if cap = 0 then (0, out, b)
      else if pb_eos b \<and> pb_queue b = [] then (0, out, DebugFlushDumpsLocked b)
      else if \<not> pb_preroll_reached b \<and> \<not> pb_eos b then
        (let out' = write_at out 0 (replicate cap 0) in (cap, out', capture_pop (take cap out') b))
      else if pb_queue b \<noteq> [] then
        (case drain_loop (pc_underrun (pb_cfg b)) cap 0 (pb_queue b) (pb_front_offset b) (pb_last_frame b) out of
           (written, q, off, lst, out1) \<Rightarrow>
             let b1 = RecomputeDepth (b\<lparr>pb_queue := q, pb_front_offset := off, pb_last_frame := lst\<rparr>);
                 b2 = b1\<lparr>pb_playback_started := True, pb_first_pop_logged := True\<rparr>
             in if written = cap then (written, out1, capture_pop (take cap out1) b2)
                else if pb_eos b2 then
                  (let out2 = write_at out1 written (replicate (cap - written) 0)
                   in (cap, out2, capture_pop (take cap out2) b2))
                else
                  (let b3 = b2\<lparr>pb_underrun_count := pb_underrun_count b2 + 1\<rparr>;
                       out2 = snd (write_underrun b3 written (cap - written) out1)
                   in (cap, out2, capture_pop (take cap out2)
                         (EmitUnderrunEvent now (cap - written) (pb_depth_ms b3) b3))))
      else if pb_eos b then (0, out, b)
      else if \<not> pb_playback_started b then
        (let out' = write_at out 0 (replicate cap 0) in (cap, out', capture_pop (take cap out') b))
      else
        (let b1 = b\<lparr>pb_underrun_count := pb_underrun_count b + 1\<rparr>;
             (n, out') = write_underrun b1 0 cap out
         in (n, out', capture_pop (take n out') (EmitUnderrunEvent now n (pb_depth_ms b1) b1))))"

definition SignalEndOfStream :: "playout \<Rightarrow> playout" where
  "SignalEndOfStream b = b\<lparr>pb_eos := True\<rparr>"

definition SetStreamId :: "string option \<Rightarrow> string \<Rightarrow> playout \<Rightarrow> playout" where
  "SetStreamId dump_dir stream_id b = InitDebugDumpLocked dump_dir (b\<lparr>pb_stream_id := stream_id\<rparr>)"

definition SetTenantId :: "string \<Rightarrow> playout \<Rightarrow> playout" where
  "SetTenantId tenant_id b = b\<lparr>pb_tenant_id := tenant_id\<rparr>"

definition TtsPlayoutBuffer_delete :: "playout \<Rightarrow> playout" where
  "TtsPlayoutBuffer_delete b = DebugFlushDumpsLocked b"

section \<open>The buffer as a queue of samples\<close>

text \<open>The samples still to be played.\<close>

definition pending_of :: "nat \<Rightarrow> audio_frame list \<Rightarrow> sample list" where
  "pending_of off q = drop off (concat (map af_samples q))"

definition pending :: "playout \<Rightarrow> sample list" where
  "pending b = pending_of (pb_front_offset b) (pb_queue b)"

definition frame_ok :: "audio_frame \<Rightarrow> bool" where
  "frame_ok f \<longleftrightarrow> af_samples f \<noteq> [] \<and> sample_count f < 2 ^ 32"

definition queue_ok :: "nat \<Rightarrow> audio_frame list \<Rightarrow> bool" where
  "queue_ok off q \<longleftrightarrow> (\<forall>f\<in>set q. frame_ok f) \<and> off < (case q of [] \<Rightarrow> 1 | f # _ \<Rightarrow> sample_count f)"

definition playout_inv :: "playout \<Rightarrow> bool" where
  "playout_inv b \<longleftrightarrow> queue_ok (pb_front_offset b) (pb_queue b) \<and> (\<forall>f. pb_last_frame b = Some f \<longrightarrow> frame_ok f)"

lemma write_at_write_at:
  "pos \<le> length out \<Longrightarrow> write_at (write_at out pos xs) (pos + length xs) ys = write_at out pos (xs @ ys)"
  by (simp add: write_at_def add.commute add.left_commute)

lemma length_write_at [simp]: "pos + length xs \<le> length out \<Longrightarrow> length (write_at out pos xs) = length out"
  by (simp add: write_at_def)

lemma write_at_Nil [simp]: "write_at out pos [] = out"
  by (simp add: write_at_def)

lemma queue_ok_tl: "queue_ok off (f # q) \<Longrightarrow> queue_ok 0 q"
  by (auto simp: queue_ok_def frame_ok_def split: list.splits)

lemma queue_ok_offset: "queue_ok off (f # q) \<Longrightarrow> off' < sample_count f \<Longrightarrow> queue_ok off' (f # q)"
  by (simp add: queue_ok_def)

lemma pending_of_Cons:
  "off \<le> sample_count f \<Longrightarrow> pending_of off (f # q) = drop off (af_samples f) @ pending_of 0 q"
  by (simp add: pending_of_def)

text \<open>The copy loop moves the front of the pending samples into the array.\<close>

lemma drain_loop_done: "\<not> written < cap \<or> q = [] \<Longrightarrow> drain_loop policy cap written q off lst out = (written, q, off, lst, out)"
  by (subst drain_loop.simps) auto

lemma drain_loop_whole:
  assumes "written < cap" "off < sample_count f" "sample_count f < 2 ^ 32" "sample_count f - off \<le> cap - written"
  shows "drain_loop policy cap written (f # q) off lst out =
    drain_loop policy cap (written + (sample_count f - off)) q 0 (if policy = kRepeatLast then Some f else lst)
      (write_at out written (drop off (af_samples f)))"
  using assms by (subst drain_loop.simps) (simp add: Let_def min_absorb2)

lemma drain_loop_part:
  assumes "written < cap" "off < sample_count f" "sample_count f < 2 ^ 32" "cap - written < sample_count f - off"
  shows "drain_loop policy cap written (f # q) off lst out =
    (cap, f # q, off + (cap - written), if policy = kRepeatLast then Some f else lst,
     write_at out written (take (cap - written) (drop off (af_samples f))))"
  using assms by (subst drain_loop.simps) (auto simp: Let_def min_absorb1 drain_loop_done)

lemma drain_loop_spec:
  assumes "queue_ok off q" "written \<le> cap" "cap \<le> length out" "\<forall>f. lst = Some f \<longrightarrow> frame_ok f"
    and "drain_loop policy cap written q off lst out = (w, q', off', lst', out')"
  shows "w = min cap (written + length (pending_of off q))
    \<and> out' = write_at out written (take (cap - written) (pending_of off q))
    \<and> pending_of off' q' = drop (cap - written) (pending_of off q)
    \<and> queue_ok off' q' \<and> (\<forall>f. lst' = Some f \<longrightarrow> frame_ok f) \<and> length q' \<le> length q"
  using assms
proof (induction q arbitrary: written off lst out)
  case Nil
  then show ?case by (auto simp: drain_loop_done pending_of_def)
next
  case (Cons f q)
  have f: "off < sample_count f" "sample_count f < 2 ^ 32" "frame_ok f"
    using Cons.prems(1) by (auto simp: queue_ok_def frame_ok_def)
  let ?lst = "if policy = kRepeatLast then Some f else lst" and ?xs = "drop off (af_samples f)"
  have lst: "\<forall>g. ?lst = Some g \<longrightarrow> frame_ok g" using Cons.prems(4) f(3) by auto
  have p: "pending_of off (f # q) = ?xs @ pending_of 0 q" using f by (simp add: pending_of_Cons)
  consider "written = cap" | "written < cap" "sample_count f - off \<le> cap - written"
    | "written < cap" "cap - written < sample_count f - off"
    using Cons.prems(2) by linarith
  then show ?case
  proof cases
    case 1
    then show ?thesis using Cons.prems by (auto simp: drain_loop_done)
  next
    case 2
    let ?w = "written + (sample_count f - off)"
    have run: "drain_loop policy cap ?w q 0 ?lst (write_at out written ?xs) = (w, q', off', lst', out')"
      using Cons.prems(5) drain_loop_whole [OF 2(1) f(1,2) 2(2)] by simp
    have len: "?w \<le> cap" "cap \<le> length (write_at out written ?xs)"
      using 2 Cons.prems(3) by simp_all
    have IH: "w = min cap (?w + length (pending_of 0 q))
        \<and> out' = write_at (write_at out written ?xs) ?w (take (cap - ?w) (pending_of 0 q))
        \<and> pending_of off' q' = drop (cap - ?w) (pending_of 0 q)
        \<and> queue_ok off' q' \<and> (\<forall>f. lst' = Some f \<longrightarrow> frame_ok f) \<and> length q' \<le> length q"
      by (rule Cons.IH [OF queue_ok_tl [OF Cons.prems(1)] len lst run])
    moreover have "write_at (write_at out written ?xs) ?w zs = write_at out written (?xs @ zs)" for zs
      using write_at_write_at [of written out ?xs zs] Cons.prems(2,3) by simp
    moreover have "take (cap - written) ?xs = ?xs" "cap - written - length ?xs = cap - ?w"
      using 2 by simp_all
    ultimately show ?thesis unfolding p by simp
  next
    case 3
    have r: "w = cap" "q' = f # q" "off' = off + (cap - written)" "lst' = ?lst"
        "out' = write_at out written (take (cap - written) ?xs)"
      using Cons.prems(5) unfolding drain_loop_part [OF 3(1) f(1,2) 3(2)] prod.inject by blast+
    moreover have "queue_ok off' (f # q)" using Cons.prems(1) 3 r(3) by (simp add: queue_ok_offset)
    moreover have "pending_of off' (f # q) = drop (cap - written) (pending_of off (f # q))"
      unfolding r(3) pending_of_def drop_drop by (simp only: add.commute)
    ultimately show ?thesis using 3 lst unfolding p by simp
  qed
qed

lemma length_fill_repeat [simp]: "lst \<noteq> [] \<Longrightarrow> length (fill_repeat lst cap) = cap"
proof (induction lst cap rule: fill_repeat.induct)
  case (1 lst cap)
  then show ?case by (subst fill_repeat.simps) auto
qed

lemma length_FillRepeatLast [simp]: "frame_ok f \<Longrightarrow> length (FillRepeatLast n f) = n"
  by (auto simp: FillRepeatLast_def frame_ok_def)

lemma pending_empty: "playout_inv b \<Longrightarrow> pending b = [] \<longleftrightarrow> pb_queue b = []"
  by (cases "pb_queue b") (auto simp: playout_inv_def queue_ok_def pending_def pending_of_Cons pending_of_def)

lemma write_at_all: "length xs \<le> length out \<Longrightarrow> write_at out 0 xs = xs @ drop (length xs) out"
  by (simp add: write_at_def)

lemma write_at_tail:
  "length xs + length pad = cap \<Longrightarrow> write_at (xs @ drop (length xs) out) (length xs) pad = xs @ pad @ drop cap out"
  by (auto simp: write_at_def add.commute)

lemma pending_frame_simps [simp]:
  "pending (capture_pop xs b) = pending b" "pending (capture_push xs b) = pending b"
  "pending (RecomputeDepth b) = pending b" "pending (EmitUnderrunEvent now n d b) = pending b"
  "pending (EmitOverrunEvent now n d b) = pending b" "pending (DebugFlushDumpsLocked b) = pending b"
  "playout_inv (capture_pop xs b) = playout_inv b" "playout_inv (capture_push xs b) = playout_inv b"
  "playout_inv (RecomputeDepth b) = playout_inv b" "playout_inv (EmitUnderrunEvent now n d b) = playout_inv b"
  "playout_inv (EmitOverrunEvent now n d b) = playout_inv b" "playout_inv (DebugFlushDumpsLocked b) = playout_inv b"
  by (simp_all add: pending_def playout_inv_def capture_pop_def capture_push_def RecomputeDepth_def
      EmitUnderrunEvent_def EmitOverrunEvent_def DebugFlushDumpsLocked_def Let_def)

lemma emit_keeps [simp]:
  "pb_underrun_count (EmitUnderrunEvent now n d b) = pb_underrun_count b"
  "pb_last_frame (EmitUnderrunEvent now n d b) = pb_last_frame b"
  "pb_eos (EmitUnderrunEvent now n d b) = pb_eos b"
  "pb_preroll_reached (EmitUnderrunEvent now n d b) = pb_preroll_reached b"
  "pb_cfg (EmitUnderrunEvent now n d b) = pb_cfg b" "pb_overrun_count (EmitUnderrunEvent now n d b) = pb_overrun_count b"
  "pb_overrun_count (EmitOverrunEvent now n d b) = pb_overrun_count b"
  "pb_queue (EmitUnderrunEvent now n d b) = pb_queue b" "pb_last_frame (EmitOverrunEvent now n d b) = pb_last_frame b"
  "pb_front_offset (EmitOverrunEvent now n d b) = pb_front_offset b"
  "pb_queue (EmitOverrunEvent now n d b) = pb_queue b" "pb_depth_ms (EmitOverrunEvent now n d b) = pb_depth_ms b"
  "pb_cfg (EmitOverrunEvent now n d b) = pb_cfg b"
  by (simp_all add: EmitUnderrunEvent_def EmitOverrunEvent_def)

lemma flush_keeps [simp]:
  "pb_underrun_count (DebugFlushDumpsLocked b) = pb_underrun_count b"
  "pb_overrun_count (DebugFlushDumpsLocked b) = pb_overrun_count b" "pb_queue (DebugFlushDumpsLocked b) = pb_queue b"
  by (simp_all add: DebugFlushDumpsLocked_def Let_def)

lemma capture_keeps [simp]:
  "pb_queue (capture_pop xs b) = pb_queue b" "pb_queue (capture_push xs b) = pb_queue b"
  "pb_front_offset (capture_push xs b) = pb_front_offset b" "pb_cfg (capture_push xs b) = pb_cfg b"
  "pb_overrun_count (capture_push xs b) = pb_overrun_count b" "pb_last_frame (capture_push xs b) = pb_last_frame b"
  "pb_underrun_count (capture_pop xs b) = pb_underrun_count b" "pb_last_frame (capture_pop xs b) = pb_last_frame b"
  "pb_overrun_count (capture_pop xs b) = pb_overrun_count b" "pb_eos (capture_pop xs b) = pb_eos b"
  "pb_preroll_reached (capture_pop xs b) = pb_preroll_reached b" "pb_cfg (capture_pop xs b) = pb_cfg b"
  by (simp_all add: capture_pop_def capture_push_def)

lemma recompute_keeps [simp]:
  "pb_underrun_count (RecomputeDepth b) = pb_underrun_count b" "pb_last_frame (RecomputeDepth b) = pb_last_frame b"
  "pb_overrun_count (RecomputeDepth b) = pb_overrun_count b" "pb_eos (RecomputeDepth b) = pb_eos b"
  "pb_preroll_reached (RecomputeDepth b) = pb_preroll_reached b" "pb_cfg (RecomputeDepth b) = pb_cfg b"
  "pb_queue (RecomputeDepth b) = pb_queue b" "pb_front_offset (RecomputeDepth b) = pb_front_offset b"
  by (simp_all add: RecomputeDepth_def)

text \<open>The samples a callback receives from the stream, and how the rest of its frame is filled.\<close>

definition popped_audio :: "nat \<Rightarrow> playout \<Rightarrow> sample list" where
  "popped_audio cap b = (if pb_preroll_reached b \<or> pb_eos b then take cap (pending b) else [])"

definition padding_ok :: "playout \<Rightarrow> sample list \<Rightarrow> bool" where
  "padding_ok b pad \<longleftrightarrow> pad = replicate (length pad) 0
     \<or> (\<exists>f. pc_underrun (pb_cfg b) = kRepeatLast \<and> pb_last_frame b = Some f \<and> pad = FillRepeatLast (length pad) f)"

lemma padding_ok_zero [simp]: "padding_ok b (replicate n 0)" "padding_ok b []"
  by (simp_all add: padding_ok_def)

lemma write_underrun_spec:
  assumes "playout_inv b" "pos + n \<le> length out"
  obtains pad where "length pad = n" "padding_ok b pad" "write_underrun b pos n out = (n, write_at out pos pad)"
proof (cases "pc_underrun (pb_cfg b) = kRepeatLast \<and> pb_last_frame b \<noteq> None")
  case True
  then obtain f where f: "pb_last_frame b = Some f" "frame_ok f" using assms(1) by (auto simp: playout_inv_def)
  then show ?thesis using True that [of "FillRepeatLast n f"]
    by (auto simp: padding_ok_def write_underrun_def)
next
  case False
  then have "write_underrun b pos n out = (n, write_at out pos (replicate n 0))"
    by (auto simp: write_underrun_def split: UnderrunPolicy.splits option.splits)
  then show ?thesis using that [of "replicate n 0"] by simp
qed

definition pop_result_ok :: "nat \<Rightarrow> sample list \<Rightarrow> playout \<Rightarrow> nat \<times> sample list \<times> playout \<Rightarrow> bool" where
  "pop_result_ok cap out b = (\<lambda>(n, out', b').
     n = (if pb_eos b \<and> pending b = [] then 0 else cap)
     \<and> (\<exists>pad. out' = (if n = 0 then out else popped_audio cap b @ pad @ drop cap out)
            \<and> length (popped_audio cap b) + length pad = n \<and> padding_ok b' pad)
     \<and> pending b' = drop (length (popped_audio cap b)) (pending b)
     \<and> playout_inv b' \<and> length (pb_queue b') \<le> length (pb_queue b)
     \<and> pb_overrun_count b' = pb_overrun_count b
     \<and> pb_underrun_count b' = pb_underrun_count b
         + (if pb_preroll_reached b \<and> \<not> pb_eos b \<and> length (popped_audio cap b) < cap
               \<and> (pending b \<noteq> [] \<or> pb_playback_started b) then 1 else 0))"

lemma pop_queue_ok:
  assumes inv: "playout_inv b" and cap: "0 < cap" "cap \<le> length out"
    and q: "pb_queue b \<noteq> []" and play: "pb_preroll_reached b \<or> pb_eos b"
  shows "pop_result_ok cap out b (PlayoutPop now cap out b)"
proof -
  obtain w q' off lst out1 where run:
    "drain_loop (pc_underrun (pb_cfg b)) cap 0 (pb_queue b) (pb_front_offset b) (pb_last_frame b) out = (w, q', off, lst, out1)"
    by (metis prod_cases5)
  have "w = min cap (0 + length (pending b)) \<and> out1 = write_at out 0 (take (cap - 0) (pending b))
      \<and> pending_of off q' = drop (cap - 0) (pending b) \<and> queue_ok off q' \<and> (\<forall>f. lst = Some f \<longrightarrow> frame_ok f)
      \<and> length q' \<le> length (pb_queue b)"
    unfolding pending_def using inv cap(2)
    by (intro drain_loop_spec [OF _ _ _ _ run]) (auto simp: playout_inv_def)
  then have w: "w = min cap (length (pending b))" and out1: "out1 = write_at out 0 (take cap (pending b))"
    and p: "pending_of off q' = drop cap (pending b)" and ok: "queue_ok off q'" "\<forall>f. lst = Some f \<longrightarrow> frame_ok f"
    and len: "length q' \<le> length (pb_queue b)"
    by auto
  define b2 where "b2 = (RecomputeDepth (b\<lparr>pb_queue := q', pb_front_offset := off, pb_last_frame := lst\<rparr>))
      \<lparr>pb_playback_started := True, pb_first_pop_logged := True\<rparr>"
  have b2: "pending b2 = drop cap (pending b)" "playout_inv b2" "pb_underrun_count b2 = pb_underrun_count b"
    "pb_overrun_count b2 = pb_overrun_count b" "pb_eos b2 = pb_eos b"
    "length (pb_queue b2) \<le> length (pb_queue b)"
    using p ok len by (simp_all add: b2_def RecomputeDepth_def pending_def playout_inv_def)
  have ne: "pending b \<noteq> []" using q inv pending_empty by blast
  have aud: "popped_audio cap b = take cap (pending b)" "length (popped_audio cap b) = w"
    using play w by (simp_all add: popped_audio_def)
  have out1': "out1 = take cap (pending b) @ drop w out" using cap(2) w by (simp add: out1 write_at_def min.commute)
  have pop: "PlayoutPop now cap out b =
      (if w = cap then (cap, out1, capture_pop (take cap out1) b2)
       else if pb_eos b2 then
         (let out2 = write_at out1 w (replicate (cap - w) 0) in (cap, out2, capture_pop (take cap out2) b2))
       else (let b3 = b2\<lparr>pb_underrun_count := pb_underrun_count b2 + 1\<rparr>;
                 out2 = snd (write_underrun b3 w (cap - w) out1)
             in (cap, out2, capture_pop (take cap out2) (EmitUnderrunEvent now (cap - w) (pb_depth_ms b3) b3))))"
    using cap(1) q play run by (auto simp: PlayoutPop_def b2_def Let_def)
  have fill: "write_at out1 w pad = take cap (pending b) @ pad @ drop cap out" if "length pad = cap - w" for pad
    using that w out1' write_at_tail [of "take cap (pending b)" pad cap out] by (simp add: min.commute)
  consider "w = cap" | "w < cap" "pb_eos b" | "w < cap" "\<not> pb_eos b" using w by linarith
  then show ?thesis
  proof cases
    case 1
    then show ?thesis using ne b2 aud out1' w cap(1) pop
      by (auto simp: pop_result_ok_def intro!: exI [of _ "[]"] simp: padding_ok_def)
  next
    case 2
    then show ?thesis using ne b2 aud w cap(1) fill pop
      by (auto simp: pop_result_ok_def Let_def intro!: exI [of _ "replicate (cap - w) 0"])
  next
    case 3
    let ?b3 = "b2\<lparr>pb_underrun_count := pb_underrun_count b2 + 1\<rparr>"
    have "playout_inv ?b3" "w + (cap - w) \<le> length out1"
      using b2(2) cap(2) 3 w by (simp_all add: playout_inv_def out1')
    then obtain pad where pad: "length pad = cap - w" "padding_ok ?b3 pad"
        "write_underrun ?b3 w (cap - w) out1 = (cap - w, write_at out1 w pad)"
      by (rule write_underrun_spec)
    have "padding_ok (capture_pop xs (EmitUnderrunEvent now n d ?b3)) pad" for xs n d
      using pad(2) by (simp add: padding_ok_def)
    moreover have "pending ?b3 = pending b2" by (simp add: pending_def)
    ultimately show ?thesis using 3 ne b2 aud w cap(1) fill [OF pad(1)] pop play pad \<open>playout_inv ?b3\<close>
      by (auto simp: pop_result_ok_def Let_def intro!: exI [of _ pad])
  qed
qed

lemma pop_result:
  assumes inv: "playout_inv b" and cap: "0 < cap" "cap \<le> length out"
  shows "pop_result_ok cap out b (PlayoutPop now cap out b)"
proof -
  consider (queue) "pb_queue b \<noteq> []" "pb_preroll_reached b \<or> pb_eos b"
    | (eos) "pb_eos b" "pb_queue b = []"
    | (prime) "\<not> pb_preroll_reached b" "\<not> pb_eos b"
    | (idle) "pb_queue b = []" "\<not> pb_eos b" "pb_preroll_reached b" "\<not> pb_playback_started b"
    | (dry) "pb_queue b = []" "\<not> pb_eos b" "pb_preroll_reached b" "pb_playback_started b"
    by blast
  then show ?thesis
  proof cases
    case queue
    then show ?thesis by (rule pop_queue_ok [OF inv cap])
  next
    case eos
    then have "pending b = []" using pending_empty [OF inv] by simp
    then show ?thesis using eos inv cap(1)
      by (simp add: pop_result_ok_def PlayoutPop_def popped_audio_def)
  next
    case prime
    then show ?thesis using inv cap
      by (auto simp: pop_result_ok_def PlayoutPop_def popped_audio_def write_at_all Let_def
          intro!: exI [of _ "replicate cap 0"])
  next
    case idle
    then have "pending b = []" using pending_empty [OF inv] by simp
    then show ?thesis using idle inv cap
      by (auto simp: pop_result_ok_def PlayoutPop_def popped_audio_def write_at_all Let_def
          intro!: exI [of _ "replicate cap 0"])
  next
    case dry
    let ?b = "b\<lparr>pb_underrun_count := pb_underrun_count b + 1\<rparr>"
    have i: "playout_inv ?b" "pending ?b = pending b" "pending b = []"
      using inv dry by (simp_all add: playout_inv_def pending_def pending_of_def)
    obtain pad where pad: "length pad = cap" "padding_ok ?b pad" "write_underrun ?b 0 cap out = (cap, write_at out 0 pad)"
      using write_underrun_spec [OF i(1), of 0 cap out] cap(2) by auto
    have "padding_ok (capture_pop xs (EmitUnderrunEvent now n d ?b)) pad" for xs n d
      using pad(2) by (simp add: padding_ok_def)
    then show ?thesis using dry cap i pad
      by (auto simp: pop_result_ok_def PlayoutPop_def popped_audio_def write_at_all Let_def intro!: exI [of _ pad])
  qed
qed

text \<open>
  C6. Every media callback gets a full frame in stream order. On a well-formed buffer \<open>Pop\<close> fills the
  whole frame, except that it writes nothing once the stream has ended and everything was played.
  After the preroll (or the end of the stream) the frame starts with the oldest unplayed samples,
  each of which is handed out exactly once; before that it is silence and nothing is consumed. The
  rest of the frame is silence or the repeated last frame, an underrun is counted exactly when a
  started, unfinished stream ran dry, and nothing beyond the frame is touched.
\<close>

theorem pop_fills_callback_frame:
  assumes "playout_inv b" "0 < cap" "cap \<le> length out"
  shows "pop_result_ok cap out b (PlayoutPop now cap out b)"
  using assms by (rule pop_result)

lemma concat_frames_drop:
  "queue_ok off (f # q) \<Longrightarrow> pending_of 0 q = drop (sample_count f - off) (pending_of off (f # q))"
  by (simp add: pending_of_Cons queue_ok_def)

text \<open>Dropping frames removes a prefix of the pending samples, and one frame always stays.\<close>

lemma drop_over_high_water_spec:
  assumes "queue_ok (pb_front_offset b) (pb_queue b)" "drop_over_high_water b k = (b', k')"
  shows "k \<le> k' \<and> k' + length (pb_queue b') = k + length (pb_queue b) \<and> (\<exists>n. pending b' = drop n (pending b) \<and> (k' = k \<longrightarrow> n = 0))
    \<and> queue_ok (pb_front_offset b') (pb_queue b')
    \<and> (pb_depth_ms b' \<le> to_u32 (pc_high_water_ms (pb_cfg b)) \<or> length (pb_queue b') \<le> 1)
    \<and> (pb_queue b \<noteq> [] \<longrightarrow> last (pb_queue b') = last (pb_queue b) \<and> pb_queue b' \<noteq> [])
    \<and> pb_last_frame b' = pb_last_frame b \<and> pb_overrun_count b' = pb_overrun_count b \<and> pb_cfg b' = pb_cfg b"
  using assms
proof (induction b k rule: drop_over_high_water.induct)
  case (1 b k)
  show ?case
  proof (cases "to_u32 (pc_high_water_ms (pb_cfg b)) < pb_depth_ms b \<and> 1 < length (pb_queue b)")
    case False
    then show ?thesis using 1 by (auto simp: drop_over_high_water.simps [of b k] intro: exI [of _ 0])
  next
    case True
    then obtain f q where q: "pb_queue b = f # q" "q \<noteq> []" by (cases "pb_queue b") auto
    let ?b = "RecomputeDepth (b\<lparr>pb_front_offset := 0, pb_queue := tl (pb_queue b)\<rparr>)"
    have run: "drop_over_high_water ?b (k + 1) = (b', k')"
      using "1.prems"(2) True by (simp add: drop_over_high_water.simps [of b k])
    have ok: "queue_ok (pb_front_offset ?b) (pb_queue ?b)"
      using "1.prems"(1) q by (simp add: queue_ok_tl)
    have p: "pending ?b = drop (sample_count f - pb_front_offset b) (pending b)"
      using concat_frames_drop [of "pb_front_offset b" f q] "1.prems"(1) q by (simp add: pending_def)
    show ?thesis using "1.IH" [OF True ok run] p q by auto
  qed
qed

lemma queue_ok_snoc: "queue_ok off q \<Longrightarrow> frame_ok f \<Longrightarrow> queue_ok off (q @ [f])"
  by (auto simp: queue_ok_def frame_ok_def split: list.splits)

lemma pending_of_snoc: "queue_ok off q \<Longrightarrow> pending_of off (q @ [f]) = pending_of off q @ af_samples f"
  by (cases q) (auto simp: queue_ok_def pending_of_def)

lemma push_spec:
  assumes inv: "playout_inv b" and f: "sample_count f < 2 ^ 32" and b'_def: "b' = PlayoutPush now f b"
  obtains n dropped where "pending b' = drop n (pending b @ af_samples f)" "dropped = 0 \<longrightarrow> n = 0"
    "pb_overrun_count b' = pb_overrun_count b + word_of_nat dropped"
    "dropped + length (pb_queue b') \<le> Suc (length (pb_queue b))" "playout_inv b'"
    "sample_count f = 0 \<or> pb_depth_ms b' \<le> to_u32 (pc_high_water_ms (pb_cfg b)) \<or> length (pb_queue b') \<le> 1"
    "sample_count f = 0 \<or> last (pb_queue b') = f \<and> pb_queue b' \<noteq> []"
proof (cases "sample_count f = 0")
  case True
  then show ?thesis using that [of 0 0] inv by (simp add: b'_def PlayoutPush_def)
next
  case False
  then have ok: "frame_ok f" using f by (simp add: frame_ok_def)
  define b3 where "b3 = (RecomputeDepth ((capture_push (take (to_u32 (sample_count f)) (af_samples f)) b)
      \<lparr>pb_queue := pb_queue b @ [f]\<rparr>))\<lparr>pb_first_push_logged := True\<rparr>"
  have b3: "pb_queue b3 = pb_queue b @ [f]" "pb_front_offset b3 = pb_front_offset b"
    "pb_last_frame b3 = pb_last_frame b" "pb_overrun_count b3 = pb_overrun_count b" "pb_cfg b3 = pb_cfg b"
    by (simp_all add: b3_def)
  have q3: "queue_ok (pb_front_offset b3) (pb_queue b3)" and p3: "pending b3 = pending b @ af_samples f"
    using inv ok b3 by (simp_all add: playout_inv_def queue_ok_snoc pending_def pending_of_snoc)
  obtain b4 k where d: "drop_over_high_water b3 0 = (b4, k)" by force
  obtain n where n: "pending b4 = drop n (pending b3)" "k = 0 \<longrightarrow> n = 0"
    and r: "k + length (pb_queue b4) = length (pb_queue b3)" "queue_ok (pb_front_offset b4) (pb_queue b4)"
      "pb_depth_ms b4 \<le> to_u32 (pc_high_water_ms (pb_cfg b3)) \<or> length (pb_queue b4) \<le> 1"
      "last (pb_queue b4) = f" "pb_queue b4 \<noteq> []"
      "pb_last_frame b4 = pb_last_frame b3" "pb_overrun_count b4 = pb_overrun_count b3" "pb_cfg b4 = pb_cfg b3"
    using drop_over_high_water_spec [OF q3 d] b3(1) by auto
  define b5 where "b5 = (if 0 < k then EmitOverrunEvent now k (pb_depth_ms b4)
      (b4\<lparr>pb_overrun_count := pb_overrun_count b4 + word_of_nat k\<rparr>) else b4)"
  have b5: "pending b5 = pending b4" "playout_inv b5" "pb_queue b5 = pb_queue b4" "pb_depth_ms b5 = pb_depth_ms b4"
    "pb_overrun_count b5 = pb_overrun_count b + word_of_nat k"
    using r b3 inv by (auto simp: b5_def playout_inv_def) (simp_all add: pending_def)
  have "b' = (if \<not> pb_preroll_reached b5 \<and> to_u32 (pc_preroll_ms (pb_cfg b5)) \<le> pb_depth_ms b5
      then b5\<lparr>pb_preroll_reached := True\<rparr> else b5)"
    using False d by (simp add: b'_def PlayoutPush_def b3_def b5_def Let_def)
  then have b': "pending b' = pending b5" "playout_inv b'" "pb_queue b' = pb_queue b5" "pb_depth_ms b' = pb_depth_ms b5"
    "pb_overrun_count b' = pb_overrun_count b5"
    using b5(2) by (auto simp: pending_def playout_inv_def)
  show ?thesis
    by (rule that [of n k]) (use b' b5 n r b3 p3 in auto)
qed

section \<open>Runs\<close>

datatype playout_op = Op_push nat audio_frame | Op_pop nat nat "sample list" | Op_eos

fun op_ok :: "playout_op \<Rightarrow> bool" where
  "op_ok (Op_push _ f) \<longleftrightarrow> sample_count f < 2 ^ 32"
| "op_ok (Op_pop _ cap out) \<longleftrightarrow> 0 < cap \<and> cap \<le> length out"
| "op_ok Op_eos \<longleftrightarrow> True"

text \<open>One call, with the stream samples it put into the caller's array.\<close>

fun playout_call :: "playout_op \<Rightarrow> playout \<Rightarrow> playout \<times> sample list" where
  "playout_call (Op_push now f) b = (PlayoutPush now f b, [])"
| "playout_call (Op_pop now cap out) b =
     (case PlayoutPop now cap out b of (_, out', b') \<Rightarrow> (b', take (length (popped_audio cap b)) out'))"
| "playout_call Op_eos b = (SignalEndOfStream b, [])"

fun playout_run :: "playout \<Rightarrow> playout_op list \<Rightarrow> playout \<times> sample list" where
  "playout_run b [] = (b, [])"
| "playout_run b (p # ps) =
     (case playout_call p b of (b1, xs) \<Rightarrow> case playout_run b1 ps of (b2, ys) \<Rightarrow> (b2, xs @ ys))"

fun pushed :: "playout_op list \<Rightarrow> sample list" where
  "pushed [] = []"
| "pushed (Op_push _ f # ps) = af_samples f @ pushed ps"
| "pushed (_ # ps) = pushed ps"

definition call_ok :: "playout \<Rightarrow> playout_op \<Rightarrow> playout \<Rightarrow> sample list \<Rightarrow> nat \<Rightarrow> bool" where
  "call_ok b p b1 xs d \<longleftrightarrow>
     playout_inv b1 \<and> suffix (xs @ pending b1) (pending b @ pushed [p])
     \<and> (d = 0 \<longrightarrow> xs @ pending b1 = pending b @ pushed [p])
     \<and> pb_overrun_count b1 = pb_overrun_count b + word_of_nat d
     \<and> d + length (pb_queue b1) \<le> Suc (length (pb_queue b))"

lemma call_keeps_audio:
  assumes "playout_inv b" "op_ok p" "playout_call p b = (b1, xs)"
  shows "\<exists>d. call_ok b p b1 xs d"
proof (cases p)
  case (Op_push now f)
  then have f: "sample_count f < 2 ^ 32" "b1 = PlayoutPush now f b" "xs = []" using assms by simp_all
  obtain n d where "pending b1 = drop n (pending b @ af_samples f)" "d = 0 \<longrightarrow> n = 0"
    "pb_overrun_count b1 = pb_overrun_count b + word_of_nat d"
    "d + length (pb_queue b1) \<le> Suc (length (pb_queue b))" "playout_inv b1"
    by (rule push_spec [OF assms(1) f(1,2)])
  then have "call_ok b p b1 xs d" using Op_push f(3) by (auto simp: call_ok_def suffix_drop simp del: drop_append)
  then show ?thesis ..
next
  case (Op_pop now cap out)
  obtain n out' b' where pop: "PlayoutPop now cap out b = (n, out', b')" by (metis prod_cases3)
  have c: "0 < cap" "cap \<le> length out" using assms(2) Op_pop by simp_all
  have r: "pop_result_ok cap out b (n, out', b')" using pop_result [OF assms(1) c, of now] pop by simp
  have x: "b1 = b'" "xs = take (length (popped_audio cap b)) out'" using assms(3) Op_pop pop by simp_all
  have pre: "popped_audio cap b @ drop (length (popped_audio cap b)) (pending b) = pending b"
    by (cases "length (pending b) \<le> cap") (auto simp: popped_audio_def min_absorb2)
  have "xs = popped_audio cap b"
    using r c x(2) by (auto simp: pop_result_ok_def split: if_splits)
  then have "call_ok b p b1 xs 0" using r x(1) Op_pop pre by (auto simp: call_ok_def pop_result_ok_def)
  then show ?thesis ..
next
  case Op_eos
  then have "call_ok b p b1 xs 0" using assms
    by (auto simp: call_ok_def SignalEndOfStream_def playout_inv_def pending_def)
  then show ?thesis ..
qed

lemma run_keeps_audio:
  assumes "playout_inv b" "list_all op_ok ps" "playout_run b ps = (b', out)"
  shows "\<exists>d. playout_inv b' \<and> subseq (out @ pending b') (pending b @ pushed ps)
    \<and> (d = 0 \<longrightarrow> out @ pending b' = pending b @ pushed ps)
    \<and> pb_overrun_count b' = pb_overrun_count b + word_of_nat d
    \<and> d + length (pb_queue b') \<le> length ps + length (pb_queue b)"
  using assms
proof (induction ps arbitrary: b out)
  case Nil
  then show ?case by (auto intro!: exI [of _ 0])
next
  case (Cons p ps)
  obtain b1 xs where c: "playout_call p b = (b1, xs)" by force
  obtain ys where r: "playout_run b1 ps = (b', ys)" and out: "out = xs @ ys"
    using Cons.prems(3) c by (auto split: prod.splits)
  obtain d1 where d1: "call_ok b p b1 xs d1" using call_keeps_audio [OF Cons.prems(1) _ c] Cons.prems(2) by auto
  then have inv1: "playout_inv b1" and suf: "suffix (xs @ pending b1) (pending b @ pushed [p])"
    and all: "d1 = 0 \<longrightarrow> xs @ pending b1 = pending b @ pushed [p]"
    and cnt: "pb_overrun_count b1 = pb_overrun_count b + word_of_nat d1"
      "d1 + length (pb_queue b1) \<le> Suc (length (pb_queue b))"
    unfolding call_ok_def by blast+
  have ok: "list_all op_ok ps" using Cons.prems(2) by simp
  obtain d2 where d2: "playout_inv b'" "subseq (ys @ pending b') (pending b1 @ pushed ps)"
      "d2 = 0 \<longrightarrow> ys @ pending b' = pending b1 @ pushed ps"
      "pb_overrun_count b' = pb_overrun_count b1 + word_of_nat d2"
      "d2 + length (pb_queue b') \<le> length ps + length (pb_queue b1)"
    using Cons.IH [OF inv1 ok r] by (elim exE conjE)
  have split: "pushed (p # ps) = pushed [p] @ pushed ps" by (cases p) simp_all
  have "subseq (xs @ ys @ pending b') (xs @ pending b1 @ pushed ps)"
    using d2(2) by (simp only: subseq_append')
  moreover have "subseq ((xs @ pending b1) @ pushed ps) ((pending b @ pushed [p]) @ pushed ps)"
    by (intro list_emb_append_mono suffix_imp_subseq suf subseq_order.order_refl)
  ultimately have "subseq (out @ pending b') (pending b @ pushed (p # ps))"
    unfolding out split append_assoc by (rule subseq_order.order_trans)
  moreover have "d1 + d2 = 0 \<longrightarrow> out @ pending b' = pending b @ pushed (p # ps)"
  proof
    assume "d1 + d2 = 0"
    then have z: "d1 = 0" "d2 = 0" by simp_all
    have "out @ pending b' = xs @ (ys @ pending b')" by (simp only: out append_assoc)
    also have "\<dots> = (xs @ pending b1) @ pushed ps" by (simp only: mp [OF d2(3) z(2)] append_assoc)
    also have "\<dots> = pending b @ pushed (p # ps)" by (simp only: mp [OF all z(1)] split append_assoc)
    finally show "out @ pending b' = pending b @ pushed (p # ps)" .
  qed
  moreover have "pb_overrun_count b' = pb_overrun_count b + word_of_nat (d1 + d2)"
    using cnt(1) d2(4) by simp
  moreover have "d1 + d2 + length (pb_queue b') \<le> length (p # ps) + length (pb_queue b)"
    using cnt(2) d2(5) by simp
  ultimately show ?case using d2(1) by (intro exI [of _ "d1 + d2"] conjI)
qed

lemma playout_inv_new: "playout_inv (TtsPlayoutBuffer_new cfg)" "pending (TtsPlayoutBuffer_new cfg) = []"
  "pb_overrun_count (TtsPlayoutBuffer_new cfg) = 0" "pb_queue (TtsPlayoutBuffer_new cfg) = []"
  by (simp_all add: TtsPlayoutBuffer_new_def playout_inv_def queue_ok_def pending_def pending_of_def)

text \<open>
  C7. Audio is never duplicated or reordered between the stream and the channel, and never lost
  unless an overrun is counted. Over any sequence of calls on a new buffer, the stream samples
  handed to the channel followed by those still buffered are a subsequence of the samples pushed,
  and all of them when the overrun counter is zero.
\<close>

theorem playout_preserves_audio:
  assumes "list_all op_ok ps" "length ps < 2 ^ 64" "playout_run (TtsPlayoutBuffer_new cfg) ps = (b, out)"
  shows "subseq (out @ pending b) (pushed ps)
    \<and> (pb_overrun_count b = 0 \<longrightarrow> out @ pending b = pushed ps)"
proof -
  obtain d where d: "subseq (out @ pending b) (pushed ps)" "d = 0 \<longrightarrow> out @ pending b = pushed ps"
      "pb_overrun_count b = word_of_nat d" "d + length (pb_queue b) \<le> length ps"
    using run_keeps_audio [OF playout_inv_new(1) assms(1,3)]
    unfolding playout_inv_new append_Nil add_0 list.size add_0_right by (elim exE conjE)
  have "d = 0" if "pb_overrun_count b = 0"
  proof (rule ccontr)
    assume "d \<noteq> 0"
    moreover have "2 ^ 64 dvd d" using that d(3) by (simp add: word_of_nat_eq_0_iff)
    ultimately have "2 ^ 64 \<le> d" by (intro dvd_imp_le) simp_all
    then show False using d(4) assms(2) by simp
  qed
  then show ?thesis using d(1,2) by (intro conjI impI; simp)
qed

section \<open>Examples\<close>

definition demo_audio :: audio_frame where
  "demo_audio = demo_frame\<lparr>af_samples := [1, 2, 3], af_channels := 1\<rparr>"

definition demo_playout_config :: playout_config where
  "demo_playout_config = \<lparr>pc_target_ms = 1000, pc_preroll_ms = 0, pc_high_water_ms = 3000, pc_underrun = kSilence,
     pc_channel_sample_rate_hz = 8000, pc_channels = 1\<rparr>"

definition demo_playout :: playout where
  "demo_playout = (TtsPlayoutBuffer_new demo_playout_config)\<lparr>pb_queue := [demo_audio], pb_preroll_reached := True\<rparr>"

theorem pop_fills_callback_frame_witness:
  "playout_inv demo_playout
   \<and> pop_result_ok 2 [9, 9, 9] demo_playout (PlayoutPop 0 2 [9, 9, 9] demo_playout)
   \<and> popped_audio 2 demo_playout = [1, 2] \<and> fst (PlayoutPop 0 2 [9, 9, 9] demo_playout) = 2"
proof -
  have i: "playout_inv demo_playout"
    by (simp add: demo_playout_def TtsPlayoutBuffer_new_def playout_inv_def queue_ok_def frame_ok_def demo_audio_def demo_frame_def)
  have p: "pending demo_playout = [1, 2, 3]" "\<not> pb_eos demo_playout" "pb_preroll_reached demo_playout"
    by (simp_all add: demo_playout_def TtsPlayoutBuffer_new_def pending_def pending_of_def demo_audio_def demo_frame_def)
  have r: "pop_result_ok 2 [9, 9, 9] demo_playout (PlayoutPop 0 2 [9, 9, 9] demo_playout)"
    by (rule pop_fills_callback_frame [OF i]) simp_all
  then have "fst (PlayoutPop 0 2 [9, 9, 9] demo_playout) = 2"
    using p by (cases "PlayoutPop 0 2 [9, 9, 9] demo_playout") (simp add: pop_result_ok_def)
  then show ?thesis using i r p by (simp add: popped_audio_def)
qed

definition demo_ops :: "playout_op list" where
  "demo_ops = [Op_push 0 demo_audio, Op_pop 0 2 [9, 9], Op_eos]"

theorem playout_preserves_audio_witness:
  "\<exists>b out. list_all op_ok demo_ops \<and> playout_run (TtsPlayoutBuffer_new demo_playout_config) demo_ops = (b, out)
     \<and> pb_overrun_count b = 0 \<and> out @ pending b = [1, 2, 3]"
proof -
  obtain b out where r: "playout_run (TtsPlayoutBuffer_new demo_playout_config) demo_ops = (b, out)" by force
  have ok: "list_all op_ok demo_ops" "length demo_ops < 2 ^ 64"
    by (simp_all add: demo_ops_def demo_audio_def demo_frame_def)
  have z: "pb_overrun_count (fst (playout_run (TtsPlayoutBuffer_new demo_playout_config) demo_ops)) = 0"
    by (simp add: demo_ops_def demo_audio_def demo_frame_def TtsPlayoutBuffer_new_def demo_playout_config_def
        PlayoutPush_def capture_push_def capture_def RecomputeDepth_def drop_over_high_water.simps
        PlayoutPop_def drain_loop_part Let_def capture_pop_def SignalEndOfStream_def)
  have "pushed demo_ops = [1, 2, 3]" by (simp add: demo_ops_def demo_audio_def demo_frame_def)
  then show ?thesis using playout_preserves_audio [OF ok r] ok r z by simp
qed

end
