(* ===== verification/Media_Stereo.thy ===== *)
theory Media_Stereo
  imports Media_Frame
begin

text \<open>
  The pairing of caller and callee audio into stereo recording frames, \<^verbatim>\<open>src/media/stereo_pairer.cc\<close>.
  Each side is a ring of 16 slots with head, tail and count, as in the source; the clock is an
  argument, in nanoseconds. \<open>sp_log\<close> is a ghost log of the frames that went into each emitted pair.
\<close>

section \<open>Rings\<close>

record pending_frame =
  pn_timestamp :: u64
  pn_arrived_at :: nat
  pn_samples :: "sample list"

definition empty_pending :: pending_frame where
  "empty_pending = \<lparr>pn_timestamp = 0, pn_arrived_at = 0, pn_samples = []\<rparr>"

abbreviation kRingCapacity :: nat where
  "kRingCapacity \<equiv> 16"

record side_ring =
  rg_slots :: "pending_frame list"
  rg_head :: nat
  rg_tail :: nat
  rg_count :: nat

definition side_ring_new :: side_ring where
  "side_ring_new = \<lparr>rg_slots = replicate kRingCapacity empty_pending, rg_head = 0, rg_tail = 0, rg_count = 0\<rparr>"

definition PopLocked :: "side_ring \<Rightarrow> pending_frame \<times> side_ring" where
  "PopLocked g =
     (rg_slots g ! rg_tail g,
      g\<lparr>rg_slots := (rg_slots g)[rg_tail g := empty_pending], rg_tail := (rg_tail g + 1) mod kRingCapacity,
        rg_count := rg_count g - 1\<rparr>)"

definition FrontLocked :: "side_ring \<Rightarrow> pending_frame" where
  "FrontLocked g = rg_slots g ! rg_tail g"

text \<open>\<open>EnqueueLocked\<close>; the first component tells whether the oldest frame was dropped.\<close>

definition EnqueueLocked :: "pending_frame \<Rightarrow> side_ring \<Rightarrow> bool \<times> side_ring" where
  "EnqueueLocked frame g =
     (let full = (rg_count g = kRingCapacity);
          g1 = (if full
                then g\<lparr>rg_slots := (rg_slots g)[rg_tail g := empty_pending], rg_tail := (rg_tail g + 1) mod kRingCapacity,
                       rg_count := rg_count g - 1\<rparr>
                else g)
      in (full, g1\<lparr>rg_slots := (rg_slots g1)[rg_head g1 := frame], rg_head := (rg_head g1 + 1) mod kRingCapacity,
                   rg_count := rg_count g1 + 1\<rparr>))"

section \<open>The pairer\<close>

record pairer_config =
  sc_sample_rate_hz :: u32
  sc_desync_warn_ms :: u32
  sc_desync_timeout_ms :: u32

record paired_frame =
  pr_interleaved :: "u8 list"
  pr_samples_per_channel :: nat
  pr_sample_rate_hz :: u32
  pr_seq :: u64

record pairer =
  sp_cfg :: pairer_config
  sp_left :: side_ring
  sp_right :: side_ring
  sp_seq :: u64
  sp_paired_count :: u64
  sp_desync_count :: u64
  sp_warn_count :: u64
  sp_dropped_count :: u64
  sp_log :: "(pending_frame option \<times> pending_frame option) list"

datatype side = kLeft | kRight

definition StereoFramePairer_new :: "pairer_config \<Rightarrow> pairer" where
  "StereoFramePairer_new cfg =
     \<lparr>sp_cfg = cfg, sp_left = side_ring_new, sp_right = side_ring_new, sp_seq = 0, sp_paired_count = 0,
      sp_desync_count = 0, sp_warn_count = 0, sp_dropped_count = 0, sp_log = []\<rparr>"

definition DiffSamples :: "u64 \<Rightarrow> u64 \<Rightarrow> u64" where
  "DiffSamples lhs rhs = (if rhs \<le> lhs then lhs - rhs else rhs - lhs)"

definition AppendInt16Le :: "u8 list \<Rightarrow> sample \<Rightarrow> u8 list" where
  "AppendInt16Le out sample = out @ [ucast (sample AND 0x00FF), ucast (drop_bit 8 sample AND 0x00FF)]"

definition WarnThresholdSamplesLocked :: "pairer_config \<Rightarrow> u64" where
  "WarnThresholdSamplesLocked cfg = ucast (sc_desync_warn_ms cfg) * ucast (sc_sample_rate_hz cfg) div 1000"

definition TimeoutThresholdSamplesLocked :: "pairer_config \<Rightarrow> u64" where
  "TimeoutThresholdSamplesLocked cfg = ucast (sc_desync_timeout_ms cfg) * ucast (sc_sample_rate_hz cfg) div 1000"

definition sample_or_zero :: "sample list \<Rightarrow> nat \<Rightarrow> sample" where
  "sample_or_zero xs i = (if i < length xs then xs ! i else 0)"

fun interleave_loop :: "sample list \<Rightarrow> sample list \<Rightarrow> nat list \<Rightarrow> u8 list \<Rightarrow> u8 list" where
  "interleave_loop l r [] out = out"
| "interleave_loop l r (i # is) out =
     interleave_loop l r is (AppendInt16Le (AppendInt16Le out (sample_or_zero l i)) (sample_or_zero r i))"

definition MakePairedFrameLocked :: "sample list \<Rightarrow> sample list \<Rightarrow> pairer \<Rightarrow> paired_frame \<times> pairer" where
  "MakePairedFrameLocked left right p =
     (let samples = max (length left) (length right)
      in (\<lparr>pr_interleaved = interleave_loop left right [0..<samples] [], pr_samples_per_channel = to_u32 samples,
           pr_sample_rate_hz = sc_sample_rate_hz (sp_cfg p), pr_seq = sp_seq p\<rparr>,
          p\<lparr>sp_seq := sp_seq p + 1, sp_paired_count := sp_paired_count p + 1\<rparr>))"

definition RecordWarnLocked :: "pairer \<Rightarrow> pairer" where
  "RecordWarnLocked p = p\<lparr>sp_warn_count := sp_warn_count p + 1\<rparr>"

definition RecordTimeoutLocked :: "pairer \<Rightarrow> pairer" where
  "RecordTimeoutLocked p = p\<lparr>sp_desync_count := sp_desync_count p + 1, sp_warn_count := sp_warn_count p + 1\<rparr>"

definition log_pair :: "pending_frame option \<Rightarrow> pending_frame option \<Rightarrow> pairer \<Rightarrow> pairer" where
  "log_pair l r p = p\<lparr>sp_log := sp_log p @ [(l, r)]\<rparr>"

definition EmitSilenceFillLocked :: "side \<Rightarrow> pairer \<Rightarrow> paired_frame \<times> pairer" where
  "EmitSilenceFillLocked real_side p =
     (case real_side of
        kLeft \<Rightarrow> (case PopLocked (sp_left p) of (frame, g) \<Rightarrow>
          MakePairedFrameLocked (pn_samples frame) [] (RecordTimeoutLocked (log_pair (Some frame) None (p\<lparr>sp_left := g\<rparr>))))
      | kRight \<Rightarrow> (case PopLocked (sp_right p) of (frame, g) \<Rightarrow>
          MakePairedFrameLocked [] (pn_samples frame) (RecordTimeoutLocked (log_pair None (Some frame) (p\<lparr>sp_right := g\<rparr>)))))"

definition waited_out :: "nat \<Rightarrow> pairer_config \<Rightarrow> side_ring \<Rightarrow> bool" where
  "waited_out now cfg g \<longleftrightarrow>
     0 < rg_count g \<and> unat (sc_desync_timeout_ms cfg) < (now - pn_arrived_at (FrontLocked g)) div 1000000"

definition TryEmitExpiredLocked :: "nat \<Rightarrow> pairer \<Rightarrow> paired_frame option \<times> pairer" where
  "TryEmitExpiredLocked now p =
     (if waited_out now (sp_cfg p) (sp_left p) then apfst Some (EmitSilenceFillLocked kLeft p)
      else if waited_out now (sp_cfg p) (sp_right p) then apfst Some (EmitSilenceFillLocked kRight p)
      else (None, p))"

definition TryEmitLocked :: "nat \<Rightarrow> pairer \<Rightarrow> paired_frame option \<times> pairer" where
  "TryEmitLocked now p =
     (if 0 < rg_count (sp_left p) \<and> 0 < rg_count (sp_right p) then
        let left = FrontLocked (sp_left p); right = FrontLocked (sp_right p);
            diff = DiffSamples (pn_timestamp left) (pn_timestamp right)
        in if TimeoutThresholdSamplesLocked (sp_cfg p) < diff then
             apfst Some (EmitSilenceFillLocked (if pn_timestamp left < pn_timestamp right then kLeft else kRight) p)
           else
             let (lf, gl) = PopLocked (sp_left p); (rf, gr) = PopLocked (sp_right p);
                 p1 = log_pair (Some lf) (Some rf) (p\<lparr>sp_left := gl, sp_right := gr\<rparr>);
                 warn = WarnThresholdSamplesLocked (sp_cfg p);
                 p2 = (if 0 < diff \<and> (warn = 0 \<or> warn \<le> diff) then RecordWarnLocked p1 else p1)
             in apfst Some (MakePairedFrameLocked (pn_samples lf) (pn_samples rf) p2)
      else TryEmitExpiredLocked now p)"

definition count_drop :: "bool \<Rightarrow> pairer \<Rightarrow> pairer" where
  "count_drop d p = (if d then p\<lparr>sp_dropped_count := sp_dropped_count p + 1\<rparr> else p)"

text \<open>The clock is read once for the arrival time and once for the expiry test.\<close>

definition PushLeft :: "nat \<Rightarrow> nat \<Rightarrow> u64 \<Rightarrow> sample list \<Rightarrow> pairer \<Rightarrow> paired_frame option \<times> pairer" where
  "PushLeft arrived now fs_timestamp_samples samples p =
     (case EnqueueLocked \<lparr>pn_timestamp = fs_timestamp_samples, pn_arrived_at = arrived, pn_samples = samples\<rparr> (sp_left p) of
        (d, g) \<Rightarrow> TryEmitLocked now (count_drop d (p\<lparr>sp_left := g\<rparr>)))"

definition PushRight :: "nat \<Rightarrow> nat \<Rightarrow> u64 \<Rightarrow> sample list \<Rightarrow> pairer \<Rightarrow> paired_frame option \<times> pairer" where
  "PushRight arrived now fs_timestamp_samples samples p =
     (case EnqueueLocked \<lparr>pn_timestamp = fs_timestamp_samples, pn_arrived_at = arrived, pn_samples = samples\<rparr> (sp_right p) of
        (d, g) \<Rightarrow> TryEmitLocked now (count_drop d (p\<lparr>sp_right := g\<rparr>)))"

definition Tick :: "nat \<Rightarrow> pairer \<Rightarrow> paired_frame option \<times> pairer" where
  "Tick now p = TryEmitLocked now p"

section \<open>The rings implement bounded queues\<close>

definition ring_ok :: "side_ring \<Rightarrow> bool" where
  "ring_ok g \<longleftrightarrow> length (rg_slots g) = kRingCapacity \<and> rg_tail g < kRingCapacity \<and> rg_count g \<le> kRingCapacity
     \<and> rg_head g = (rg_tail g + rg_count g) mod kRingCapacity"

definition ring_abs :: "side_ring \<Rightarrow> pending_frame list" where
  "ring_abs g = map (\<lambda>i. rg_slots g ! ((rg_tail g + i) mod kRingCapacity)) [0..<rg_count g]"

lemma length_ring_abs [simp]: "length (ring_abs g) = rg_count g"
  by (simp add: ring_abs_def)

lemma ring_abs_Nil [simp]: "ring_abs g = [] \<longleftrightarrow> rg_count g = 0"
  by (simp flip: length_0_conv)

lemma side_ring_new_ok [simp]: "ring_ok side_ring_new" "ring_abs side_ring_new = []"
  by (simp_all add: ring_ok_def side_ring_new_def)

lemma slot_inj:
  assumes "i < kRingCapacity" "j < kRingCapacity" "(t + i) mod kRingCapacity = (t + j) mod kRingCapacity"
  shows "i = j"
proof (cases "i \<le> j")
  case True
  then have "kRingCapacity dvd j - i" using assms(3) mod_eq_dvd_iff_nat [of "t + i" "t + j" kRingCapacity] by simp
  then show ?thesis using True assms(2) by (auto dest: dvd_imp_le)
next
  case False
  then have "kRingCapacity dvd i - j" using assms(3) mod_eq_dvd_iff_nat [of "t + j" "t + i" kRingCapacity] by simp
  then show ?thesis using False assms(1) by (auto dest: dvd_imp_le)
qed

lemma ring_front: "ring_ok g \<Longrightarrow> 0 < rg_count g \<Longrightarrow> FrontLocked g = hd (ring_abs g)"
  by (simp add: ring_ok_def FrontLocked_def ring_abs_def hd_map upt_rec)

lemma ring_drop_front:
  assumes "ring_ok g" "0 < rg_count g"
  defines "g' \<equiv> g\<lparr>rg_slots := (rg_slots g)[rg_tail g := empty_pending], rg_tail := (rg_tail g + 1) mod kRingCapacity,
                   rg_count := rg_count g - 1\<rparr>"
  shows "ring_ok g'" "ring_abs g' = tl (ring_abs g)"
proof -
  obtain n where "rg_count g = Suc n" using assms(2) gr0_implies_Suc by blast
  then show "ring_ok g'"
    using assms(1) by (simp add: ring_ok_def g'_def mod_simps)
  show "ring_abs g' = tl (ring_abs g)"
  proof (rule nth_equalityI)
    fix i assume "i < length (ring_abs g')"
    then have i: "Suc i < rg_count g" by (simp add: g'_def)
    have "rg_count g \<le> kRingCapacity" "rg_tail g < kRingCapacity" using assms(1) by (simp_all add: ring_ok_def)
    then have "(rg_tail g + Suc i) mod kRingCapacity \<noteq> rg_tail g"
      using slot_inj [of "Suc i" 0 "rg_tail g"] i by auto
    then show "ring_abs g' ! i = tl (ring_abs g) ! i"
      using i assms(1) by (simp add: ring_abs_def g'_def nth_tl mod_simps)
  qed (simp add: g'_def)
qed

lemma ring_add_back:
  fixes f :: pending_frame
  assumes "ring_ok g" "rg_count g < kRingCapacity"
  defines "g' \<equiv> g\<lparr>rg_slots := (rg_slots g)[rg_head g := f], rg_head := (rg_head g + 1) mod kRingCapacity,
                   rg_count := rg_count g + 1\<rparr>"
  shows "ring_ok g'" "ring_abs g' = ring_abs g @ [f]"
proof -
  have h: "rg_head g = (rg_tail g + rg_count g) mod kRingCapacity" "length (rg_slots g) = kRingCapacity"
    using assms(1) by (simp_all add: ring_ok_def)
  show "ring_ok g'" using assms(1,2) by (simp add: ring_ok_def g'_def mod_simps)
  have "rg_head g \<noteq> (rg_tail g + i) mod kRingCapacity" if "i < rg_count g" for i
    using slot_inj [of "rg_count g" i "rg_tail g"] that assms(2) h(1) by auto
  then show "ring_abs g' = ring_abs g @ [f]"
    using h by (simp add: ring_abs_def g'_def)
qed

lemma PopLocked_abs:
  assumes "ring_ok g" "0 < rg_count g"
  obtains g' where "PopLocked g = (hd (ring_abs g), g')" "ring_ok g'" "ring_abs g' = tl (ring_abs g)"
  using ring_drop_front [OF assms] ring_front [OF assms] that unfolding PopLocked_def FrontLocked_def by metis

lemma EnqueueLocked_abs:
  assumes "ring_ok g"
  obtains g' where "EnqueueLocked f g = (rg_count g = kRingCapacity, g')" "ring_ok g'"
    "ring_abs g' = (if rg_count g = kRingCapacity then tl (ring_abs g) else ring_abs g) @ [f]"
proof (cases "rg_count g = kRingCapacity")
  case True
  let ?g = "g\<lparr>rg_slots := (rg_slots g)[rg_tail g := empty_pending], rg_tail := (rg_tail g + 1) mod kRingCapacity,
                   rg_count := rg_count g - 1\<rparr>"
  have "ring_ok ?g" "ring_abs ?g = tl (ring_abs g)" using ring_drop_front [OF assms] True by simp_all
  then show ?thesis using ring_add_back [of ?g f] that True by (simp add: EnqueueLocked_def Let_def)
next
  case False
  then have "rg_count g < kRingCapacity" using assms by (simp add: ring_ok_def)
  then show ?thesis using ring_add_back [OF assms, of f] that False by (simp add: EnqueueLocked_def Let_def)
qed

section \<open>Interleaving\<close>

lemma AppendInt16Le_eq: "AppendInt16Le out s = out @ bytes_of_samples [s]"
proof -
  have m: "(0x00FF :: sample) = mask 8" by (simp add: mask_eq_exp_minus_1)
  have "(ucast (x AND 0x00FF) :: u8) = ucast x" for x :: sample
    unfolding m by (rule bit_word_eqI) (auto simp: bit_simps)
  then show ?thesis by (simp add: AppendInt16Le_def)
qed

lemma bytes_of_samples_append [simp]: "bytes_of_samples (xs @ ys) = bytes_of_samples xs @ bytes_of_samples ys"
  by (induction xs) simp_all

definition stereo_samples :: "sample list \<Rightarrow> sample list \<Rightarrow> sample list" where
  "stereo_samples l r = concat (map (\<lambda>i. [sample_or_zero l i, sample_or_zero r i]) [0..<max (length l) (length r)])"

lemma interleave_loop_eq:
  "interleave_loop l r is out = out @ bytes_of_samples (concat (map (\<lambda>i. [sample_or_zero l i, sample_or_zero r i]) is))"
  by (induction "is" arbitrary: out) (simp_all add: AppendInt16Le_eq)

lemma MakePairedFrameLocked_samples:
  "samples_of_bytes (pr_interleaved (fst (MakePairedFrameLocked l r p))) = stereo_samples l r"
  by (simp add: MakePairedFrameLocked_def Let_def interleave_loop_eq stereo_samples_def)

section \<open>Runs\<close>

datatype pairer_op = Push side nat nat u64 "sample list" | Timer nat

fun pairer_step :: "pairer_op \<Rightarrow> pairer \<Rightarrow> paired_frame option \<times> pairer" where
  "pairer_step (Push kLeft arrived now ts samples) p = PushLeft arrived now ts samples p"
| "pairer_step (Push kRight arrived now ts samples) p = PushRight arrived now ts samples p"
| "pairer_step (Timer now) p = Tick now p"

abbreviation opt_list :: "'a option \<Rightarrow> 'a list" where
  "opt_list x \<equiv> case_option [] (\<lambda>y. [y]) x"

fun pairer_run :: "pairer_op list \<Rightarrow> pairer \<Rightarrow> paired_frame list \<times> pairer" where
  "pairer_run [] p = ([], p)"
| "pairer_run (op # ops) p =
     (let (out, p1) = pairer_step op p; (outs, p2) = pairer_run ops p1 in (opt_list out @ outs, p2))"

text \<open>What was pushed on a side, and what a log says was emitted from a side.\<close>

fun pushed_by :: "side \<Rightarrow> pairer_op \<Rightarrow> pending_frame list" where
  "pushed_by s (Push s' arrived now ts samples) =
     (if s = s' then [\<lparr>pn_timestamp = ts, pn_arrived_at = arrived, pn_samples = samples\<rparr>] else [])"
| "pushed_by s (Timer now) = []"

abbreviation pushed :: "side \<Rightarrow> pairer_op list \<Rightarrow> pending_frame list" where
  "pushed s ops \<equiv> concat (map (pushed_by s) ops)"

abbreviation side_sel :: "side \<Rightarrow> 'a \<times> 'a \<Rightarrow> 'a" where
  "side_sel s \<equiv> case_side fst snd s"

definition taken :: "side \<Rightarrow> (pending_frame option \<times> pending_frame option) list \<Rightarrow> pending_frame list" where
  "taken s log = concat (map (\<lambda>e. opt_list (side_sel s e)) log)"

definition held :: "side \<Rightarrow> pairer \<Rightarrow> pending_frame list" where
  "held s p = taken s (sp_log p) @ ring_abs (side_sel s (sp_left p, sp_right p))"

lemma taken_simps [simp]: "taken s [] = []" "taken s (xs @ ys) = taken s xs @ taken s ys"
  "taken kLeft [(l, r)] = opt_list l" "taken kRight [(l, r)] = opt_list r"
  by (simp_all add: taken_def)

definition opt_samples :: "pending_frame option \<Rightarrow> sample list" where
  "opt_samples x = (case x of None \<Rightarrow> [] | Some f \<Rightarrow> pn_samples f)"

fun pair_ok :: "pairer_config \<Rightarrow> pending_frame option \<times> pending_frame option \<Rightarrow> bool" where
  "pair_ok cfg (Some l, Some r) \<longleftrightarrow> DiffSamples (pn_timestamp l) (pn_timestamp r) \<le> TimeoutThresholdSamplesLocked cfg"
| "pair_ok cfg (None, None) \<longleftrightarrow> False"
| "pair_ok cfg _ \<longleftrightarrow> True"

fun renders :: "pairer_config \<Rightarrow> pending_frame option \<times> pending_frame option \<Rightarrow> paired_frame \<Rightarrow> bool" where
  "renders cfg (l, r) out \<longleftrightarrow>
     samples_of_bytes (pr_interleaved out) = stereo_samples (opt_samples l) (opt_samples r)
     \<and> pr_sample_rate_hz out = sc_sample_rate_hz cfg"

fun one_sided :: "pending_frame option \<times> pending_frame option \<Rightarrow> bool" where
  "one_sided (l, r) \<longleftrightarrow> l = None \<or> r = None"

definition emitted_ok :: "pairer_config \<Rightarrow> paired_frame list \<Rightarrow> pairer \<Rightarrow> bool" where
  "emitted_ok cfg outs p \<longleftrightarrow>
     list_all2 (renders cfg) (sp_log p) outs \<and> list_all (pair_ok cfg) (sp_log p)
     \<and> map pr_seq outs = map of_nat [0..<length outs] \<and> sp_seq p = of_nat (length outs)
     \<and> sp_paired_count p = of_nat (length outs)
     \<and> sp_desync_count p = of_nat (length (filter one_sided (sp_log p)))"

definition rings_ok :: "pairer \<Rightarrow> bool" where
  "rings_ok p \<longleftrightarrow> ring_ok (sp_left p) \<and> ring_ok (sp_right p)"

definition emit_step :: "pairer_config \<Rightarrow> pairer \<Rightarrow> paired_frame option \<times> pairer \<Rightarrow> bool" where
  "emit_step cfg p res \<longleftrightarrow>
     (case res of (out, p') \<Rightarrow> sp_cfg p' = cfg \<and> rings_ok p' \<and> (\<forall>s. held s p' = held s p)
        \<and> sp_dropped_count p' = sp_dropped_count p
        \<and> (\<forall>outs. emitted_ok cfg outs p \<longrightarrow> emitted_ok cfg (outs @ opt_list out) p'))"

lemmas emit_defs = emit_step_def MakePairedFrameLocked_def Let_def log_pair_def rings_ok_def held_def emitted_ok_def
  interleave_loop_eq stereo_samples_def opt_samples_def list_all2_appendI

lemma emit_silence_step:
  assumes "rings_ok p" "0 < rg_count (side_sel s (sp_left p, sp_right p))"
  shows "emit_step (sp_cfg p) p (apfst Some (EmitSilenceFillLocked s p))"
proof (cases s)
  case kLeft
  with assms have a: "ring_ok (sp_left p)" "0 < rg_count (sp_left p)" "ring_ok (sp_right p)" by (auto simp: rings_ok_def)
  obtain g where g: "PopLocked (sp_left p) = (hd (ring_abs (sp_left p)), g)" "ring_ok g"
    "ring_abs g = tl (ring_abs (sp_left p))" using PopLocked_abs [OF a(1,2)] .
  have "ring_abs (sp_left p) \<noteq> []" using a(2) by simp
  then show ?thesis using g a(3) kLeft
    by (simp add: EmitSilenceFillLocked_def RecordTimeoutLocked_def emit_defs split: side.split)
next
  case kRight
  with assms have a: "ring_ok (sp_right p)" "0 < rg_count (sp_right p)" "ring_ok (sp_left p)" by (auto simp: rings_ok_def)
  obtain g where g: "PopLocked (sp_right p) = (hd (ring_abs (sp_right p)), g)" "ring_ok g"
    "ring_abs g = tl (ring_abs (sp_right p))" using PopLocked_abs [OF a(1,2)] .
  have "ring_abs (sp_right p) \<noteq> []" using a(2) by simp
  then show ?thesis using g a(3) kRight
    by (simp add: EmitSilenceFillLocked_def RecordTimeoutLocked_def emit_defs split: side.split)
qed

lemma TryEmitExpired_step: "rings_ok p \<Longrightarrow> emit_step (sp_cfg p) p (TryEmitExpiredLocked now p)"
  using emit_silence_step [of p kLeft] emit_silence_step [of p kRight]
  by (auto simp: TryEmitExpiredLocked_def waited_out_def) (auto simp: emit_step_def)

lemma TryEmit_pair_step:
  assumes "rings_ok p" "0 < rg_count (sp_left p)" "0 < rg_count (sp_right p)"
    "\<not> TimeoutThresholdSamplesLocked (sp_cfg p)
         < DiffSamples (pn_timestamp (FrontLocked (sp_left p))) (pn_timestamp (FrontLocked (sp_right p)))"
  shows "emit_step (sp_cfg p) p (TryEmitLocked now p)"
proof -
  have ok: "ring_ok (sp_left p)" "ring_ok (sp_right p)" using assms(1) by (simp_all add: rings_ok_def)
  obtain gl where gl: "PopLocked (sp_left p) = (hd (ring_abs (sp_left p)), gl)" "ring_ok gl"
    "ring_abs gl = tl (ring_abs (sp_left p))" using PopLocked_abs [OF ok(1) assms(2)] .
  obtain gr where gr: "PopLocked (sp_right p) = (hd (ring_abs (sp_right p)), gr)" "ring_ok gr"
    "ring_abs gr = tl (ring_abs (sp_right p))" using PopLocked_abs [OF ok(2) assms(3)] .
  have ne: "ring_abs (sp_left p) \<noteq> []" "ring_abs (sp_right p) \<noteq> []" using assms(2,3) by simp_all
  have fr: "FrontLocked (sp_left p) = hd (ring_abs (sp_left p))" "FrontLocked (sp_right p) = hd (ring_abs (sp_right p))"
    using ring_front ok assms(2,3) by simp_all
  let ?l = "hd (ring_abs (sp_left p))" and ?r = "hd (ring_abs (sp_right p))"
  define p1 where "p1 = log_pair (Some ?l) (Some ?r) (p\<lparr>sp_left := gl, sp_right := gr\<rparr>)"
  obtain p2 where p2: "TryEmitLocked now p = apfst Some (MakePairedFrameLocked (pn_samples ?l) (pn_samples ?r) p2)"
    "p2 = p1 \<or> p2 = RecordWarnLocked p1"
    using gl(1) gr(1) assms(2-4) by (simp add: TryEmitLocked_def Let_def fr p1_def)
  have "DiffSamples (pn_timestamp ?l) (pn_timestamp ?r) \<le> TimeoutThresholdSamplesLocked (sp_cfg p)"
    using assms(4) by (simp add: fr not_less)
  then show ?thesis using p2(2) gl(2,3) gr(2,3) ne unfolding p2(1) p1_def
    by (elim disjE) (simp_all add: RecordWarnLocked_def emit_defs split: side.split)
qed

lemma TryEmit_step:
  assumes "rings_ok p"
  shows "emit_step (sp_cfg p) p (TryEmitLocked now p)"
proof (cases "0 < rg_count (sp_left p) \<and> 0 < rg_count (sp_right p)")
  case True
  then show ?thesis
    using TryEmit_pair_step [OF assms, of now] emit_silence_step [OF assms, of kLeft] emit_silence_step [OF assms, of kRight]
    by (cases "TimeoutThresholdSamplesLocked (sp_cfg p)
         < DiffSamples (pn_timestamp (FrontLocked (sp_left p))) (pn_timestamp (FrontLocked (sp_right p)))")
       (simp_all add: TryEmitLocked_def Let_def)
next
  case False
  then have "TryEmitLocked now p = TryEmitExpiredLocked now p" by (simp only: TryEmitLocked_def if_False)
  then show ?thesis using TryEmitExpired_step [OF assms] by simp
qed

text \<open>The invariant of a run: what is emitted or still queued of a side is a subsequence of what was pushed there.\<close>

definition pairer_inv :: "pairer_config \<Rightarrow> (side \<Rightarrow> pending_frame list) \<Rightarrow> paired_frame list \<Rightarrow> pairer \<Rightarrow> bool" where
  "pairer_inv cfg pu outs p \<longleftrightarrow>
     sp_cfg p = cfg \<and> rings_ok p \<and> emitted_ok cfg outs p \<and> (\<forall>s. subseq (held s p) (pu s))
     \<and> sp_dropped_count p + of_nat (length (held kLeft p) + length (held kRight p))
         = of_nat (length (pu kLeft) + length (pu kRight))"

lemma inv_TryEmit:
  "pairer_inv cfg pu outs p \<Longrightarrow> TryEmitLocked now p = (out, p') \<Longrightarrow> pairer_inv cfg pu (outs @ opt_list out) p'"
  using TryEmit_step [of p now] by (auto simp: pairer_inv_def emit_step_def)

lemma enqueue_side:
  assumes "ring_ok g" "EnqueueLocked f g = (d, g')"
  shows "d \<longleftrightarrow> rg_count g = kRingCapacity" "ring_ok g'" "rg_count g' = (if d then rg_count g else rg_count g + 1)"
    "subseq (t @ ring_abs g) pu \<Longrightarrow> subseq (t @ ring_abs g') (pu @ [f])"
proof -
  let ?q = "if d then tl (ring_abs g) else ring_abs g"
  obtain h where h: "EnqueueLocked f g = (rg_count g = kRingCapacity, h)" "ring_ok h"
    "ring_abs h = (if rg_count g = kRingCapacity then tl (ring_abs g) else ring_abs g) @ [f]"
    using EnqueueLocked_abs [OF assms(1)] .
  then have g': "d \<longleftrightarrow> rg_count g = kRingCapacity" "ring_ok g'" "ring_abs g' = ?q @ [f]"
    using assms(2) by simp_all
  show "d \<longleftrightarrow> rg_count g = kRingCapacity" "ring_ok g'" by fact+
  show "rg_count g' = (if d then rg_count g else rg_count g + 1)"
    using arg_cong [OF g'(3), of length] g'(1) by simp
  assume "subseq (t @ ring_abs g) pu"
  moreover have "subseq ?q (ring_abs g)" by (cases "ring_abs g") auto
  then have "subseq (t @ ?q) (t @ ring_abs g)" by (intro list_emb_append_mono) auto
  ultimately have "subseq ((t @ ?q) @ [f]) (pu @ [f])"
    by (intro list_emb_append_mono) (blast intro: subseq_order.order_trans, simp)
  then show "subseq (t @ ring_abs g') (pu @ [f])" unfolding g'(3) by (simp only: append_assoc)
qed

lemma inv_enqueue_left:
  assumes "pairer_inv cfg pu outs p" "EnqueueLocked f (sp_left p) = (d, g)"
  shows "pairer_inv cfg (pu(kLeft := pu kLeft @ [f])) outs (count_drop d (p\<lparr>sp_left := g\<rparr>))"
proof -
  have ok: "ring_ok (sp_left p)" and sub: "subseq (held kLeft p) (pu kLeft)" "subseq (held kRight p) (pu kRight)"
    using assms(1) by (simp_all add: pairer_inv_def rings_ok_def)
  note e = enqueue_side(1-3) [OF ok assms(2)] and e4 = enqueue_side(4) [OF ok assms(2), of "taken kLeft (sp_log p)" "pu kLeft"]
  have "subseq (held s (count_drop d (p\<lparr>sp_left := g\<rparr>))) ((pu(kLeft := pu kLeft @ [f])) s)" for s
    using e4 sub by (cases s) (simp_all add: held_def count_drop_def)
  then show ?thesis using assms(1) e
    by (auto simp: pairer_inv_def rings_ok_def emitted_ok_def count_drop_def held_def algebra_simps of_nat_diff)
qed

lemma inv_enqueue_right:
  assumes "pairer_inv cfg pu outs p" "EnqueueLocked f (sp_right p) = (d, g)"
  shows "pairer_inv cfg (pu(kRight := pu kRight @ [f])) outs (count_drop d (p\<lparr>sp_right := g\<rparr>))"
proof -
  have ok: "ring_ok (sp_right p)" and sub: "subseq (held kRight p) (pu kRight)" "subseq (held kLeft p) (pu kLeft)"
    using assms(1) by (simp_all add: pairer_inv_def rings_ok_def)
  note e = enqueue_side(1-3) [OF ok assms(2)] and e4 = enqueue_side(4) [OF ok assms(2), of "taken kRight (sp_log p)" "pu kRight"]
  have "subseq (held s (count_drop d (p\<lparr>sp_right := g\<rparr>))) ((pu(kRight := pu kRight @ [f])) s)" for s
    using e4 sub by (cases s) (simp_all add: held_def count_drop_def)
  then show ?thesis using assms(1) e
    by (auto simp: pairer_inv_def rings_ok_def emitted_ok_def count_drop_def held_def algebra_simps of_nat_diff)
qed

lemma inv_step:
  assumes "pairer_inv cfg pu outs p" "pairer_step op p = (out, p')"
  shows "pairer_inv cfg (\<lambda>s. pu s @ pushed_by s op) (outs @ opt_list out) p'"
proof -
  have upd: "(\<lambda>s. pu s @ pushed_by s (Push s' a n t xs))
      = pu(s' := pu s' @ [\<lparr>pn_timestamp = t, pn_arrived_at = a, pn_samples = xs\<rparr>])" for s' a n t xs
    by (auto simp: fun_eq_iff)
  show ?thesis
  proof (cases "(op, p)" rule: pairer_step.cases)
    case (1 a n t xs q)
    obtain d g where e: "EnqueueLocked \<lparr>pn_timestamp = t, pn_arrived_at = a, pn_samples = xs\<rparr> (sp_left p) = (d, g)"
      by (rule prod.exhaust)
    with 1 assms(2) have "TryEmitLocked n (count_drop d (p\<lparr>sp_left := g\<rparr>)) = (out, p')" by (simp add: PushLeft_def)
    then show ?thesis using inv_TryEmit [OF inv_enqueue_left [OF assms(1) e]] 1 upd [of kLeft] by simp
  next
    case (2 a n t xs q)
    obtain d g where e: "EnqueueLocked \<lparr>pn_timestamp = t, pn_arrived_at = a, pn_samples = xs\<rparr> (sp_right p) = (d, g)"
      by (rule prod.exhaust)
    with 2 assms(2) have "TryEmitLocked n (count_drop d (p\<lparr>sp_right := g\<rparr>)) = (out, p')" by (simp add: PushRight_def)
    then show ?thesis using inv_TryEmit [OF inv_enqueue_right [OF assms(1) e]] 2 upd [of kRight] by simp
  next
    case (3 n q)
    then show ?thesis using inv_TryEmit [OF assms(1)] assms(2) by (simp add: Tick_def)
  qed
qed

lemma inv_run:
  "pairer_inv cfg pu outs p \<Longrightarrow> pairer_run ops p = (outs', p') \<Longrightarrow>
   pairer_inv cfg (\<lambda>s. pu s @ pushed s ops) (outs @ outs') p'"
proof (induction ops arbitrary: pu outs p outs')
  case (Cons op ops)
  obtain out p1 where 1: "pairer_step op p = (out, p1)" by (rule prod.exhaust)
  obtain outs1 p2 where 2: "pairer_run ops p1 = (outs1, p2)" by (rule prod.exhaust)
  have "outs' = opt_list out @ outs1" "p' = p2" using Cons.prems(2) 1 2 by simp_all
  then show ?case using Cons.IH [OF inv_step [OF Cons.prems(1) 1], of outs1] 2 by simp
qed simp

lemma inv_new: "pairer_inv cfg (\<lambda>s. []) [] (StereoFramePairer_new cfg)"
  by (simp add: pairer_inv_def StereoFramePairer_new_def rings_ok_def emitted_ok_def held_def split: side.split)

text \<open>A head frame that has waited longer than the timeout leaves the pairer on the next timer call.\<close>

lemma tick_flushes:
  "waited_out now (sp_cfg p) (sp_left p) \<or> waited_out now (sp_cfg p) (sp_right p) \<Longrightarrow> fst (Tick now p) \<noteq> None"
  by (auto simp: Tick_def TryEmitLocked_def TryEmitExpiredLocked_def Let_def split: prod.split)

text \<open>
  C8. For every sequence of pushes and timer calls, with any clock: the emitted frames are numbered
  consecutively and each is the interleaving of one left and one right frame whose timestamps differ by
  at most the timeout threshold, or of one frame with silence; the desync count is the number of
  the latter. The emitted and still queued frames of a side are a subsequence of those pushed there, so
  no frame is duplicated or reordered, and the dropped count is exactly the number of missing ones.
\<close>

theorem stereo_pairing_conserves_frames:
  "case pairer_run ops (StereoFramePairer_new cfg) of (outs, p) \<Rightarrow>
     list_all2 (renders cfg) (sp_log p) outs \<and> list_all (pair_ok cfg) (sp_log p)
     \<and> map pr_seq outs = map of_nat [0..<length outs]
     \<and> sp_paired_count p = of_nat (length outs)
     \<and> sp_desync_count p = of_nat (length (filter one_sided (sp_log p)))
     \<and> subseq (held kLeft p) (pushed kLeft ops) \<and> subseq (held kRight p) (pushed kRight ops)
     \<and> sp_dropped_count p + of_nat (length (held kLeft p) + length (held kRight p))
         = of_nat (length (pushed kLeft ops) + length (pushed kRight ops))"
proof -
  obtain outs p where r: "pairer_run ops (StereoFramePairer_new cfg) = (outs, p)" by (rule prod.exhaust)
  have "pairer_inv cfg (\<lambda>s. pushed s ops) outs p" using inv_run [OF inv_new r] by simp
  then show ?thesis unfolding r by (simp add: pairer_inv_def emitted_ok_def)
qed

definition demo_pairer :: pairer_config where
  "demo_pairer = \<lparr>sc_sample_rate_hz = 8000, sc_desync_warn_ms = 5, sc_desync_timeout_ms = 25\<rparr>"

text \<open>A left frame meets its right frame; a second left frame stays alone and is flushed by the timer.\<close>

lemma stereo_pairing_example:
  "map (\<lambda>f. (samples_of_bytes (pr_interleaved f), pr_seq f))
     (fst (pairer_run [Push kLeft 0 0 160 [1, 2], Push kRight 0 0 160 [3], Push kLeft 0 0 320 [5], Timer 26000000]
       (StereoFramePairer_new demo_pairer))) = [([1, 3, 2, 0], 0), ([5, 0], 1)]"
  by (simp add: demo_pairer_def StereoFramePairer_new_def side_ring_new_def PushLeft_def PushRight_def Tick_def
    EnqueueLocked_def count_drop_def TryEmitLocked_def TryEmitExpiredLocked_def waited_out_def FrontLocked_def
    PopLocked_def DiffSamples_def TimeoutThresholdSamplesLocked_def WarnThresholdSamplesLocked_def
    EmitSilenceFillLocked_def RecordTimeoutLocked_def log_pair_def MakePairedFrameLocked_def Let_def
    interleave_loop_eq sample_or_zero_def)

end
