(* ===== verification/Media_Silence.thy ===== *)
theory Media_Silence
  imports Core_Config
begin

text \<open>
  The silence drivers, \<^verbatim>\<open>src/media/silence_driver.cc\<close>: one broadcast of silence per channel that has a
  WRITE_REPLACE bug and no other write source. What FreeSWITCH is asked for is a log; the status of
  the broadcast and whether a session can still be locked are arguments.
\<close>

section \<open>Drivers\<close>

datatype silence_event =
    Ivr_broadcast string
  | Set_break string
  | Silence_audit string "(string \<times> string) list"

record silence_driver =
  sd_channel_uuid :: string
  sd_running :: bool
  sd_stop_requested :: bool

record silence_registry =
  sl_drivers :: "(string \<times> silence_driver) list"
  sl_log :: "silence_event list"

text \<open>What the registry reads of a session: its uuid (empty when missing) and its channel.\<close>

record silence_channel =
  sc_broadcast :: bool
  sc_bridged :: bool
  sc_current_application :: "string option"

record silence_session =
  ss_uuid :: string
  ss_channel :: "silence_channel option"

definition silence_emit :: "silence_event list \<Rightarrow> silence_registry \<Rightarrow> silence_registry" where
  "silence_emit es r = r\<lparr>sl_log := sl_log r @ es\<rparr>"

abbreviation kAuditStarted :: string where
  "kAuditStarted \<equiv> ''osw.media.silence_driver.started''"

abbreviation kAuditStopped :: string where
  "kAuditStopped \<equiv> ''osw.media.silence_driver.stopped''"

abbreviation kAuditCapReached :: string where
  "kAuditCapReached \<equiv> ''osw.media.silence_driver.cap_reached''"

definition ChannelAlreadyHasWriteSource :: "silence_channel \<Rightarrow> bool" where
  "ChannelAlreadyHasWriteSource ch \<longleftrightarrow> sc_current_application ch = Some ''playback''"

definition SilenceDriver_new :: "(string \<Rightarrow> bool) \<Rightarrow> string \<Rightarrow> silence_registry \<Rightarrow> silence_driver \<times> silence_registry" where
  "SilenceDriver_new broadcast channel_uuid r =
     (\<lparr>sd_channel_uuid = channel_uuid, sd_running = broadcast channel_uuid, sd_stop_requested = False\<rparr>,
      silence_emit [Ivr_broadcast channel_uuid] r)"

definition SilenceDriver_Stop :: "(string \<Rightarrow> bool) \<Rightarrow> silence_driver \<Rightarrow> silence_registry \<Rightarrow> silence_driver \<times> silence_registry" where
  "SilenceDriver_Stop lockable d r =
     (d\<lparr>sd_stop_requested := True, sd_running := False\<rparr>,
      silence_emit
        ((if \<not> sd_stop_requested d \<and> lockable (sd_channel_uuid d) then [Set_break (sd_channel_uuid d)] else [])
         @ (if sd_running d then [Silence_audit kAuditStopped [(''Unique-ID'', sd_channel_uuid d)]] else [])) r)"

text \<open>Stopping a driver the caller owns and then destroying it; the destructor stops it once more.\<close>

definition SilenceDriver_delete :: "(string \<Rightarrow> bool) \<Rightarrow> silence_driver \<Rightarrow> silence_registry \<Rightarrow> silence_registry" where
  "SilenceDriver_delete lockable d r = snd (SilenceDriver_Stop lockable d r)"

definition stop_and_delete :: "(string \<Rightarrow> bool) \<Rightarrow> silence_driver \<Rightarrow> silence_registry \<Rightarrow> silence_registry" where
  "stop_and_delete lockable d r =
     (case SilenceDriver_Stop lockable d r of (d', r') \<Rightarrow> SilenceDriver_delete lockable d' r')"

section \<open>The registry\<close>

definition SilenceDriverRegistry_new :: silence_registry where
  "SilenceDriverRegistry_new = \<lparr>sl_drivers = [], sl_log = []\<rparr>"

definition AttachOpportunistic ::
  "Config \<Rightarrow> (string \<Rightarrow> bool) \<Rightarrow> (string \<Rightarrow> bool) \<Rightarrow> silence_session option \<Rightarrow> silence_registry \<Rightarrow> silence_registry" where
  "AttachOpportunistic config broadcast lockable session r =
     (if \<not> silence_driver_enabled config then r
      else case session of None \<Rightarrow> r
      | Some s \<Rightarrow>
          if ss_uuid s = [] then r
          else (case ss_channel s of None \<Rightarrow> r
          | Some channel \<Rightarrow>
              if sc_broadcast channel then r
              else if sc_bridged channel then r
              else if ChannelAlreadyHasWriteSource channel then r
              else if map_of (sl_drivers r) (ss_uuid s) \<noteq> None then r
              else if unat (max_silence_drivers config) \<le> length (sl_drivers r)
              then silence_emit [Silence_audit kAuditCapReached
                     [(''Unique-ID'', ss_uuid s), (''cap'', decimal (unat (max_silence_drivers config)))]] r
              else (case SilenceDriver_new broadcast (ss_uuid s) r of (driver, r1) \<Rightarrow>
                if \<not> sd_running driver then SilenceDriver_delete lockable driver r1
                else silence_emit [Silence_audit kAuditStarted [(''Unique-ID'', ss_uuid s)]]
                       (r1\<lparr>sl_drivers := sl_drivers r1 @ [(ss_uuid s, driver)]\<rparr>))))"

definition StopAndErase :: "(string \<Rightarrow> bool) \<Rightarrow> string \<Rightarrow> silence_registry \<Rightarrow> silence_registry" where
  "StopAndErase lockable channel_uuid r =
     (case map_of (sl_drivers r) channel_uuid of None \<Rightarrow> r
      | Some driver \<Rightarrow>
          stop_and_delete lockable driver (r\<lparr>sl_drivers := filter (\<lambda>e. fst e \<noteq> channel_uuid) (sl_drivers r)\<rparr>))"

definition DetachIfOrphan :: "(string \<Rightarrow> bool) \<Rightarrow> string \<Rightarrow> silence_registry \<Rightarrow> silence_registry" where
  "DetachIfOrphan lockable channel_uuid = StopAndErase lockable channel_uuid"

definition RemoveForChannel :: "(string \<Rightarrow> bool) \<Rightarrow> string \<Rightarrow> silence_registry \<Rightarrow> silence_registry" where
  "RemoveForChannel lockable channel_uuid = StopAndErase lockable channel_uuid"

definition Silence_DrainAll :: "(string \<Rightarrow> bool) \<Rightarrow> silence_registry \<Rightarrow> silence_registry" where
  "Silence_DrainAll lockable r = fold (stop_and_delete lockable) (map snd (sl_drivers r)) (r\<lparr>sl_drivers := []\<rparr>)"

definition Silence_ActiveCount :: "silence_registry \<Rightarrow> nat" where
  "Silence_ActiveCount r = length (sl_drivers r)"

section \<open>Accounting of broadcasts\<close>

text \<open>How often the log says that a broadcast on a channel was started and stopped.\<close>

definition started_of :: "string \<Rightarrow> silence_event list \<Rightarrow> nat" where
  "started_of u log = count_list log (Silence_audit kAuditStarted [(''Unique-ID'', u)])"

definition stopped_of :: "string \<Rightarrow> silence_event list \<Rightarrow> nat" where
  "stopped_of u log = count_list log (Silence_audit kAuditStopped [(''Unique-ID'', u)])"

definition silence_inv :: "Config \<Rightarrow> silence_registry \<Rightarrow> bool" where
  "silence_inv config r \<longleftrightarrow>
     distinct (map fst (sl_drivers r)) \<and> length (sl_drivers r) \<le> unat (max_silence_drivers config)
     \<and> (\<forall>(u, d) \<in> set (sl_drivers r). d = \<lparr>sd_channel_uuid = u, sd_running = True, sd_stop_requested = False\<rparr>)
     \<and> (\<forall>u. started_of u (sl_log r) = stopped_of u (sl_log r) + (if u \<in> fst ` set (sl_drivers r) then 1 else 0))"

lemma count_events [simp]:
  "started_of u (xs @ ys) = started_of u xs + started_of u ys" "started_of u [] = 0"
  "stopped_of u (xs @ ys) = stopped_of u xs + stopped_of u ys" "stopped_of u [] = 0"
  "started_of u (Set_break v # es) = started_of u es" "stopped_of u (Set_break v # es) = stopped_of u es"
  "started_of u (Ivr_broadcast v # es) = started_of u es" "stopped_of u (Ivr_broadcast v # es) = stopped_of u es"
  "started_of u (Silence_audit kAuditStopped hs # es) = started_of u es"
  "stopped_of u (Silence_audit kAuditStarted hs # es) = stopped_of u es"
  "started_of u (Silence_audit kAuditCapReached hs # es) = started_of u es"
  "stopped_of u (Silence_audit kAuditCapReached hs # es) = stopped_of u es"
  "started_of u (Silence_audit kAuditStarted [(''Unique-ID'', v)] # es) = (if u = v then 1 else 0) + started_of u es"
  "stopped_of u (Silence_audit kAuditStopped [(''Unique-ID'', v)] # es) = (if u = v then 1 else 0) + stopped_of u es"
  by (simp_all add: started_of_def stopped_of_def)

lemma stop_and_delete_running:
  "stop_and_delete lockable \<lparr>sd_channel_uuid = u, sd_running = True, sd_stop_requested = False\<rparr> r =
     silence_emit ((if lockable u then [Set_break u] else []) @ [Silence_audit kAuditStopped [(''Unique-ID'', u)]]) r"
  by (simp add: stop_and_delete_def SilenceDriver_Stop_def SilenceDriver_delete_def silence_emit_def)

lemma silence_emit_frame [simp]: "sl_drivers (silence_emit es r) = sl_drivers r" "sl_log (silence_emit es r) = sl_log r @ es"
  by (simp_all add: silence_emit_def)

lemma inv_AttachOpportunistic [osw_inv]:
  assumes "silence_inv config r"
  shows "silence_inv config (AttachOpportunistic config broadcast lockable session r)"
  using assms
  by (auto simp: AttachOpportunistic_def silence_inv_def SilenceDriver_new_def SilenceDriver_delete_def SilenceDriver_Stop_def
      map_of_eq_None_iff not_le Suc_le_eq split: option.splits)

lemma inv_StopAndErase [osw_inv]:
  assumes "silence_inv config r"
  shows "silence_inv config (StopAndErase lockable u r)"
proof (cases "map_of (sl_drivers r) u")
  case (Some d)
  let ?rest = "filter (\<lambda>e. fst e \<noteq> u) (sl_drivers r)"
  have mem: "(u, d) \<in> set (sl_drivers r)" using Some by (rule map_of_SomeD)
  then have d: "d = \<lparr>sd_channel_uuid = u, sd_running = True, sd_stop_requested = False\<rparr>"
    using assms by (auto simp: silence_inv_def)
  have dist: "distinct (map fst ?rest)" using assms by (simp add: silence_inv_def distinct_map_filter)
  have len: "length ?rest \<le> unat (max_silence_drivers config)"
    using assms by (auto simp: silence_inv_def intro: le_trans [OF length_filter_le])
  have keys: "v \<in> fst ` set ?rest \<longleftrightarrow> v \<noteq> u \<and> v \<in> fst ` set (sl_drivers r)" for v by force
  have u: "u \<in> fst ` set (sl_drivers r)" using mem by force
  show ?thesis
    using assms dist len u unfolding silence_inv_def StopAndErase_def Some option.case d stop_and_delete_running silence_emit_frame
    by (auto simp del: set_filter simp: keys) (auto simp: case_prod_unfold)
qed (use assms in \<open>simp add: StopAndErase_def\<close>)

lemma drain_loop_log:
  assumes "\<forall>(u, d) \<in> set ds. d = \<lparr>sd_channel_uuid = u, sd_running = True, sd_stop_requested = False\<rparr>"
    and "distinct (map fst ds)"
  shows "sl_drivers (fold (stop_and_delete lockable) (map snd ds) r) = sl_drivers r
    \<and> started_of u (sl_log (fold (stop_and_delete lockable) (map snd ds) r)) = started_of u (sl_log r)
    \<and> stopped_of u (sl_log (fold (stop_and_delete lockable) (map snd ds) r)) =
        stopped_of u (sl_log r) + (if u \<in> fst ` set ds then 1 else 0)"
  using assms
proof (induction ds arbitrary: r)
  case (Cons e ds)
  obtain v d where e: "e = (v, d)" by (rule prod.exhaust)
  with Cons.prems have d: "d = \<lparr>sd_channel_uuid = v, sd_running = True, sd_stop_requested = False\<rparr>" by simp
  have "\<forall>(u, d) \<in> set ds. d = \<lparr>sd_channel_uuid = u, sd_running = True, sd_stop_requested = False\<rparr>" "distinct (map fst ds)"
    "v \<notin> fst ` set ds" using Cons.prems e by simp_all
  then show ?case using Cons.IH [of "stop_and_delete lockable d r"] by (auto simp: e d stop_and_delete_running)
qed simp

lemma inv_Silence_DrainAll [osw_inv]:
  "silence_inv config r \<Longrightarrow> silence_inv config (Silence_DrainAll lockable r)"
  using drain_loop_log [where ds = "sl_drivers r" and r = "r\<lparr>sl_drivers := []\<rparr>" and lockable = lockable]
  by (simp add: silence_inv_def Silence_DrainAll_def)

datatype silence_op =
    Sl_attach "string \<Rightarrow> bool" "string \<Rightarrow> bool" "silence_session option"
  | Sl_detach "string \<Rightarrow> bool" string
  | Sl_remove "string \<Rightarrow> bool" string
  | Sl_drain "string \<Rightarrow> bool"

fun silence_apply :: "Config \<Rightarrow> silence_op \<Rightarrow> silence_registry \<Rightarrow> silence_registry" where
  "silence_apply config (Sl_attach broadcast lockable s) r = AttachOpportunistic config broadcast lockable s r"
| "silence_apply config (Sl_detach lockable u) r = DetachIfOrphan lockable u r"
| "silence_apply config (Sl_remove lockable u) r = RemoveForChannel lockable u r"
| "silence_apply config (Sl_drain lockable) r = Silence_DrainAll lockable r"

lemma inv_silence_run: "silence_inv config r \<Longrightarrow> silence_inv config (fold (silence_apply config) ops r)"
proof (induction ops arbitrary: r)
  case (Cons op ops)
  then have "silence_inv config (silence_apply config op r)"
    by (cases op) (auto simp: DetachIfOrphan_def RemoveForChannel_def intro: osw_inv)
  then show ?case using Cons.IH by simp
qed simp

lemma inv_silence_new: "silence_inv config SilenceDriverRegistry_new"
  by (simp add: silence_inv_def SilenceDriverRegistry_new_def)

text \<open>
  Whatever the order of attaches, detaches, channel removals and drains, and whatever FreeSWITCH answers:
  there is at most one silence driver per channel and never more than \<open>max_silence_drivers\<close>; every
  started broadcast is either still registered or was reported stopped exactly once; and draining
  leaves none registered.
\<close>

lemma silence_drivers_accounted:
  "case fold (silence_apply config) ops SilenceDriverRegistry_new of r \<Rightarrow>
     distinct (map fst (sl_drivers r)) \<and> Silence_ActiveCount r \<le> unat (max_silence_drivers config)
     \<and> (\<forall>u. started_of u (sl_log r) = stopped_of u (sl_log r) + (if u \<in> fst ` set (sl_drivers r) then 1 else 0))
     \<and> (\<forall>u. started_of u (sl_log (Silence_DrainAll lockable r)) = stopped_of u (sl_log (Silence_DrainAll lockable r)))
     \<and> Silence_ActiveCount (Silence_DrainAll lockable r) = 0"
proof -
  let ?r = "fold (silence_apply config) ops SilenceDriverRegistry_new"
  have i: "silence_inv config ?r" by (rule inv_silence_run) (rule inv_silence_new)
  have "sl_drivers (Silence_DrainAll lockable ?r) = []"
    using i drain_loop_log [where ds = "sl_drivers ?r" and r = "?r\<lparr>sl_drivers := []\<rparr>" and lockable = lockable]
    by (simp add: silence_inv_def Silence_DrainAll_def)
  with inv_Silence_DrainAll [OF i, of lockable] i show ?thesis
    by (simp add: silence_inv_def Silence_ActiveCount_def)
qed

text \<open>
  A driver whose broadcast could not be queued is never registered, but its destructor still asks the
  channel to break off its current application.
\<close>

lemma failed_broadcast_breaks_channel:
  "AttachOpportunistic Config_default (\<lambda>_. False) (\<lambda>_. True)
     (Some \<lparr>ss_uuid = ''c'', ss_channel = Some \<lparr>sc_broadcast = False, sc_bridged = False, sc_current_application = None\<rparr>\<rparr>)
     SilenceDriverRegistry_new = \<lparr>sl_drivers = [], sl_log = [Ivr_broadcast ''c'', Set_break ''c'']\<rparr>"
  by (simp add: AttachOpportunistic_def Config_default_def SilenceDriverRegistry_new_def ChannelAlreadyHasWriteSource_def
      SilenceDriver_new_def SilenceDriver_delete_def SilenceDriver_Stop_def silence_emit_def)

end
