(* ===== verification/Media_Bug.thy ===== *)
theory Media_Bug
  imports Media_Silence
begin

text \<open>
  Media bugs: the purposes and their stage ranks (\<^verbatim>\<open>src/media/purpose.cc\<close>), the owning handle
  (\<^verbatim>\<open>bug_handle.cc\<close>) and the manager (\<^verbatim>\<open>bug_manager.cc\<close>). The callback contexts live on a heap, because
  the manager frees them while FreeSWITCH holds their addresses; touching a freed context is counted in
  \<open>bm_faults\<close>. FreeSWITCH's side is the map of bugs it would still call back; a removal closes the
  bug (with the CLOSE callback) if it is still there. Bug addresses are not reused. The outcome of
  \<^verbatim>\<open>switch_core_media_bug_add\<close> and of the two allocations the manager checks are arguments; allocating
  a channel lock succeeds.
\<close>

section \<open>Purposes\<close>

datatype Purpose =
    kUnspecified | kTtsPlayback | kSttTranscribe | kVoicebotDuplexRead | kVoicebotDuplexWrite
  | kAmdDetect | kRecordingRelay | kVadBargeIn | kTest

fun StageRank :: "Purpose \<Rightarrow> nat" where
  "StageRank kVadBargeIn = 1"
| "StageRank kSttTranscribe = 2"
| "StageRank kVoicebotDuplexRead = 2"
| "StageRank kAmdDetect = 2"
| "StageRank kTtsPlayback = 3"
| "StageRank kVoicebotDuplexWrite = 3"
| "StageRank kRecordingRelay = 4"
| "StageRank kTest = 4"
| "StageRank kUnspecified = 4"

fun MediaPurposeName :: "Purpose \<Rightarrow> string" where
  "MediaPurposeName kUnspecified = ''unspecified''"
| "MediaPurposeName kTtsPlayback = ''tts_playback''"
| "MediaPurposeName kSttTranscribe = ''stt_transcribe''"
| "MediaPurposeName kVoicebotDuplexRead = ''voicebot_duplex_read''"
| "MediaPurposeName kVoicebotDuplexWrite = ''voicebot_duplex_write''"
| "MediaPurposeName kAmdDetect = ''amd_detect''"
| "MediaPurposeName kRecordingRelay = ''recording_relay''"
| "MediaPurposeName kVadBargeIn = ''vad_barge_in''"
| "MediaPurposeName kTest = ''test''"

section \<open>State\<close>

text \<open>The flag bits, with the values of \<^verbatim>\<open>include/osw/raii/fs_mock.h\<close>.\<close>

definition kSmbfFirst :: u32 where
  "kSmbfFirst = push_bit 26 1"

definition kSmbfWriteReplace :: u32 where
  "kSmbfWriteReplace = push_bit 2 1"

record BugConfig =
  bg_purpose :: Purpose
  bg_fs_flags :: u32
  bg_target_rate_hz :: u32
  bg_tenant_id :: string
  bg_stream_endpoint :: string

record BugCallbackContext =
  cx_bug_id :: u64
  cx_user_data :: nat
  cx_user_cb :: "nat option"

record BugRecord =
  rec_id :: u64
  rec_purpose :: Purpose
  rec_channel_uuid :: string
  rec_fs_bug :: nat
  rec_config :: BugConfig
  rec_ctx :: nat

text \<open>A bug on FreeSWITCH's side: the session it sits on and the user data of its callback.\<close>

record fs_bug =
  fb_channel_uuid :: string
  fb_ctx :: nat
  fb_flags :: u32

datatype abc_type = ABC_INIT | ABC_CLOSE | ABC_READ | ABC_WRITE_REPLACE

record bug_world =
  bm_next_id :: u64
  bm_by_id :: "u64 \<rightharpoonup> BugRecord"
  bm_by_channel :: "string \<rightharpoonup> u64 list"
  bm_silence_wired :: bool
  bm_silence :: silence_registry
  bm_heap :: "nat \<rightharpoonup> BugCallbackContext"
  bm_fresh :: nat
  bm_faults :: nat
  bm_calls :: "(nat \<times> nat \<times> abc_type) list"
  fs_bugs :: "nat \<rightharpoonup> fs_bug"
  fs_fresh :: nat

definition MediaBugManager_new :: "bool \<Rightarrow> bug_world" where
  "MediaBugManager_new wired =
     \<lparr>bm_next_id = 1, bm_by_id = Map.empty, bm_by_channel = Map.empty, bm_silence_wired = wired,
      bm_silence = SilenceDriverRegistry_new, bm_heap = Map.empty, bm_fresh = 0, bm_faults = 0, bm_calls = [],
      fs_bugs = Map.empty, fs_fresh = 0\<rparr>"

text \<open>What the environment decides during an operation.\<close>

record bug_env =
  ev_config :: Config
  ev_broadcast :: "string \<Rightarrow> bool"
  ev_lockable :: "string \<Rightarrow> bool"

section \<open>Queries under the registry lock\<close>

definition channel_records :: "string \<Rightarrow> bug_world \<Rightarrow> BugRecord list" where
  "channel_records uuid w =
     (case bm_by_channel w uuid of None \<Rightarrow> [] | Some ids \<Rightarrow> List.map_filter (bm_by_id w) ids)"

definition MaxRankForChannel :: "string \<Rightarrow> bug_world \<Rightarrow> nat" where
  "MaxRankForChannel uuid w = fold (\<lambda>r m. if m < StageRank (rec_purpose r) then StageRank (rec_purpose r) else m)
     (channel_records uuid w) 0"

definition HasPurpose :: "string \<Rightarrow> Purpose \<Rightarrow> bug_world \<Rightarrow> bool" where
  "HasPurpose uuid p w = list_ex (\<lambda>r. rec_purpose r = p) (channel_records uuid w)"

definition HasInjectBugLocked :: "string \<Rightarrow> bug_world \<Rightarrow> bool" where
  "HasInjectBugLocked uuid w =
     list_ex (\<lambda>r. rec_purpose r = kTtsPlayback \<or> rec_purpose r = kVoicebotDuplexWrite) (channel_records uuid w)"

definition HasInjectBug :: "string \<Rightarrow> bug_world \<Rightarrow> bool" where
  "HasInjectBug uuid w = HasInjectBugLocked uuid w"

definition write_replace :: "u32 \<Rightarrow> bool" where
  "write_replace flags \<longleftrightarrow> flags AND kSmbfWriteReplace \<noteq> 0"

definition HasWriteReplaceBug :: "string \<Rightarrow> bug_world \<Rightarrow> bool" where
  "HasWriteReplaceBug uuid w = list_ex (\<lambda>r. write_replace (bg_fs_flags (rec_config r))) (channel_records uuid w)"

definition ActiveBugCount :: "string \<Rightarrow> bug_world \<Rightarrow> nat" where
  "ActiveBugCount uuid w = (case bm_by_channel w uuid of None \<Rightarrow> 0 | Some ids \<Rightarrow> length ids)"

definition TotalActiveBugCount :: "bug_world \<Rightarrow> nat" where
  "TotalActiveBugCount w = card (dom (bm_by_id w))"

section \<open>Contexts and callbacks\<close>

definition new_ctx :: "u64 \<Rightarrow> bug_world \<Rightarrow> nat \<times> bug_world" where
  "new_ctx bug_id w =
     (bm_fresh w,
      w\<lparr>bm_heap := (bm_heap w)(bm_fresh w \<mapsto> \<lparr>cx_bug_id = bug_id, cx_user_data = 0, cx_user_cb = None\<rparr>),
        bm_fresh := bm_fresh w + 1\<rparr>)"

definition delete_ctx :: "nat \<Rightarrow> bug_world \<Rightarrow> bug_world" where
  "delete_ctx a w =
     (if bm_heap w a = None then w\<lparr>bm_faults := bm_faults w + 1\<rparr> else w\<lparr>bm_heap := (bm_heap w)(a := None)\<rparr>)"

definition user_callback :: "nat option \<Rightarrow> nat \<Rightarrow> abc_type \<Rightarrow> bug_world \<Rightarrow> bug_world" where
  "user_callback cb user_data type w =
     (case cb of None \<Rightarrow> w | Some f \<Rightarrow> w\<lparr>bm_calls := bm_calls w @ [(f, user_data, type)]\<rparr>)"

text \<open>
  The part of \<open>DetachInternalLocked\<close> under the registry lock: the erased record, and whether the
  channel's silence driver has to go.
\<close>

definition erase_record :: "u64 \<Rightarrow> bug_world \<Rightarrow> (BugRecord \<times> bool) option \<times> bug_world" where
  "erase_record bug_id w =
     (case bm_by_id w bug_id of None \<Rightarrow> (None, w)
      | Some r \<Rightarrow>
          let w1 = (case bm_by_channel w (rec_channel_uuid r) of None \<Rightarrow> w
                    | Some vec \<Rightarrow>
                        let vec' = filter (\<lambda>i. i \<noteq> bug_id) vec
                        in w\<lparr>bm_by_channel := (bm_by_channel w)(rec_channel_uuid r := if vec' = [] then None else Some vec')\<rparr>);
              orphan = write_replace (bg_fs_flags (rec_config r)) \<and> \<not> HasWriteReplaceBug (rec_channel_uuid r) w1
          in (Some (r, orphan), w1\<lparr>bm_by_id := (bm_by_id w1)(bug_id := None)\<rparr>))"

definition stop_silence :: "bug_env \<Rightarrow> bool \<Rightarrow> string \<Rightarrow> bug_world \<Rightarrow> bug_world" where
  "stop_silence env orphan uuid w =
     (if orphan \<and> bm_silence_wired w
      then w\<lparr>bm_silence := DetachIfOrphan (ev_lockable env) uuid (bm_silence w)\<rparr> else w)"

text \<open>The part after the lock is released, without and with the removal on FreeSWITCH's side.\<close>

definition free_record :: "bug_env \<Rightarrow> BugRecord \<Rightarrow> bool \<Rightarrow> bug_world \<Rightarrow> bug_world" where
  "free_record env r orphan w = stop_silence env orphan (rec_channel_uuid r) (delete_ctx (rec_ctx r) w)"

definition DetachClosed :: "bug_env \<Rightarrow> u64 \<Rightarrow> bug_world \<Rightarrow> bug_world" where
  "DetachClosed env bug_id w =
     (case erase_record bug_id w of (None, w1) \<Rightarrow> w1 | (Some (r, orphan), w1) \<Rightarrow> free_record env r orphan w1)"

definition OswMediaBugTrampoline :: "bug_env \<Rightarrow> nat \<Rightarrow> abc_type \<Rightarrow> bug_world \<Rightarrow> bug_world" where
  "OswMediaBugTrampoline env ctx type w =
     (case bm_heap w ctx of None \<Rightarrow> w\<lparr>bm_faults := bm_faults w + 1\<rparr>
      | Some c \<Rightarrow>
          if type = ABC_CLOSE then user_callback (cx_user_cb c) (cx_user_data c) type (DetachClosed env (cx_bug_id c) w)
          else user_callback (cx_user_cb c) (cx_user_data c) type w)"

definition FsMediaBugRemove :: "bug_env \<Rightarrow> nat \<Rightarrow> bug_world \<Rightarrow> bug_world" where
  "FsMediaBugRemove env ptr w =
     (case fs_bugs w ptr of None \<Rightarrow> w
      | Some b \<Rightarrow> OswMediaBugTrampoline env (fb_ctx b) ABC_CLOSE (w\<lparr>fs_bugs := (fs_bugs w)(ptr := None)\<rparr>))"

definition remove_and_free :: "bug_env \<Rightarrow> BugRecord \<Rightarrow> bool \<Rightarrow> bug_world \<Rightarrow> bug_world" where
  "remove_and_free env r orphan w = free_record env r orphan (FsMediaBugRemove env (rec_fs_bug r) w)"

definition DetachInternal :: "bug_env \<Rightarrow> u64 \<Rightarrow> bool \<Rightarrow> bug_world \<Rightarrow> bug_world" where
  "DetachInternal env bug_id call_remove_callback w =
     (if call_remove_callback
      then (case erase_record bug_id w of (None, w1) \<Rightarrow> w1 | (Some (r, orphan), w1) \<Rightarrow> remove_and_free env r orphan w1)
      else DetachClosed env bug_id w)"

definition Bug_Detach :: "bug_env \<Rightarrow> u64 \<Rightarrow> bug_world \<Rightarrow> bug_world" where
  "Bug_Detach env bug_id w = DetachInternal env bug_id True w"

definition Bug_DetachAll :: "bug_env \<Rightarrow> string \<Rightarrow> bug_world \<Rightarrow> bug_world" where
  "Bug_DetachAll env uuid w =
     (case bm_by_channel w uuid of None \<Rightarrow> w | Some ids \<Rightarrow> fold (\<lambda>i. DetachInternal env i False) ids w)"

definition SetBugCallback :: "u64 \<Rightarrow> nat option \<Rightarrow> nat \<Rightarrow> bug_world \<Rightarrow> bool \<times> bug_world" where
  "SetBugCallback bug_id user_cb user_data w =
     (case bm_by_id w bug_id of None \<Rightarrow> (False, w)
      | Some r \<Rightarrow>
          (case bm_heap w (rec_ctx r) of None \<Rightarrow> (True, w\<lparr>bm_faults := bm_faults w + 1\<rparr>)
           | Some c \<Rightarrow> (True, w\<lparr>bm_heap := (bm_heap w)(rec_ctx r \<mapsto> c\<lparr>cx_user_cb := user_cb, cx_user_data := user_data\<rparr>)\<rparr>)))"

definition SetSilenceDriverRegistry :: "bool \<Rightarrow> bug_world \<Rightarrow> bug_world" where
  "SetSilenceDriverRegistry wired w = w\<lparr>bm_silence_wired := wired\<rparr>"

definition RemoveSilenceDriverForChannel :: "bug_env \<Rightarrow> string \<Rightarrow> bug_world \<Rightarrow> bug_world" where
  "RemoveSilenceDriverForChannel env uuid w =
     (if bm_silence_wired w then w\<lparr>bm_silence := RemoveForChannel (ev_lockable env) uuid (bm_silence w)\<rparr> else w)"

text \<open>The destructor deletes the records, not their contexts.\<close>

definition MediaBugManager_delete :: "bug_world \<Rightarrow> bug_world" where
  "MediaBugManager_delete w = w\<lparr>bm_by_id := Map.empty, bm_by_channel := Map.empty\<rparr>"

text \<open>
  The CS_DESTROY hook: the globals that \<open>RegisterStateHandlers\<close> sets, and the hook itself on the module's
  manager and the fall-back singleton. The session is its channel state (None without a channel; 12 is
  CS_DESTROY) and its uuid; the cleanup of the stream registry is a function on the module's world.
\<close>

record state_hook =
  hk_manager :: bool
  hk_active_streams :: bool
  hk_cleanup_fn :: "(string \<Rightarrow> bug_world \<Rightarrow> bug_world) option"

definition RegisterStateHandlers :: "bool \<Rightarrow> (string \<Rightarrow> bug_world \<Rightarrow> bug_world) option \<Rightarrow> state_hook" where
  "RegisterStateHandlers active_streams cleanup_fn =
     \<lparr>hk_manager = True, hk_active_streams = active_streams, hk_cleanup_fn = cleanup_fn\<rparr>"

definition UnregisterStateHandlers :: state_hook where
  "UnregisterStateHandlers = \<lparr>hk_manager = False, hk_active_streams = False, hk_cleanup_fn = None\<rparr>"

definition OswMediaChannelDestroy ::
  "bug_env \<Rightarrow> state_hook \<Rightarrow> nat option \<Rightarrow> string \<Rightarrow> bug_world \<times> bug_world \<Rightarrow> bug_world \<times> bug_world" where
  "OswMediaChannelDestroy env hook state uuid = (\<lambda>(w, singleton).
     if state \<noteq> None \<and> state \<noteq> Some 12 then (w, singleton)
     else if uuid = [] then (w, singleton)
     else
       let w1 = (case hk_cleanup_fn hook of
                   Some cleanup \<Rightarrow> if hk_active_streams hook then cleanup uuid w else w
                 | None \<Rightarrow> w);
           sweep = (\<lambda>m. RemoveSilenceDriverForChannel env uuid (Bug_DetachAll env uuid m))
       in if hk_manager hook then (sweep w1, singleton) else (w1, sweep singleton))"

section \<open>Attaching\<close>

text \<open>The checks under the registry lock: a refusal or the effective flags.\<close>

definition check_attach :: "string \<Rightarrow> BugConfig \<Rightarrow> bug_world \<Rightarrow> grpc_status + u32" where
  "check_attach uuid cfg w =
     (if bg_purpose cfg = kRecordingRelay \<and> \<not> HasInjectBugLocked uuid w
      then Inl (FAILED_PRECONDITION,
        ''recording relay requires an active INJECT bug (tts_playback or voicebot_duplex_write)'')
      else if bg_purpose cfg \<noteq> kRecordingRelay \<and> HasPurpose uuid (bg_purpose cfg) w
      then Inl (ALREADY_EXISTS, ''purpose already attached: '' @ MediaPurposeName (bg_purpose cfg))
      else
        let this_rank = StageRank (bg_purpose cfg); max_rank = MaxRankForChannel uuid w
        in if bg_purpose cfg = kVadBargeIn then Inr (bg_fs_flags cfg OR kSmbfFirst)
           else if this_rank < max_rank \<and> bg_fs_flags cfg AND kSmbfFirst = 0
           then Inl (FAILED_PRECONDITION, ''out-of-order attach: purpose='' @ MediaPurposeName (bg_purpose cfg)
             @ '' rank='' @ decimal this_rank @ '' already-attached max-rank='' @ decimal max_rank)
           else Inr (bg_fs_flags cfg))"

text \<open>An attach between the addition on FreeSWITCH's side and the registration; it holds the channel lock.\<close>

record attach_pending =
  pa_id :: u64
  pa_session :: silence_session
  pa_config :: BugConfig
  pa_fs_bug :: nat
  pa_ctx :: nat

definition Attach_begin ::
  "silence_session \<Rightarrow> BugConfig \<Rightarrow> bool \<Rightarrow> nat \<Rightarrow> bug_world \<Rightarrow> (grpc_status + attach_pending) \<times> bug_world" where
  "Attach_begin session cfg alloc_ctx rc w =
     (if ss_uuid session = [] then (Inl (INVALID_ARGUMENT, ''session has no UUID''), w)
      else case check_attach (ss_uuid session) cfg w of
        Inl st \<Rightarrow> (Inl st, w)
      | Inr effective_flags \<Rightarrow>
          let assigned_id = bm_next_id w; w1 = w\<lparr>bm_next_id := bm_next_id w + 1\<rparr>
          in if \<not> alloc_ctx then (Inl (RESOURCE_EXHAUSTED, ''failed to allocate BugCallbackContext''), w1)
             else case new_ctx assigned_id w1 of (ctx, w2) \<Rightarrow>
               if rc \<noteq> 0
               then (Inl (INTERNAL, ''switch_core_media_bug_add failed: rc='' @ decimal rc), delete_ctx ctx w2)
               else (Inr \<lparr>pa_id = assigned_id, pa_session = session, pa_config = cfg\<lparr>bg_fs_flags := effective_flags\<rparr>,
                          pa_fs_bug = fs_fresh w2, pa_ctx = ctx\<rparr>,
                     w2\<lparr>fs_bugs := (fs_bugs w2)(fs_fresh w2 \<mapsto>
                          \<lparr>fb_channel_uuid = ss_uuid session, fb_ctx = ctx, fb_flags = effective_flags\<rparr>),
                        fs_fresh := fs_fresh w2 + 1\<rparr>))"

definition record_of :: "attach_pending \<Rightarrow> BugRecord" where
  "record_of p = \<lparr>rec_id = pa_id p, rec_purpose = bg_purpose (pa_config p), rec_channel_uuid = ss_uuid (pa_session p),
                  rec_fs_bug = pa_fs_bug p, rec_config = pa_config p, rec_ctx = pa_ctx p\<rparr>"

definition register_record :: "BugRecord \<Rightarrow> bug_world \<Rightarrow> bug_world" where
  "register_record r w =
     w\<lparr>bm_by_id := (if bm_by_id w (rec_id r) = None then (bm_by_id w)(rec_id r \<mapsto> r) else bm_by_id w),
       bm_by_channel := (bm_by_channel w)(rec_channel_uuid r \<mapsto>
         (case bm_by_channel w (rec_channel_uuid r) of None \<Rightarrow> [] | Some ids \<Rightarrow> ids) @ [rec_id r])\<rparr>"

section \<open>Handles\<close>

record BugHandle =
  bh_manager :: bool
  bh_bug_id :: u64
  bh_purpose :: Purpose
  bh_channel_uuid :: string

definition BugHandle_empty :: BugHandle where
  "BugHandle_empty = \<lparr>bh_manager = False, bh_bug_id = 0, bh_purpose = kUnspecified, bh_channel_uuid = []\<rparr>"

definition BugHandle_delete :: "bug_env \<Rightarrow> BugHandle \<Rightarrow> bug_world \<Rightarrow> bug_world" where
  "BugHandle_delete env h w = (if bh_manager h then Bug_Detach env (bh_bug_id h) w else w)"

text \<open>Moving out of a handle: the new handle and what is left of the old one (its string was moved from).\<close>

definition BugHandle_move :: "BugHandle \<Rightarrow> BugHandle \<times> BugHandle" where
  "BugHandle_move other = (other, BugHandle_empty)"

definition BugHandle_assign :: "bug_env \<Rightarrow> BugHandle \<Rightarrow> BugHandle \<Rightarrow> bug_world \<Rightarrow> BugHandle \<times> BugHandle \<times> bug_world" where
  "BugHandle_assign env this other w =
     (case BugHandle_move other of (new, rest) \<Rightarrow>
       (new, rest, if bh_manager this then Bug_Detach env (bh_bug_id this) w else w))"

definition BugHandle_release :: "BugHandle \<Rightarrow> BugHandle" where
  "BugHandle_release h = BugHandle_empty"

definition BugHandle_attached :: "BugHandle \<Rightarrow> bool" where
  "BugHandle_attached h \<longleftrightarrow> bh_manager h \<and> bh_bug_id h \<noteq> 0"

definition Attach_end ::
  "bug_env \<Rightarrow> attach_pending \<Rightarrow> bool \<Rightarrow> bug_world \<Rightarrow> (grpc_status + BugHandle) \<times> bug_world" where
  "Attach_end env p alloc_rec w =
     (if \<not> alloc_rec
      then (Inl (RESOURCE_EXHAUSTED, ''failed to allocate BugRecord''),
            delete_ctx (pa_ctx p) (FsMediaBugRemove env (pa_fs_bug p) w))
      else
        let w1 = register_record (record_of p) w;
            w2 = (if write_replace (bg_fs_flags (pa_config p)) \<and> bm_silence_wired w1
                  then w1\<lparr>bm_silence := AttachOpportunistic (ev_config env) (ev_broadcast env) (ev_lockable env)
                          (Some (pa_session p)) (bm_silence w1)\<rparr> else w1)
        in (Inr \<lparr>bh_manager = True, bh_bug_id = pa_id p, bh_purpose = bg_purpose (pa_config p),
                 bh_channel_uuid = ss_uuid (pa_session p)\<rparr>, w2))"

definition Attach ::
  "bug_env \<Rightarrow> silence_session \<Rightarrow> BugConfig \<Rightarrow> bool \<Rightarrow> nat \<Rightarrow> bool \<Rightarrow> bug_world \<Rightarrow> (grpc_status + BugHandle) \<times> bug_world" where
  "Attach env session cfg alloc_ctx rc alloc_rec w =
     (case Attach_begin session cfg alloc_ctx rc w of
        (Inl st, w1) \<Rightarrow> (Inl st, w1)
      | (Inr p, w1) \<Rightarrow> Attach_end env p alloc_rec w1)"

section \<open>Interleavings\<close>

text \<open>
  Attaching and detaching each happen in two steps, with FreeSWITCH's callbacks in between; \<open>sy_busy\<close>
  says which of them holds the lifecycle lock of a channel. A step that would have to wait for that lock is
  not enabled (None), nor is an attach after the 64-bit ids are used up. The channel-wide detach
  runs at CS_DESTROY, when FreeSWITCH has closed every bug of the channel. A close by FreeSWITCH of a bug
  without record returns before it takes the lock.
\<close>

datatype lifecycle = Attaching attach_pending | Detaching BugRecord bool

record bug_sys =
  sy_world :: bug_world
  sy_busy :: "string \<rightharpoonup> lifecycle"

datatype bug_step_op =
    Op_attach_begin silence_session BugConfig bool nat
  | Op_attach_end string bool
  | Op_detach_begin u64
  | Op_detach_end string
  | Op_callback nat abc_type
  | Op_close nat
  | Op_set_callback u64 "nat option" nat
  | Op_detach_all string

fun bug_step :: "bug_env \<Rightarrow> bug_step_op \<Rightarrow> bug_sys \<Rightarrow> bug_sys option" where
  "bug_step env (Op_attach_begin session cfg alloc rc) s =
     (if sy_busy s (ss_uuid session) \<noteq> None \<or> bm_next_id (sy_world s) = - 1 then None
      else case Attach_begin session cfg alloc rc (sy_world s) of
        (Inl _, w) \<Rightarrow> Some (s\<lparr>sy_world := w\<rparr>)
      | (Inr p, w) \<Rightarrow> Some (s\<lparr>sy_world := w, sy_busy := (sy_busy s)(ss_uuid session \<mapsto> Attaching p)\<rparr>))"
| "bug_step env (Op_attach_end uuid alloc) s =
     (case sy_busy s uuid of
        Some (Attaching p) \<Rightarrow>
          Some (s\<lparr>sy_world := snd (Attach_end env p alloc (sy_world s)), sy_busy := (sy_busy s)(uuid := None)\<rparr>)
      | _ \<Rightarrow> None)"
| "bug_step env (Op_detach_begin bug_id) s =
     (case bm_by_id (sy_world s) bug_id of None \<Rightarrow> Some s
      | Some r \<Rightarrow>
          if sy_busy s (rec_channel_uuid r) \<noteq> None then None
          else (case erase_record bug_id (sy_world s) of
                  (None, w) \<Rightarrow> Some (s\<lparr>sy_world := w\<rparr>)
                | (Some (r, orphan), w) \<Rightarrow>
                    Some (s\<lparr>sy_world := w, sy_busy := (sy_busy s)(rec_channel_uuid r \<mapsto> Detaching r orphan)\<rparr>)))"
| "bug_step env (Op_detach_end uuid) s =
     (case sy_busy s uuid of
        Some (Detaching r orphan) \<Rightarrow>
          Some (s\<lparr>sy_world := remove_and_free env r orphan (sy_world s), sy_busy := (sy_busy s)(uuid := None)\<rparr>)
      | _ \<Rightarrow> None)"
| "bug_step env (Op_callback ptr type) s =
     (case fs_bugs (sy_world s) ptr of None \<Rightarrow> None
      | Some b \<Rightarrow>
          if type = ABC_CLOSE then None
          else Some (s\<lparr>sy_world := OswMediaBugTrampoline env (fb_ctx b) type (sy_world s)\<rparr>))"
| "bug_step env (Op_close ptr) s =
     (case fs_bugs (sy_world s) ptr of None \<Rightarrow> None
      | Some b \<Rightarrow>
          if (case bm_heap (sy_world s) (fb_ctx b) of None \<Rightarrow> False
              | Some c \<Rightarrow> (case bm_by_id (sy_world s) (cx_bug_id c) of None \<Rightarrow> False
                         | Some r \<Rightarrow> sy_busy s (rec_channel_uuid r) \<noteq> None))
          then None else Some (s\<lparr>sy_world := FsMediaBugRemove env ptr (sy_world s)\<rparr>))"
| "bug_step env (Op_set_callback bug_id cb user_data) s =
     Some (s\<lparr>sy_world := snd (SetBugCallback bug_id cb user_data (sy_world s))\<rparr>)"
| "bug_step env (Op_detach_all uuid) s =
     (if sy_busy s uuid \<noteq> None \<or> (\<exists>b \<in> ran (fs_bugs (sy_world s)). fb_channel_uuid b = uuid) then None
      else Some (s\<lparr>sy_world := Bug_DetachAll env uuid (sy_world s)\<rparr>))"

fun bug_run :: "bug_env \<Rightarrow> bug_step_op list \<Rightarrow> bug_sys \<Rightarrow> bug_sys option" where
  "bug_run env [] s = Some s"
| "bug_run env (op # ops) s = (case bug_step env op s of None \<Rightarrow> None | Some s' \<Rightarrow> bug_run env ops s')"

definition bug_sys_new :: "bool \<Rightarrow> bug_sys" where
  "bug_sys_new wired = \<lparr>sy_world = MediaBugManager_new wired, sy_busy = Map.empty\<rparr>"

end
