(* ===== verification/Media_BugSafety.thy ===== *)
theory Media_BugSafety
  imports Media_Bug
begin

text \<open>
  Memory safety of the media bug manager under interleaving: FreeSWITCH never calls back into a freed
  context, no context is freed twice or lost, and the channel index is exact.
\<close>

section \<open>The index\<close>

definition idx_inv :: "bug_world \<Rightarrow> bool" where
  "idx_inv w \<longleftrightarrow>
     (\<forall>u ids. bm_by_channel w u = Some ids \<longrightarrow>
        ids \<noteq> [] \<and> distinct ids \<and> (\<forall>i \<in> set ids. \<exists>r. bm_by_id w i = Some r \<and> rec_channel_uuid r = u))
     \<and> (\<forall>i r. bm_by_id w i = Some r \<longrightarrow>
          rec_id r = i \<and> (\<exists>ids. bm_by_channel w (rec_channel_uuid r) = Some ids \<and> i \<in> set ids))"

lemma idx_record: "idx_inv w \<Longrightarrow> bm_by_id w i = Some r \<Longrightarrow> rec_id r = i"
  by (simp add: idx_inv_def)

lemma idx_listed:
  "idx_inv w \<Longrightarrow> bm_by_channel w u = Some ids \<Longrightarrow> i \<in> set ids \<Longrightarrow> \<exists>r. bm_by_id w i = Some r \<and> rec_channel_uuid r = u"
  by (simp add: idx_inv_def)

lemma idx_ids: "idx_inv w \<Longrightarrow> bm_by_channel w u = Some ids \<Longrightarrow> ids \<noteq> [] \<and> distinct ids"
  by (simp add: idx_inv_def)

lemma idx_indexed:
  assumes "idx_inv w" "bm_by_id w i = Some r"
  obtains ids where "bm_by_channel w (rec_channel_uuid r) = Some ids" "i \<in> set ids" "distinct ids"
proof -
  from assms have "\<exists>ids. bm_by_channel w (rec_channel_uuid r) = Some ids \<and> i \<in> set ids"
    unfolding idx_inv_def by blast
  then show ?thesis using that idx_ids [OF assms(1)] by blast
qed

lemma idx_frame:
  "bm_by_id w' = bm_by_id w \<Longrightarrow> bm_by_channel w' = bm_by_channel w \<Longrightarrow> idx_inv w' = idx_inv w"
  by (simp add: idx_inv_def)

text \<open>The world after erasing a record.\<close>

definition erased :: "BugRecord \<Rightarrow> bug_world \<Rightarrow> bug_world" where
  "erased r w = w\<lparr>bm_by_id := (bm_by_id w)(rec_id r := None),
     bm_by_channel := (bm_by_channel w)(rec_channel_uuid r :=
       (case filter (\<lambda>i. i \<noteq> rec_id r) (case bm_by_channel w (rec_channel_uuid r) of None \<Rightarrow> [] | Some ids \<Rightarrow> ids) of
          [] \<Rightarrow> None | ids \<Rightarrow> Some ids))\<rparr>"

lemma erase_record_eq:
  assumes "idx_inv w" "bm_by_id w i = Some r"
  obtains orphan where "erase_record i w = (Some (r, orphan), erased r w)"
    "orphan \<longleftrightarrow> write_replace (bg_fs_flags (rec_config r)) \<and> \<not> HasWriteReplaceBug (rec_channel_uuid r) (erased r w)"
proof -
  obtain ids where ids: "bm_by_channel w (rec_channel_uuid r) = Some ids" "i \<in> set ids"
    using idx_indexed [OF assms] by blast
  have i: "rec_id r = i" using idx_record [OF assms] .
  let ?l = "filter (\<lambda>j. j \<noteq> i) ids"
  have ce: "(if ?l = [] then None else Some ?l) = (case ?l of [] \<Rightarrow> None | l \<Rightarrow> Some l)" by (simp split: list.split)
  let ?w1 = "w\<lparr>bm_by_channel := (bm_by_channel w)(rec_channel_uuid r := (case ?l of [] \<Rightarrow> None | l \<Rightarrow> Some l))\<rparr>"
  have "List.map_filter ((bm_by_id w)(i := None)) ?l = List.map_filter (bm_by_id w) ?l"
    by (auto simp: List.map_filter_def intro!: arg_cong [of _ _ "map the"] filter_cong map_cong)
  then have "channel_records (rec_channel_uuid r) (erased r w) = channel_records (rec_channel_uuid r) ?w1"
    using ids i by (auto simp: channel_records_def erased_def split: option.split list.split)
  then show ?thesis using that assms(2) ids i
    by (simp add: erase_record_def Let_def ce HasWriteReplaceBug_def erased_def)
qed

lemma erase_record_None: "bm_by_id w i = None \<Longrightarrow> erase_record i w = (None, w)"
  by (simp add: erase_record_def)

lemma idx_erased [osw_inv]:
  assumes "idx_inv w" "bm_by_id w (rec_id r) = Some r"
  shows "idx_inv (erased r w)"
proof -
  let ?i = "rec_id r" and ?u = "rec_channel_uuid r"
  obtain ids where ids: "bm_by_channel w ?u = Some ids" "?i \<in> set ids" "distinct ids"
    using idx_indexed [OF assms] .
  let ?l = "filter (\<lambda>j. j \<noteq> ?i) ids"
  have ch: "bm_by_channel (erased r w) = (bm_by_channel w)(?u := (case ?l of [] \<Rightarrow> None | l \<Rightarrow> Some l))"
    and bi: "bm_by_id (erased r w) = (bm_by_id w)(?i := None)"
    using ids by (simp_all add: erased_def)
  have 1: "ks \<noteq> [] \<and> distinct ks \<and> (\<forall>j \<in> set ks. \<exists>q. bm_by_id (erased r w) j = Some q \<and> rec_channel_uuid q = v)"
    if "bm_by_channel (erased r w) v = Some ks" for v ks
  proof (cases "v = ?u")
    case True
    then have "ks = ?l" "?l \<noteq> []" using that ch by (auto split: list.splits)
    moreover have "\<exists>q. bm_by_id (erased r w) j = Some q \<and> rec_channel_uuid q = v" if "j \<in> set ?l" for j
      using that idx_listed [OF assms(1) ids(1), of j] True by (auto simp: bi)
    ultimately show ?thesis using ids(3) by simp
  next
    case False
    then have k: "bm_by_channel w v = Some ks" using that ch by simp
    have "?i \<notin> set ks" using idx_listed [OF assms(1) k, of ?i] assms(2) False by auto
    then have "\<exists>q. bm_by_id (erased r w) j = Some q \<and> rec_channel_uuid q = v" if "j \<in> set ks" for j
      using that idx_listed [OF assms(1) k, of j] by (auto simp: bi)
    then show ?thesis using idx_ids [OF assms(1) k] by blast
  qed
  have 2: "rec_id q = j \<and> (\<exists>ks. bm_by_channel (erased r w) (rec_channel_uuid q) = Some ks \<and> j \<in> set ks)"
    if "bm_by_id (erased r w) j = Some q" for j q
  proof -
    have q: "bm_by_id w j = Some q" "j \<noteq> ?i" using that by (auto simp: bi split: if_splits)
    obtain ks where ks: "bm_by_channel w (rec_channel_uuid q) = Some ks" "j \<in> set ks"
      using idx_indexed [OF assms(1) q(1)] .
    have j: "rec_id q = j" using idx_record [OF assms(1) q(1)] .
    show ?thesis
    proof (cases "rec_channel_uuid q = ?u")
      case True
      then have "j \<in> set ?l" using ks ids q(2) by auto
      then have "(case ?l of [] \<Rightarrow> None | l \<Rightarrow> Some l) = Some ?l" by (cases ?l) auto
      then show ?thesis using True j \<open>j \<in> set ?l\<close> by (simp add: ch)
    qed (use j ks ch in auto)
  qed
  show ?thesis unfolding idx_inv_def using 1 2 by blast
qed

lemma idx_register [osw_inv]:
  assumes "idx_inv w" "bm_by_id w (rec_id r) = None"
  shows "idx_inv (register_record r w)"
proof -
  let ?i = "rec_id r" and ?u = "rec_channel_uuid r"
  define old where "old = (case bm_by_channel w ?u of None \<Rightarrow> [] | Some ids \<Rightarrow> ids)"
  have old: "\<exists>q. bm_by_id w j = Some q \<and> rec_channel_uuid q = ?u" if "j \<in> set old" for j
  proof (cases "bm_by_channel w ?u")
    case (Some ids)
    then show ?thesis using idx_listed [OF assms(1) Some, of j] that by (simp add: old_def)
  qed (use that in \<open>simp add: old_def\<close>)
  have dist: "distinct old" using idx_ids [OF assms(1), of ?u] by (simp add: old_def split: option.split)
  have new: "?i \<notin> set old" using assms(2) old [of ?i] by auto
  have ch: "bm_by_channel (register_record r w) = (bm_by_channel w)(?u \<mapsto> old @ [?i])"
    and bi: "bm_by_id (register_record r w) = (bm_by_id w)(?i \<mapsto> r)"
    using assms(2) by (simp_all add: register_record_def old_def)
  have 1: "ks \<noteq> [] \<and> distinct ks \<and> (\<forall>j \<in> set ks. \<exists>q. bm_by_id (register_record r w) j = Some q \<and> rec_channel_uuid q = v)"
    if "bm_by_channel (register_record r w) v = Some ks" for v ks
  proof (cases "v = ?u")
    case True
    moreover have "\<exists>q. bm_by_id (register_record r w) j = Some q \<and> rec_channel_uuid q = ?u" if "j \<in> set (old @ [?i])" for j
      using that old [of j] new by (auto simp: bi)
    ultimately show ?thesis using that dist new by (auto simp: ch)
  next
    case False
    then have k: "bm_by_channel w v = Some ks" using that ch by simp
    have "?i \<notin> set ks" using idx_listed [OF assms(1) k, of ?i] assms(2) by auto
    then have "\<exists>q. bm_by_id (register_record r w) j = Some q \<and> rec_channel_uuid q = v" if "j \<in> set ks" for j
      using that idx_listed [OF assms(1) k, of j] by (auto simp: bi)
    then show ?thesis using idx_ids [OF assms(1) k] by blast
  qed
  have 2: "rec_id q = j \<and> (\<exists>ks. bm_by_channel (register_record r w) (rec_channel_uuid q) = Some ks \<and> j \<in> set ks)"
    if "bm_by_id (register_record r w) j = Some q" for j q
  proof (cases "j = ?i")
    case False
    then have q: "bm_by_id w j = Some q" using that by (simp add: bi)
    obtain ks where ks: "bm_by_channel w (rec_channel_uuid q) = Some ks" "j \<in> set ks" using idx_indexed [OF assms(1) q] .
    then show ?thesis using idx_record [OF assms(1) q] by (cases "rec_channel_uuid q = ?u") (auto simp: ch old_def)
  qed (use that bi ch in auto)
  show ?thesis unfolding idx_inv_def using 1 2 by blast
qed

section \<open>Ownership of contexts\<close>

text \<open>The record that an unfinished operation stands for, and all records that own a context.\<close>

fun busy_rec :: "lifecycle \<Rightarrow> BugRecord" where
  "busy_rec (Attaching p) = record_of p"
| "busy_rec (Detaching r orphan) = r"

definition owners :: "bug_sys \<Rightarrow> BugRecord set" where
  "owners s = ran (bm_by_id (sy_world s)) \<union> busy_rec ` ran (sy_busy s)"

definition mem_core :: "BugRecord set \<Rightarrow> bug_world \<Rightarrow> bool" where
  "mem_core own w \<longleftrightarrow>
     (\<forall>r \<in> own. \<forall>q \<in> own. rec_id r = rec_id q \<or> rec_fs_bug r = rec_fs_bug q \<longrightarrow> r = q)
     \<and> (\<forall>r \<in> own. rec_id r < bm_next_id w \<and> rec_fs_bug r < fs_fresh w
          \<and> (\<exists>c. bm_heap w (rec_ctx r) = Some c \<and> cx_bug_id c = rec_id r))
     \<and> (\<forall>a c. bm_heap w a = Some c \<longrightarrow> a < bm_fresh w \<and> (\<exists>r \<in> own. rec_ctx r = a))
     \<and> (\<forall>ptr b. fs_bugs w ptr = Some b \<longrightarrow>
          (\<exists>r \<in> own. rec_ctx r = fb_ctx b \<and> rec_fs_bug r = ptr \<and> rec_channel_uuid r = fb_channel_uuid b))
     \<and> bm_faults w = 0"

lemma core_I:
  assumes "\<And>r q. r \<in> own \<Longrightarrow> q \<in> own \<Longrightarrow> rec_id r = rec_id q \<or> rec_fs_bug r = rec_fs_bug q \<Longrightarrow> r = q"
    and "\<And>r. r \<in> own \<Longrightarrow> rec_id r < bm_next_id w \<and> rec_fs_bug r < fs_fresh w
           \<and> (\<exists>c. bm_heap w (rec_ctx r) = Some c \<and> cx_bug_id c = rec_id r)"
    and "\<And>a c. bm_heap w a = Some c \<Longrightarrow> a < bm_fresh w \<and> (\<exists>r \<in> own. rec_ctx r = a)"
    and "\<And>ptr b. fs_bugs w ptr = Some b \<Longrightarrow>
           \<exists>r \<in> own. rec_ctx r = fb_ctx b \<and> rec_fs_bug r = ptr \<and> rec_channel_uuid r = fb_channel_uuid b"
    and "bm_faults w = 0"
  shows "mem_core own w"
  unfolding mem_core_def using assms by simp

lemma core_id:
  "mem_core own w \<Longrightarrow> r \<in> own \<Longrightarrow> q \<in> own \<Longrightarrow> rec_id r = rec_id q \<or> rec_fs_bug r = rec_fs_bug q \<Longrightarrow> r = q"
  unfolding mem_core_def by blast

lemma core_live:
  assumes "mem_core own w" "r \<in> own"
  obtains c where "bm_heap w (rec_ctx r) = Some c" "cx_bug_id c = rec_id r"
  using assms unfolding mem_core_def by blast

lemma core_bounds: "mem_core own w \<Longrightarrow> r \<in> own \<Longrightarrow> rec_id r < bm_next_id w \<and> rec_fs_bug r < fs_fresh w"
  by (simp add: mem_core_def)

lemma core_ctx:
  assumes "mem_core own w" "r \<in> own" "q \<in> own" "rec_ctx r = rec_ctx q"
  shows "r = q"
proof -
  obtain c where "bm_heap w (rec_ctx r) = Some c" "cx_bug_id c = rec_id r" using core_live [OF assms(1,2)] .
  moreover obtain d where "bm_heap w (rec_ctx q) = Some d" "cx_bug_id d = rec_id q" using core_live [OF assms(1,3)] .
  ultimately show ?thesis using assms core_id by simp
qed

lemma core_fs:
  assumes "mem_core own w" "fs_bugs w ptr = Some b"
  obtains r where "r \<in> own" "rec_ctx r = fb_ctx b" "rec_fs_bug r = ptr" "rec_channel_uuid r = fb_channel_uuid b"
  using assms unfolding mem_core_def by blast

lemma core_owned:
  assumes "mem_core own w" "bm_heap w a = Some c"
  shows "a < bm_fresh w" "\<exists>r \<in> own. rec_ctx r = a"
  using assms unfolding mem_core_def by blast+

lemma core_frame:
  "bm_next_id w' = bm_next_id w \<Longrightarrow> bm_heap w' = bm_heap w \<Longrightarrow> bm_fresh w' = bm_fresh w \<Longrightarrow> bm_faults w' = bm_faults w
   \<Longrightarrow> fs_bugs w' = fs_bugs w \<Longrightarrow> fs_fresh w' = fs_fresh w \<Longrightarrow> mem_core own w' = mem_core own w"
  by (simp add: mem_core_def)

lemma core_unlink: "mem_core own w \<Longrightarrow> mem_core own (w\<lparr>fs_bugs := (fs_bugs w)(ptr := None)\<rparr>)"
  by (simp add: mem_core_def)

lemma core_free:
  assumes core: "mem_core own w" and r: "r \<in> own" and un: "fs_bugs w (rec_fs_bug r) = None"
  shows "mem_core (own - {r}) (delete_ctx (rec_ctx r) w)"
proof -
  obtain c where c: "bm_heap w (rec_ctx r) = Some c" using core_live [OF core r] .
  then have w': "delete_ctx (rec_ctx r) w = w\<lparr>bm_heap := (bm_heap w)(rec_ctx r := None)\<rparr>" by (simp add: delete_ctx_def)
  have live: "\<exists>d. bm_heap (delete_ctx (rec_ctx r) w) (rec_ctx q) = Some d \<and> cx_bug_id d = rec_id q" if "q \<in> own - {r}" for q
  proof -
    have q: "q \<in> own" using that by blast
    obtain d where "bm_heap w (rec_ctx q) = Some d" "cx_bug_id d = rec_id q" using core_live [OF core q] .
    moreover have "rec_ctx q \<noteq> rec_ctx r" using core_ctx [OF core r, of q] that by auto
    ultimately show ?thesis by (simp add: w')
  qed
  have owned: "a < bm_fresh w \<and> (\<exists>q \<in> own - {r}. rec_ctx q = a)" if "bm_heap (delete_ctx (rec_ctx r) w) a = Some d" for a d
  proof -
    have "bm_heap w a = Some d" "a \<noteq> rec_ctx r" using that by (auto simp: w' split: if_splits)
    then show ?thesis using core_owned [OF core] by blast
  qed
  have fs: "\<exists>q \<in> own - {r}. rec_ctx q = fb_ctx b \<and> rec_fs_bug q = ptr \<and> rec_channel_uuid q = fb_channel_uuid b"
    if b: "fs_bugs w ptr = Some b" for ptr b
  proof -
    obtain q where q: "q \<in> own" "rec_ctx q = fb_ctx b" "rec_fs_bug q = ptr" "rec_channel_uuid q = fb_channel_uuid b"
      using core_fs [OF core b] .
    then have "q \<noteq> r" using un b by auto
    then show ?thesis using q by blast
  qed
  have "bm_faults w = 0" using core by (simp add: mem_core_def)
  then have faults: "bm_faults (delete_ctx (rec_ctx r) w) = 0" by (simp add: w')
  show ?thesis
    by (rule core_I) (use core_id [OF core] in blast, use live core_bounds [OF core] in \<open>simp add: w'\<close>,
      use owned in \<open>simp add: w'\<close>, use fs in \<open>simp add: w'\<close>, fact faults)
qed

lemma word_less_Suc:
  fixes x :: "'a :: len word"
  assumes "x \<noteq> - 1" "y \<le> x"
  shows "y < x + 1"
proof -
  have "x + 1 \<noteq> 0" using assms(1) by (simp add: eq_neg_iff_add_eq_0)
  then have "unat (x + 1) = Suc (unat x)" by (metis unatSuc add.commute)
  then show ?thesis using assms(2) by (simp add: word_less_nat_alt word_le_nat_alt)
qed

lemma core_new:
  assumes core: "mem_core own w" and r: "rec_id r = bm_next_id w" "rec_ctx r = bm_fresh w" "rec_fs_bug r = fs_fresh w"
    and nowrap: "bm_next_id w \<noteq> - 1"
    and b: "b = \<lparr>fb_channel_uuid = rec_channel_uuid r, fb_ctx = bm_fresh w, fb_flags = flags\<rparr>"
  shows "mem_core (insert r own) (w\<lparr>bm_next_id := bm_next_id w + 1,
      bm_heap := (bm_heap w)(bm_fresh w \<mapsto> \<lparr>cx_bug_id = bm_next_id w, cx_user_data = 0, cx_user_cb = None\<rparr>),
      bm_fresh := bm_fresh w + 1, fs_bugs := (fs_bugs w)(fs_fresh w \<mapsto> b), fs_fresh := fs_fresh w + 1\<rparr>)"
    (is "mem_core _ ?w")
proof -
  have old: "rec_id q < bm_next_id w" "rec_fs_bug q < fs_fresh w" "rec_ctx q < bm_fresh w"
    "\<exists>c. bm_heap w (rec_ctx q) = Some c \<and> cx_bug_id c = rec_id q" if mem: "q \<in> own" for q
  proof -
    obtain c where c: "bm_heap w (rec_ctx q) = Some c" "cx_bug_id c = rec_id q" using core_live [OF core mem] .
    show "rec_id q < bm_next_id w" "rec_fs_bug q < fs_fresh w" using core_bounds [OF core mem] by simp_all
    show "rec_ctx q < bm_fresh w" using core_owned(1) [OF core c(1)] .
    show "\<exists>c. bm_heap w (rec_ctx q) = Some c \<and> cx_bug_id c = rec_id q" using c by blast
  qed
  have ids: "p = q" if "p \<in> insert r own" "q \<in> insert r own"
    "rec_id p = rec_id q \<or> rec_fs_bug p = rec_fs_bug q" for p q
  proof (cases "p \<in> own \<and> q \<in> own")
    case True
    then show ?thesis using core_id [OF core _ _ that(3)] by blast
  next
    case False
    then show ?thesis using that old(1,2) r(1,3) by (metis insertE less_irrefl)
  qed
  have live: "rec_id q < bm_next_id ?w \<and> rec_fs_bug q < fs_fresh ?w
      \<and> (\<exists>c. bm_heap ?w (rec_ctx q) = Some c \<and> cx_bug_id c = rec_id q)" if "q \<in> insert r own" for q
  proof (cases "q = r")
    case False
    then have q: "q \<in> own" using that by simp
    show ?thesis using old [OF q] word_less_Suc [OF nowrap, of "rec_id q"] by (auto simp: less_imp_le)
  qed (use r word_less_Suc [OF nowrap, of "bm_next_id w"] in auto)
  have owned: "a < bm_fresh ?w \<and> (\<exists>q \<in> insert r own. rec_ctx q = a)" if "bm_heap ?w a = Some c" for a c
  proof (cases "a = bm_fresh w")
    case False
    then have "bm_heap w a = Some c" using that by simp
    then show ?thesis using core_owned [OF core, of a c] by auto
  qed (use r in auto)
  have fs: "\<exists>q \<in> insert r own. rec_ctx q = fb_ctx d \<and> rec_fs_bug q = ptr \<and> rec_channel_uuid q = fb_channel_uuid d"
    if "fs_bugs ?w ptr = Some d" for ptr d
  proof (cases "ptr = fs_fresh w")
    case False
    then have "fs_bugs w ptr = Some d" using that by simp
    then obtain q where "q \<in> own" "rec_ctx q = fb_ctx d" "rec_fs_bug q = ptr" "rec_channel_uuid q = fb_channel_uuid d"
      by (rule core_fs [OF core])
    then show ?thesis by blast
  qed (use that r b in auto)
  have faults: "bm_faults ?w = 0" using core by (simp add: mem_core_def)
  show ?thesis by (rule core_I) (fact ids, fact live, fact owned, fact fs, fact faults)
qed

lemma core_mono:
  assumes "mem_core own w" "bm_next_id w \<le> n" "bm_fresh w \<le> f"
  shows "mem_core own (w\<lparr>bm_next_id := n, bm_fresh := f\<rparr>)"
proof -
  have "rec_id r < n" if "r \<in> own" for r using core_bounds [OF assms(1) that] assms(2) by (blast intro: less_le_trans)
  moreover have "a < f" if "bm_heap w a = Some c" for a c using core_owned(1) [OF assms(1) that] assms(3) by simp
  ultimately show ?thesis using assms(1) by (simp add: mem_core_def)
qed

lemma Attach_begin_core:
  assumes core: "mem_core own w" and nowrap: "bm_next_id w \<noteq> - 1"
    and run: "Attach_begin session cfg alloc rc w = (res, w')"
  shows "bm_by_id w' = bm_by_id w" "bm_by_channel w' = bm_by_channel w" "bm_silence w' = bm_silence w"
    "bm_silence_wired w' = bm_silence_wired w"
    "res = Inl st \<Longrightarrow> mem_core own w'"
    "res = Inr p \<Longrightarrow> mem_core (insert (record_of p) own) w' \<and> rec_id (record_of p) = bm_next_id w
       \<and> rec_channel_uuid (record_of p) = ss_uuid session"
proof -
  let ?w1 = "w\<lparr>bm_next_id := bm_next_id w + 1\<rparr>"
  have n: "bm_next_id w \<le> bm_next_id w + 1" using word_less_Suc [OF nowrap order_refl] by (rule less_imp_le)
  have w1: "mem_core own ?w1" using core_mono [OF core n order_refl] by (simp add: mem_core_def)
  show "bm_by_id w' = bm_by_id w" "bm_by_channel w' = bm_by_channel w" "bm_silence w' = bm_silence w"
    "bm_silence_wired w' = bm_silence_wired w"
    using run by (auto simp: Attach_begin_def Let_def new_ctx_def delete_ctx_def split: if_splits sum.splits)
  have "bm_heap w (bm_fresh w) = None"
    using core_owned(1) [OF core, of "bm_fresh w"] by (cases "bm_heap w (bm_fresh w)") auto
  then have h: "delete_ctx (bm_fresh w) (snd (new_ctx (bm_next_id w) ?w1)) = ?w1\<lparr>bm_fresh := bm_fresh w + 1\<rparr>"
    by (simp add: new_ctx_def delete_ctx_def fun_upd_idem)
  have w2: "mem_core own (?w1\<lparr>bm_fresh := bm_fresh w + 1\<rparr>)"
    using core_mono [OF core n, of "bm_fresh w + 1"] by simp
  have "w' = w \<or> w' = ?w1 \<or> w' = delete_ctx (bm_fresh w) (snd (new_ctx (bm_next_id w) ?w1))" if "res = Inl st"
    using run that by (auto simp: Attach_begin_def Let_def new_ctx_def split: if_splits sum.splits)
  then show "mem_core own w'" if "res = Inl st"
    using that core w1 w2 unfolding h by blast
  show "mem_core (insert (record_of p) own) w' \<and> rec_id (record_of p) = bm_next_id w
       \<and> rec_channel_uuid (record_of p) = ss_uuid session" if ok: "res = Inr p"
  proof -
    obtain flags where w': "w' = w\<lparr>bm_next_id := bm_next_id w + 1,
      bm_heap := (bm_heap w)(bm_fresh w \<mapsto> \<lparr>cx_bug_id = bm_next_id w, cx_user_data = 0, cx_user_cb = None\<rparr>),
      bm_fresh := bm_fresh w + 1,
      fs_bugs := (fs_bugs w)(fs_fresh w \<mapsto> \<lparr>fb_channel_uuid = ss_uuid session, fb_ctx = bm_fresh w, fb_flags = flags\<rparr>),
      fs_fresh := fs_fresh w + 1\<rparr>"
      and p: "p = \<lparr>pa_id = bm_next_id w, pa_session = session, pa_config = cfg\<lparr>bg_fs_flags := flags\<rparr>,
                 pa_fs_bug = fs_fresh w, pa_ctx = bm_fresh w\<rparr>"
      using run ok by (auto simp: Attach_begin_def Let_def new_ctx_def split: if_splits sum.splits)
    have r: "rec_id (record_of p) = bm_next_id w" "rec_ctx (record_of p) = bm_fresh w"
      "rec_fs_bug (record_of p) = fs_fresh w" "rec_channel_uuid (record_of p) = ss_uuid session"
      by (simp_all add: p record_of_def)
    show ?thesis unfolding w' using core_new [OF core r(1-3) nowrap refl] r by simp
  qed
qed

section \<open>Callbacks and removals\<close>

lemma user_callback_frame [simp]:
  "bm_by_id (user_callback cb d t w) = bm_by_id w" "bm_by_channel (user_callback cb d t w) = bm_by_channel w"
  "bm_heap (user_callback cb d t w) = bm_heap w" "bm_fresh (user_callback cb d t w) = bm_fresh w"
  "bm_faults (user_callback cb d t w) = bm_faults w" "bm_next_id (user_callback cb d t w) = bm_next_id w"
  "fs_bugs (user_callback cb d t w) = fs_bugs w" "fs_fresh (user_callback cb d t w) = fs_fresh w"
  "bm_silence (user_callback cb d t w) = bm_silence w" "bm_silence_wired (user_callback cb d t w) = bm_silence_wired w"
  by (simp_all add: user_callback_def split: option.split)

text \<open>
  \<open>same_regs w w'\<close>: the step from \<open>w\<close> to \<open>w'\<close> left the registries alone; \<open>same_mem\<close> is the same for
  the contexts and FreeSWITCH's bugs.
\<close>

definition same_regs :: "bug_world \<Rightarrow> bug_world \<Rightarrow> bool" where
  "same_regs w w' \<longleftrightarrow> bm_by_id w' = bm_by_id w \<and> bm_by_channel w' = bm_by_channel w
     \<and> bm_silence w' = bm_silence w \<and> bm_silence_wired w' = bm_silence_wired w"

definition same_mem :: "bug_world \<Rightarrow> bug_world \<Rightarrow> bool" where
  "same_mem w w' \<longleftrightarrow> bm_next_id w' = bm_next_id w \<and> bm_heap w' = bm_heap w \<and> bm_fresh w' = bm_fresh w
     \<and> bm_faults w' = bm_faults w \<and> fs_bugs w' = fs_bugs w \<and> fs_fresh w' = fs_fresh w"

lemma core_same: "same_mem w w' \<Longrightarrow> mem_core own w \<Longrightarrow> mem_core own w'"
  using core_frame [of w' w own] by (simp add: same_mem_def)

lemma user_callback_same: "same_regs w (user_callback cb d t w)" "same_mem w (user_callback cb d t w)"
  by (simp_all add: same_regs_def same_mem_def)

text \<open>Removing the bug of a record that is not registered only unlinks it.\<close>

lemma remove_unregistered:
  assumes core: "mem_core own w" and r: "r \<in> own" and un: "bm_by_id w (rec_id r) = None"
  shows "same_regs w (FsMediaBugRemove env (rec_fs_bug r) w)"
    "same_mem (w\<lparr>fs_bugs := (fs_bugs w)(rec_fs_bug r := None)\<rparr>) (FsMediaBugRemove env (rec_fs_bug r) w)"
proof -
  have "same_regs w (FsMediaBugRemove env (rec_fs_bug r) w)
    \<and> same_mem (w\<lparr>fs_bugs := (fs_bugs w)(rec_fs_bug r := None)\<rparr>) (FsMediaBugRemove env (rec_fs_bug r) w)"
  proof (cases "fs_bugs w (rec_fs_bug r)")
    case (Some b)
    obtain q where q: "q \<in> own" "rec_ctx q = fb_ctx b" "rec_fs_bug q = rec_fs_bug r" using core_fs [OF core Some] .
    then have "q = r" using core_id [OF core q(1) r] by simp
    moreover obtain c where "bm_heap w (rec_ctx r) = Some c" "cx_bug_id c = rec_id r" using core_live [OF core r] .
    ultimately show ?thesis using Some un q(2)
      by (simp add: FsMediaBugRemove_def OswMediaBugTrampoline_def DetachClosed_def erase_record_None same_regs_def same_mem_def)
  qed (simp add: FsMediaBugRemove_def same_regs_def same_mem_def fun_upd_idem)
  then show "same_regs w (FsMediaBugRemove env (rec_fs_bug r) w)"
    "same_mem (w\<lparr>fs_bugs := (fs_bugs w)(rec_fs_bug r := None)\<rparr>) (FsMediaBugRemove env (rec_fs_bug r) w)" by simp_all
qed

lemma delete_ctx_same: "same_regs w (delete_ctx a w)"
  by (simp add: same_regs_def delete_ctx_def)

lemma stop_silence_frame [simp]:
  "bm_by_id (stop_silence env o' u w) = bm_by_id w" "bm_by_channel (stop_silence env o' u w) = bm_by_channel w"
  "bm_silence_wired (stop_silence env o' u w) = bm_silence_wired w" "same_mem w (stop_silence env o' u w)"
  by (simp_all add: stop_silence_def same_mem_def)

lemma same_regs_trans: "same_regs w w' \<Longrightarrow> same_regs w' w'' \<Longrightarrow> same_regs w w''"
  by (simp add: same_regs_def)

lemma free_record_core:
  assumes "mem_core own w" "r \<in> own" "fs_bugs w (rec_fs_bug r) = None"
  shows "mem_core (own - {r}) (free_record env r orphan w)"
  unfolding free_record_def by (rule core_same [OF stop_silence_frame(4)]) (rule core_free [OF assms])

lemma free_record_regs [simp]:
  "bm_by_id (free_record env r orphan w) = bm_by_id w" "bm_by_channel (free_record env r orphan w) = bm_by_channel w"
  "bm_silence_wired (free_record env r orphan w) = bm_silence_wired w"
  using delete_ctx_same [of w "rec_ctx r"] by (simp_all add: free_record_def same_regs_def)

lemma remove_and_free_core:
  assumes "mem_core own w" "r \<in> own" "bm_by_id w (rec_id r) = None"
  shows "mem_core (own - {r}) (remove_and_free env r orphan w)"
    "bm_by_id (remove_and_free env r orphan w) = bm_by_id w" "bm_by_channel (remove_and_free env r orphan w) = bm_by_channel w"
proof -
  note rm = remove_unregistered [OF assms, of env]
  have "mem_core own (FsMediaBugRemove env (rec_fs_bug r) w)" using core_same [OF rm(2)] core_unlink [OF assms(1)] by blast
  moreover have "fs_bugs (FsMediaBugRemove env (rec_fs_bug r) w) (rec_fs_bug r) = None" using rm(2) by (simp add: same_mem_def)
  ultimately show "mem_core (own - {r}) (remove_and_free env r orphan w)"
    unfolding remove_and_free_def using assms(2) by (intro free_record_core)
  show "bm_by_id (remove_and_free env r orphan w) = bm_by_id w" "bm_by_channel (remove_and_free env r orphan w) = bm_by_channel w"
    using rm(1) by (simp_all add: remove_and_free_def same_regs_def)
qed

section \<open>The system invariant\<close>

definition sys_inv :: "bug_sys \<Rightarrow> bool" where
  "sys_inv s \<longleftrightarrow> idx_inv (sy_world s) \<and> mem_core (owners s) (sy_world s)
     \<and> (\<forall>u b. sy_busy s u = Some b \<longrightarrow>
          rec_channel_uuid (busy_rec b) = u \<and> bm_by_id (sy_world s) (rec_id (busy_rec b)) = None)"

lemma sys_busy:
  "sys_inv s \<Longrightarrow> sy_busy s u = Some b \<Longrightarrow>
   rec_channel_uuid (busy_rec b) = u \<and> bm_by_id (sy_world s) (rec_id (busy_rec b)) = None \<and> busy_rec b \<in> owners s"
  by (auto simp: sys_inv_def owners_def ran_def)

lemma owners_upd:
  "owners (s\<lparr>sy_world := w\<rparr>) = ran (bm_by_id w) \<union> busy_rec ` ran (sy_busy s)"
  "owners (s\<lparr>sy_world := w, sy_busy := busy\<rparr>) = ran (bm_by_id w) \<union> busy_rec ` ran busy"
  by (simp_all add: owners_def)

lemma owners_done:
  assumes "sys_inv s" "sy_busy s u = Some b" "bm_by_id w = bm_by_id (sy_world s)"
  shows "owners (s\<lparr>sy_world := w, sy_busy := (sy_busy s)(u := None)\<rparr>) = owners s - {busy_rec b}"
proof -
  have b: "rec_channel_uuid (busy_rec b) = u" "bm_by_id (sy_world s) (rec_id (busy_rec b)) = None"
    using sys_busy [OF assms(1,2)] by simp_all
  have idx: "idx_inv (sy_world s)" using assms(1) by (simp add: sys_inv_def)
  have "busy_rec b \<notin> ran (bm_by_id (sy_world s))"
    using b(2) idx_record [OF idx] by (auto simp: ran_def)
  moreover have "busy_rec ` ran ((sy_busy s)(u := None)) = busy_rec ` ran (sy_busy s) - {busy_rec b}"
  proof -
    have ne: "busy_rec c \<noteq> busy_rec b" if "sy_busy s v = Some c" "v \<noteq> u" for v c
      using sys_busy [OF assms(1) that(1)] b(1) that(2) by auto
    show ?thesis
    proof (intro set_eqI iffI)
      fix x assume "x \<in> busy_rec ` ran ((sy_busy s)(u := None))"
      then obtain v c where "((sy_busy s)(u := None)) v = Some c" "x = busy_rec c" by (auto simp: ran_def)
      then have "sy_busy s v = Some c" "v \<noteq> u" "x = busy_rec c" by (auto split: if_splits)
      then show "x \<in> busy_rec ` ran (sy_busy s) - {busy_rec b}" using ne by (auto simp: ran_def)
    next
      fix x assume x: "x \<in> busy_rec ` ran (sy_busy s) - {busy_rec b}"
      then obtain v c where c: "sy_busy s v = Some c" "x = busy_rec c" by (auto simp: ran_def)
      then have "v \<noteq> u" using x assms(2) by auto
      then have "((sy_busy s)(u := None)) v = Some c" using c by simp
      then show "x \<in> busy_rec ` ran ((sy_busy s)(u := None))" using c(2) by (blast intro: ranI)
    qed
  qed
  ultimately show ?thesis using assms(3) by (auto simp: owners_def)
qed

lemma sys_I:
  assumes "idx_inv w" "mem_core (owners (s\<lparr>sy_world := w, sy_busy := busy\<rparr>)) w"
    and "\<And>u b. busy u = Some b \<Longrightarrow> rec_channel_uuid (busy_rec b) = u \<and> bm_by_id w (rec_id (busy_rec b)) = None"
  shows "sys_inv (s\<lparr>sy_world := w, sy_busy := busy\<rparr>)"
  unfolding sys_inv_def using assms by simp

lemma inv_attach_begin:
  assumes inv: "sys_inv s" and free: "sy_busy s (ss_uuid session) = None" and nowrap: "bm_next_id (sy_world s) \<noteq> - 1"
    and run: "Attach_begin session cfg alloc rc (sy_world s) = (res, w)"
  shows "res = Inl st \<Longrightarrow> sys_inv (s\<lparr>sy_world := w\<rparr>)"
    "res = Inr p \<Longrightarrow> sys_inv (s\<lparr>sy_world := w, sy_busy := (sy_busy s)(ss_uuid session \<mapsto> Attaching p)\<rparr>)"
proof -
  have core: "mem_core (owners s) (sy_world s)" and idx: "idx_inv (sy_world s)" using inv by (simp_all add: sys_inv_def)
  note b = Attach_begin_core [OF core nowrap run]
  have idx': "idx_inv w" using idx idx_frame [of w "sy_world s"] b(1,2) by simp
  show "sys_inv (s\<lparr>sy_world := w\<rparr>)" if "res = Inl st"
    using inv b(1) b(5) [OF that] idx' by (simp add: sys_inv_def owners_def)
  show "sys_inv (s\<lparr>sy_world := w, sy_busy := (sy_busy s)(ss_uuid session \<mapsto> Attaching p)\<rparr>)" if ok: "res = Inr p"
  proof (rule sys_I [OF idx'])
    have "owners (s\<lparr>sy_world := w, sy_busy := (sy_busy s)(ss_uuid session \<mapsto> Attaching p)\<rparr>) = insert (record_of p) (owners s)"
      using free b(1) by (simp add: owners_def ran_map_upd)
    then show "mem_core (owners (s\<lparr>sy_world := w, sy_busy := (sy_busy s)(ss_uuid session \<mapsto> Attaching p)\<rparr>)) w"
      using b(6) [OF ok] by simp
    fix u c assume c: "((sy_busy s)(ss_uuid session \<mapsto> Attaching p)) u = Some c"
    have "bm_by_id (sy_world s) (bm_next_id (sy_world s)) = None"
    proof (cases "bm_by_id (sy_world s) (bm_next_id (sy_world s))")
      case (Some r)
      then have "r \<in> owners s" by (auto simp: owners_def ran_def)
      then show ?thesis using core_bounds [OF core] idx_record [OF idx Some] by fastforce
    qed
    then show "rec_channel_uuid (busy_rec c) = u \<and> bm_by_id w (rec_id (busy_rec c)) = None"
      using c b(1) b(6) [OF ok] sys_busy [OF inv, of u c] by (auto split: if_splits)
  qed
qed

lemma sys_done:
  assumes inv: "sys_inv s" and busy: "sy_busy s u = Some b"
    and w: "bm_by_id w = bm_by_id (sy_world s)" "bm_by_channel w = bm_by_channel (sy_world s)"
      "mem_core (owners s - {busy_rec b}) w"
  shows "sys_inv (s\<lparr>sy_world := w, sy_busy := (sy_busy s)(u := None)\<rparr>)"
proof (rule sys_I)
  show "idx_inv w" using inv idx_frame [OF w(1,2)] by (simp add: sys_inv_def)
  show "mem_core (owners (s\<lparr>sy_world := w, sy_busy := (sy_busy s)(u := None)\<rparr>)) w"
    using owners_done [OF inv busy w(1)] w(3) by simp
  show "rec_channel_uuid (busy_rec c) = v \<and> bm_by_id w (rec_id (busy_rec c)) = None" if "((sy_busy s)(u := None)) v = Some c" for v c
    using that sys_busy [OF inv, of v c] w(1) by (simp split: if_splits)
qed

lemma inv_attach_end:
  assumes inv: "sys_inv s" and busy: "sy_busy s u = Some (Attaching p)"
  shows "sys_inv (s\<lparr>sy_world := snd (Attach_end env p alloc (sy_world s)), sy_busy := (sy_busy s)(u := None)\<rparr>)"
proof -
  let ?w = "sy_world s" and ?r = "record_of p"
  have core: "mem_core (owners s) ?w" and idx: "idx_inv ?w" using inv by (simp_all add: sys_inv_def)
  have r: "rec_channel_uuid ?r = u" "bm_by_id ?w (rec_id ?r) = None" "?r \<in> owners s" using sys_busy [OF inv busy] by simp_all
  show ?thesis
  proof (cases alloc)
    case True
    define w where "w = snd (Attach_end env p True ?w)"
    have frame: "bm_by_id w = (bm_by_id ?w)(rec_id ?r \<mapsto> ?r)" "idx_inv w" "same_mem ?w w"
      using r(2) idx_register [OF idx r(2)] idx_frame [of w "register_record ?r ?w"]
      by (simp_all add: w_def Attach_end_def Let_def register_record_def same_mem_def)
    have "owners (s\<lparr>sy_world := w, sy_busy := (sy_busy s)(u := None)\<rparr>) =
        insert ?r (ran (bm_by_id ?w)) \<union> busy_rec ` ran ((sy_busy s)(u := None))"
      using r(2) by (simp add: owners_def frame(1) ran_map_upd)
    also have "\<dots> = insert ?r (owners (s\<lparr>sy_world := ?w, sy_busy := (sy_busy s)(u := None)\<rparr>))" by (simp add: owners_def)
    also have "\<dots> = owners s" using owners_done [OF inv busy refl] r(3) by auto
    finally have own: "owners (s\<lparr>sy_world := w, sy_busy := (sy_busy s)(u := None)\<rparr>) = owners s" .
    have "sys_inv (s\<lparr>sy_world := w, sy_busy := (sy_busy s)(u := None)\<rparr>)"
    proof (rule sys_I [OF frame(2)])
      show "mem_core (owners (s\<lparr>sy_world := w, sy_busy := (sy_busy s)(u := None)\<rparr>)) w"
        unfolding own using core_same [OF frame(3) core] .
      fix v c assume "((sy_busy s)(u := None)) v = Some c"
      then have c: "sy_busy s v = Some c" "v \<noteq> u" by (auto split: if_splits)
      have cc: "rec_channel_uuid (busy_rec c) = v" "bm_by_id ?w (rec_id (busy_rec c)) = None" "busy_rec c \<in> owners s"
        using sys_busy [OF inv c(1)] by simp_all
      moreover have "rec_id (busy_rec c) \<noteq> rec_id ?r" using core_id [OF core cc(3) r(3)] cc(1) r(1) c(2) by auto
      ultimately show "rec_channel_uuid (busy_rec c) = v \<and> bm_by_id w (rec_id (busy_rec c)) = None" by (simp add: frame(1))
    qed
    then show ?thesis using True by (simp add: w_def)
  next
    case False
    let ?w1 = "FsMediaBugRemove env (rec_fs_bug ?r) ?w"
    note rm = remove_unregistered [OF core r(3,2), of env]
    have "mem_core (owners s) ?w1" using core_same [OF rm(2)] core_unlink [OF core] by blast
    then have "mem_core (owners s - {?r}) (delete_ctx (rec_ctx ?r) ?w1)"
      using r(3) rm(2) by (intro core_free) (auto simp: same_mem_def)
    moreover have "same_regs ?w (delete_ctx (rec_ctx ?r) ?w1)" using same_regs_trans [OF rm(1) delete_ctx_same] .
    ultimately have "sys_inv (s\<lparr>sy_world := delete_ctx (rec_ctx ?r) ?w1, sy_busy := (sy_busy s)(u := None)\<rparr>)"
      using sys_done [OF inv busy] by (simp add: same_regs_def)
    then show ?thesis using False by (simp add: Attach_end_def record_of_def)
  qed
qed

lemma inv_detach_end:
  assumes inv: "sys_inv s" and busy: "sy_busy s u = Some (Detaching r orphan)"
  shows "sys_inv (s\<lparr>sy_world := remove_and_free env r orphan (sy_world s), sy_busy := (sy_busy s)(u := None)\<rparr>)"
proof -
  have "mem_core (owners s) (sy_world s)" using inv by (simp add: sys_inv_def)
  moreover have "bm_by_id (sy_world s) (rec_id r) = None" "r \<in> owners s" using sys_busy [OF inv busy] by simp_all
  ultimately show ?thesis using remove_and_free_core [of "owners s" "sy_world s" r env orphan] sys_done [OF inv busy] by simp
qed

lemma erased_frame [simp]:
  "bm_by_id (erased r w) = (bm_by_id w)(rec_id r := None)" "same_mem w (erased r w)"
  "bm_silence (erased r w) = bm_silence w" "bm_silence_wired (erased r w) = bm_silence_wired w"
  by (simp_all add: erased_def same_mem_def)

lemma ran_erased:
  assumes "idx_inv w" "bm_by_id w i = Some r"
  shows "ran ((bm_by_id w)(i := None)) = ran (bm_by_id w) - {r}"
proof (intro set_eqI iffI)
  fix x assume "x \<in> ran ((bm_by_id w)(i := None))"
  then obtain a where "bm_by_id w a = Some x" "a \<noteq> i" by (auto simp: ran_def split: if_splits)
  then show "x \<in> ran (bm_by_id w) - {r}" using idx_record [OF assms(1)] assms(2) by (auto intro: ranI)
next
  fix x assume x: "x \<in> ran (bm_by_id w) - {r}"
  then obtain a where "bm_by_id w a = Some x" by (auto simp: ran_def)
  then have "((bm_by_id w)(i := None)) a = Some x" using x assms(2) by auto
  then show "x \<in> ran ((bm_by_id w)(i := None))" by (rule ranI)
qed

lemma inv_detach_begin:
  assumes inv: "sys_inv s" and r: "bm_by_id (sy_world s) i = Some r" and free: "sy_busy s (rec_channel_uuid r) = None"
  shows "sys_inv (s\<lparr>sy_world := erased r (sy_world s), sy_busy := (sy_busy s)(rec_channel_uuid r \<mapsto> Detaching r orphan)\<rparr>)"
proof (rule sys_I)
  let ?w = "sy_world s" and ?u = "rec_channel_uuid r"
  have core: "mem_core (owners s) ?w" and idx: "idx_inv ?w" using inv by (simp_all add: sys_inv_def)
  have i: "rec_id r = i" using idx_record [OF idx r] .
  show "idx_inv (erased r ?w)" using idx_erased [OF idx] r i by simp
  have "r \<in> ran (bm_by_id ?w)" using r by (rule ranI)
  then have "owners (s\<lparr>sy_world := erased r ?w, sy_busy := (sy_busy s)(?u \<mapsto> Detaching r orphan)\<rparr>) = owners s"
    using free ran_erased [OF idx r] i by (auto simp: owners_def ran_map_upd)
  then show "mem_core (owners (s\<lparr>sy_world := erased r ?w, sy_busy := (sy_busy s)(?u \<mapsto> Detaching r orphan)\<rparr>)) (erased r ?w)"
    using core_same [OF erased_frame(2) core] by simp
  show "rec_channel_uuid (busy_rec c) = v \<and> bm_by_id (erased r ?w) (rec_id (busy_rec c)) = None"
    if "((sy_busy s)(?u \<mapsto> Detaching r orphan)) v = Some c" for v c
    using that sys_busy [OF inv, of v c] by (auto split: if_splits)
qed

text \<open>Detaching a record whose bug FreeSWITCH has already closed.\<close>

lemma inv_detach_closed:
  assumes inv: "sys_inv s" and r: "bm_by_id (sy_world s) i = Some r"
    and closed: "fs_bugs (sy_world s) (rec_fs_bug r) = None"
  shows "sys_inv (s\<lparr>sy_world := DetachClosed env i (sy_world s)\<rparr>)"
    "\<exists>orphan. DetachClosed env i (sy_world s) = free_record env r orphan (erased r (sy_world s))"
proof -
  let ?w = "sy_world s"
  have core: "mem_core (owners s) ?w" and idx: "idx_inv ?w" using inv by (simp_all add: sys_inv_def)
  have i: "rec_id r = i" using idx_record [OF idx r] .
  obtain orphan where e: "erase_record i ?w = (Some (r, orphan), erased r ?w)" using erase_record_eq [OF idx r] .
  define w where "w = free_record env r orphan (erased r ?w)"
  have w: "DetachClosed env i ?w = w" by (simp add: DetachClosed_def e w_def)
  have mem: "r \<in> owners s" using r by (auto simp: owners_def intro: ranI)
  have core': "mem_core (owners s - {r}) w"
    unfolding w_def using core_same [OF erased_frame(2) core] mem closed
    by (intro free_record_core) (simp_all add: erased_def)
  have "bm_by_id w = (bm_by_id ?w)(i := None)" "bm_by_channel w = bm_by_channel (erased r ?w)" by (simp_all add: w_def i)
  moreover from this have "idx_inv w" using idx_erased [OF idx] r i idx_frame [of w "erased r ?w"] by simp
  moreover have "r \<notin> busy_rec ` ran (sy_busy s)"
    using sys_busy [OF inv] r i by (fastforce simp: ran_def)
  then have "owners (s\<lparr>sy_world := w\<rparr>) = owners s - {r}"
    using ran_erased [OF idx r] by (auto simp: owners_def w_def i)
  ultimately show "sys_inv (s\<lparr>sy_world := DetachClosed env i ?w\<rparr>)"
    using core' sys_busy [OF inv] by (auto simp: sys_inv_def w)
  show "\<exists>orphan. DetachClosed env i ?w = free_record env r orphan (erased r ?w)" using w w_def by blast
qed

lemma sys_world_same:
  assumes "sys_inv s" "same_regs (sy_world s) w" "mem_core (owners s) w"
  shows "sys_inv (s\<lparr>sy_world := w\<rparr>)"
  using assms idx_frame [of w "sy_world s"] by (simp add: sys_inv_def same_regs_def owners_def)

lemma inv_close:
  assumes inv: "sys_inv s" and b: "fs_bugs (sy_world s) ptr = Some b"
  shows "sys_inv (s\<lparr>sy_world := FsMediaBugRemove env ptr (sy_world s)\<rparr>)"
proof -
  let ?w = "sy_world s"
  have core: "mem_core (owners s) ?w" using inv by (simp add: sys_inv_def)
  obtain r where r: "r \<in> owners s" "rec_ctx r = fb_ctx b" "rec_fs_bug r = ptr" using core_fs [OF core b] .
  obtain c where c: "bm_heap ?w (rec_ctx r) = Some c" "cx_bug_id c = rec_id r" using core_live [OF core r(1)] .
  show ?thesis
  proof (cases "bm_by_id ?w (rec_id r)")
    case None
    note rm = remove_unregistered [OF core r(1) None, of env]
    have "mem_core (owners s) (FsMediaBugRemove env ptr ?w)" using core_same [OF rm(2)] core_unlink [OF core] r(3) by simp
    then show ?thesis using sys_world_same [OF inv] rm(1) r(3) by simp
  next
    case (Some q)
    have idx: "idx_inv ?w" using inv by (simp add: sys_inv_def)
    have "q \<in> owners s" using Some by (auto simp: owners_def intro: ranI)
    then have q: "q = r" using core_id [OF core _ r(1)] idx_record [OF idx Some] by simp
    let ?w1 = "?w\<lparr>fs_bugs := (fs_bugs ?w)(ptr := None)\<rparr>"
    have 1: "sys_inv (s\<lparr>sy_world := ?w1\<rparr>)"
      using sys_world_same [OF inv] core_unlink [OF core] by (simp add: same_regs_def)
    have "sys_inv (s\<lparr>sy_world := DetachClosed env (rec_id r) ?w1\<rparr>)"
      using inv_detach_closed(1) [OF 1, of "rec_id r" r env] Some q r(3) by simp
    then have "sys_inv (s\<lparr>sy_world := user_callback (cx_user_cb c) (cx_user_data c) ABC_CLOSE (DetachClosed env (rec_id r) ?w1)\<rparr>)"
      using sys_world_same [of "s\<lparr>sy_world := DetachClosed env (rec_id r) ?w1\<rparr>"] user_callback_same
        core_same [OF user_callback_same(2)] by (simp add: sys_inv_def)
    then show ?thesis using b c r(2) by (simp add: FsMediaBugRemove_def OswMediaBugTrampoline_def)
  qed
qed

lemma inv_callback:
  assumes inv: "sys_inv s" and b: "fs_bugs (sy_world s) ptr = Some b" and t: "type \<noteq> ABC_CLOSE"
  shows "sys_inv (s\<lparr>sy_world := OswMediaBugTrampoline env (fb_ctx b) type (sy_world s)\<rparr>)"
proof -
  have core: "mem_core (owners s) (sy_world s)" using inv by (simp add: sys_inv_def)
  obtain r where "r \<in> owners s" "rec_ctx r = fb_ctx b" using core_fs [OF core b] .
  then obtain c where "bm_heap (sy_world s) (fb_ctx b) = Some c" using core_live [OF core] by metis
  then have "OswMediaBugTrampoline env (fb_ctx b) type (sy_world s) =
      user_callback (cx_user_cb c) (cx_user_data c) type (sy_world s)" using t by (simp add: OswMediaBugTrampoline_def)
  then show ?thesis using sys_world_same [OF inv user_callback_same(1)] core_same [OF user_callback_same(2) core] by simp
qed

lemma inv_set_callback:
  assumes inv: "sys_inv s"
  shows "sys_inv (s\<lparr>sy_world := snd (SetBugCallback i cb d (sy_world s))\<rparr>)"
proof (cases "bm_by_id (sy_world s) i")
  case (Some r)
  let ?w = "sy_world s"
  have core: "mem_core (owners s) ?w" using inv by (simp add: sys_inv_def)
  have "r \<in> owners s" using Some by (auto simp: owners_def intro: ranI)
  then obtain c where c: "bm_heap ?w (rec_ctx r) = Some c" "cx_bug_id c = rec_id r" using core_live [OF core] by metis
  let ?w1 = "?w\<lparr>bm_heap := (bm_heap ?w)(rec_ctx r \<mapsto> c\<lparr>cx_user_cb := cb, cx_user_data := d\<rparr>)\<rparr>"
  have "mem_core (owners s) ?w1"
  proof (rule core_I)
    show "rec_id q < bm_next_id ?w1 \<and> rec_fs_bug q < fs_fresh ?w1
        \<and> (\<exists>c. bm_heap ?w1 (rec_ctx q) = Some c \<and> cx_bug_id c = rec_id q)" if q: "q \<in> owners s" for q
    proof -
      obtain e where e: "bm_heap ?w (rec_ctx q) = Some e" "cx_bug_id e = rec_id q" using core_live [OF core q] .
      then show ?thesis using core_bounds [OF core q] c by (cases "rec_ctx q = rec_ctx r") auto
    qed
    show "a < bm_fresh ?w1 \<and> (\<exists>q \<in> owners s. rec_ctx q = a)" if "bm_heap ?w1 a = Some e" for a e
      using that core_owned [OF core, of a] c by (auto split: if_splits)
    show "\<exists>q \<in> owners s. rec_ctx q = fb_ctx b \<and> rec_fs_bug q = ptr \<and> rec_channel_uuid q = fb_channel_uuid b"
      if b: "fs_bugs ?w1 ptr = Some b" for ptr b
    proof -
      have "fs_bugs ?w ptr = Some b" using b by simp
      then show ?thesis by (rule core_fs [OF core]) blast
    qed
  qed (use core core_id [OF core] in \<open>simp_all add: mem_core_def\<close>)
  then show ?thesis using sys_world_same [OF inv] Some c(1) by (simp add: SetBugCallback_def same_regs_def)
qed (use inv in \<open>simp add: SetBugCallback_def\<close>)

lemma DetachClosed_frame:
  "fs_bugs (DetachClosed env i w) = fs_bugs w" "bm_by_id (DetachClosed env i w) = (bm_by_id w)(i := None)"
  by (auto simp: DetachClosed_def erase_record_def free_record_def stop_silence_def delete_ctx_def Let_def split: option.split)

lemma DetachInternal_False [simp]: "DetachInternal env i False = DetachClosed env i"
  by (simp add: DetachInternal_def fun_eq_iff)

lemma inv_detach_all:
  assumes "sys_inv s" "\<forall>b \<in> ran (fs_bugs (sy_world s)). fb_channel_uuid b \<noteq> u"
    "\<forall>i \<in> set ids. \<forall>r. bm_by_id (sy_world s) i = Some r \<longrightarrow> rec_channel_uuid r = u"
  shows "sys_inv (s\<lparr>sy_world := fold (\<lambda>i. DetachInternal env i False) ids (sy_world s)\<rparr>)"
  using assms
proof (induction ids arbitrary: s)
  case (Cons i ids)
  let ?w = "sy_world s" and ?s = "s\<lparr>sy_world := DetachClosed env i (sy_world s)\<rparr>"
  have core: "mem_core (owners s) ?w" using Cons.prems(1) by (simp add: sys_inv_def)
  have "sys_inv ?s"
  proof (cases "bm_by_id ?w i")
    case None
    then show ?thesis using Cons.prems(1) by (simp add: DetachClosed_def erase_record_None)
  next
    case (Some r)
    have mem: "r \<in> owners s" using Some by (auto simp: owners_def intro: ranI)
    have "fs_bugs ?w (rec_fs_bug r) = None"
    proof (cases "fs_bugs ?w (rec_fs_bug r)")
      case b: (Some b)
      obtain q where q: "q \<in> owners s" "rec_fs_bug q = rec_fs_bug r" "rec_channel_uuid q = fb_channel_uuid b"
        using core_fs [OF core b] .
      then have "q = r" using core_id [OF core q(1) mem] by simp
      then show ?thesis using q(3) b Some Cons.prems(2,3) by (auto dest: ranI)
    qed
    then show ?thesis by (rule inv_detach_closed(1) [OF Cons.prems(1) Some])
  qed
  moreover have "\<forall>b \<in> ran (fs_bugs (sy_world ?s)). fb_channel_uuid b \<noteq> u" using Cons.prems(2) by (simp add: DetachClosed_frame)
  moreover have "\<forall>j \<in> set ids. \<forall>r. bm_by_id (sy_world ?s) j = Some r \<longrightarrow> rec_channel_uuid r = u"
    using Cons.prems(3) by (simp add: DetachClosed_frame)
  ultimately have "sys_inv (?s\<lparr>sy_world := fold (\<lambda>i. DetachInternal env i False) ids (sy_world ?s)\<rparr>)"
    by (rule Cons.IH)
  then show ?case by simp
qed simp

lemma inv_bug_step [osw_inv]:
  assumes inv: "sys_inv s" and step: "bug_step env op s = Some s'"
  shows "sys_inv s'"
proof (cases op)
  case (Op_attach_begin session cfg alloc rc)
  obtain res w where r: "Attach_begin session cfg alloc rc (sy_world s) = (res, w)" by (rule prod.exhaust)
  with step Op_attach_begin have g: "sy_busy s (ss_uuid session) = None" "bm_next_id (sy_world s) \<noteq> - 1"
    by (auto split: if_splits)
  show ?thesis using inv_attach_begin [OF inv g r] step Op_attach_begin r g by (cases res) auto
next
  case (Op_attach_end u alloc)
  then obtain p where "sy_busy s u = Some (Attaching p)" using step by (auto split: option.splits lifecycle.splits)
  then show ?thesis using inv_attach_end [OF inv] step Op_attach_end by auto
next
  case (Op_detach_begin i)
  show ?thesis
  proof (cases "bm_by_id (sy_world s) i")
    case (Some r)
    have idx: "idx_inv (sy_world s)" using inv by (simp add: sys_inv_def)
    obtain orphan where "erase_record i (sy_world s) = (Some (r, orphan), erased r (sy_world s))"
      using erase_record_eq [OF idx Some] .
    then show ?thesis using inv_detach_begin [OF inv Some, of orphan] step Op_detach_begin Some by (auto split: if_splits)
  qed (use step inv Op_detach_begin in simp)
next
  case (Op_detach_end u)
  then obtain r orphan where "sy_busy s u = Some (Detaching r orphan)"
    using step by (auto split: option.splits lifecycle.splits)
  then show ?thesis using inv_detach_end [OF inv] step Op_detach_end by auto
next
  case (Op_callback ptr type)
  then show ?thesis using inv_callback [OF inv, of ptr _ type env] step by (auto split: option.splits if_splits)
next
  case (Op_close ptr)
  then obtain b where "fs_bugs (sy_world s) ptr = Some b" "s' = s\<lparr>sy_world := FsMediaBugRemove env ptr (sy_world s)\<rparr>"
    using step by (auto split: option.splits if_splits)
  then show ?thesis using inv_close [OF inv] by simp
next
  case (Op_set_callback i cb d)
  then show ?thesis using inv_set_callback [OF inv] step by auto
next
  case (Op_detach_all u)
  have idx: "idx_inv (sy_world s)" using inv by (simp add: sys_inv_def)
  have nb: "\<forall>b \<in> ran (fs_bugs (sy_world s)). fb_channel_uuid b \<noteq> u" and s': "s' = s\<lparr>sy_world := Bug_DetachAll env u (sy_world s)\<rparr>"
    using step Op_detach_all by (auto split: if_splits)
  show ?thesis
  proof (cases "bm_by_channel (sy_world s) u")
    case (Some ids)
    then have "\<forall>i \<in> set ids. \<forall>r. bm_by_id (sy_world s) i = Some r \<longrightarrow> rec_channel_uuid r = u"
      using idx_listed [OF idx Some] by fastforce
    then show ?thesis using inv_detach_all [OF inv nb] Some s' by (simp add: Bug_DetachAll_def)
  qed (use inv s' in \<open>simp add: Bug_DetachAll_def\<close>)
qed

lemma inv_bug_run: "sys_inv s \<Longrightarrow> bug_run env ops s = Some s' \<Longrightarrow> sys_inv s'"
  by (induction ops arbitrary: s) (auto split: option.splits intro: inv_bug_step)

lemma inv_bug_new: "sys_inv (bug_sys_new wired)"
  by (simp add: sys_inv_def bug_sys_new_def MediaBugManager_new_def idx_inv_def mem_core_def owners_def)

lemma idx_count:
  assumes "idx_inv w"
  shows "ActiveBugCount u w = card {i. \<exists>r. bm_by_id w i = Some r \<and> rec_channel_uuid r = u}"
proof (cases "bm_by_channel w u")
  case None
  then have "{i. \<exists>r. bm_by_id w i = Some r \<and> rec_channel_uuid r = u} = {}"
    using idx_indexed [OF assms] by fastforce
  then show ?thesis using None by (simp add: ActiveBugCount_def)
next
  case (Some ids)
  have "{i. \<exists>r. bm_by_id w i = Some r \<and> rec_channel_uuid r = u} = set ids"
  proof (intro set_eqI iffI)
    fix i assume "i \<in> {i. \<exists>r. bm_by_id w i = Some r \<and> rec_channel_uuid r = u}"
    then obtain r where r: "bm_by_id w i = Some r" "rec_channel_uuid r = u" by blast
    obtain ks where "bm_by_channel w (rec_channel_uuid r) = Some ks" "i \<in> set ks" using idx_indexed [OF assms r(1)] .
    then show "i \<in> set ids" using Some r(2) by simp
  qed (use idx_listed [OF assms Some] in blast)
  then show ?thesis using Some idx_ids [OF assms Some] by (simp add: ActiveBugCount_def distinct_card)
qed

text \<open>
  C2. Media callbacks never dangle. In every interleaving of attaches, detaches, callback registrations,
  FreeSWITCH callbacks, closes initiated by FreeSWITCH and channel sweeps, no freed callback context is read,
  written or freed again; every bug FreeSWITCH still calls has a live context; when no operation is in
  flight the live contexts are exactly those of the registered bugs, so none leaks; and the
  per-channel count is the number of registered bugs of the channel.
\<close>

theorem media_callbacks_never_dangle:
  assumes "bug_run env ops (bug_sys_new wired) = Some s"
  shows "bm_faults (sy_world s) = 0
    \<and> (\<forall>ptr b. fs_bugs (sy_world s) ptr = Some b \<longrightarrow> fb_ctx b \<in> dom (bm_heap (sy_world s)))
    \<and> (sy_busy s = Map.empty \<longrightarrow> dom (bm_heap (sy_world s)) = rec_ctx ` ran (bm_by_id (sy_world s)))
    \<and> (\<forall>u. ActiveBugCount u (sy_world s) =
          card {i. \<exists>r. bm_by_id (sy_world s) i = Some r \<and> rec_channel_uuid r = u})"
proof -
  let ?w = "sy_world s"
  have inv: "sys_inv s" by (rule inv_bug_run [OF inv_bug_new assms])
  then have core: "mem_core (owners s) ?w" and idx: "idx_inv ?w" by (simp_all add: sys_inv_def)
  have live: "rec_ctx r \<in> dom (bm_heap ?w)" if "r \<in> owners s" for r using core_live [OF core that] by blast
  have "fb_ctx b \<in> dom (bm_heap ?w)" if b: "fs_bugs ?w ptr = Some b" for ptr b
    using core_fs [OF core b] live by metis
  moreover have "dom (bm_heap ?w) = rec_ctx ` ran (bm_by_id ?w)" if "sy_busy s = Map.empty"
  proof -
    have own: "owners s = ran (bm_by_id ?w)" using that by (simp add: owners_def)
    have "a \<in> rec_ctx ` ran (bm_by_id ?w)" if a: "a \<in> dom (bm_heap ?w)" for a
      using core_owned(2) [OF core] a unfolding own by blast
    then show ?thesis using live unfolding own by blast
  qed
  moreover have "bm_faults ?w = 0" using core by (simp add: mem_core_def)
  ultimately show ?thesis using idx_count [OF idx] by blast
qed

definition demo_bug_env :: bug_env where
  "demo_bug_env = \<lparr>ev_config = Config_default, ev_broadcast = (\<lambda>_. True), ev_lockable = (\<lambda>_. True)\<rparr>"

definition demo_session :: silence_session where
  "demo_session = \<lparr>ss_uuid = ''c'', ss_channel = Some \<lparr>sc_broadcast = False, sc_bridged = False, sc_current_application = None\<rparr>\<rparr>"

definition demo_bug_config :: BugConfig where
  "demo_bug_config = \<lparr>bg_purpose = kTtsPlayback, bg_fs_flags = kSmbfWriteReplace, bg_target_rate_hz = 16000,
                      bg_tenant_id = ''t'', bg_stream_endpoint = ''e''\<rparr>"

definition demo_bug_ops :: "bug_step_op list" where
  "demo_bug_ops = [Op_attach_begin demo_session demo_bug_config True 0, Op_callback 0 ABC_INIT, Op_attach_end ''c'' True,
     Op_set_callback 1 (Some 7) 8, Op_callback 0 ABC_WRITE_REPLACE, Op_detach_begin 1, Op_callback 0 ABC_WRITE_REPLACE,
     Op_detach_end ''c'']"

lemmas bug_ops_defs = Attach_begin_def Attach_end_def check_attach_def channel_records_def HasInjectBugLocked_def HasPurpose_def
  MaxRankForChannel_def new_ctx_def delete_ctx_def record_of_def register_record_def OswMediaBugTrampoline_def user_callback_def
  FsMediaBugRemove_def DetachClosed_def erase_record_def remove_and_free_def free_record_def stop_silence_def SetBugCallback_def
  write_replace_def HasWriteReplaceBug_def kSmbfWriteReplace_def kSmbfFirst_def AttachOpportunistic_def DetachIfOrphan_def
  StopAndErase_def

lemma demo_bug_run:
  "\<exists>s. bug_run demo_bug_env demo_bug_ops (bug_sys_new False) = Some s \<and> sy_busy s = Map.empty
     \<and> bm_calls (sy_world s) = [(7, 8, ABC_WRITE_REPLACE), (7, 8, ABC_WRITE_REPLACE), (7, 8, ABC_CLOSE)]
     \<and> bm_heap (sy_world s) = Map.empty"
  by (simp add: demo_bug_ops_def demo_bug_env_def demo_session_def demo_bug_config_def bug_sys_new_def MediaBugManager_new_def
      bug_ops_defs Let_def)

theorem media_callbacks_never_dangle_witness:
  "\<exists>s. bug_run demo_bug_env demo_bug_ops (bug_sys_new False) = Some s \<and> bm_faults (sy_world s) = 0
     \<and> bm_calls (sy_world s) = [(7, 8, ABC_WRITE_REPLACE), (7, 8, ABC_WRITE_REPLACE), (7, 8, ABC_CLOSE)]
     \<and> dom (bm_heap (sy_world s)) = rec_ctx ` ran (bm_by_id (sy_world s))"
proof -
  obtain s where s: "bug_run demo_bug_env demo_bug_ops (bug_sys_new False) = Some s" "sy_busy s = Map.empty"
    "bm_calls (sy_world s) = [(7, 8, ABC_WRITE_REPLACE), (7, 8, ABC_WRITE_REPLACE), (7, 8, ABC_CLOSE)]"
    using demo_bug_run by blast
  show ?thesis using media_callbacks_never_dangle [OF s(1)] s by blast
qed

end
