(* ===== verification/Media_BugOrder.thy ===== *)
theory Media_BugOrder
  imports Media_BugSafety
begin

text \<open>
  What the attach checks of the media bug manager achieve under interleaving: one bug per purpose and
  channel, bugs in stage order unless they ask to be first, and silence drivers only where a
  WRITE_REPLACE bug needs one.
\<close>

section \<open>The records of a channel\<close>

definition first_flag :: "BugRecord \<Rightarrow> bool" where
  "first_flag r \<longleftrightarrow> bg_fs_flags (rec_config r) AND kSmbfFirst \<noteq> 0"

definition rank_of :: "BugRecord \<Rightarrow> nat" where
  "rank_of r = StageRank (rec_purpose r)"

definition in_stage_order :: "BugRecord list \<Rightarrow> bool" where
  "in_stage_order rs \<longleftrightarrow>
     distinct (filter (\<lambda>p. p \<noteq> kRecordingRelay) (map rec_purpose rs)) \<and> sorted (map rank_of (filter (\<lambda>r. \<not> first_flag r) rs))"

definition attachable :: "BugRecord \<Rightarrow> BugRecord list \<Rightarrow> bool" where
  "attachable r rs \<longleftrightarrow>
     (rec_purpose r = kRecordingRelay \<or> rec_purpose r \<notin> rec_purpose ` set rs)
     \<and> (first_flag r \<or> (\<forall>q \<in> set rs. rank_of q \<le> rank_of r))"

lemma in_stage_order_append: "in_stage_order rs \<Longrightarrow> attachable r rs \<Longrightarrow> in_stage_order (rs @ [r])"
  by (auto simp: in_stage_order_def attachable_def sorted_append)

lemma in_stage_order_filter: "in_stage_order rs \<Longrightarrow> in_stage_order (filter P rs)"
proof -
  assume o: "in_stage_order rs"
  have "distinct (filter (\<lambda>p. p \<noteq> kRecordingRelay) (map rec_purpose (filter P rs)))"
  proof -
    let ?Q = "\<lambda>r. rec_purpose r \<noteq> kRecordingRelay"
    have "distinct (map rec_purpose (filter ?Q rs))" using o by (simp add: in_stage_order_def filter_map comp_def)
    then have "distinct (map rec_purpose (filter P (filter ?Q rs)))" by (rule distinct_map_filter)
    then show ?thesis by (simp add: filter_map comp_def filter_filter conj_commute)
  qed
  moreover have "sorted (map rank_of (filter (\<lambda>r. \<not> first_flag r) (filter P rs)))"
    using o sorted_filter [of rank_of "filter (\<lambda>r. \<not> first_flag r) rs" P]
    by (simp add: in_stage_order_def filter_filter conj_commute)
  ultimately show ?thesis by (simp add: in_stage_order_def)
qed

lemma MaxRank_ge:
  "r \<in> set (channel_records u w) \<Longrightarrow> rank_of r \<le> MaxRankForChannel u w"
proof -
  have "m \<le> fold (\<lambda>r m. if m < rank_of r then rank_of r else m) rs m
      \<and> (\<forall>r \<in> set rs. rank_of r \<le> fold (\<lambda>r m. if m < rank_of r then rank_of r else m) rs m)" for rs m
  proof (induction rs arbitrary: m)
    case (Cons q rs)
    show ?case using Cons.IH [of "if m < rank_of q then rank_of q else m"] by (auto split: if_splits intro: order_trans)
  qed simp
  then show "r \<in> set (channel_records u w) \<Longrightarrow> rank_of r \<le> MaxRankForChannel u w"
    unfolding MaxRankForChannel_def rank_of_def by blast
qed

lemma check_attach_attachable:
  assumes "check_attach u cfg w = Inr flags"
    and r: "rec_purpose r = bg_purpose cfg" "bg_fs_flags (rec_config r) = flags"
  shows "attachable r (channel_records u w)"
proof -
  have "flags = bg_fs_flags cfg OR kSmbfFirst \<and> bg_purpose cfg = kVadBargeIn \<or> flags = bg_fs_flags cfg
      \<and> (MaxRankForChannel u w \<le> StageRank (bg_purpose cfg) \<or> bg_fs_flags cfg AND kSmbfFirst \<noteq> 0)"
    using assms(1) by (auto simp: check_attach_def Let_def not_less split: if_splits)
  then have "first_flag r \<or> MaxRankForChannel u w \<le> rank_of r"
  proof (elim disjE conjE)
    assume f: "flags = bg_fs_flags cfg OR kSmbfFirst"
    have "bit (flags AND kSmbfFirst) 26" unfolding f kSmbfFirst_def by (simp add: bit_simps)
    then have "flags AND kSmbfFirst \<noteq> 0" by (metis bit_0_eq bot_apply bot_bool_def)
    then show ?thesis using r by (simp add: first_flag_def)
  qed (use r in \<open>simp_all add: first_flag_def rank_of_def\<close>)
  then have "first_flag r \<or> (\<forall>q \<in> set (channel_records u w). rank_of q \<le> rank_of r)"
    using MaxRank_ge [of _ u w] by (blast intro: order_trans)
  moreover have "bg_purpose cfg = kRecordingRelay \<or> bg_purpose cfg \<notin> rec_purpose ` set (channel_records u w)"
    using assms(1) by (auto simp: check_attach_def HasPurpose_def list_ex_iff split: if_splits)
  ultimately show ?thesis using r by (simp add: attachable_def)
qed

lemma records_frame:
  "bm_by_id w' = bm_by_id w \<Longrightarrow> bm_by_channel w' = bm_by_channel w \<Longrightarrow> channel_records u w' = channel_records u w"
  unfolding channel_records_def by (simp only:)

lemma map_filter_cong: "(\<And>x. x \<in> set xs \<Longrightarrow> f x = g x) \<Longrightarrow> List.map_filter f xs = List.map_filter g xs"
  by (induction xs) (auto simp: List.map_filter_simps split: option.split)

lemma map_filter_append: "List.map_filter f (xs @ ys) = List.map_filter f xs @ List.map_filter f ys"
  by (simp add: List.map_filter_def)

lemma records_register:
  assumes "idx_inv w" "bm_by_id w (rec_id r) = None"
  shows "channel_records u (register_record r w) = channel_records u w @ (if u = rec_channel_uuid r then [r] else [])"
proof -
  have nin: "rec_id r \<notin> set ids" if "bm_by_channel w v = Some ids" for v ids
    using idx_listed [OF assms(1) that, of "rec_id r"] assms(2) by auto
  then have "List.map_filter ((bm_by_id w)(rec_id r \<mapsto> r)) ids = List.map_filter (bm_by_id w) ids"
    if "bm_by_channel w v = Some ids" for v ids
    using that by (intro map_filter_cong) auto
  then show ?thesis using assms(2)
    by (auto simp: channel_records_def register_record_def map_filter_append List.map_filter_simps split: option.split)
qed

lemma records_erased:
  assumes "idx_inv w" "bm_by_id w (rec_id r) = Some r"
  shows "channel_records u (erased r w) = filter (\<lambda>q. q \<noteq> r) (channel_records u w)"
proof -
  have drop: "List.map_filter ((bm_by_id w)(rec_id r := None)) (filter (\<lambda>i. i \<noteq> rec_id r) ids) =
      filter (\<lambda>q. q \<noteq> r) (List.map_filter (bm_by_id w) ids)" for ids
  proof (induction ids)
    case (Cons i ids)
    consider "i = rec_id r" | "i \<noteq> rec_id r" "bm_by_id w i = None" | q where "i \<noteq> rec_id r" "bm_by_id w i = Some q" by fastforce
    then show ?case
    proof cases
      case 1
      then show ?thesis unfolding List.map_filter_simps using Cons.IH assms(2) by simp
    next
      case 2
      then show ?thesis using Cons.IH by (simp add: List.map_filter_simps)
    next
      case (3 q)
      then have "q \<noteq> r" using idx_record [OF assms(1) 3(2)] by auto
      then show ?thesis using 3 Cons.IH by (simp add: List.map_filter_simps)
    qed
  qed (simp add: List.map_filter_simps)
  have other: "rec_id r \<notin> set ids" if "bm_by_channel w v = Some ids" "v \<noteq> rec_channel_uuid r" for v ids
    using idx_listed [OF assms(1) that(1), of "rec_id r"] that(2) assms(2) by auto
  obtain ids where ids: "bm_by_channel w (rec_channel_uuid r) = Some ids" using idx_indexed [OF assms] .
  show ?thesis
  proof (cases "u = rec_channel_uuid r")
    case True
    have "channel_records u (erased r w) =
        List.map_filter ((bm_by_id w)(rec_id r := None)) (filter (\<lambda>i. i \<noteq> rec_id r) ids)"
    proof (cases "filter (\<lambda>i. i \<noteq> rec_id r) ids")
      case Nil
      then show ?thesis using True ids by (simp add: channel_records_def erased_def List.map_filter_simps)
    next
      case (Cons j js)
      then have "bm_by_channel (erased r w) u = Some (filter (\<lambda>i. i \<noteq> rec_id r) ids)" using True ids by (simp add: erased_def)
      then show ?thesis unfolding channel_records_def erased_frame(1) by (simp only: option.case)
    qed
    then show ?thesis using True ids drop by (simp add: channel_records_def)
  next
    case False
    show ?thesis
    proof (cases "bm_by_channel w u")
      case (Some ks)
      have "filter (\<lambda>i. i \<noteq> rec_id r) ks = ks" using other [OF Some False] by (auto simp: filter_id_conv)
      then show ?thesis using drop [of ks] Some False by (simp add: channel_records_def erased_def)
    qed (use False in \<open>simp add: channel_records_def erased_def\<close>)
  qed
qed

section \<open>Invariants of a run\<close>

definition busy_orphan :: "bug_sys \<Rightarrow> string set" where
  "busy_orphan s = {u. \<exists>r. sy_busy s u = Some (Detaching r True)}"

definition drivers_of :: "bug_world \<Rightarrow> string set" where
  "drivers_of w = fst ` set (sl_drivers (bm_silence w))"

definition sil_ok :: "string set \<Rightarrow> bug_world \<Rightarrow> bool" where
  "sil_ok B w \<longleftrightarrow> (\<forall>u \<in> drivers_of w. HasWriteReplaceBug u w \<or> u \<in> B) \<and> (\<not> bm_silence_wired w \<longrightarrow> drivers_of w = {})"

definition ord_inv :: "bug_sys \<Rightarrow> bool" where
  "ord_inv s \<longleftrightarrow>
     (\<forall>u. in_stage_order (channel_records u (sy_world s)))
     \<and> (\<forall>u p. sy_busy s u = Some (Attaching p) \<longrightarrow> attachable (record_of p) (channel_records u (sy_world s)))
     \<and> sil_ok (busy_orphan s) (sy_world s)"

lemma attachable_filter: "attachable r rs \<Longrightarrow> attachable r (filter P rs)"
  by (auto simp: attachable_def)

lemma sil_frame:
  "bm_by_id w' = bm_by_id w \<Longrightarrow> bm_by_channel w' = bm_by_channel w \<Longrightarrow> bm_silence w' = bm_silence w
   \<Longrightarrow> bm_silence_wired w' = bm_silence_wired w \<Longrightarrow> sil_ok B w' = sil_ok B w"
  using records_frame [of w' w] by (simp add: sil_ok_def drivers_of_def HasWriteReplaceBug_def)

lemma sil_mono: "sil_ok B w \<Longrightarrow> B \<subseteq> C \<Longrightarrow> sil_ok C w"
  by (auto simp: sil_ok_def)

lemma drivers_StopAndErase: "fst ` set (sl_drivers (StopAndErase l u r)) = fst ` set (sl_drivers r) - {u}"
  by (auto simp: StopAndErase_def stop_and_delete_def SilenceDriver_delete_def SilenceDriver_Stop_def map_of_eq_None_iff
      split: option.split)

lemma drivers_AttachOpportunistic:
  "fst ` set (sl_drivers (AttachOpportunistic config b l (Some session) r)) \<subseteq> insert (ss_uuid session) (fst ` set (sl_drivers r))"
  by (auto simp: AttachOpportunistic_def SilenceDriver_new_def SilenceDriver_delete_def SilenceDriver_Stop_def split: option.split)

text \<open>Erasing a record: the drivers it may orphan, and the drivers after freeing it.\<close>

lemma HasWR_erased:
  assumes "idx_inv w" "bm_by_id w (rec_id r) = Some r" "HasWriteReplaceBug u w"
  shows "HasWriteReplaceBug u (erased r w) \<or> u = rec_channel_uuid r \<and> write_replace (bg_fs_flags (rec_config r))"
proof -
  obtain q where q: "q \<in> set (channel_records u w)" "write_replace (bg_fs_flags (rec_config q))"
    using assms(3) by (auto simp: HasWriteReplaceBug_def list_ex_iff)
  show ?thesis
  proof (cases "q = r")
    case True
    have "u = rec_channel_uuid r"
    proof (cases "bm_by_channel w u")
      case (Some ids)
      obtain i where i: "i \<in> set ids" "bm_by_id w i = Some r"
        using q(1) True Some by (auto simp: channel_records_def set_map_filter_iff)
      then show ?thesis using idx_listed [OF assms(1) Some i(1)] by auto
    qed (use q(1) in \<open>simp add: channel_records_def\<close>)
    then show ?thesis using True q(2) by simp
  next
    case False
    then have "q \<in> set (channel_records u (erased r w))" using q(1) records_erased [OF assms(1,2)] by simp
    then show ?thesis using q(2) by (auto simp: HasWriteReplaceBug_def list_ex_iff)
  qed
qed

lemma sil_erased:
  assumes "idx_inv w" "bm_by_id w (rec_id r) = Some r" "sil_ok B w"
    and orphan: "orphan \<longleftrightarrow> write_replace (bg_fs_flags (rec_config r)) \<and> \<not> HasWriteReplaceBug (rec_channel_uuid r) (erased r w)"
  shows "sil_ok (B \<union> (if orphan then {rec_channel_uuid r} else {})) (erased r w)"
proof -
  have "HasWriteReplaceBug u (erased r w) \<or> u \<in> B \<union> (if orphan then {rec_channel_uuid r} else {})" if u: "u \<in> drivers_of w" for u
  proof (cases "HasWriteReplaceBug u w")
    case True
    then show ?thesis using HasWR_erased [OF assms(1,2) True] orphan by auto
  qed (use u assms(3) in \<open>auto simp: sil_ok_def\<close>)
  then show ?thesis using assms(3) by (simp add: sil_ok_def drivers_of_def)
qed

lemma drivers_free_record:
  "drivers_of (free_record env r orphan w) =
     (if orphan \<and> bm_silence_wired w then drivers_of w - {rec_channel_uuid r} else drivers_of w)"
  "HasWriteReplaceBug u (free_record env r orphan w) = HasWriteReplaceBug u w"
proof -
  show "drivers_of (free_record env r orphan w) =
     (if orphan \<and> bm_silence_wired w then drivers_of w - {rec_channel_uuid r} else drivers_of w)"
    using drivers_StopAndErase [of "ev_lockable env" "rec_channel_uuid r" "bm_silence w"]
    by (cases "orphan \<and> bm_silence_wired w")
       (auto simp: free_record_def stop_silence_def delete_ctx_def drivers_of_def DetachIfOrphan_def)
  show "HasWriteReplaceBug u (free_record env r orphan w) = HasWriteReplaceBug u w"
    using records_frame [of "free_record env r orphan w" w u] by (simp add: HasWriteReplaceBug_def)
qed

lemma sil_free_record:
  assumes "sil_ok (B \<union> (if orphan then {rec_channel_uuid r} else {})) w"
  shows "sil_ok B (free_record env r orphan w)"
  using assms by (auto simp: sil_ok_def drivers_free_record split: if_splits)

lemma DetachClosed_order:
  assumes "idx_inv w" "sil_ok B w"
  shows "idx_inv (DetachClosed env i w) \<and> sil_ok B (DetachClosed env i w)
    \<and> (\<exists>P. \<forall>u. channel_records u (DetachClosed env i w) = filter P (channel_records u w))"
proof (cases "bm_by_id w i")
  case None
  have "\<exists>P. \<forall>u. channel_records u w = filter P (channel_records u w)" by (rule exI [of _ "\<lambda>_. True"]) simp
  then show ?thesis using None assms by (simp add: DetachClosed_def erase_record_None)
next
  case (Some r)
  obtain orphan where e: "erase_record i w = (Some (r, orphan), erased r w)"
    "orphan \<longleftrightarrow> write_replace (bg_fs_flags (rec_config r)) \<and> \<not> HasWriteReplaceBug (rec_channel_uuid r) (erased r w)"
    using erase_record_eq [OF assms(1) Some] .
  have r: "bm_by_id w (rec_id r) = Some r" using Some idx_record [OF assms(1) Some] by simp
  have w: "DetachClosed env i w = free_record env r orphan (erased r w)" by (simp add: DetachClosed_def e(1))
  have "channel_records u (DetachClosed env i w) = filter (\<lambda>q. q \<noteq> r) (channel_records u w)" for u
    using records_erased [OF assms(1) r] records_frame [of "DetachClosed env i w" "erased r w" u] by (simp add: w)
  moreover have "idx_inv (DetachClosed env i w)"
    using idx_erased [OF assms(1) r] idx_frame [of "DetachClosed env i w" "erased r w"] by (simp add: w)
  moreover have "sil_ok B (DetachClosed env i w)"
    unfolding w by (rule sil_free_record) (rule sil_erased [OF assms(1) r assms(2) e(2)])
  ultimately show ?thesis by blast
qed

lemma ord_filter:
  assumes "ord_inv s" "\<And>u. channel_records u w = filter P (channel_records u (sy_world s))"
    and "\<And>u p. busy u = Some (Attaching p) \<Longrightarrow> sy_busy s u = Some (Attaching p)"
    and "sil_ok (busy_orphan (s\<lparr>sy_world := w, sy_busy := busy\<rparr>)) w"
  shows "ord_inv (s\<lparr>sy_world := w, sy_busy := busy\<rparr>)"
  using assms by (auto simp: ord_inv_def intro: in_stage_order_filter attachable_filter)

lemma ord_same:
  assumes "ord_inv s" "same_regs (sy_world s) w"
  shows "ord_inv (s\<lparr>sy_world := w\<rparr>)"
  using assms records_frame [of w "sy_world s"] sil_frame [of w "sy_world s"]
  by (simp add: ord_inv_def same_regs_def busy_orphan_def)

lemma ord_attach_begin:
  assumes sys: "sys_inv s" and ord: "ord_inv s" and free: "sy_busy s (ss_uuid session) = None"
    and nowrap: "bm_next_id (sy_world s) \<noteq> - 1"
    and run: "Attach_begin session cfg alloc rc (sy_world s) = (res, w)"
  shows "res = Inl st \<Longrightarrow> ord_inv (s\<lparr>sy_world := w\<rparr>)"
    "res = Inr p \<Longrightarrow> ord_inv (s\<lparr>sy_world := w, sy_busy := (sy_busy s)(ss_uuid session \<mapsto> Attaching p)\<rparr>)"
proof -
  have core: "mem_core (owners s) (sy_world s)" using sys by (simp add: sys_inv_def)
  have same: "same_regs (sy_world s) w" using Attach_begin_core(1-4) [OF core nowrap run] by (simp add: same_regs_def)
  show "ord_inv (s\<lparr>sy_world := w\<rparr>)" if "res = Inl st" using ord_same [OF ord same] .
  show "ord_inv (s\<lparr>sy_world := w, sy_busy := (sy_busy s)(ss_uuid session \<mapsto> Attaching p)\<rparr>)" if ok: "res = Inr p"
  proof -
    have recs: "channel_records u w = channel_records u (sy_world s)" for u
      using same records_frame [of w "sy_world s" u] by (simp add: same_regs_def)
    obtain flags where c: "check_attach (ss_uuid session) cfg (sy_world s) = Inr flags"
      "pa_config p = cfg\<lparr>bg_fs_flags := flags\<rparr>"
      using run ok by (auto simp: Attach_begin_def Let_def split: if_splits sum.splits prod.splits)
    have "attachable (record_of p) (channel_records (ss_uuid session) (sy_world s))"
      by (rule check_attach_attachable [OF c(1)]) (simp_all add: record_of_def c(2))
    moreover have "busy_orphan (s\<lparr>sy_world := w, sy_busy := (sy_busy s)(ss_uuid session \<mapsto> Attaching p)\<rparr>) = busy_orphan s"
      using free by (auto simp: busy_orphan_def)
    moreover have "sil_ok (busy_orphan s) w"
      using ord same sil_frame [of w "sy_world s"] by (simp add: ord_inv_def same_regs_def)
    ultimately show ?thesis using ord by (simp add: ord_inv_def recs)
  qed
qed

lemma ord_attach_end:
  assumes sys: "sys_inv s" and ord: "ord_inv s" and busy: "sy_busy s u = Some (Attaching p)"
  shows "ord_inv (s\<lparr>sy_world := snd (Attach_end env p alloc (sy_world s)), sy_busy := (sy_busy s)(u := None)\<rparr>)"
proof -
  let ?w = "sy_world s" and ?r = "record_of p" and ?busy = "(sy_busy s)(u := None)"
  have core: "mem_core (owners s) ?w" and idx: "idx_inv ?w" using sys by (simp_all add: sys_inv_def)
  have r: "rec_channel_uuid ?r = u" "bm_by_id ?w (rec_id ?r) = None" "?r \<in> owners s" using sys_busy [OF sys busy] by simp_all
  have bo: "busy_orphan (s\<lparr>sy_world := w, sy_busy := ?busy\<rparr>) = busy_orphan s" for w
    using busy by (auto simp: busy_orphan_def)
  show ?thesis
  proof (cases alloc)
    case True
    define w where "w = snd (Attach_end env p True ?w)"
    have w: "channel_records v w = channel_records v ?w @ (if v = u then [?r] else [])" for v
      using records_register [OF idx r(2), of v] r(1) records_frame [of w "register_record ?r ?w" v]
      by (simp add: w_def Attach_end_def Let_def)
    have wr: "HasWriteReplaceBug v w \<longleftrightarrow> HasWriteReplaceBug v ?w \<or> v = u \<and> write_replace (bg_fs_flags (pa_config p))" for v
      by (auto simp: HasWriteReplaceBug_def w record_of_def)
    have dr: "drivers_of w \<subseteq> drivers_of ?w \<union> (if write_replace (bg_fs_flags (pa_config p)) \<and> bm_silence_wired ?w then {u} else {})"
      using drivers_AttachOpportunistic [of "ev_config env" "ev_broadcast env" "ev_lockable env" "pa_session p" "bm_silence ?w"] r(1)
      by (auto simp: w_def Attach_end_def Let_def drivers_of_def register_record_def record_of_def)
    have wired: "bm_silence_wired w = bm_silence_wired ?w" by (simp add: w_def Attach_end_def Let_def register_record_def)
    have "in_stage_order (channel_records v w)" for v
      using ord busy by (auto simp: w ord_inv_def intro: in_stage_order_append)
    moreover have "attachable (record_of q) (channel_records v w)" if "?busy v = Some (Attaching q)" for v q
      using that ord by (auto simp: w ord_inv_def split: if_splits)
    moreover have "sil_ok (busy_orphan s) w"
      using ord dr wr wired by (fastforce simp: ord_inv_def sil_ok_def split: if_splits)
    ultimately have "ord_inv (s\<lparr>sy_world := w, sy_busy := ?busy\<rparr>)" by (simp add: ord_inv_def bo)
    then show ?thesis using True by (simp add: w_def)
  next
    case False
    let ?w' = "snd (Attach_end env p alloc ?w)"
    have "same_regs ?w ?w'" using False same_regs_trans [OF remove_unregistered(1) [OF core r(3,2), of env] delete_ctx_same]
      by (simp add: Attach_end_def record_of_def)
    then have "ord_inv (s\<lparr>sy_world := ?w'\<rparr>)" by (rule ord_same [OF ord])
    then show ?thesis using bo [of ?w'] busy by (auto simp: ord_inv_def busy_orphan_def split: if_splits)
  qed
qed

lemma ord_detach_begin:
  assumes sys: "sys_inv s" and ord: "ord_inv s" and r: "bm_by_id (sy_world s) i = Some r"
    and free: "sy_busy s (rec_channel_uuid r) = None"
    and e: "orphan \<longleftrightarrow> write_replace (bg_fs_flags (rec_config r)) \<and> \<not> HasWriteReplaceBug (rec_channel_uuid r) (erased r (sy_world s))"
  shows "ord_inv (s\<lparr>sy_world := erased r (sy_world s), sy_busy := (sy_busy s)(rec_channel_uuid r \<mapsto> Detaching r orphan)\<rparr>)"
proof (rule ord_filter [OF ord])
  have idx: "idx_inv (sy_world s)" using sys by (simp add: sys_inv_def)
  have r': "bm_by_id (sy_world s) (rec_id r) = Some r" using r idx_record [OF idx r] by simp
  show "channel_records u (erased r (sy_world s)) = filter (\<lambda>q. q \<noteq> r) (channel_records u (sy_world s))" for u
    by (rule records_erased [OF idx r'])
  show "sy_busy s u = Some (Attaching p)" if "((sy_busy s)(rec_channel_uuid r \<mapsto> Detaching r orphan)) u = Some (Attaching p)" for u p
    using that by (simp split: if_splits)
  have "busy_orphan s \<union> (if orphan then {rec_channel_uuid r} else {}) \<subseteq>
      busy_orphan (s\<lparr>sy_world := erased r (sy_world s), sy_busy := (sy_busy s)(rec_channel_uuid r \<mapsto> Detaching r orphan)\<rparr>)"
    using free by (auto simp: busy_orphan_def)
  then show "sil_ok (busy_orphan (s\<lparr>sy_world := erased r (sy_world s),
      sy_busy := (sy_busy s)(rec_channel_uuid r \<mapsto> Detaching r orphan)\<rparr>)) (erased r (sy_world s))"
    by (rule sil_mono [rotated]) (use sil_erased [OF idx r' _ e, of "busy_orphan s"] ord in \<open>simp add: ord_inv_def\<close>)
qed

lemma ord_detach_end:
  assumes sys: "sys_inv s" and ord: "ord_inv s" and busy: "sy_busy s u = Some (Detaching r orphan)"
  shows "ord_inv (s\<lparr>sy_world := remove_and_free env r orphan (sy_world s), sy_busy := (sy_busy s)(u := None)\<rparr>)"
proof (rule ord_filter [OF ord])
  let ?w = "sy_world s" and ?busy = "(sy_busy s)(u := None)"
  have core: "mem_core (owners s) ?w" using sys by (simp add: sys_inv_def)
  have r: "rec_channel_uuid r = u" "bm_by_id ?w (rec_id r) = None" "r \<in> owners s" using sys_busy [OF sys busy] by simp_all
  let ?w1 = "FsMediaBugRemove env (rec_fs_bug r) ?w"
  note rm = remove_unregistered(1) [OF core r(3,2), of env]
  show "channel_records v (remove_and_free env r orphan ?w) = filter (\<lambda>_. True) (channel_records v ?w)" for v
    using records_frame [OF remove_and_free_core(2,3) [OF core r(3,2)]] by simp
  have "busy_orphan s \<subseteq> busy_orphan (s\<lparr>sy_world := remove_and_free env r orphan ?w, sy_busy := ?busy\<rparr>) \<union> (if orphan then {rec_channel_uuid r} else {})"
    using busy r(1) by (auto simp: busy_orphan_def)
  moreover have "sil_ok (busy_orphan s) ?w1" using ord rm sil_frame [of ?w1 ?w] by (simp add: ord_inv_def same_regs_def)
  ultimately have "sil_ok (busy_orphan (s\<lparr>sy_world := remove_and_free env r orphan ?w, sy_busy := ?busy\<rparr>)
      \<union> (if orphan then {rec_channel_uuid r} else {})) ?w1" by (rule sil_mono [rotated])
  then show "sil_ok (busy_orphan (s\<lparr>sy_world := remove_and_free env r orphan ?w, sy_busy := ?busy\<rparr>)) (remove_and_free env r orphan ?w)"
    using sil_free_record [of _ orphan r ?w1 env] by (simp add: remove_and_free_def)
qed (simp split: if_splits)

lemma ord_world:
  assumes "ord_inv s" "\<And>u. channel_records u w = filter P (channel_records u (sy_world s))" "sil_ok (busy_orphan s) w"
  shows "ord_inv (s\<lparr>sy_world := w\<rparr>)"
  using assms by (auto simp: ord_inv_def busy_orphan_def intro: in_stage_order_filter attachable_filter)

lemma ord_close:
  assumes sys: "sys_inv s" and ord: "ord_inv s" and b: "fs_bugs (sy_world s) ptr = Some b"
  shows "ord_inv (s\<lparr>sy_world := FsMediaBugRemove env ptr (sy_world s)\<rparr>)"
proof -
  let ?w = "sy_world s"
  let ?w1 = "?w\<lparr>fs_bugs := (fs_bugs ?w)(ptr := None)\<rparr>"
  have core: "mem_core (owners s) ?w" and idx: "idx_inv ?w" using sys by (simp_all add: sys_inv_def)
  obtain r where r: "r \<in> owners s" "rec_ctx r = fb_ctx b" using core_fs [OF core b] .
  obtain c where c: "bm_heap ?w (rec_ctx r) = Some c" using core_live [OF core r(1)] .
  let ?w2 = "DetachClosed env (cx_bug_id c) ?w1"
  have w: "FsMediaBugRemove env ptr ?w = user_callback (cx_user_cb c) (cx_user_data c) ABC_CLOSE ?w2"
    using b c r(2) by (simp add: FsMediaBugRemove_def OswMediaBugTrampoline_def)
  have "idx_inv ?w1" "sil_ok (busy_orphan s) ?w1"
    using idx idx_frame [of ?w1 ?w] ord sil_frame [of ?w1 ?w] by (simp_all add: ord_inv_def)
  then obtain P where d: "sil_ok (busy_orphan s) ?w2" "\<And>u. channel_records u ?w2 = filter P (channel_records u ?w1)"
    using DetachClosed_order by blast
  have "ord_inv (s\<lparr>sy_world := ?w2\<rparr>)"
    by (rule ord_world [OF ord _ d(1), of P]) (use d(2) records_frame [of ?w1 ?w] in simp)
  then show ?thesis using ord_same [of "s\<lparr>sy_world := ?w2\<rparr>", OF _ user_callback_same(1)] unfolding w by simp
qed

lemma ord_detach_all:
  assumes "idx_inv w" "sil_ok B w"
  shows "sil_ok B (fold (DetachClosed env) ids w)
    \<and> (\<exists>P. \<forall>u. channel_records u (fold (DetachClosed env) ids w) = filter P (channel_records u w))"
  using assms
proof (induction ids arbitrary: w)
  case Nil
  have "\<exists>P. \<forall>u. channel_records u w = filter P (channel_records u w)" by (rule exI [of _ "\<lambda>_. True"]) simp
  then show ?case using Nil by simp
next
  case (Cons i ids)
  obtain P where P: "idx_inv (DetachClosed env i w)" "sil_ok B (DetachClosed env i w)"
    "\<And>u. channel_records u (DetachClosed env i w) = filter P (channel_records u w)"
    using DetachClosed_order [OF Cons.prems] by blast
  obtain Q where Q: "sil_ok B (fold (DetachClosed env) ids (DetachClosed env i w))"
    "\<And>u. channel_records u (fold (DetachClosed env) ids (DetachClosed env i w)) = filter Q (channel_records u (DetachClosed env i w))"
    using Cons.IH [OF P(1,2)] by blast
  have "\<exists>R. \<forall>u. channel_records u (fold (DetachClosed env) (i # ids) w) = filter R (channel_records u w)"
    by (rule exI [of _ "\<lambda>r. Q r \<and> P r"]) (simp add: Q(2) P(3) filter_filter conj_commute)
  then show ?case using Q(1) by simp
qed

lemma ord_bug_step:
  assumes sys: "sys_inv s" and ord: "ord_inv s" and step: "bug_step env op s = Some s'"
  shows "ord_inv s'"
proof (cases op)
  case (Op_attach_begin session cfg alloc rc)
  obtain res w where r: "Attach_begin session cfg alloc rc (sy_world s) = (res, w)" by (rule prod.exhaust)
  with step Op_attach_begin have g: "sy_busy s (ss_uuid session) = None" "bm_next_id (sy_world s) \<noteq> - 1"
    by (auto split: if_splits)
  show ?thesis using ord_attach_begin [OF sys ord g r] step Op_attach_begin r g by (cases res) auto
next
  case (Op_attach_end u alloc)
  then obtain p where "sy_busy s u = Some (Attaching p)" using step by (auto split: option.splits lifecycle.splits)
  then show ?thesis using ord_attach_end [OF sys ord] step Op_attach_end by auto
next
  case (Op_detach_begin i)
  show ?thesis
  proof (cases "bm_by_id (sy_world s) i")
    case (Some r)
    have idx: "idx_inv (sy_world s)" using sys by (simp add: sys_inv_def)
    obtain orphan where e: "erase_record i (sy_world s) = (Some (r, orphan), erased r (sy_world s))"
      "orphan \<longleftrightarrow> write_replace (bg_fs_flags (rec_config r)) \<and> \<not> HasWriteReplaceBug (rec_channel_uuid r) (erased r (sy_world s))"
      using erase_record_eq [OF idx Some] .
    show ?thesis using ord_detach_begin [OF sys ord Some _ e(2)] step Op_detach_begin Some e(1) by (auto split: if_splits)
  qed (use step ord Op_detach_begin in simp)
next
  case (Op_detach_end u)
  then obtain r orphan where "sy_busy s u = Some (Detaching r orphan)"
    using step by (auto split: option.splits lifecycle.splits)
  then show ?thesis using ord_detach_end [OF sys ord] step Op_detach_end by auto
next
  case (Op_callback ptr type)
  then obtain b where b: "fs_bugs (sy_world s) ptr = Some b" "type \<noteq> ABC_CLOSE"
    "s' = s\<lparr>sy_world := OswMediaBugTrampoline env (fb_ctx b) type (sy_world s)\<rparr>"
    using step by (auto split: option.splits if_splits)
  then have "same_regs (sy_world s) (OswMediaBugTrampoline env (fb_ctx b) type (sy_world s))"
    by (simp add: OswMediaBugTrampoline_def same_regs_def split: option.split)
  then show ?thesis using ord_same [OF ord] b by simp
next
  case (Op_close ptr)
  then obtain b where "fs_bugs (sy_world s) ptr = Some b" "s' = s\<lparr>sy_world := FsMediaBugRemove env ptr (sy_world s)\<rparr>"
    using step by (auto split: option.splits if_splits)
  then show ?thesis using ord_close [OF sys ord] by simp
next
  case (Op_set_callback i cb d)
  have "same_regs (sy_world s) (snd (SetBugCallback i cb d (sy_world s)))"
    by (simp add: SetBugCallback_def same_regs_def split: option.split)
  then show ?thesis using ord_same [OF ord] step Op_set_callback by auto
next
  case (Op_detach_all u)
  have idx: "idx_inv (sy_world s)" and sil: "sil_ok (busy_orphan s) (sy_world s)" using sys ord by (simp_all add: sys_inv_def ord_inv_def)
  have s': "s' = s\<lparr>sy_world := Bug_DetachAll env u (sy_world s)\<rparr>" using step Op_detach_all by (auto split: if_splits)
  show ?thesis
  proof (cases "bm_by_channel (sy_world s) u")
    case (Some ids)
    obtain P where "sil_ok (busy_orphan s) (fold (DetachClosed env) ids (sy_world s))"
      "\<And>u. channel_records u (fold (DetachClosed env) ids (sy_world s)) = filter P (channel_records u (sy_world s))"
      using ord_detach_all [OF idx sil, of env ids] by blast
    then show ?thesis using ord_world [OF ord] Some s' by (simp add: Bug_DetachAll_def)
  qed (use ord s' in \<open>simp add: Bug_DetachAll_def\<close>)
qed

lemma ord_bug_run: "sys_inv s \<Longrightarrow> ord_inv s \<Longrightarrow> bug_run env ops s = Some s' \<Longrightarrow> ord_inv s'"
  by (induction ops arbitrary: s) (auto split: option.splits intro: inv_bug_step ord_bug_step)

lemma ord_bug_new: "ord_inv (bug_sys_new wired)"
  by (simp add: ord_inv_def bug_sys_new_def MediaBugManager_new_def channel_records_def in_stage_order_def sil_ok_def drivers_of_def
      SilenceDriverRegistry_new_def)


text \<open>Transcription, then playback; and playback alone, with a silence driver.\<close>

definition demo_order_ops :: "bug_step_op list" where
  "demo_order_ops =
     [Op_attach_begin demo_session (demo_bug_config\<lparr>bg_purpose := kSttTranscribe, bg_fs_flags := 1\<rparr>) True 0, Op_attach_end ''c'' True,
      Op_attach_begin demo_session demo_bug_config True 0, Op_attach_end ''c'' True]"

lemma demo_order_run:
  "\<exists>s. bug_run demo_bug_env demo_order_ops (bug_sys_new False) = Some s
     \<and> map rec_purpose (channel_records ''c'' (sy_world s)) = [kSttTranscribe, kTtsPlayback]"
  by (simp add: demo_order_ops_def demo_bug_env_def demo_session_def demo_bug_config_def bug_sys_new_def MediaBugManager_new_def
      bug_ops_defs Let_def List.map_filter_simps Config_default_def SilenceDriverRegistry_new_def ChannelAlreadyHasWriteSource_def
      SilenceDriver_new_def)

lemma demo_driver_run:
  "\<exists>s. bug_run demo_bug_env (drop 2 demo_order_ops) (bug_sys_new True) = Some s
     \<and> map fst (sl_drivers (bm_silence (sy_world s))) = [''c''] \<and> sy_busy s ''c'' = None"
  by (simp add: demo_order_ops_def demo_bug_env_def demo_session_def demo_bug_config_def bug_sys_new_def MediaBugManager_new_def
      bug_ops_defs Let_def List.map_filter_simps Config_default_def SilenceDriverRegistry_new_def ChannelAlreadyHasWriteSource_def
      SilenceDriver_new_def)


section \<open>Channel destruction\<close>

lemma detach_ids:
  "bm_by_id (fold (DetachClosed env) ids w) = (\<lambda>i. if i \<in> set ids then None else bm_by_id w i)"
  by (induction ids arbitrary: w) (auto simp: DetachClosed_frame)

lemma detach_all_idx: "idx_inv w \<Longrightarrow> sil_ok B w \<Longrightarrow> idx_inv (fold (DetachClosed env) ids w)"
proof (induction ids arbitrary: w)
  case (Cons i ids)
  have "idx_inv (DetachClosed env i w) \<and> sil_ok B (DetachClosed env i w)" using DetachClosed_order [OF Cons.prems, of env i] by blast
  then show ?case using Cons.IH by simp
qed simp

lemma idx_no_records:
  assumes "idx_inv w" "\<And>i r. bm_by_id w i = Some r \<Longrightarrow> rec_channel_uuid r \<noteq> u"
  shows "bm_by_channel w u = None"
proof (cases "bm_by_channel w u")
  case (Some ids)
  then obtain i where "i \<in> set ids" using idx_ids [OF assms(1) Some] by (cases ids) auto
  then show ?thesis using idx_listed [OF assms(1) Some] assms(2) by blast
qed

lemma RemoveSilence_frame [simp]:
  "bm_by_channel (RemoveSilenceDriverForChannel env u w) = bm_by_channel w"
  "bm_by_id (RemoveSilenceDriverForChannel env u w) = bm_by_id w"
  by (simp_all add: RemoveSilenceDriverForChannel_def)

text \<open>
  When the CS_DESTROY hook runs on a reachable state, neither a bug record nor a silence driver of the
  channel is left, and the records of other channels are untouched.
\<close>

lemma channel_destroy_sweeps:
  fixes singleton :: bug_world
  assumes run: "bug_run env ops (bug_sys_new wired) = Some s"
    and u: "u \<noteq> []"
  defines "w' \<equiv> fst (OswMediaChannelDestroy env (RegisterStateHandlers False None) (Some 12) u (sy_world s, singleton))"
  shows "ActiveBugCount u w' = 0" "u \<notin> drivers_of w'"
    "bm_by_id w' i = (case bm_by_id (sy_world s) i of None \<Rightarrow> None | Some r \<Rightarrow> if rec_channel_uuid r = u then None else Some r)"
proof -
  let ?w = "sy_world s" and ?d = "Bug_DetachAll env u (sy_world s)"
  have idx: "idx_inv ?w" using inv_bug_run [OF inv_bug_new run] by (simp add: sys_inv_def)
  have sil: "sil_ok (busy_orphan s) ?w" using ord_bug_run [OF inv_bug_new ord_bug_new run] by (simp add: ord_inv_def)
  have w': "w' = RemoveSilenceDriverForChannel env u ?d"
    using u by (simp add: w'_def OswMediaChannelDestroy_def RegisterStateHandlers_def)
  have bi: "bm_by_id ?d j = (case bm_by_id ?w j of None \<Rightarrow> None | Some r \<Rightarrow> if rec_channel_uuid r = u then None else Some r)" for j
  proof (cases "bm_by_channel ?w u")
    case None
    have "rec_channel_uuid r \<noteq> u" if r: "bm_by_id ?w j = Some r" for r
    proof -
      obtain ks where "bm_by_channel ?w (rec_channel_uuid r) = Some ks" using idx_indexed [OF idx r] .
      then show ?thesis using None by auto
    qed
    then show ?thesis using None by (auto simp: Bug_DetachAll_def split: option.split)
  next
    case (Some ids)
    have "j \<in> set ids \<longleftrightarrow> rec_channel_uuid r = u" if r: "bm_by_id ?w j = Some r" for r
    proof
      show "rec_channel_uuid r = u" if "j \<in> set ids" using idx_listed [OF idx Some that] r by auto
      obtain ks where "bm_by_channel ?w (rec_channel_uuid r) = Some ks" "j \<in> set ks" using idx_indexed [OF idx r] .
      then show "j \<in> set ids" if "rec_channel_uuid r = u" using that Some by simp
    qed
    then show ?thesis using Some by (auto simp: Bug_DetachAll_def detach_ids split: option.split)
  qed
  show "bm_by_id w' i = (case bm_by_id ?w i of None \<Rightarrow> None | Some r \<Rightarrow> if rec_channel_uuid r = u then None else Some r)"
    using bi by (simp add: w')
  have "idx_inv ?d" using idx detach_all_idx [OF idx sil] by (simp add: Bug_DetachAll_def split: option.split)
  then have "bm_by_channel ?d u = None" by (rule idx_no_records) (auto simp: bi split: option.splits if_splits)
  then show "ActiveBugCount u w' = 0" by (simp add: w' ActiveBugCount_def)
  have sd: "sil_ok (busy_orphan s) ?d" using sil ord_detach_all [OF idx sil] by (simp add: Bug_DetachAll_def split: option.split)
  show "u \<notin> drivers_of w'"
  proof (cases "bm_silence_wired ?d")
    case True
    then show ?thesis
      using drivers_StopAndErase [of "ev_lockable env" u "bm_silence ?d"]
      by (simp add: w' RemoveSilenceDriverForChannel_def RemoveForChannel_def drivers_of_def)
  next
    case False
    then have "drivers_of ?d = {}" using sd by (simp add: sil_ok_def)
    then show ?thesis using False by (simp add: w' RemoveSilenceDriverForChannel_def)
  qed
qed

end
