(* ===== verification/Control_Registry.thy ===== *)
theory Control_Registry
  imports Osw_Prelude "HOL-Library.Multiset"
begin

text \<open>
  The registries of running media: \<open>ActiveMediaStreams\<close> (\<^verbatim>\<open>src/control/active_media_streams.cc\<close>) owns the
  streams with their media bugs and callback contexts, \<open>ActiveBots\<close> (\<^verbatim>\<open>active_bots.cc\<close>) the bots and an
  index of them by channel. A stream's teardown is the ordered list of what is closed, detached and
  freed; the registry records which streams it tore down. The hash maps are association lists in
  insertion order, which stands for any iteration order.
\<close>

section \<open>Streams\<close>

datatype stream_purpose =
    PURPOSE_UNSPECIFIED | TTS_PLAYBACK | STT_TRANSCRIBE | VOICEBOT_DUPLEX | AMD_DETECT | RECORDING_RELAY

definition IsWriteReplacePurpose :: "stream_purpose \<Rightarrow> bool" where
  "IsWriteReplacePurpose purpose \<longleftrightarrow> purpose = TTS_PLAYBACK \<or> purpose = VOICEBOT_DUPLEX"

text \<open>The owned pointers of a stream are present or null.\<close>

record active_stream =
  as_channel_uuid :: string
  as_stream_id :: string
  as_purpose :: stream_purpose
  as_bugs :: "nat list"
  as_client :: bool
  as_tts_buffer :: bool
  as_write_ctx :: bool
  as_read_ctx :: bool
  as_recording_ctx :: bool

datatype media_event =
    Relay_stop | Relay_emit_stopped | Client_close | Buffer_eos | Bug_detach nat
  | Write_ctx_free | Read_ctx_free | Recording_ctx_free | Buffer_free | Client_free

abbreviation on :: "bool \<Rightarrow> 'a \<Rightarrow> 'a list" where
  "on b e \<equiv> (if b then [e] else [])"

text \<open>
  \<open>TearDown\<close>. In the recording branch the remaining members are freed by the destructor of the struct,
  in reverse order of their declaration.
\<close>

definition TearDown :: "active_stream \<Rightarrow> media_event list" where
  "TearDown s =
     (if as_recording_ctx s then
        [Relay_stop] @ map Bug_detach (as_bugs s) @ [Relay_emit_stopped, Recording_ctx_free]
        @ on (as_client s) Client_close @ on (as_client s) Client_free
        @ on (as_read_ctx s) Read_ctx_free @ on (as_write_ctx s) Write_ctx_free @ on (as_tts_buffer s) Buffer_free
      else
        on (as_client s) Client_close @ on (as_tts_buffer s) Buffer_eos @ map Bug_detach (as_bugs s)
        @ on (as_write_ctx s) Write_ctx_free @ on (as_read_ctx s) Read_ctx_free
        @ on (as_tts_buffer s) Buffer_free @ on (as_client s) Client_free)"

record stream_registry =
  sr_by_id :: "(string \<times> active_stream) list"
  sr_torn :: "active_stream list"

definition ActiveMediaStreams_new :: stream_registry where
  "ActiveMediaStreams_new = \<lparr>sr_by_id = [], sr_torn = []\<rparr>"

definition tear_down :: "active_stream list \<Rightarrow> stream_registry \<Rightarrow> stream_registry" where
  "tear_down ss r = r\<lparr>sr_torn := sr_torn r @ ss\<rparr>"

definition Streams_Insert :: "active_stream option \<Rightarrow> stream_registry \<Rightarrow> bool \<times> stream_registry" where
  "Streams_Insert s r =
     (case s of None \<Rightarrow> (False, r)
      | Some st \<Rightarrow>
          if as_stream_id st = [] then (False, tear_down [st] r)
          else if map_of (sr_by_id r) (as_stream_id st) = None
          then (True, r\<lparr>sr_by_id := sr_by_id r @ [(as_stream_id st, st)]\<rparr>)
          else (False, tear_down [st] r))"

definition Streams_Remove :: "string \<Rightarrow> stream_registry \<Rightarrow> bool \<times> stream_registry" where
  "Streams_Remove stream_id r =
     (case map_of (sr_by_id r) stream_id of
        None \<Rightarrow> (False, r)
      | Some st \<Rightarrow> (True, tear_down [st] (r\<lparr>sr_by_id := filter (\<lambda>(k, _). k \<noteq> stream_id) (sr_by_id r)\<rparr>)))"

definition Streams_RemoveIfPurpose ::
  "string \<Rightarrow> stream_purpose \<Rightarrow> stream_registry \<Rightarrow> bool \<times> stream_registry" where
  "Streams_RemoveIfPurpose stream_id purpose r =
     (case map_of (sr_by_id r) stream_id of
        None \<Rightarrow> (False, r)
      | Some st \<Rightarrow>
          if as_purpose st \<noteq> purpose then (False, r)
          else (True, tear_down [st] (r\<lparr>sr_by_id := filter (\<lambda>(k, _). k \<noteq> stream_id) (sr_by_id r)\<rparr>)))"

text \<open>The erase-while-iterating loops: victims leave the map in one pass and are then torn down.\<close>

definition remove_where :: "(active_stream \<Rightarrow> bool) \<Rightarrow> stream_registry \<Rightarrow> nat \<times> stream_registry" where
  "remove_where P r =
     (let victims = map snd (filter (\<lambda>(_, st). P st) (sr_by_id r))
      in (length victims, tear_down victims (r\<lparr>sr_by_id := filter (\<lambda>(_, st). \<not> P st) (sr_by_id r)\<rparr>)))"

definition Streams_RemoveForChannel :: "string \<Rightarrow> stream_registry \<Rightarrow> stream_registry" where
  "Streams_RemoveForChannel channel_uuid r = snd (remove_where (\<lambda>st. as_channel_uuid st = channel_uuid) r)"

definition Streams_RemovePurposeForChannel ::
  "string \<Rightarrow> stream_purpose \<Rightarrow> stream_registry \<Rightarrow> nat \<times> stream_registry" where
  "Streams_RemovePurposeForChannel channel_uuid purpose =
     remove_where (\<lambda>st. as_channel_uuid st = channel_uuid \<and> as_purpose st = purpose)"

definition Streams_RemoveWriteReplaceForChannel :: "string \<Rightarrow> stream_registry \<Rightarrow> nat \<times> stream_registry" where
  "Streams_RemoveWriteReplaceForChannel channel_uuid =
     remove_where (\<lambda>st. as_channel_uuid st = channel_uuid \<and> IsWriteReplacePurpose (as_purpose st))"

definition Streams_Size :: "stream_registry \<Rightarrow> nat" where
  "Streams_Size r = length (sr_by_id r)"

definition ActiveMediaStreams_delete :: "stream_registry \<Rightarrow> stream_registry" where
  "ActiveMediaStreams_delete r = tear_down (map snd (sr_by_id r)) (r\<lparr>sr_by_id := []\<rparr>)"

section \<open>Bots\<close>

record active_bot =
  ab_bot_id :: string
  ab_target_channel_uuids :: "string list"
  ab_stream_ids :: "string list"
  ab_session :: "nat option"

datatype ActiveBotInsertResult = kInserted | kDuplicateBotId | kChannelCapacityExceeded

record bot_registry =
  br_by_id :: "(string \<times> active_bot) list"
  br_by_channel :: "string \<rightharpoonup> string list"
  br_stopped :: "nat list"

definition ActiveBots_new :: bot_registry where
  "ActiveBots_new = \<lparr>br_by_id = [], br_by_channel = Map.empty, br_stopped = []\<rparr>"

text \<open>\<^verbatim>\<open>by_channel_[channel_uuid].push_back(bot_id)\<close>.\<close>

definition index_push :: "string \<Rightarrow> string \<Rightarrow> (string \<rightharpoonup> string list) \<Rightarrow> (string \<rightharpoonup> string list)" where
  "index_push bot_id channel_uuid m =
     m(channel_uuid \<mapsto> (case m channel_uuid of None \<Rightarrow> [] | Some l \<Rightarrow> l) @ [bot_id])"

definition channel_count :: "string \<Rightarrow> bot_registry \<Rightarrow> nat" where
  "channel_count channel_uuid r = (case br_by_channel r channel_uuid of None \<Rightarrow> 0 | Some l \<Rightarrow> length l)"

definition Bots_Insert :: "active_bot \<Rightarrow> nat \<Rightarrow> bot_registry \<Rightarrow> ActiveBotInsertResult \<times> bot_registry" where
  "Bots_Insert active max_bots_per_channel r =
     (if ab_bot_id active = [] then (kDuplicateBotId, r)
      else if map_of (br_by_id r) (ab_bot_id active) \<noteq> None then (kDuplicateBotId, r)
      else if list_ex (\<lambda>ch. max_bots_per_channel \<le> channel_count ch r) (ab_target_channel_uuids active)
      then (kChannelCapacityExceeded, r)
      else (kInserted,
            r\<lparr>br_by_channel := fold (index_push (ab_bot_id active)) (ab_target_channel_uuids active) (br_by_channel r),
              br_by_id := br_by_id r @ [(ab_bot_id active, active)]\<rparr>))"

definition Bots_Register :: "string \<Rightarrow> (nat \<times> string list) option \<Rightarrow> bot_registry \<Rightarrow> bot_registry" where
  "Bots_Register bot_id active r =
     (case active of None \<Rightarrow> r
      | Some (session, targets) \<Rightarrow>
          snd (Bots_Insert \<lparr>ab_bot_id = bot_id, ab_target_channel_uuids = targets, ab_stream_ids = [],
                            ab_session = Some session\<rparr> (2 ^ 32 - 1) r))"

definition Bots_Contains :: "string \<Rightarrow> bot_registry \<Rightarrow> bool" where
  "Bots_Contains bot_id r \<longleftrightarrow> map_of (br_by_id r) bot_id \<noteq> None"

definition Bots_Find :: "string \<Rightarrow> bot_registry \<Rightarrow> nat option" where
  "Bots_Find bot_id r = (case map_of (br_by_id r) bot_id of None \<Rightarrow> None | Some b \<Rightarrow> ab_session b)"

definition ChannelAtCapacity :: "string \<Rightarrow> nat \<Rightarrow> bot_registry \<Rightarrow> bool" where
  "ChannelAtCapacity channel_uuid max_bots_per_channel r =
     (case br_by_channel r channel_uuid of None \<Rightarrow> False | Some l \<Rightarrow> max_bots_per_channel \<le> length l)"

text \<open>One turn of the unindexing loop of \<open>Stop\<close>: erase the bot id and drop an emptied channel.\<close>

definition index_erase :: "string \<Rightarrow> string \<Rightarrow> (string \<rightharpoonup> string list) \<Rightarrow> (string \<rightharpoonup> string list)" where
  "index_erase bot_id channel_uuid m =
     (case m channel_uuid of None \<Rightarrow> m
      | Some l \<Rightarrow>
          (let l' = filter (\<lambda>v. v \<noteq> bot_id) l
           in if l' = [] then m(channel_uuid := None) else m(channel_uuid \<mapsto> l')))"

definition Bots_TearDown :: "active_bot \<Rightarrow> bot_registry \<times> stream_registry \<Rightarrow> bot_registry \<times> stream_registry" where
  "Bots_TearDown active = (\<lambda>(r, streams).
     (case ab_session active of None \<Rightarrow> r | Some s \<Rightarrow> r\<lparr>br_stopped := br_stopped r @ [s]\<rparr>,
      fold (\<lambda>sid streams. snd (Streams_Remove sid streams)) (ab_stream_ids active) streams))"

definition Bots_Stop :: "string \<Rightarrow> bot_registry \<times> stream_registry \<Rightarrow> bool \<times> bot_registry \<times> stream_registry" where
  "Bots_Stop bot_id = (\<lambda>(r, streams).
     case map_of (br_by_id r) bot_id of
       None \<Rightarrow> (False, r, streams)
     | Some active \<Rightarrow>
         (True, Bots_TearDown active
            (r\<lparr>br_by_id := filter (\<lambda>(k, _). k \<noteq> bot_id) (br_by_id r),
               br_by_channel := fold (index_erase (ab_bot_id active)) (ab_target_channel_uuids active) (br_by_channel r)\<rparr>,
             streams)))"

fun stop_all :: "string list \<Rightarrow> nat \<Rightarrow> bot_registry \<times> stream_registry \<Rightarrow> nat \<times> bot_registry \<times> stream_registry" where
  "stop_all [] stopped w = (stopped, w)"
| "stop_all (i # is) stopped w =
     (case Bots_Stop i w of (was, w') \<Rightarrow> stop_all is (if was then stopped + 1 else stopped) w')"

definition Bots_StopByChannel ::
  "string \<Rightarrow> bot_registry \<times> stream_registry \<Rightarrow> nat \<times> bot_registry \<times> stream_registry" where
  "Bots_StopByChannel channel_uuid = (\<lambda>(r, streams).
     case br_by_channel r channel_uuid of None \<Rightarrow> (0, r, streams) | Some bot_ids \<Rightarrow> stop_all bot_ids 0 (r, streams))"

definition Bots_DrainAll :: "bot_registry \<times> stream_registry \<Rightarrow> bot_registry \<times> stream_registry" where
  "Bots_DrainAll = (\<lambda>(r, streams).
     fold Bots_TearDown (map snd (br_by_id r)) (r\<lparr>br_by_id := [], br_by_channel := Map.empty\<rparr>, streams))"

definition Bots_ActiveCount :: "bot_registry \<Rightarrow> nat" where
  "Bots_ActiveCount r = length (br_by_id r)"

section \<open>Ownership of streams\<close>

datatype stream_op =
    SInsert "active_stream option" | SRemove string | SRemoveIfPurpose string stream_purpose
  | SRemoveForChannel string | SRemovePurpose string stream_purpose | SRemoveWriteReplace string | SDelete

fun stream_apply :: "stream_op \<Rightarrow> stream_registry \<Rightarrow> stream_registry" where
  "stream_apply (SInsert s) r = snd (Streams_Insert s r)"
| "stream_apply (SRemove i) r = snd (Streams_Remove i r)"
| "stream_apply (SRemoveIfPurpose i p) r = snd (Streams_RemoveIfPurpose i p r)"
| "stream_apply (SRemoveForChannel c) r = Streams_RemoveForChannel c r"
| "stream_apply (SRemovePurpose c p) r = snd (Streams_RemovePurposeForChannel c p r)"
| "stream_apply (SRemoveWriteReplace c) r = snd (Streams_RemoveWriteReplaceForChannel c r)"
| "stream_apply SDelete r = ActiveMediaStreams_delete r"

fun handed_over :: "stream_op list \<Rightarrow> active_stream list" where
  "handed_over [] = []"
| "handed_over (SInsert (Some s) # ops) = s # handed_over ops"
| "handed_over (_ # ops) = handed_over ops"

definition streams_inv :: "stream_registry \<Rightarrow> active_stream list \<Rightarrow> bool" where
  "streams_inv r given \<longleftrightarrow>
     distinct (map fst (sr_by_id r)) \<and> (\<forall>(k, s)\<in>set (sr_by_id r). k = as_stream_id s \<and> k \<noteq> [])
     \<and> mset (sr_torn r) + mset (map snd (sr_by_id r)) = mset given"

text \<open>What the callbacks of a stream may still touch until its bugs are detached.\<close>

definition frees :: "media_event set" where
  "frees = {Write_ctx_free, Read_ctx_free, Recording_ctx_free, Buffer_free, Client_free}"

text \<open>
  A teardown that detaches every bug once, before anything is freed, and frees exactly the owned
  objects, each once.
\<close>

definition fenced_teardown :: "active_stream \<Rightarrow> media_event list \<Rightarrow> bool" where
  "fenced_teardown s es \<longleftrightarrow>
     (\<exists>pre post. es = pre @ map Bug_detach (as_bugs s) @ post
        \<and> set pre \<inter> frees = {} \<and> (\<forall>n. Bug_detach n \<notin> set pre \<union> set post)
        \<and> mset (filter (\<lambda>e. e \<in> frees) post) =
            mset (on (as_write_ctx s) Write_ctx_free @ on (as_read_ctx s) Read_ctx_free
              @ on (as_recording_ctx s) Recording_ctx_free @ on (as_tts_buffer s) Buffer_free
              @ on (as_client s) Client_free))"

lemma fenced_TearDown: "fenced_teardown s (TearDown s)"
proof (cases "as_recording_ctx s")
  case True
  then show ?thesis unfolding fenced_teardown_def
    by (intro exI [of _ "[Relay_stop]"] exI [of _ "[Relay_emit_stopped, Recording_ctx_free]
        @ on (as_client s) Client_close @ on (as_client s) Client_free @ on (as_read_ctx s) Read_ctx_free
        @ on (as_write_ctx s) Write_ctx_free @ on (as_tts_buffer s) Buffer_free"])
      (simp add: TearDown_def frees_def)
next
  case False
  then show ?thesis unfolding fenced_teardown_def
    by (intro exI [of _ "on (as_client s) Client_close @ on (as_tts_buffer s) Buffer_eos"]
        exI [of _ "on (as_write_ctx s) Write_ctx_free @ on (as_read_ctx s) Read_ctx_free
          @ on (as_tts_buffer s) Buffer_free @ on (as_client s) Client_free"])
      (simp add: TearDown_def frees_def)
qed

lemma mset_filter_snd:
  "mset (map snd (filter P xs)) + mset (map snd (filter (\<lambda>x. \<not> P x) xs)) = mset (map snd xs)"
  by (induction xs) auto

lemma mset_remove_key:
  "distinct (map fst xs) \<Longrightarrow> map_of xs k = Some v \<Longrightarrow>
     add_mset v (mset (map snd (filter (\<lambda>(k', _). k' \<noteq> k) xs))) = mset (map snd xs)"
proof (induction xs)
  case (Cons x xs)
  show ?case
  proof (cases "fst x = k")
    case True
    then have "filter (\<lambda>(k', _). k' \<noteq> k) xs = xs" using Cons.prems(1)
      by (intro filter_True) (auto simp: rev_image_eqI)
    then show ?thesis using True Cons.prems(2) by (cases x) simp
  next
    case False
    then show ?thesis using Cons by (cases x) simp
  qed
qed simp

lemma distinct_filter_fst: "distinct (map fst xs) \<Longrightarrow> distinct (map fst (filter P xs))"
  by (induction xs) auto

lemma streams_inv_remove:
  assumes "streams_inv r given" "map_of (sr_by_id r) i = Some st"
  shows "streams_inv (tear_down [st] (r\<lparr>sr_by_id := filter (\<lambda>(k, _). k \<noteq> i) (sr_by_id r)\<rparr>)) given"
proof -
  let ?f = "filter (\<lambda>(k, _). k \<noteq> i) (sr_by_id r)"
  have m: "add_mset st (mset (map snd ?f)) = mset (map snd (sr_by_id r))"
    by (rule mset_remove_key) (use assms in \<open>simp_all add: streams_inv_def\<close>)
  have "mset (sr_torn r @ [st]) + mset (map snd ?f) = mset (sr_torn r) + add_mset st (mset (map snd ?f))" by simp
  also have "\<dots> = mset given" using assms(1) unfolding m streams_inv_def by blast
  finally have "mset (sr_torn r @ [st]) + mset (map snd ?f) = mset given" .
  moreover have "distinct (map fst ?f)" using assms(1) by (simp add: streams_inv_def distinct_filter_fst)
  moreover have "\<forall>(k, s)\<in>set ?f. k = as_stream_id s \<and> k \<noteq> []" using assms(1) by (auto simp: streams_inv_def)
  ultimately show ?thesis unfolding streams_inv_def tear_down_def by simp blast
qed

lemma streams_inv_where: "streams_inv r given \<Longrightarrow> streams_inv (snd (remove_where P r)) given"
  using mset_filter_snd [of "\<lambda>(_, st). P st" "sr_by_id r"]
  by (auto simp: streams_inv_def remove_where_def tear_down_def distinct_filter_fst Let_def split_beta'
      add.assoc)

lemma streams_inv_delete: "streams_inv r given \<Longrightarrow> streams_inv (ActiveMediaStreams_delete r) given"
  by (auto simp: streams_inv_def ActiveMediaStreams_delete_def tear_down_def)

lemma streams_inv_apply: "streams_inv r given \<Longrightarrow> streams_inv (stream_apply op r) (given @ handed_over [op])"
proof (cases op)
  case (SInsert s)
  assume "streams_inv r given"
  then show ?thesis using SInsert
    by (cases s) (auto simp: streams_inv_def Streams_Insert_def tear_down_def map_of_eq_None_iff image_iff)
qed (auto simp: Streams_Remove_def Streams_RemoveIfPurpose_def Streams_RemoveForChannel_def
      Streams_RemovePurposeForChannel_def Streams_RemoveWriteReplaceForChannel_def streams_inv_delete
      intro: streams_inv_remove streams_inv_where split: option.splits)

lemma streams_inv_run:
  "streams_inv r given \<Longrightarrow> streams_inv (fold stream_apply ops r) (given @ handed_over ops)"
proof (induction ops arbitrary: r given)
  case (Cons op ops)
  have "handed_over (op # ops) = handed_over [op] @ handed_over ops"
    by (rule handed_over.cases [of "op # ops"]) auto
  then show ?case using Cons.IH [OF streams_inv_apply [OF Cons.prems]] by simp
qed simp

text \<open>
  C16. Ownership of media streams. Over any sequence of registry operations every stream handed to the
  registry is either still registered, under its own non-empty id and no other, or was torn down
  exactly once. Every teardown detaches all media bugs of the stream, which fences the media
  thread's callbacks, before it frees anything they use, and frees each owned object exactly once.
\<close>

theorem streams_owned_and_fenced:
  "(let r = fold stream_apply ops ActiveMediaStreams_new
    in distinct (map fst (sr_by_id r)) \<and> list_all (\<lambda>(k, s). k = as_stream_id s \<and> k \<noteq> []) (sr_by_id r)
     \<and> mset (sr_torn r) + mset (map snd (sr_by_id r)) = mset (handed_over ops)
     \<and> list_all (\<lambda>s. fenced_teardown s (TearDown s)) (sr_torn r))"
  using streams_inv_run [of ActiveMediaStreams_new "[]" ops]
  by (auto simp: streams_inv_def ActiveMediaStreams_new_def fenced_TearDown list_all_iff Let_def)

section \<open>The channel index of the bots\<close>

text \<open>The index as a function of the bots: their ids, per channel, in insertion order.\<close>

definition bot_index :: "(string \<times> active_bot) list \<Rightarrow> string \<Rightarrow> string list" where
  "bot_index bots ch = concat (map (\<lambda>(i, b). replicate (count_list (ab_target_channel_uuids b) ch) i) bots)"

definition index_map :: "(string \<times> active_bot) list \<Rightarrow> string \<rightharpoonup> string list" where
  "index_map bots ch = (if bot_index bots ch = [] then None else Some (bot_index bots ch))"

definition bots_inv :: "bot_registry \<Rightarrow> bool" where
  "bots_inv r \<longleftrightarrow> distinct (map fst (br_by_id r))
     \<and> (\<forall>(k, b)\<in>set (br_by_id r). k = ab_bot_id b \<and> k \<noteq> [])
     \<and> br_by_channel r = index_map (br_by_id r)"

lemma fold_index_push:
  "fold (index_push i) chs m ch =
     (if ch \<in> set chs then Some ((case m ch of None \<Rightarrow> [] | Some l \<Rightarrow> l) @ replicate (count_list chs ch) i) else m ch)"
proof (induction chs arbitrary: m)
  case (Cons c chs)
  show ?case
    by (simp add: Cons) (auto simp: index_push_def count_notin replicate_append_same [symmetric] split: option.splits)
qed simp

definition erase_opt :: "string \<Rightarrow> string list option \<Rightarrow> string list option" where
  "erase_opt i l = (case l of None \<Rightarrow> None
     | Some l \<Rightarrow> (let l' = filter (\<lambda>v. v \<noteq> i) l in if l' = [] then None else Some l'))"

lemma erase_opt_idem [simp]: "erase_opt i (erase_opt i l) = erase_opt i l"
  by (auto simp: erase_opt_def Let_def split: option.splits)

lemma index_erase_at: "index_erase i c m ch = (if ch = c then erase_opt i (m ch) else m ch)"
  by (auto simp: index_erase_def erase_opt_def Let_def split: option.splits)

lemma fold_index_erase:
  "fold (index_erase i) chs m ch = (if ch \<in> set chs then erase_opt i (m ch) else m ch)"
  by (induction chs arbitrary: m) (auto simp: index_erase_at)

lemma bot_index_snoc: "bot_index (bots @ [(i, b)]) ch = bot_index bots ch @ replicate (count_list (ab_target_channel_uuids b) ch) i"
  by (simp add: bot_index_def)

lemma bot_index_filter: "filter (\<lambda>v. v \<noteq> i) (bot_index bots ch) = bot_index (filter (\<lambda>(k, _). k \<noteq> i) bots) ch"
  by (induction bots) (auto simp: bot_index_def)

lemma set_bot_index: "set (bot_index bots ch) = {i. \<exists>b. (i, b) \<in> set bots \<and> ch \<in> set (ab_target_channel_uuids b)}"
  by (force simp: bot_index_def count_list_0_iff)

lemma bots_inv_insert: "bots_inv r \<Longrightarrow> bots_inv (snd (Bots_Insert b n r))"
proof -
  assume inv: "bots_inv r"
  have "fold (index_push (ab_bot_id b)) (ab_target_channel_uuids b) (index_map (br_by_id r)) =
      index_map (br_by_id r @ [(ab_bot_id b, b)])"
    by (rule ext) (auto simp: fold_index_push index_map_def bot_index_snoc count_notin count_list_0_iff)
  then show ?thesis using inv
    by (auto simp: Bots_Insert_def bots_inv_def map_of_eq_None_iff)
qed

lemma bots_TearDown_frame [simp]:
  "br_by_id (fst (Bots_TearDown b w)) = br_by_id (fst w)" "br_by_channel (fst (Bots_TearDown b w)) = br_by_channel (fst w)"
  by (simp_all add: Bots_TearDown_def split_beta split: option.splits)

lemma unindex:
  assumes "distinct (map fst bots)" "map_of bots i = Some b"
  shows "fold (index_erase i) (ab_target_channel_uuids b) (index_map bots) = index_map (filter (\<lambda>(k, _). k \<noteq> i) bots)"
proof (rule ext)
  fix ch
  let ?l = "bot_index bots ch" and ?l' = "bot_index (filter (\<lambda>(k, _). k \<noteq> i) bots) ch"
  have f: "filter (\<lambda>v. v \<noteq> i) ?l = ?l'" by (rule bot_index_filter)
  show "fold (index_erase i) (ab_target_channel_uuids b) (index_map bots) ch = index_map (filter (\<lambda>(k, _). k \<noteq> i) bots) ch"
  proof (cases "ch \<in> set (ab_target_channel_uuids b)")
    case True
    then show ?thesis using f by (auto simp: fold_index_erase index_map_def erase_opt_def)
  next
    case False
    have "b' = b" if "(i, b') \<in> set bots" for b' using map_of_is_SomeI [OF assms(1) that] assms(2) by simp
    then have "i \<notin> set ?l" using False unfolding set_bot_index by blast
    then have "filter (\<lambda>v. v \<noteq> i) ?l = ?l" by (intro filter_True ballI notI) simp
    then have "?l = ?l'" using f by (rule trans [OF sym])
    then show ?thesis using False by (simp add: fold_index_erase index_map_def)
  qed
qed

lemma bots_stop:
  assumes inv: "bots_inv r" and stop: "Bots_Stop i (r, st) = (was, r', st')"
  shows "bots_inv r' \<and> br_by_id r' = filter (\<lambda>(k, _). k \<noteq> i) (br_by_id r) \<and> was = (i \<in> fst ` set (br_by_id r))"
proof (cases "map_of (br_by_id r) i")
  case None
  then have "i \<notin> fst ` set (br_by_id r)" by (simp add: map_of_eq_None_iff)
  moreover from this have "filter (\<lambda>(k, _). k \<noteq> i) (br_by_id r) = br_by_id r"
    by (intro filter_True) (auto simp: rev_image_eqI)
  ultimately show ?thesis using None stop inv by (auto simp: Bots_Stop_def)
next
  case (Some b)
  have d: "distinct (map fst (br_by_id r))" and ch: "br_by_channel r = index_map (br_by_id r)"
    using inv by (simp_all add: bots_inv_def)
  have i: "ab_bot_id b = i" "i \<in> fst ` set (br_by_id r)"
    using inv map_of_SomeD [OF Some] by (force simp: bots_inv_def)+
  let ?w = "(r\<lparr>br_by_id := filter (\<lambda>(k, _). k \<noteq> i) (br_by_id r),
    br_by_channel := fold (index_erase (ab_bot_id b)) (ab_target_channel_uuids b) (br_by_channel r)\<rparr>, st)"
  have "was" and td: "Bots_TearDown b ?w = (r', st')" using stop Some by (simp_all add: Bots_Stop_def)
  have "br_by_id r' = filter (\<lambda>(k, _). k \<noteq> i) (br_by_id r)"
    using bots_TearDown_frame(1) [of b ?w] unfolding td by simp
  moreover have "br_by_channel r' = index_map (filter (\<lambda>(k, _). k \<noteq> i) (br_by_id r))"
    using bots_TearDown_frame(2) [of b ?w] unfolding td by (simp add: i(1) ch unindex [OF d Some])
  moreover have "\<forall>(k, b)\<in>set (filter (\<lambda>(k, _). k \<noteq> i) (br_by_id r)). k = ab_bot_id b \<and> k \<noteq> []"
    using inv by (auto simp: bots_inv_def)
  moreover have "distinct (map fst (filter (\<lambda>(k, _). k \<noteq> i) (br_by_id r)))" by (rule distinct_filter_fst [OF d])
  ultimately show ?thesis using \<open>was\<close> i(2) unfolding bots_inv_def by (simp only: simp_thms)
qed

lemma bots_stop_all:
  assumes "bots_inv r" "stop_all is k (r, st) = (n, r', st')"
  shows "bots_inv r' \<and> br_by_id r' = filter (\<lambda>(i, _). i \<notin> set is) (br_by_id r)
    \<and> n = k + length (filter (\<lambda>(i, _). i \<in> set is) (br_by_id r))"
  using assms
proof (induction "is" arbitrary: k r st)
  case Nil
  then show ?case by (auto simp: split_beta)
next
  case (Cons i ids)
  obtain was r1 st1 where stop: "Bots_Stop i (r, st) = (was, r1, st1)" by (metis prod_cases3)
  note s = bots_stop [OF Cons.prems(1) stop]
  have run: "stop_all ids (if was then k + 1 else k) (r1, st1) = (n, r', st')"
    using Cons.prems(2) stop by simp
  have IH: "bots_inv r'" "br_by_id r' = filter (\<lambda>(j, _). j \<notin> set ids) (br_by_id r1)"
    "n = (if was then k + 1 else k) + length (filter (\<lambda>(j, _). j \<in> set ids) (br_by_id r1))"
    using Cons.IH [OF _ run] s by auto
  have len: "length (filter (\<lambda>(j, _). j \<in> set (i # ids)) xs) =
      (if i \<in> fst ` set xs then 1 else 0) + length (filter (\<lambda>(j, _). j \<in> set ids) (filter (\<lambda>(j, _). j \<noteq> i) xs))"
    if "distinct (map fst xs)" for xs :: "(string \<times> active_bot) list"
    using that by (induction xs) (auto simp: rev_image_eqI)
  have "distinct (map fst (br_by_id r))" using Cons.prems(1) by (simp add: bots_inv_def)
  then show ?case using IH s len [of "br_by_id r"] by (auto simp: conj_commute split_beta' intro!: filter_cong)
qed

datatype bot_op =
    BInsert active_bot nat | BRegister string "(nat \<times> string list) option" | BStop string
  | BStopByChannel string | BDrainAll

fun bot_apply :: "bot_op \<Rightarrow> bot_registry \<times> stream_registry \<Rightarrow> bot_registry \<times> stream_registry" where
  "bot_apply (BInsert b n) w = (snd (Bots_Insert b n (fst w)), snd w)"
| "bot_apply (BRegister i s) w = (Bots_Register i s (fst w), snd w)"
| "bot_apply (BStop i) w = snd (Bots_Stop i w)"
| "bot_apply (BStopByChannel c) w = snd (Bots_StopByChannel c w)"
| "bot_apply BDrainAll w = Bots_DrainAll w"

text \<open>Every insertion names each channel once and respects the limit \<open>m\<close>.\<close>

fun limited :: "nat \<Rightarrow> bot_op \<Rightarrow> bool" where
  "limited m (BInsert b n) \<longleftrightarrow> n \<le> m \<and> distinct (ab_target_channel_uuids b)"
| "limited m (BRegister i s) \<longleftrightarrow> False"
| "limited m _ \<longleftrightarrow> True"

lemma bots_drained: "br_by_id (fst (Bots_DrainAll w)) = []" "br_by_channel (fst (Bots_DrainAll w)) = Map.empty"
proof -
  have "br_by_id (fst (fold Bots_TearDown bs v)) = br_by_id (fst v)
      \<and> br_by_channel (fst (fold Bots_TearDown bs v)) = br_by_channel (fst v)" for bs v
    by (induction bs arbitrary: v) simp_all
  then show "br_by_id (fst (Bots_DrainAll w)) = []" "br_by_channel (fst (Bots_DrainAll w)) = Map.empty"
    by (simp_all add: Bots_DrainAll_def split_beta)
qed

lemma bots_stop_by_channel:
  assumes inv: "bots_inv r" and run: "Bots_StopByChannel ch (r, st) = (n, r', st')"
  shows "bots_inv r' \<and> br_by_id r' = filter (\<lambda>(_, b). ch \<notin> set (ab_target_channel_uuids b)) (br_by_id r)
    \<and> n = length (filter (\<lambda>(_, b). ch \<in> set (ab_target_channel_uuids b)) (br_by_id r))"
proof -
  let ?ids = "bot_index (br_by_id r) ch"
  have m: "br_by_channel r ch = index_map (br_by_id r) ch" using inv by (simp add: bots_inv_def)
  have d: "distinct (map fst (br_by_id r))" using inv by (simp add: bots_inv_def)
  have all: "stop_all ?ids 0 (r, st) = (n, r', st')"
    using run m by (cases "?ids = []") (simp_all add: Bots_StopByChannel_def index_map_def)
  have eq: "i \<in> set ?ids \<longleftrightarrow> ch \<in> set (ab_target_channel_uuids b)" if "(i, b) \<in> set (br_by_id r)" for i b
  proof -
    have "b' = b" if "(i, b') \<in> set (br_by_id r)" for b'
      using map_of_is_SomeI [OF d that] map_of_is_SomeI [OF d \<open>(i, b) \<in> set (br_by_id r)\<close>] by simp
    then show ?thesis using that unfolding set_bot_index by blast
  qed
  have "filter (\<lambda>(i, _). i \<notin> set ?ids) (br_by_id r) = filter (\<lambda>(_, b). ch \<notin> set (ab_target_channel_uuids b)) (br_by_id r)"
    "filter (\<lambda>(i, _). i \<in> set ?ids) (br_by_id r) = filter (\<lambda>(_, b). ch \<in> set (ab_target_channel_uuids b)) (br_by_id r)"
    by (intro filter_cong refl; clarsimp simp: eq)+
  then show ?thesis using bots_stop_all [OF inv all] by simp
qed

lemma bots_inv_new: "bots_inv ActiveBots_new"
  by (simp add: bots_inv_def ActiveBots_new_def index_map_def bot_index_def fun_eq_iff)

lemma bots_inv_apply: "bots_inv (fst w) \<Longrightarrow> bots_inv (fst (bot_apply op w))"
proof (cases op)
  case (BStop i)
  assume "bots_inv (fst w)"
  then show ?thesis using BStop bots_stop [of "fst w" i "snd w"]
    by (cases "Bots_Stop i w") (auto simp: prod_eq_iff)
next
  case (BStopByChannel c)
  assume "bots_inv (fst w)"
  then show ?thesis using BStopByChannel bots_stop_by_channel [of "fst w" c "snd w"]
    by (cases "Bots_StopByChannel c w") (auto simp: prod_eq_iff)
next
  case BDrainAll
  then show ?thesis using bots_drained [of w] by (simp add: bots_inv_def index_map_def bot_index_def fun_eq_iff)
qed (auto simp: bots_inv_insert Bots_Register_def split: option.splits)

lemma bots_inv_run: "bots_inv (fst w) \<Longrightarrow> bots_inv (fst (fold bot_apply ops w))"
  by (induction ops arbitrary: w) (simp_all add: bots_inv_apply)

lemma count_list_distinct: "distinct xs \<Longrightarrow> count_list xs x = (if x \<in> set xs then 1 else 0)"
  by (induction xs) auto

lemma bot_index_filter_le: "length (bot_index (filter P bots) ch) \<le> length (bot_index bots ch)"
  by (induction bots) (auto simp: bot_index_def)

definition cap_ok :: "nat \<Rightarrow> bot_registry \<Rightarrow> bool" where
  "cap_ok m r \<longleftrightarrow> (\<forall>ch. length (bot_index (br_by_id r) ch) \<le> m)"

lemma cap_ok_filter: "cap_ok m r \<Longrightarrow> br_by_id r' = filter P (br_by_id r) \<Longrightarrow> cap_ok m r'"
  unfolding cap_ok_def by (metis bot_index_filter_le order.trans)

lemma cap_ok_insert:
  assumes "bots_inv r" "cap_ok m r" "n \<le> m" "distinct (ab_target_channel_uuids b)"
  shows "cap_ok m (snd (Bots_Insert b n r))"
proof -
  have c: "channel_count ch r = length (bot_index (br_by_id r) ch)" for ch
    using assms(1) by (simp add: channel_count_def bots_inv_def index_map_def)
  show ?thesis
  proof (cases "list_ex (\<lambda>ch. n \<le> channel_count ch r) (ab_target_channel_uuids b)")
    case True
    then show ?thesis using assms(2) by (simp add: Bots_Insert_def)
  next
    case False
    have "length (bot_index (br_by_id r) ch) + count_list (ab_target_channel_uuids b) ch \<le> m" for ch
    proof (cases "ch \<in> set (ab_target_channel_uuids b)")
      case True
      then have "length (bot_index (br_by_id r) ch) < n" using False by (auto simp: list_ex_iff c not_le)
      then show ?thesis using True assms(3,4) by (simp add: count_list_distinct)
    next
      case False
      then show ?thesis using assms(2) by (simp add: count_notin cap_ok_def)
    qed
    then show ?thesis using False assms(2) by (simp add: Bots_Insert_def cap_ok_def bot_index_snoc)
  qed
qed

lemma cap_ok_apply:
  assumes inv: "bots_inv (fst w)" and cap: "cap_ok m (fst w)" and "limited m op"
  shows "cap_ok m (fst (bot_apply op w))"
proof (cases op)
  case (BStop i)
  obtain was r st where s: "Bots_Stop i (fst w, snd w) = (was, r, st)" by (metis prod_cases3)
  then show ?thesis using BStop cap_ok_filter [OF cap] bots_stop [OF inv s] by (simp add: prod_eq_iff)
next
  case (BStopByChannel c)
  obtain n r st where s: "Bots_StopByChannel c (fst w, snd w) = (n, r, st)" by (metis prod_cases3)
  then show ?thesis using BStopByChannel cap_ok_filter [OF cap] bots_stop_by_channel [OF inv s] by simp
next
  case BDrainAll
  then show ?thesis by (simp add: cap_ok_def bots_drained bot_index_def)
qed (use assms in \<open>simp_all add: cap_ok_insert\<close>)

lemma cap_ok_run:
  "bots_inv (fst w) \<Longrightarrow> cap_ok m (fst w) \<Longrightarrow> list_all (limited m) ops \<Longrightarrow> cap_ok m (fst (fold bot_apply ops w))"
  by (induction ops arbitrary: w) (simp_all add: bots_inv_apply cap_ok_apply)

lemma cap_ok_new: "cap_ok m ActiveBots_new"
  by (simp add: cap_ok_def ActiveBots_new_def bot_index_def)

text \<open>
  C17. The two maps of the bot registry implement one collection of bots. After any sequence of
  operations the channel index is exactly the function of the registered bots that lists, for each
  channel, the bots attached to it, so stopping a channel removes precisely its bots and reports
  their number; and as long as insertions use a limit of at most \<open>m\<close> and name a channel at most
  once, no channel ever has more than \<open>m\<close> bots.
\<close>

theorem bot_index_refines_bots:
  assumes "list_all (limited m) ops"
  shows "(let r = fst (fold bot_apply ops (ActiveBots_new, streams))
    in distinct (map fst (br_by_id r)) \<and> br_by_channel r = index_map (br_by_id r)
     \<and> (\<forall>ch n. ChannelAtCapacity ch (Suc n) r \<longleftrightarrow> n < length (bot_index (br_by_id r) ch))
     \<and> (\<forall>ch s. (case Bots_StopByChannel ch (r, s) of (n, r', _) \<Rightarrow>
            br_by_id r' = filter (\<lambda>(_, b). ch \<notin> set (ab_target_channel_uuids b)) (br_by_id r)
            \<and> n = length (filter (\<lambda>(_, b). ch \<in> set (ab_target_channel_uuids b)) (br_by_id r))))
     \<and> (\<forall>ch. length (bot_index (br_by_id r) ch) \<le> m))"
proof -
  let ?r = "fst (fold bot_apply ops (ActiveBots_new, streams))"
  have inv: "bots_inv ?r" by (rule bots_inv_run) (simp add: bots_inv_new)
  have "cap_ok m ?r"
    by (rule cap_ok_run) (use assms in \<open>simp_all add: bots_inv_new cap_ok_new\<close>)
  moreover have "\<forall>ch s. (case Bots_StopByChannel ch (?r, s) of (n, r', _) \<Rightarrow>
      br_by_id r' = filter (\<lambda>(_, b). ch \<notin> set (ab_target_channel_uuids b)) (br_by_id ?r)
      \<and> n = length (filter (\<lambda>(_, b). ch \<in> set (ab_target_channel_uuids b)) (br_by_id ?r)))"
    using bots_stop_by_channel [OF inv] by (simp split: prod.split)
  moreover have "\<forall>ch n. ChannelAtCapacity ch (Suc n) ?r \<longleftrightarrow> n < length (bot_index (br_by_id ?r) ch)"
    using inv by (auto simp: bots_inv_def ChannelAtCapacity_def index_map_def)
  moreover have "distinct (map fst (br_by_id ?r))" "br_by_channel ?r = index_map (br_by_id ?r)"
    using inv by (simp_all add: bots_inv_def)
  ultimately show ?thesis by (simp only: Let_def cap_ok_def simp_thms)
qed

definition demo_active_bot :: active_bot where
  "demo_active_bot = \<lparr>ab_bot_id = ''b'', ab_target_channel_uuids = [''c'', ''d''], ab_stream_ids = [], ab_session = Some 0\<rparr>"

theorem bot_index_refines_bots_witness:
  "list_all (limited 1) [BInsert demo_active_bot 1]
   \<and> (let r = fst (fold bot_apply [BInsert demo_active_bot 1] (ActiveBots_new, ActiveMediaStreams_new))
      in br_by_id r = [(''b'', demo_active_bot)] \<and> br_by_channel r = index_map [(''b'', demo_active_bot)])"
proof -
  have l: "list_all (limited 1) [BInsert demo_active_bot 1]" by (simp add: demo_active_bot_def)
  have "br_by_id (fst (fold bot_apply [BInsert demo_active_bot 1] (ActiveBots_new, ActiveMediaStreams_new))) = [(''b'', demo_active_bot)]"
    by (simp add: demo_active_bot_def ActiveBots_new_def Bots_Insert_def channel_count_def)
  then show ?thesis using l bot_index_refines_bots [OF l, of ActiveMediaStreams_new] by (simp add: Let_def)
qed

end
