(* ===== verification/Control_StartBot.thy ===== *)
theory Control_StartBot
  imports Control_Registry Security_Eavesdrop
begin

text \<open>
  Starting and stopping bots: the handlers of \<^verbatim>\<open>src/control/handlers/start_bot_handler.cc\<close> and
  \<^verbatim>\<open>stop_bot_handler.cc\<close>, the rate checks of \<^verbatim>\<open>media_rate.h\<close> and the purpose mapping of
  \<^verbatim>\<open>src/media/bot_session.cc\<close>. The codec implementations of a session, the outcome of opening the
  upstream and of attaching the media bugs, the new bot id and the count of native recordings are
  arguments. Opening and attaching block, so another argument is what other threads do to the world
  meanwhile.
\<close>

section \<open>Media rates\<close>

text \<open>\<open>switch_codec_implementation_t\<close>, or None when FreeSWITCH has none.\<close>

record codec_impl =
  actual_samples_per_second :: u32
  samples_per_second :: u32
  number_of_channels :: u32

record SessionMediaRate =
  mr_sample_rate_hz :: u32
  mr_channels :: u32

definition media_rate :: "codec_impl option \<Rightarrow> SessionMediaRate" where
  "media_rate impl =
     (case impl of None \<Rightarrow> \<lparr>mr_sample_rate_hz = 0, mr_channels = 1\<rparr>
      | Some i \<Rightarrow>
          \<lparr>mr_sample_rate_hz = (if actual_samples_per_second i \<noteq> 0 then actual_samples_per_second i else samples_per_second i),
           mr_channels = (if number_of_channels i \<noteq> 0 then number_of_channels i else 1)\<rparr>)"

definition IsSupportedPair :: "int \<Rightarrow> int \<Rightarrow> bool" where
  "IsSupportedPair from_hz to_hz \<longleftrightarrow> from_hz = 8000 \<and> to_hz = 16000 \<or> from_hz = 16000 \<and> to_hz = 8000"

definition Resampler_Supports :: "int \<Rightarrow> int \<Rightarrow> bool" where
  "Resampler_Supports from_hz to_hz =
     (if from_hz \<le> 0 \<or> to_hz \<le> 0 then False
      else if from_hz = to_hz then True
      else IsSupportedPair from_hz to_hz)"

definition ValidateRatePair :: "string \<Rightarrow> u32 \<Rightarrow> u32 \<Rightarrow> grpc_status" where
  "ValidateRatePair label from_hz to_hz =
     (if from_hz = 0 \<or> to_hz = 0 then (FAILED_PRECONDITION, label @ '' media rate unavailable'')
      else if \<not> Resampler_Supports (sint from_hz) (sint to_hz)
      then (INVALID_ARGUMENT, label @ '' unsupported media rate pair '' @ decimal (unat from_hz) @ ''->'' @ decimal (unat to_hz))
      else Status_OK)"

section \<open>The request\<close>

datatype bot_purpose = BOT_UNSPECIFIED | TTS_BROADCAST | STT_LISTEN | BOT_VOICEBOT_DUPLEX | WHISPER

record start_bot_request =
  sb_tenant_id :: string
  sb_traceparent :: string
  sb_target_channel_uuids :: "string list"
  sb_upstream_endpoint :: string
  sb_purpose :: bot_purpose
  sb_write_target_channel_uuids :: "string list"
  sb_sample_rate_hz :: u32
  sb_start_message :: string
  sb_variables :: "string \<rightharpoonup> string"
  sb_drain_timeout_ms :: u32

fun PurposeName :: "bot_purpose \<Rightarrow> string" where
  "PurposeName TTS_BROADCAST = ''tts_broadcast''"
| "PurposeName STT_LISTEN = ''stt_listen''"
| "PurposeName BOT_VOICEBOT_DUPLEX = ''voicebot_duplex''"
| "PurposeName WHISPER = ''whisper''"
| "PurposeName BOT_UNSPECIFIED = ''unspecified''"

fun MediaPurposeFor :: "bot_purpose \<Rightarrow> stream_purpose" where
  "MediaPurposeFor TTS_BROADCAST = TTS_PLAYBACK"
| "MediaPurposeFor STT_LISTEN = STT_TRANSCRIBE"
| "MediaPurposeFor BOT_VOICEBOT_DUPLEX = VOICEBOT_DUPLEX"
| "MediaPurposeFor WHISPER = VOICEBOT_DUPLEX"
| "MediaPurposeFor BOT_UNSPECIFIED = PURPOSE_UNSPECIFIED"

definition SupportsRead :: "bot_purpose \<Rightarrow> bool" where
  "SupportsRead purpose \<longleftrightarrow> purpose = STT_LISTEN \<or> purpose = BOT_VOICEBOT_DUPLEX \<or> purpose = WHISPER"

definition SupportsWrite :: "bot_purpose \<Rightarrow> bool" where
  "SupportsWrite purpose \<longleftrightarrow> purpose = TTS_BROADCAST \<or> purpose = BOT_VOICEBOT_DUPLEX \<or> purpose = WHISPER"

definition ShouldWriteTarget :: "start_bot_request \<Rightarrow> string \<Rightarrow> bool" where
  "ShouldWriteTarget req channel_uuid =
     (if \<not> SupportsWrite (sb_purpose req) then False
      else if sb_purpose req \<noteq> WHISPER then True
      else channel_uuid \<in> set (sb_write_target_channel_uuids req))"

text \<open>The loop over the targets with the set of those seen.\<close>

fun check_targets_distinct :: "string set \<Rightarrow> string list \<Rightarrow> grpc_status" where
  "check_targets_distinct seen [] = Status_OK"
| "check_targets_distinct seen (uuid # uuids) =
     (if uuid = [] then (INVALID_ARGUMENT, ''target channel UUID is empty'')
      else if uuid \<in> seen then (INVALID_ARGUMENT, ''duplicate target channel UUID'')
      else check_targets_distinct (insert uuid seen) uuids)"

text \<open>\<open>ValidateStartBot\<close>: the status and, on success, the rate.\<close>

definition ValidateStartBot :: "start_bot_request \<Rightarrow> Config \<Rightarrow> grpc_status \<times> u32" where
  "ValidateStartBot req config =
     (let targets = sb_target_channel_uuids req; writes = sb_write_target_channel_uuids req;
          dup = check_targets_distinct {} targets;
          rate = (if sb_sample_rate_hz req \<noteq> 0 then sb_sample_rate_hz req else 16000)
      in if targets = [] then ((INVALID_ARGUMENT, ''target_channel_uuids required''), 0)
         else if unat (bot_max_targets config) < length targets
           then ((RESOURCE_EXHAUSTED, ''too many target_channel_uuids''), 0)
         else if sb_upstream_endpoint req = [] then ((INVALID_ARGUMENT, ''upstream_endpoint required''), 0)
         else if fst dup \<noteq> OK then (dup, 0)
         else if writes \<noteq> [] \<and> sb_purpose req \<noteq> WHISPER
           then ((INVALID_ARGUMENT, ''write_target_channel_uuids is only valid for WHISPER''), 0)
         else if sb_purpose req = WHISPER \<and> writes = []
           then ((INVALID_ARGUMENT, ''WHISPER requires write_target_channel_uuids''), 0)
         else if sb_purpose req = WHISPER \<and> \<not> list_all (\<lambda>u. u \<in> set targets) writes
           then ((INVALID_ARGUMENT, ''write target not in target_channel_uuids''), 0)
         else if sb_purpose req = BOT_UNSPECIFIED then ((INVALID_ARGUMENT, ''purpose required''), 0)
         else if rate \<noteq> 8000 \<and> rate \<noteq> 16000
           then ((INVALID_ARGUMENT, ''sample_rate_hz must be 8000 or 16000''), 0)
         else (Status_OK, rate))"

section \<open>The handlers\<close>

record bot_session_config =
  bs_bot_id :: string
  bs_tenant_id :: string
  bs_upstream_endpoint :: string
  bs_traceparent :: string
  bs_purpose :: bot_purpose
  bs_sample_rate_hz :: u32
  bs_start_message :: string
  bs_target_queue_ms :: u32
  bs_drain_timeout_ms :: u32
  bs_target_channel_uuids :: "string list"
  bs_write_target_channel_uuids :: "string list"
  bs_variables :: "string \<rightharpoonup> string"

definition bot_session_config_of :: "string \<Rightarrow> u32 \<Rightarrow> start_bot_request \<Rightarrow> Config \<Rightarrow> bot_session_config" where
  "bot_session_config_of bot_id rate req config =
     \<lparr>bs_bot_id = bot_id, bs_tenant_id = sb_tenant_id req, bs_upstream_endpoint = sb_upstream_endpoint req,
      bs_traceparent = sb_traceparent req, bs_purpose = sb_purpose req, bs_sample_rate_hz = rate,
      bs_start_message = sb_start_message req, bs_target_queue_ms = bot_target_queue_ms config,
      bs_drain_timeout_ms = (if sb_drain_timeout_ms req \<noteq> 0 then sb_drain_timeout_ms req else bot_drain_timeout_ms config),
      bs_target_channel_uuids = sb_target_channel_uuids req,
      bs_write_target_channel_uuids = sb_write_target_channel_uuids req, bs_variables = sb_variables req\<rparr>"

text \<open>
  The world of the handlers: the registries, the FreeSWITCH sessions, the audit events and the bot
  sessions (by bot id) that were stopped outside the registry.
\<close>

record bot_world =
  bw_bots :: bot_registry
  bw_streams :: stream_registry
  bw_sessions :: "string \<rightharpoonup> fs_session"
  bw_audits :: "(string \<times> (string \<times> string) list) list"
  bw_stopped :: "string list"

text \<open>What the handler asks of its environment.\<close>

record bot_env =
  be_read_impl :: "string \<Rightarrow> codec_impl option"
  be_write_impl :: "string \<Rightarrow> codec_impl option"
  be_record_count :: "string \<Rightarrow> nat"
  be_set_variable :: "string \<Rightarrow> string \<Rightarrow> channel_vars \<Rightarrow> channel_vars"
  be_open :: "bot_session_config \<Rightarrow> grpc_status"
  be_attach :: "bot_session_config \<Rightarrow> grpc_status"
  be_meanwhile :: "bot_world \<Rightarrow> bot_world"

text \<open>The checks before anything is started, target by target.\<close>

fun check_targets :: "bot_env \<Rightarrow> Config \<Rightarrow> start_bot_request \<Rightarrow> u32 \<Rightarrow> bot_world \<Rightarrow> string list \<Rightarrow> grpc_status" where
  "check_targets env config req rate w [] = Status_OK"
| "check_targets env config req rate w (uuid # uuids) =
     (if ChannelAtCapacity uuid (unat (max_bots_per_channel config)) (bw_bots w)
        then (FAILED_PRECONDITION, ''channel already has maximum active bots'')
      else if bw_sessions w uuid = None then (NOT_FOUND, ''channel not found: '' @ uuid)
      else
        let read = (if SupportsRead (sb_purpose req)
                    then ValidateRatePair ''StartBot read'' (mr_sample_rate_hz (media_rate (be_read_impl env uuid))) rate
                    else Status_OK);
            write = (if ShouldWriteTarget req uuid
                     then ValidateRatePair ''StartBot write'' rate (mr_sample_rate_hz (media_rate (be_write_impl env uuid)))
                     else Status_OK)
        in if fst read \<noteq> OK then read
           else if fst write \<noteq> OK then write
           else check_targets env config req rate w uuids)"

definition MaybeWarnRecordBeforeInject ::
  "bot_env \<Rightarrow> Config \<Rightarrow> string \<Rightarrow> string \<Rightarrow> string \<Rightarrow> bot_world \<Rightarrow> bot_world" where
  "MaybeWarnRecordBeforeInject env config channel_uuid tenant_id purpose w =
     (if \<not> warn_record_before_inject config \<or> be_record_count env channel_uuid = 0 then w
      else w\<lparr>bw_audits := bw_audits w @
        [(''osw.recording.warn_record_before_inject'',
          [(''channel_uuid'', channel_uuid), (''tenant_id'', tenant_id), (''inject_purpose'', purpose),
           (''native_record_count'', decimal (be_record_count env channel_uuid)),
           (''remediation'', ''Reorder dialplan: attach bot media before record_session, or use StartRecordingRelay'')])]\<rparr>)"

definition mark_target :: "bot_env \<Rightarrow> Config \<Rightarrow> start_bot_request \<Rightarrow> string \<Rightarrow> bot_world \<Rightarrow> bot_world" where
  "mark_target env config req uuid w =
     (case bw_sessions w uuid of None \<Rightarrow> w
      | Some session \<Rightarrow>
          let policy = ResolveEffectivePolicy config (sb_tenant_id req);
              w1 = w\<lparr>bw_sessions := (bw_sessions w)(uuid \<mapsto>
                     MarkBotSession (be_set_variable env) (PurposeName (sb_purpose req)) policy (sb_tenant_id req) session)\<rparr>
          in if ShouldWriteTarget req uuid
             then MaybeWarnRecordBeforeInject env config uuid (sb_tenant_id req) (PurposeName (sb_purpose req)) w1
             else w1)"

text \<open>
  The whole handler: status, response (bot id and rate) and world. \<open>handle\<close> stands for the new bot
  session; a session that is not registered is stopped by the handler or by its destructor.
\<close>

definition HandleStartBot ::
  "bot_env \<Rightarrow> Config \<Rightarrow> bool \<Rightarrow> string \<Rightarrow> nat \<Rightarrow> start_bot_request \<Rightarrow> bot_world \<Rightarrow>
   grpc_status \<times> (string \<times> u32) option \<times> bot_world" where
  "HandleStartBot env config initialised bot_id handle req w =
     (if \<not> initialised then ((UNAVAILABLE, ''media plane not initialised''), None, w)
      else let (valid, rate) = ValidateStartBot req config in
        if fst valid \<noteq> OK then (valid, None, w)
        else let checked = check_targets env config req rate w (sb_target_channel_uuids req) in
          if fst checked \<noteq> OK then (checked, None, w)
          else
            let cfg = bot_session_config_of bot_id rate req config;
                open_st = be_open env cfg; attach_st = be_attach env cfg;
                w1 = be_meanwhile env w;
                stopped = w1\<lparr>bw_stopped := bw_stopped w1 @ [bot_id]\<rparr>
            in if fst open_st \<noteq> OK then (open_st, None, stopped)
               else if fst attach_st \<noteq> OK then
                 (attach_st, None, stopped\<lparr>bw_audits := bw_audits stopped @
                    [(''osw.media.bot.target_attach_failed'',
                      [(''bot_id'', bot_id), (''tenant_id'', sb_tenant_id req), (''error'', snd attach_st)])]\<rparr>)
               else
                 let w2 = fold (mark_target env config req) (sb_target_channel_uuids req) w1;
                     active = \<lparr>ab_bot_id = bot_id, ab_target_channel_uuids = sb_target_channel_uuids req,
                               ab_stream_ids = [], ab_session = Some handle\<rparr>;
                     (inserted, bots) = Bots_Insert active (unat (max_bots_per_channel config)) (bw_bots w2)
                 in case inserted of
                      kInserted \<Rightarrow>
                        (Status_OK, Some (bot_id, rate),
                         w2\<lparr>bw_bots := bots, bw_audits := bw_audits w2 @
                           [(''osw.media.bot.started'',
                             [(''bot_id'', bot_id), (''tenant_id'', sb_tenant_id req),
                              (''purpose'', PurposeName (sb_purpose req)),
                              (''target_count'', decimal (length (sb_target_channel_uuids req)))])]\<rparr>)
                    | kChannelCapacityExceeded \<Rightarrow>
                        ((FAILED_PRECONDITION, ''channel already has maximum active bots''), None,
                         w2\<lparr>bw_stopped := bw_stopped w2 @ [bot_id]\<rparr>)
                    | kDuplicateBotId \<Rightarrow>
                        ((INTERNAL, ''bot_id collision''), None, w2\<lparr>bw_stopped := bw_stopped w2 @ [bot_id]\<rparr>))"

definition HandleStopBot :: "bool \<Rightarrow> string \<Rightarrow> string \<Rightarrow> bot_world \<Rightarrow> grpc_status \<times> bool \<times> bot_world" where
  "HandleStopBot initialised tenant_id bot_id w =
     (if bot_id = [] then ((INVALID_ARGUMENT, ''bot_id required''), False, w)
      else if \<not> initialised then ((UNAVAILABLE, ''media plane not initialised''), False, w)
      else case Bots_Stop bot_id (bw_bots w, bw_streams w) of (was_active, bots, streams) \<Rightarrow>
        (Status_OK, was_active,
         w\<lparr>bw_bots := bots, bw_streams := streams,
           bw_audits := bw_audits w @
             (if was_active then [(''osw.media.bot.stopped'', [(''bot_id'', bot_id), (''tenant_id'', tenant_id)])] else [])\<rparr>))"

section \<open>Starting is all or nothing\<close>

lemma check_targets_distinct_OK:
  "fst (check_targets_distinct seen us) = OK \<longleftrightarrow> distinct us \<and> [] \<notin> set us \<and> set us \<inter> seen = {}"
  by (induction us arbitrary: seen) auto

lemma ValidateStartBot_OK:
  assumes "ValidateStartBot req config = (st, rate)" "fst st = OK"
  shows "sb_target_channel_uuids req \<noteq> []" "distinct (sb_target_channel_uuids req)"
    "[] \<notin> set (sb_target_channel_uuids req)" "length (sb_target_channel_uuids req) \<le> unat (bot_max_targets config)"
    "sb_upstream_endpoint req \<noteq> []" "sb_purpose req \<noteq> BOT_UNSPECIFIED" "rate = 8000 \<or> rate = 16000"
    "set (sb_write_target_channel_uuids req) \<subseteq> set (sb_target_channel_uuids req)"
  using assms
  by (auto simp: ValidateStartBot_def Let_def check_targets_distinct_OK list_all_iff split: if_splits)

lemma warn_frame [simp]:
  "bw_bots (MaybeWarnRecordBeforeInject env config u t p w) = bw_bots w"
  "bw_stopped (MaybeWarnRecordBeforeInject env config u t p w) = bw_stopped w"
  "bw_sessions (MaybeWarnRecordBeforeInject env config u t p w) = bw_sessions w"
  by (simp_all add: MaybeWarnRecordBeforeInject_def)

definition marked_for :: "bot_env \<Rightarrow> Config \<Rightarrow> start_bot_request \<Rightarrow> fs_session \<Rightarrow> fs_session" where
  "marked_for env config req =
     MarkBotSession (be_set_variable env) (PurposeName (sb_purpose req))
       (ResolveEffectivePolicy config (sb_tenant_id req)) (sb_tenant_id req)"

lemma mark_target_frame [simp]:
  "bw_bots (mark_target env config req u w) = bw_bots w" "bw_stopped (mark_target env config req u w) = bw_stopped w"
  "bw_sessions (mark_target env config req u w) =
     (bw_sessions w)(u := map_option (marked_for env config req) (bw_sessions w u))"
  by (auto simp: mark_target_def marked_for_def Let_def split: option.splits)

lemma mark_targets_frame:
  "bw_bots (fold (mark_target env config req) us w) = bw_bots w"
  "bw_stopped (fold (mark_target env config req) us w) = bw_stopped w"
  by (induction us arbitrary: w) simp_all

lemma mark_targets_sessions:
  "distinct us \<Longrightarrow> bw_sessions (fold (mark_target env config req) us w) u =
     (if u \<in> set us then map_option (marked_for env config req) (bw_sessions w u) else bw_sessions w u)"
  by (induction us arbitrary: w) auto

text \<open>What an OK answer and a refusal guarantee.\<close>

definition bot_started ::
  "bot_env \<Rightarrow> Config \<Rightarrow> string \<Rightarrow> nat \<Rightarrow> start_bot_request \<Rightarrow> bot_world \<Rightarrow> (string \<times> u32) option \<Rightarrow> bot_world \<Rightarrow> bool" where
  "bot_started env config bot_id handle req w resp w' \<longleftrightarrow>
     distinct (sb_target_channel_uuids req) \<and> sb_target_channel_uuids req \<noteq> [] \<and> [] \<notin> set (sb_target_channel_uuids req)
     \<and> length (sb_target_channel_uuids req) \<le> unat (bot_max_targets config)
     \<and> sb_upstream_endpoint req \<noteq> [] \<and> sb_purpose req \<noteq> BOT_UNSPECIFIED
     \<and> (\<exists>rate \<in> {8000, 16000}. resp = Some (bot_id, rate))
     \<and> (\<exists>b. br_by_id (bw_bots w') = br_by_id (bw_bots (be_meanwhile env w)) @ [(bot_id, b)]
          \<and> ab_target_channel_uuids b = sb_target_channel_uuids req \<and> ab_session b = Some handle)
     \<and> bw_stopped w' = bw_stopped (be_meanwhile env w)
     \<and> (\<forall>u \<in> set (sb_target_channel_uuids req).
          bw_sessions w' u = map_option (marked_for env config req) (bw_sessions (be_meanwhile env w) u))"

definition bot_refused :: "bot_env \<Rightarrow> string \<Rightarrow> bot_world \<Rightarrow> (string \<times> u32) option \<Rightarrow> bot_world \<Rightarrow> bool" where
  "bot_refused env bot_id w resp w' \<longleftrightarrow> resp = None \<and> bw_bots w' \<in> {bw_bots w, bw_bots (be_meanwhile env w)}
     \<and> (w' = w \<or> bw_stopped w' = bw_stopped (be_meanwhile env w) @ [bot_id])"

lemma start_bot_late:
  assumes run: "HandleStartBot env config True bot_id handle req w = (st, resp, w')"
    and v: "ValidateStartBot req config = (valid, rate)" "fst valid = OK"
      "fst (check_targets env config req rate w (sb_target_channel_uuids req)) = OK"
      "fst (be_open env (bot_session_config_of bot_id rate req config)) = OK"
      "fst (be_attach env (bot_session_config_of bot_id rate req config)) = OK"
  shows "(fst st = OK \<longrightarrow> bot_started env config bot_id handle req w resp w')
    \<and> (fst st \<noteq> OK \<longrightarrow> bot_refused env bot_id w resp w')"
proof -
  note ok = ValidateStartBot_OK [OF v(1,2)]
  let ?w1 = "be_meanwhile env w"
  let ?w2 = "fold (mark_target env config req) (sb_target_channel_uuids req) ?w1"
  let ?b = "\<lparr>ab_bot_id = bot_id, ab_target_channel_uuids = sb_target_channel_uuids req,
             ab_stream_ids = [], ab_session = Some handle\<rparr>"
  obtain ins bots where i: "Bots_Insert ?b (unat (max_bots_per_channel config)) (bw_bots ?w1) = (ins, bots)" by force
  show ?thesis
  proof (cases "ins = kInserted")
    case True
    have "br_by_id bots = br_by_id (bw_bots ?w1) @ [(bot_id, ?b)]"
      using i True by (auto simp: Bots_Insert_def split: if_splits)
    moreover have "fst st = OK" "resp = Some (bot_id, rate)" "bw_bots w' = bots" "bw_stopped w' = bw_stopped ?w1"
        "bw_sessions w' = bw_sessions ?w2"
      using run v i True by (auto simp: HandleStartBot_def Let_def mark_targets_frame)
    moreover have "bw_sessions ?w2 u = map_option (marked_for env config req) (bw_sessions ?w1 u)"
      if "u \<in> set (sb_target_channel_uuids req)" for u
      using that ok(2) by (simp add: mark_targets_sessions)
    ultimately show ?thesis using ok by (auto simp: bot_started_def)
  next
    case False
    then show ?thesis using run v i
      by (cases ins) (auto simp: HandleStartBot_def Let_def mark_targets_frame bot_refused_def)
  qed
qed

text \<open>
  C18. \<open>StartBot\<close> is all or nothing. It answers OK only for a well-formed request (distinct, non-empty
  targets within the configured number, an upstream, a purpose, rate 8000 or 16000); then the bot is
  registered for exactly those targets, its session is running, and every target session that
  exists is marked with the tenant's effective eavesdrop policy. On any other answer there is no
  response, the handler registered nothing, and a bot session it had created is stopped.
\<close>

theorem start_bot_all_or_nothing:
  assumes run: "HandleStartBot env config initialised bot_id handle req w = (st, resp, w')"
  shows "(fst st = OK \<longrightarrow> bot_started env config bot_id handle req w resp w')
    \<and> (fst st \<noteq> OK \<longrightarrow> bot_refused env bot_id w resp w')"
proof -
  obtain valid rate where v: "ValidateStartBot req config = (valid, rate)" by (rule prod.exhaust)
  let ?cfg = "bot_session_config_of bot_id rate req config"
  consider (early) "\<not> initialised \<or> fst valid \<noteq> OK
      \<or> fst (check_targets env config req rate w (sb_target_channel_uuids req)) \<noteq> OK"
    | (unopened) "initialised" "fst valid = OK" "fst (check_targets env config req rate w (sb_target_channel_uuids req)) = OK"
      "fst (be_open env ?cfg) \<noteq> OK \<or> fst (be_attach env ?cfg) \<noteq> OK"
    | (late) "initialised" "fst valid = OK" "fst (check_targets env config req rate w (sb_target_channel_uuids req)) = OK"
      "fst (be_open env ?cfg) = OK" "fst (be_attach env ?cfg) = OK"
    by blast
  then show ?thesis
  proof cases
    case early
    then show ?thesis using run v by (auto simp: HandleStartBot_def Let_def bot_refused_def split: if_splits)
  next
    case unopened
    then show ?thesis using run v by (auto simp: HandleStartBot_def Let_def bot_refused_def split: if_splits)
  next
    case late
    then show ?thesis using start_bot_late [OF _ v] run by simp
  qed
qed

definition demo_bot_env :: bot_env where
  "demo_bot_env = \<lparr>be_read_impl = (\<lambda>_. Some \<lparr>actual_samples_per_second = 16000, samples_per_second = 16000, number_of_channels = 1\<rparr>),
     be_write_impl = (\<lambda>_. None), be_record_count = (\<lambda>_. 0), be_set_variable = demo_set,
     be_open = (\<lambda>_. Status_OK), be_attach = (\<lambda>_. Status_OK), be_meanwhile = (\<lambda>w. w)\<rparr>"

definition demo_bot_request :: start_bot_request where
  "demo_bot_request = \<lparr>sb_tenant_id = ''acme'', sb_traceparent = [], sb_target_channel_uuids = [''c''],
     sb_upstream_endpoint = ''up:1'', sb_purpose = STT_LISTEN, sb_write_target_channel_uuids = [], sb_sample_rate_hz = 0,
     sb_start_message = [], sb_variables = Map.empty, sb_drain_timeout_ms = 0\<rparr>"

definition demo_bot_world :: bot_world where
  "demo_bot_world = \<lparr>bw_bots = ActiveBots_new, bw_streams = ActiveMediaStreams_new, bw_sessions = [''c'' \<mapsto> demo_bot],
     bw_audits = [], bw_stopped = []\<rparr>"

lemma demo_bot_start:
  "fst (fst (HandleStartBot demo_bot_env Config_default True ''b'' 7 demo_bot_request demo_bot_world)) = OK"
  by (simp add: HandleStartBot_def demo_bot_env_def demo_bot_request_def demo_bot_world_def ValidateStartBot_def
      Config_default_def ChannelAtCapacity_def ActiveBots_new_def SupportsRead_def ShouldWriteTarget_def SupportsWrite_def
      ValidateRatePair_def Resampler_Supports_def media_rate_def Bots_Insert_def channel_count_def mark_target_def Let_def)

theorem start_bot_all_or_nothing_witness:
  "\<exists>st resp w'. HandleStartBot demo_bot_env Config_default True ''b'' 7 demo_bot_request demo_bot_world = (st, resp, w')
     \<and> fst st = OK \<and> bot_started demo_bot_env Config_default ''b'' 7 demo_bot_request demo_bot_world resp w'"
proof -
  obtain st resp w' where r:
    "HandleStartBot demo_bot_env Config_default True ''b'' 7 demo_bot_request demo_bot_world = (st, resp, w')"
    by (rule prod_cases3)
  then show ?thesis using start_bot_all_or_nothing [OF r] demo_bot_start by auto
qed

end
