(* ===== verification/Control_CallData.thy ===== *)
theory Control_CallData
  imports Osw_Prelude
begin

text \<open>
  The value types of the call-control handlers: the hangup causes of \<^verbatim>\<open>src/control/call_cause.cc\<close>
  with the enum values of \<^verbatim>\<open>include/osw/raii/fs_mock.h\<close>, the reserved channel variables of
  \<^verbatim>\<open>src/control/var_denylist.cc\<close>, the parameters of an originate built from its request,
  \<^verbatim>\<open>src/control/originate_options.cc\<close>, and the redaction of application arguments before they
  are written to the audit log, \<^verbatim>\<open>RedactArgs\<close> of \<^verbatim>\<open>src/control/handlers/execute_handler.cc\<close>.
\<close>

section \<open>Hangup causes\<close>

type_synonym call_cause = nat

definition SWITCH_CAUSE_NORMAL_CLEARING :: call_cause where
  "SWITCH_CAUSE_NORMAL_CLEARING = 16"

definition kCauseTable :: "(call_cause \<times> string) list" where
  "kCauseTable = [
    (0, ''NONE''), (1, ''UNALLOCATED_NUMBER''), (2, ''NO_ROUTE_TRANSIT_NET''),
    (3, ''NO_ROUTE_DESTINATION''), (6, ''CHANNEL_UNACCEPTABLE''), (7, ''CALL_AWARDED_DELIVERED''),
    (16, ''NORMAL_CLEARING''), (17, ''USER_BUSY''), (18, ''NO_USER_RESPONSE''),
    (19, ''NO_ANSWER''), (20, ''SUBSCRIBER_ABSENT''), (21, ''CALL_REJECTED''),
    (22, ''NUMBER_CHANGED''), (23, ''REDIRECTION_TO_NEW_DESTINATION''),
    (25, ''EXCHANGE_ROUTING_ERROR''), (27, ''DESTINATION_OUT_OF_ORDER''),
    (28, ''INVALID_NUMBER_FORMAT''), (29, ''FACILITY_REJECTED''),
    (30, ''RESPONSE_TO_STATUS_ENQUIRY''), (31, ''NORMAL_UNSPECIFIED''),
    (34, ''NORMAL_CIRCUIT_CONGESTION''), (38, ''NETWORK_OUT_OF_ORDER''),
    (41, ''NORMAL_TEMPORARY_FAILURE''), (42, ''SWITCH_CONGESTION''),
    (43, ''ACCESS_INFO_DISCARDED''), (44, ''REQUESTED_CHAN_UNAVAIL''), (45, ''PRE_EMPTED''),
    (50, ''FACILITY_NOT_SUBSCRIBED''), (52, ''OUTGOING_CALL_BARRED''),
    (54, ''INCOMING_CALL_BARRED''), (57, ''BEARERCAPABILITY_NOTAUTH''),
    (58, ''BEARERCAPABILITY_NOTAVAIL''), (63, ''SERVICE_UNAVAILABLE''),
    (65, ''BEARERCAPABILITY_NOTIMPL''), (66, ''CHAN_NOT_IMPLEMENTED''),
    (69, ''FACILITY_NOT_IMPLEMENTED''), (79, ''SERVICE_NOT_IMPLEMENTED''),
    (81, ''INVALID_CALL_REFERENCE''), (88, ''INCOMPATIBLE_DESTINATION''),
    (95, ''INVALID_MSG_UNSPECIFIED''), (96, ''MANDATORY_IE_MISSING''),
    (97, ''MESSAGE_TYPE_NONEXIST''), (98, ''WRONG_MESSAGE''), (99, ''IE_NONEXIST''),
    (100, ''INVALID_IE_CONTENTS''), (101, ''WRONG_CALL_STATE''),
    (102, ''RECOVERY_ON_TIMER_EXPIRE''), (103, ''MANDATORY_IE_LENGTH_ERROR''),
    (111, ''PROTOCOL_ERROR''), (127, ''INTERWORKING''), (142, ''SUCCESS''),
    (487, ''ORIGINATOR_CANCEL''), (700, ''CRASH''), (701, ''SYSTEM_SHUTDOWN''),
    (702, ''LOSE_RACE''), (703, ''MANAGER_REQUEST''), (800, ''BLIND_TRANSFER''),
    (801, ''ATTENDED_TRANSFER''), (802, ''ALLOTTED_TIMEOUT''), (803, ''USER_CHALLENGE''),
    (804, ''MEDIA_TIMEOUT''), (805, ''PICKED_OFF''), (806, ''USER_NOT_REGISTERED''),
    (807, ''PROGRESS_TIMEOUT''), (808, ''INVALID_GATEWAY''), (809, ''GATEWAY_DOWN''),
    (810, ''INVALID_URL''), (811, ''INVALID_PROFILE''), (812, ''NO_PICKUP''),
    (813, ''SRTP_READ_ERROR''), (814, ''BOWOUT''), (815, ''BUSY_EVERYWHERE''), (816, ''DECLINE''),
    (817, ''DOES_NOT_EXIST_ANYWHERE''), (818, ''NOT_ACCEPTABLE''), (819, ''UNWANTED''),
    (820, ''NO_IDENTITY''), (821, ''BAD_IDENTITY_INFO''), (822, ''UNSUPPORTED_CERTIFICATE''),
    (823, ''INVALID_IDENTITY''), (824, ''STALE_DATE''), (825, ''REJECT_ALL'')
]"

definition CallCause_FromString :: "string \<Rightarrow> call_cause" where
  "CallCause_FromString name =
     (if name = [] \<or> name = ''UNSPECIFIED'' then SWITCH_CAUSE_NORMAL_CLEARING
      else (case List.find (\<lambda>(_, n). n = name) kCauseTable of
              Some (v, _) \<Rightarrow> v
            | None \<Rightarrow> SWITCH_CAUSE_NORMAL_CLEARING))"

definition CallCause_ToString :: "call_cause \<Rightarrow> string" where
  "CallCause_ToString cause =
     (case List.find (\<lambda>(v, _). v = cause) kCauseTable of
        Some (_, n) \<Rightarrow> n
      | None \<Rightarrow> ''UNSPECIFIED'')"

section \<open>Reserved channel variables\<close>

definition kReservedVarPrefixes :: "string list" where
  "kReservedVarPrefixes =
     [''api_'', ''exec_'', ''bridge_pre_execute_'', ''bridge_post_bridge_'', ''hangup_after_bridge_'',
      ''sip_h_'', ''record_'', ''_record_'', ''wait_for_'', ''transfer_after_bridge'',
      ''session_in_hangup_hook'', ''api_on_'', ''execute_on_'']"

definition kReservedVarExact :: "string list" where
  "kReservedVarExact =
     [''osw_bot_session'', ''osw_bot_purpose'', ''osw_eavesdrop_policy'', ''osw_tenant'']"

definition IsReservedVar :: "string \<Rightarrow> bool" where
  "IsReservedVar name \<longleftrightarrow>
     name \<noteq> [] \<and>
     (let lower = map to_lower name
      in list_ex (\<lambda>e. lower = e) kReservedVarExact
         \<or> list_ex (\<lambda>p. take (length p) lower = p) kReservedVarPrefixes)"

text \<open>The variable names \<^verbatim>\<open>SetVariables\<close> accepts, \<^verbatim>\<open>[A-Za-z0-9_-]+\<close>.\<close>

definition IsValidVarName :: "string \<Rightarrow> bool" where
  "IsValidVarName name \<longleftrightarrow>
     name \<noteq> [] \<and>
     list_all (\<lambda>c. let n = of_char c :: nat
                   in 65 \<le> n \<and> n \<le> 90 \<or> 97 \<le> n \<and> n \<le> 122 \<or> 48 \<le> n \<and> n \<le> 57
                      \<or> c = CHR ''_'' \<or> c = CHR ''-'') name"

section \<open>Originate parameters\<close>

datatype originate_strategy = STRATEGY_UNSPECIFIED | SIMULTANEOUS | FAILOVER | MULTIPLE

text \<open>A \<^verbatim>\<open>Duration\<close> is its seconds and nanos; a proto map is the list of its entries.\<close>

record originate_request =
  or_header :: "(string \<times> string) option"
  or_endpoints :: "string list"
  or_strategy :: originate_strategy
  or_timeout :: "(int \<times> int) option"
  or_cid_name :: string
  or_cid_num :: string
  or_variables :: "(string \<times> string) list"

definition kDefaultTimeoutSec :: u32 where
  "kDefaultTimeoutSec = 60"

fun join_with :: "string \<Rightarrow> string list \<Rightarrow> string" where
  "join_with sep [] = []"
| "join_with sep [e] = e"
| "join_with sep (e # es) = e @ sep @ join_with sep es"

definition BuildDialString :: "originate_request \<Rightarrow> string" where
  "BuildDialString req =
     (case or_endpoints req of
        [] \<Rightarrow> []
      | [e] \<Rightarrow> e
      | es \<Rightarrow> join_with (case or_strategy req of
                           SIMULTANEOUS \<Rightarrow> '',''
                         | MULTIPLE \<Rightarrow> '':_:''
                         | _ \<Rightarrow> ''|'') es)"

text \<open>
  The variable event is an address in the heap of FreeSWITCH events, which holds the header list of
  every live event; \<open>fresh\<close> is what \<^verbatim>\<open>EventCreate\<close> returns, None on failure.
\<close>

type_synonym event_heap = "nat \<rightharpoonup> (string \<times> string) list"

record originate_options =
  oo_valid :: bool
  oo_error :: string
  oo_dial_string :: string
  oo_cid_name :: string
  oo_cid_num :: string
  oo_timeout_sec :: u32
  oo_ovars :: "nat option"

definition OriginateOptions_default :: originate_options where
  "OriginateOptions_default =
     \<lparr>oo_valid = False, oo_error = [], oo_dial_string = [], oo_cid_name = [], oo_cid_num = [],
      oo_timeout_sec = 0, oo_ovars = None\<rparr>"

fun first_empty :: "string list \<Rightarrow> nat \<Rightarrow> nat option" where
  "first_empty [] i = None"
| "first_empty (e # es) i = (if e = [] then Some i else first_empty es (Suc i))"

text \<open>The seconds of a timeout, or an error when neither component is positive.\<close>

definition timeout_seconds :: "(int \<times> int) option \<Rightarrow> u32 option" where
  "timeout_seconds t =
     (case t of
        None \<Rightarrow> Some kDefaultTimeoutSec
      | Some (seconds, nanos) \<Rightarrow>
          if seconds \<le> 0 \<and> nanos \<le> 0 then None
          else Some (if 0 < seconds then word_of_int seconds else 1))"

definition OriginateOptions_Build ::
  "nat option \<Rightarrow> originate_request \<Rightarrow> event_heap \<Rightarrow> originate_options \<times> event_heap" where
  "OriginateOptions_Build fresh req h =
     (let opts = OriginateOptions_default
      in if or_endpoints req = [] then
           (opts\<lparr>oo_error := ''at least one endpoint is required''\<rparr>, h)
         else (case first_empty (or_endpoints req) 0 of
           Some i \<Rightarrow> (opts\<lparr>oo_error := ''endpoint at index '' @ decimal i @ '' is empty''\<rparr>, h)
         | None \<Rightarrow>
           (case timeout_seconds (or_timeout req) of
              None \<Rightarrow> (opts\<lparr>oo_error := ''timeout must be > 0''\<rparr>, h)
            | Some secs \<Rightarrow>
                (let opts1 = opts\<lparr>oo_dial_string := BuildDialString req, oo_cid_name := or_cid_name req,
                                  oo_cid_num := or_cid_num req, oo_timeout_sec := secs\<rparr>
                 in if or_variables req = [] then (opts1\<lparr>oo_valid := True\<rparr>, h)
                    else (case fresh of
                      None \<Rightarrow> (opts1\<lparr>oo_error := ''failed to allocate channel variables event''\<rparr>, h)
                    | Some ev \<Rightarrow>
                        (opts1\<lparr>oo_ovars := Some ev, oo_valid := True\<rparr>,
                         h(ev \<mapsto> map (\<lambda>(k, v). (c_str k, c_str v)) (or_variables req))))))))"

text \<open>The destructor, the moves and \<^verbatim>\<open>ReleaseOvars\<close>.\<close>

definition destroy_ovars :: "nat option \<Rightarrow> event_heap \<Rightarrow> event_heap" where
  "destroy_ovars ev h = (case ev of None \<Rightarrow> h | Some a \<Rightarrow> h(a := None))"

definition OriginateOptions_destroy :: "originate_options \<Rightarrow> event_heap \<Rightarrow> event_heap" where
  "OriginateOptions_destroy o1 h = destroy_ovars (oo_ovars o1) h"

text \<open>
  A moved-from \<^verbatim>\<open>std::string\<close> is valid but unspecified; the strings it is left with are the
  argument \<open>left\<close>.
\<close>

definition OriginateOptions_move ::
  "(string \<Rightarrow> string) \<Rightarrow> originate_options \<Rightarrow> originate_options \<times> originate_options" where
  "OriginateOptions_move left other =
     (other,
      other\<lparr>oo_valid := False, oo_error := left (oo_error other),
            oo_dial_string := left (oo_dial_string other), oo_cid_name := left (oo_cid_name other),
            oo_cid_num := left (oo_cid_num other), oo_timeout_sec := 0, oo_ovars := None\<rparr>)"

text \<open>Move assignment between distinct objects.\<close>

definition OriginateOptions_move_assign ::
  "(string \<Rightarrow> string) \<Rightarrow> originate_options \<Rightarrow> originate_options \<Rightarrow> event_heap \<Rightarrow>
   originate_options \<times> originate_options \<times> event_heap" where
  "OriginateOptions_move_assign left this other h =
     (case OriginateOptions_move left other of
        (this', other') \<Rightarrow> (this', other', destroy_ovars (oo_ovars this) h))"

definition OriginateOptions_ReleaseOvars :: "originate_options \<Rightarrow> nat option \<times> originate_options" where
  "OriginateOptions_ReleaseOvars o1 = (oo_ovars o1, o1\<lparr>oo_ovars := None\<rparr>)"

section \<open>The cause table\<close>

lemma find_table:
  assumes "distinct (map f xs)" and "x \<in> set xs"
  shows "List.find (\<lambda>y. f y = f x) xs = Some x"
  using assms
proof (induction xs)
  case (Cons y ys)
  show ?case
  proof (cases "f y = f x")
    case True
    then have "y = x" using Cons.prems by (metis distinct.simps(2) image_eqI list.set_map list.simps(9) set_ConsD)
    then show ?thesis by simp
  next
    case False
    then show ?thesis using Cons by auto
  qed
qed simp

lemma cause_values_distinct: "distinct (map fst kCauseTable)"
  by (simp add: kCauseTable_def)

lemma cause_names_distinct: "distinct (map snd kCauseTable)"
  by (simp add: kCauseTable_def)

lemma cause_names_ok: "list_all (\<lambda>n. n \<noteq> [] \<and> n \<noteq> ''UNSPECIFIED'') (map snd kCauseTable)"
  by (simp add: kCauseTable_def)

lemma cause_name_ok: "(v, n) \<in> set kCauseTable \<Longrightarrow> n \<noteq> [] \<and> n \<noteq> ''UNSPECIFIED''"
  using cause_names_ok by (force simp: list_all_iff)

lemma FromString_entry:
  assumes "(v, n) \<in> set kCauseTable"
  shows "CallCause_FromString n = v"
  using find_table [OF cause_names_distinct assms] cause_name_ok [OF assms]
  by (simp add: CallCause_FromString_def case_prod_unfold)

lemma ToString_entry:
  assumes "(v, n) \<in> set kCauseTable"
  shows "CallCause_ToString v = n"
  using find_table [OF cause_values_distinct assms] by (simp add: CallCause_ToString_def case_prod_unfold)

lemma find_names_None: "n \<notin> snd ` set xs \<Longrightarrow> List.find (\<lambda>(_, m). m = n) xs = None"
  by (induction xs) auto

lemma FromString_other: "n \<notin> snd ` set kCauseTable \<Longrightarrow> CallCause_FromString n = SWITCH_CAUSE_NORMAL_CLEARING"
  by (simp add: CallCause_FromString_def find_names_None)

lemma normal_clearing_entry: "(SWITCH_CAUSE_NORMAL_CLEARING, ''NORMAL_CLEARING'') \<in> set kCauseTable"
  by (simp add: kCauseTable_def SWITCH_CAUSE_NORMAL_CLEARING_def)

text \<open>
  Hangup causes survive the trip through their names: on the values of the table,
  \<open>CallCause_FromString\<close> undoes \<open>CallCause_ToString\<close>; on every string, a name of the table comes back
  unchanged and any other text, the empty one and \<^verbatim>\<open>UNSPECIFIED\<close> included, means
  \<^verbatim>\<open>NORMAL_CLEARING\<close>. The cause written to the audit log is therefore the one that was used.
\<close>

lemma cause_round_trip:
  "(v \<in> fst ` set kCauseTable \<longrightarrow> CallCause_FromString (CallCause_ToString v) = v) \<and>
   CallCause_ToString (CallCause_FromString n) =
     (if n \<in> snd ` set kCauseTable then n else ''NORMAL_CLEARING'')"
  using ToString_entry [OF normal_clearing_entry]
  by (auto simp: FromString_entry ToString_entry FromString_other)

lemma cause_round_trip_example:
  "CallCause_FromString (CallCause_ToString 487) = 487 \<and> CallCause_ToString 487 = ''ORIGINATOR_CANCEL''"
proof -
  have "487 \<in> fst ` set kCauseTable" by (simp add: kCauseTable_def)
  with cause_round_trip [of 487 "[]"] show ?thesis
    by (simp add: CallCause_ToString_def kCauseTable_def)
qed

section \<open>What the denylist catches\<close>

lemma to_lower_NUL [simp]: "to_lower c = CHR 0x00 \<longleftrightarrow> c = CHR 0x00"
proof
  assume a: "to_lower c = CHR 0x00"
  show "c = CHR 0x00"
  proof (cases "65 \<le> (of_char c :: nat) \<and> (of_char c :: nat) \<le> 90")
    case True
    then have "(of_char (to_lower c) :: nat) = of_char c + 32" by (simp add: to_lower_def)
    then show ?thesis using a by simp
  qed (use a in \<open>simp add: to_lower_def Let_def split: if_splits\<close>)
qed (simp add: to_lower_def)

lemma c_str_prefix: "\<exists>t. s = c_str s @ t"
  by (metis c_str_def takeWhile_dropWhile_id)

lemma valid_name_no_NUL:
  assumes "IsValidVarName name"
  shows "c_str name = name"
proof -
  have "CHR 0x00 \<notin> set name" using assms by (auto simp: IsValidVarName_def list_all_iff Let_def)
  then show ?thesis by (rule c_str_id)
qed

text \<open>
  FreeSWITCH reads a name up to its first NUL. A prefix of the denylist is caught all the same; one
  of the four exact names can hide behind a NUL.
\<close>

lemma reserved_c_str:
  assumes "IsReservedVar (c_str name)" and "\<not> IsReservedVar name"
  shows "c_str name \<noteq> name \<and> map to_lower (c_str name) \<in> set kReservedVarExact"
proof -
  obtain t where t: "name = c_str name @ t" using c_str_prefix by blast
  have pre: "take (length p) (map to_lower name) = p" if "take (length p) (map to_lower (c_str name)) = p" for p
  proof -
    have "length p \<le> length (c_str name)" using arg_cong [OF that, of length] by simp
    then show ?thesis using that by (subst t) simp
  qed
  have "c_str name \<noteq> name" using assms by auto
  moreover have "name \<noteq> []" using assms(1) by (auto simp: IsReservedVar_def c_str_def)
  ultimately show ?thesis
    using assms pre by (auto simp: IsReservedVar_def Let_def list_ex_iff)
qed

section \<open>Originate timeouts and events\<close>

lemma timeout_seconds_positive:
  assumes "timeout_seconds t = Some w" and "w = 0"
  shows "\<exists>s n. t = Some (s, n) \<and> 0 < s \<and> s mod 2 ^ 32 = 0"
  using assms
  by (auto simp: timeout_seconds_def kDefaultTimeoutSec_def word_of_int_eq_0_iff dvd_eq_mod_eq_0
           split: option.splits prod.splits if_splits)

lemma first_empty_None: "first_empty es i = None \<longleftrightarrow> [] \<notin> set es"
  by (induction es arbitrary: i) auto

lemma timeout_seconds_None: "timeout_seconds t = None \<longleftrightarrow> (\<exists>s n. t = Some (s, n) \<and> s \<le> 0 \<and> n \<le> 0)"
  by (auto simp: timeout_seconds_def split: option.splits prod.splits if_splits)

text \<open>A request that can be originated.\<close>

definition originable :: "nat option \<Rightarrow> originate_request \<Rightarrow> bool" where
  "originable fresh req \<longleftrightarrow>
     or_endpoints req \<noteq> [] \<and> [] \<notin> set (or_endpoints req)
     \<and> \<not> (\<exists>s n. or_timeout req = Some (s, n) \<and> s \<le> 0 \<and> n \<le> 0)
     \<and> (or_variables req = [] \<or> fresh \<noteq> None)"

lemma originable_iff:
  "originable fresh req \<longleftrightarrow>
     or_endpoints req \<noteq> [] \<and> first_empty (or_endpoints req) 0 = None
     \<and> timeout_seconds (or_timeout req) \<noteq> None \<and> (or_variables req = [] \<or> fresh \<noteq> None)"
  by (auto simp: originable_def first_empty_None timeout_seconds_None)

lemma Build_valid:
  assumes "originable fresh req"
  obtains secs where
    "timeout_seconds (or_timeout req) = Some secs"
    "fst (OriginateOptions_Build fresh req h) =
       \<lparr>oo_valid = True, oo_error = [], oo_dial_string = BuildDialString req, oo_cid_name = or_cid_name req,
        oo_cid_num = or_cid_num req, oo_timeout_sec = secs,
        oo_ovars = (if or_variables req = [] then None else fresh)\<rparr>"
  using assms
  by (auto simp: originable_iff OriginateOptions_Build_def OriginateOptions_default_def split: option.splits)

lemma Build_invalid:
  assumes "\<not> originable fresh req"
  shows "\<not> oo_valid (fst (OriginateOptions_Build fresh req h))"
    "oo_ovars (fst (OriginateOptions_Build fresh req h)) = None" "snd (OriginateOptions_Build fresh req h) = h"
    "oo_error (fst (OriginateOptions_Build fresh req h)) \<noteq> []"
  using assms
  by (auto simp: originable_iff OriginateOptions_Build_def OriginateOptions_default_def Let_def
           split: option.splits)

lemma Build_destroy:
  assumes "\<And>a. fresh = Some a \<Longrightarrow> h a = None"
  shows "OriginateOptions_destroy (fst (OriginateOptions_Build fresh req h))
           (snd (OriginateOptions_Build fresh req h)) = h"
  using assms
  by (auto simp: OriginateOptions_Build_def OriginateOptions_default_def OriginateOptions_destroy_def
                 destroy_ovars_def Let_def fun_upd_idem split: option.splits)

text \<open>
  C33. \<open>OriginateOptions_Build\<close> accepts exactly the requests that name at least one endpoint, none
  of them empty, and no timeout with both components non-positive, provided the variable event can
  be allocated; a rejected request carries an error text and allocates nothing. The timeout handed
  to FreeSWITCH is zero only for a request whose seconds are a positive multiple of \<open>2 ^ 32\<close>, where
  the cast to 32 bits wraps. Destroying the options, directly or after a move, frees the variable
  event and nothing else, and the moved-from object frees nothing.
\<close>

theorem originate_options_contract:
  assumes "\<And>a. fresh = Some a \<Longrightarrow> h a = None"
    and "OriginateOptions_Build fresh req h = (opts, h')"
  shows "(oo_valid opts \<longleftrightarrow> originable fresh req)
    \<and> (\<not> oo_valid opts \<longrightarrow> oo_error opts \<noteq> [] \<and> h' = h)
    \<and> (oo_valid opts \<and> oo_timeout_sec opts = 0 \<longleftrightarrow>
         originable fresh req \<and> (\<exists>s n. or_timeout req = Some (s, n) \<and> 0 < s \<and> s mod 2 ^ 32 = 0))
    \<and> OriginateOptions_destroy opts h' = h
    \<and> (case OriginateOptions_move left opts of
         (new, old) \<Rightarrow> OriginateOptions_destroy old h' = h' \<and> OriginateOptions_destroy new h' = h)"
proof -
  have o: "opts = fst (OriginateOptions_Build fresh req h)" "h' = snd (OriginateOptions_Build fresh req h)"
    using assms(2) by simp_all
  have d: "OriginateOptions_destroy opts h' = h" unfolding o by (rule Build_destroy [OF assms(1)])
  have mv: "case OriginateOptions_move left opts of
       (new, old) \<Rightarrow> OriginateOptions_destroy old h' = h' \<and> OriginateOptions_destroy new h' = h"
    using d by (simp add: OriginateOptions_move_def OriginateOptions_destroy_def destroy_ovars_def)
  show ?thesis
  proof (cases "originable fresh req")
    case True
    then obtain secs where secs: "timeout_seconds (or_timeout req) = Some secs"
      and v: "oo_valid opts" "oo_timeout_sec opts = secs"
      unfolding o by (rule Build_valid [where h = h]) simp_all
    have "secs = 0 \<longleftrightarrow> (\<exists>s n. or_timeout req = Some (s, n) \<and> 0 < s \<and> s mod 2 ^ 32 = 0)"
      using timeout_seconds_positive [OF secs] secs
      by (auto simp: timeout_seconds_def word_of_int_eq_0_iff dvd_eq_mod_eq_0)
    then show ?thesis using v d mv True by simp
  next
    case False
    then show ?thesis using Build_invalid [OF False, of h] d mv by (simp add: o)
  qed
qed

definition demo_originate :: originate_request where
  "demo_originate =
     \<lparr>or_header = Some (''t'', ''r''), or_endpoints = [''user/1'', ''user/2''], or_strategy = SIMULTANEOUS,
      or_timeout = Some (4294967296, 0), or_cid_name = [], or_cid_num = [], or_variables = [(''a'', ''b'')]\<rparr>"

theorem originate_options_contract_witness:
  "oo_valid (fst (OriginateOptions_Build (Some 7) demo_originate Map.empty))
   \<and> oo_timeout_sec (fst (OriginateOptions_Build (Some 7) demo_originate Map.empty)) = 0
   \<and> oo_dial_string (fst (OriginateOptions_Build (Some 7) demo_originate Map.empty)) = ''user/1,user/2''
   \<and> OriginateOptions_destroy (fst (OriginateOptions_Build (Some 7) demo_originate Map.empty))
       (snd (OriginateOptions_Build (Some 7) demo_originate Map.empty)) = Map.empty"
proof -
  have "originable (Some 7) demo_originate" by (simp add: originable_def demo_originate_def)
  moreover have "\<exists>s n. or_timeout demo_originate = Some (s, n) \<and> 0 < s \<and> s mod 2 ^ 32 = 0"
    by (simp add: demo_originate_def)
  moreover have "oo_dial_string (fst (OriginateOptions_Build (Some 7) demo_originate Map.empty)) =
      ''user/1,user/2''"
    by (simp add: OriginateOptions_Build_def OriginateOptions_default_def demo_originate_def Let_def
                  BuildDialString_def timeout_seconds_def)
  ultimately show ?thesis
    using originate_options_contract [of "Some 7" Map.empty demo_originate
        "fst (OriginateOptions_Build (Some 7) demo_originate Map.empty)"
        "snd (OriginateOptions_Build (Some 7) demo_originate Map.empty)"]
    by simp
qed

end
