(* ===== verification/Control_Redact.thy ===== *)
theory Control_Redact
  imports Osw_Prelude
begin

text \<open>
  The redaction of application arguments before they reach the audit log, \<^verbatim>\<open>RedactArgs\<close> of
  \<^verbatim>\<open>src/control/handlers/execute_handler.cc\<close>. The source uses one case-insensitive ECMAScript regular
  expression with \<^verbatim>\<open>std::regex_replace\<close>; the pattern's operators are modelled as backtracking
  matchers in continuation style, with the greedy and the lazy star trying their alternatives in the
  order the standard gives.
\<close>

section \<open>The operators of the pattern\<close>

text \<open>
  A matcher gets what the current group has consumed and the text left, and calls its continuation
  on every way it can match, in order of preference, until one succeeds.
\<close>

fun star_greedy :: "(char \<Rightarrow> bool) \<Rightarrow> (string \<Rightarrow> string \<Rightarrow> 'a option) \<Rightarrow> string \<Rightarrow> string \<Rightarrow> 'a option" where
  "star_greedy P k acc [] = k acc []"
| "star_greedy P k acc (c # s) =
     (if P c then (case star_greedy P k (acc @ [c]) s of Some r \<Rightarrow> Some r | None \<Rightarrow> k acc (c # s))
      else k acc (c # s))"

fun star_lazy :: "(char \<Rightarrow> bool) \<Rightarrow> (string \<Rightarrow> string \<Rightarrow> 'a option) \<Rightarrow> string \<Rightarrow> string \<Rightarrow> 'a option" where
  "star_lazy P k acc [] = k acc []"
| "star_lazy P k acc (c # s) =
     (case k acc (c # s) of
        Some r \<Rightarrow> Some r
      | None \<Rightarrow> if P c then star_lazy P k (acc @ [c]) s else None)"

fun plus_greedy :: "(char \<Rightarrow> bool) \<Rightarrow> (string \<Rightarrow> string \<Rightarrow> 'a option) \<Rightarrow> string \<Rightarrow> string \<Rightarrow> 'a option" where
  "plus_greedy P k acc [] = None"
| "plus_greedy P k acc (c # s) = (if P c then star_greedy P k (acc @ [c]) s else None)"

text \<open>A lower-case literal under \<^verbatim>\<open>icase\<close>, and an alternative of literals.\<close>

definition literal_here :: "string \<Rightarrow> string \<Rightarrow> bool" where
  "literal_here p s \<longleftrightarrow> length p \<le> length s \<and> map to_lower (take (length p) s) = p"

fun literals :: "string list \<Rightarrow> (string \<Rightarrow> string \<Rightarrow> 'a option) \<Rightarrow> string \<Rightarrow> string \<Rightarrow> 'a option" where
  "literals [] k acc s = None"
| "literals (p # ps) k acc s =
     (case (if literal_here p s then k (acc @ take (length p) s) (drop (length p) s) else None) of
        Some r \<Rightarrow> Some r
      | None \<Rightarrow> literals ps k acc s)"

definition nonspace :: "char \<Rightarrow> bool" where
  "nonspace c \<longleftrightarrow> \<not> isspace c"

definition kRedactKeywords :: "string list" where
  "kRedactKeywords = [''password'', ''token'', ''secret'']"

text \<open>
  \<^verbatim>\<open>(\S*?(?:password|token|secret)\S*)=(\S+)\<close> at the start of a text: the first group and the text
  after the match.
\<close>

definition match_value :: "string \<Rightarrow> string \<Rightarrow> (string \<times> string) option" where
  "match_value g s =
     (case s of
        [] \<Rightarrow> None
      | c # v \<Rightarrow> if c = CHR ''='' then plus_greedy nonspace (\<lambda>_ rest. Some (g, rest)) [] v else None)"

definition kRedactPattern :: "string \<Rightarrow> (string \<times> string) option" where
  "kRedactPattern s =
     star_lazy nonspace (literals kRedactKeywords (star_greedy nonspace match_value)) [] s"

section \<open>What the pattern matches\<close>

text \<open>
  The first group of a match inside a word reaches up to its last equals sign that is not its last
  character.
\<close>

fun last_eq :: "string \<Rightarrow> string option" where
  "last_eq [] = None"
| "last_eq (c # w) =
     (case last_eq w of
        Some g \<Rightarrow> Some (c # g)
      | None \<Rightarrow> if c = CHR ''='' \<and> w \<noteq> [] then Some [] else None)"

fun contains_keyword :: "string \<Rightarrow> bool" where
  "contains_keyword [] = False"
| "contains_keyword (c # s) = (list_ex (\<lambda>p. literal_here p (c # s)) kRedactKeywords \<or> contains_keyword s)"

definition ends_word :: "string \<Rightarrow> bool" where
  "ends_word rest \<longleftrightarrow> (case rest of [] \<Rightarrow> True | c # _ \<Rightarrow> isspace c)"

lemma ends_word_simps [simp]: "ends_word []" "ends_word (c # s) \<longleftrightarrow> \<not> nonspace c"
  by (simp_all add: ends_word_def nonspace_def)

lemma star_greedy_rest:
  "list_all nonspace w \<Longrightarrow> ends_word rest \<Longrightarrow>
     star_greedy nonspace (\<lambda>_ r. Some (g, r)) acc (w @ rest) = Some (g, rest)"
proof (induction w arbitrary: acc)
  case Nil
  then show ?case by (cases rest) auto
qed simp

lemma match_value_word:
  assumes "list_all nonspace w" and "ends_word rest"
  shows "match_value g (w @ rest) =
    (case w of c # d # v \<Rightarrow> if c = CHR ''='' then Some (g, rest) else None | _ \<Rightarrow> None)"
proof (cases w)
  case Nil
  then show ?thesis
    using assms(2) by (cases rest) (auto simp: match_value_def nonspace_def isspace_def)
next
  case (Cons c v)
  show ?thesis
  proof (cases v)
    case Nil
    then show ?thesis
      using Cons assms(2) by (cases rest) (auto simp: match_value_def)
  next
    case (Cons d v')
    then show ?thesis
      using \<open>w = c # v\<close> assms star_greedy_rest [of v' rest g "[d]"] by (simp add: match_value_def)
  qed
qed

lemma greedy_word:
  assumes "list_all nonspace w" and "ends_word rest"
  shows "star_greedy nonspace match_value acc (w @ rest) = map_option (\<lambda>g. (acc @ g, rest)) (last_eq w)"
  using assms(1)
proof (induction w arbitrary: acc)
  case Nil
  have "match_value acc rest = None" using match_value_word [of "[]" rest acc] assms(2) by simp
  moreover have "star_greedy nonspace match_value acc rest = match_value acc rest"
    using assms(2) by (cases rest) auto
  ultimately show ?case by simp
next
  case (Cons c w)
  have mv: "match_value acc (c # w @ rest) = (if c = CHR ''='' \<and> w \<noteq> [] then Some (acc, rest) else None)"
    using match_value_word [OF Cons.prems assms(2), of acc] by (cases w) auto
  show ?case
    using Cons by (cases "last_eq w") (simp_all add: mv)
qed

lemma last_eq_append: "last_eq w = Some g \<Longrightarrow> last_eq (m @ w) = Some (m @ g)"
  by (induction m) auto

lemma last_eq_prefix: "last_eq w = Some g \<Longrightarrow> \<exists>v. w = g @ CHR ''='' # v \<and> v \<noteq> []"
  by (induction w arbitrary: g) (auto split: option.splits if_splits)

lemma keywords_nonspace: "p \<in> set kRedactKeywords \<Longrightarrow> list_all nonspace p \<and> p \<noteq> [] \<and> CHR ''='' \<notin> set p"
  by (auto simp: kRedactKeywords_def nonspace_def isspace_def)

lemma to_lower_nonspace: "nonspace (to_lower c) \<Longrightarrow> nonspace c"
  by (auto simp: nonspace_def isspace_def to_lower_def Let_def)

lemma literal_here_word:
  assumes "list_all nonspace p" and "ends_word rest"
  shows "literal_here p (w @ rest) \<longleftrightarrow> literal_here p w"
proof
  assume l: "literal_here p (w @ rest)"
  have "length p \<le> length w"
  proof (rule ccontr)
    assume n: "\<not> length p \<le> length w"
    then have r: "rest \<noteq> []" using l by (auto simp: literal_here_def)
    have "p ! length w = to_lower (rest ! 0)"
      using l n r by (auto simp: literal_here_def nth_append dest!: arg_cong [where f = "\<lambda>x. x ! length w"])
    moreover have "nonspace (p ! length w)" using assms(1) n by (simp add: list_all_length)
    ultimately have "nonspace (rest ! 0)" by (simp add: to_lower_nonspace)
    then show False using assms(2) r by (cases rest) auto
  qed
  then show "literal_here p w" using l by (simp add: literal_here_def)
qed (simp add: literal_here_def)

lemma last_eq_drop: "last_eq w = Some g \<Longrightarrow> n \<le> length g \<Longrightarrow> last_eq (drop n w) = Some (drop n g)"
proof (induction w arbitrary: g n)
  case (Cons c w)
  then show ?case by (cases n) (auto split: option.splits if_splits)
qed simp

text \<open>A keyword with a redactable value behind it lies inside the first group.\<close>

lemma literal_in_group:
  assumes "last_eq w = Some g"
  shows "literal_here p w \<and> last_eq (drop (length p) w) \<noteq> None \<longleftrightarrow> literal_here p g"
proof
  assume a: "literal_here p w \<and> last_eq (drop (length p) w) \<noteq> None"
  then obtain g' where g': "last_eq (drop (length p) w) = Some g'" by auto
  from last_eq_append [OF this, of "take (length p) w"] have "g = take (length p) w @ g'"
    using assms by simp
  then show "literal_here p g" using a by (simp add: literal_here_def)
next
  assume l: "literal_here p g"
  obtain v where "w = g @ v" using last_eq_prefix [OF assms] by auto
  then have "literal_here p w" using l by (simp add: literal_here_def)
  moreover have "last_eq (drop (length p) w) = Some (drop (length p) g)"
    using last_eq_drop [OF assms] l by (simp add: literal_here_def)
  ultimately show "literal_here p w \<and> last_eq (drop (length p) w) \<noteq> None" by simp
qed

lemma literal_no_group: "last_eq w = None \<Longrightarrow> last_eq (drop n w) = None"
proof (cases "last_eq (drop n w)")
  case (Some g)
  from last_eq_append [OF this, of "take n w"] show "last_eq w = None \<Longrightarrow> ?thesis" by simp
qed simp

lemma literals_word:
  assumes "list_all nonspace w" and "ends_word rest" and "set ps \<subseteq> set kRedactKeywords"
  shows "literals ps (star_greedy nonspace match_value) acc (w @ rest) =
    (case last_eq w of
       Some g \<Rightarrow> if list_ex (\<lambda>p. literal_here p g) ps then Some (acc @ g, rest) else None
     | None \<Rightarrow> None)"
  using assms(3)
proof (induction ps)
  case Nil
  then show ?case by (simp split: option.splits)
next
  case (Cons p ps)
  have ns: "list_all nonspace p" using Cons.prems keywords_nonspace by auto
  have w: "list_all nonspace (drop (length p) w)" using assms(1) by (auto simp: list_all_iff dest: in_set_dropD)
  have here: "literal_here p (w @ rest) \<longleftrightarrow> literal_here p w" by (rule literal_here_word [OF ns assms(2)])
  have step: "(if literal_here p (w @ rest)
       then star_greedy nonspace match_value (acc @ take (length p) (w @ rest)) (drop (length p) (w @ rest))
       else None) =
      (if literal_here p w
       then map_option (\<lambda>g. (acc @ take (length p) w @ g, rest)) (last_eq (drop (length p) w)) else None)"
  proof (cases "literal_here p w")
    case True
    then have "length p \<le> length w" by (simp add: literal_here_def)
    then show ?thesis
      using True greedy_word [OF w assms(2), of "acc @ take (length p) w"] by (simp add: here)
  qed (simp add: here)
  show ?case
  proof (cases "last_eq w")
    case None
    then show ?thesis
      unfolding literals.simps(2) step using Cons literal_no_group [OF None] by simp
  next
    case (Some g)
    show ?thesis
    proof (cases "literal_here p g")
      case True
      then have "literal_here p w" and g: "last_eq (drop (length p) w) = Some (drop (length p) g)"
        using literal_in_group [OF Some, of p] last_eq_drop [OF Some] by (auto simp: literal_here_def)
      moreover have "take (length p) w = take (length p) g"
        using last_eq_prefix [OF Some] True by (auto simp: literal_here_def)
      ultimately show ?thesis unfolding literals.simps(2) step using True Some by simp
    next
      case False
      then have "literal_here p w \<Longrightarrow> last_eq (drop (length p) w) = None"
        using literal_in_group [OF Some, of p] by auto
      then show ?thesis unfolding literals.simps(2) step using Cons False Some by simp
    qed
  qed
qed

lemma lazy_word:
  assumes "list_all nonspace w" and "ends_word rest"
  shows "star_lazy nonspace (literals kRedactKeywords (star_greedy nonspace match_value)) acc (w @ rest) =
    (case last_eq w of
       Some g \<Rightarrow> if contains_keyword g then Some (acc @ g, rest) else None
     | None \<Rightarrow> None)"
  using assms(1)
proof (induction w arbitrary: acc)
  case Nil
  have n: "literals kRedactKeywords (star_greedy nonspace match_value) acc rest = None"
    using literals_word [of "[]" rest kRedactKeywords acc] assms(2) by simp
  then show ?case using assms(2) by (cases rest) auto
next
  case (Cons c w)
  have l: "literals kRedactKeywords (star_greedy nonspace match_value) acc (c # w @ rest) =
    (case last_eq (c # w) of
       Some g \<Rightarrow> if list_ex (\<lambda>p. literal_here p g) kRedactKeywords then Some (acc @ g, rest) else None
     | None \<Rightarrow> None)"
    using literals_word [OF Cons.prems assms(2), of kRedactKeywords acc] by simp
  have e: "\<not> list_ex (\<lambda>p. literal_here p []) kRedactKeywords"
    by (simp add: kRedactKeywords_def literal_here_def)
  show ?case
    using Cons e by (cases "last_eq w") (simp_all add: l)
qed

text \<open>The pattern on a text that starts with a word.\<close>

lemma pattern_word:
  assumes "list_all nonspace w" and "ends_word rest"
  shows "kRedactPattern (w @ rest) =
    (case last_eq w of
       Some g \<Rightarrow> if contains_keyword g then Some (g, rest) else None
     | None \<Rightarrow> None)"
  using lazy_word [OF assms, of "[]"] by (simp add: kRedactPattern_def split: option.split)

lemma split_word:
  obtains w rest where "s = w @ rest" "list_all nonspace w" "ends_word rest"
proof
  show "s = takeWhile nonspace s @ dropWhile nonspace s" by simp
  show "list_all nonspace (takeWhile nonspace s)" by (auto simp: list_all_iff dest: set_takeWhileD)
  show "ends_word (dropWhile nonspace s)"
    by (induction s) auto
qed

lemma pattern_shorter: "kRedactPattern s = Some (g, rest) \<Longrightarrow> length rest < length s"
proof -
  assume a: "kRedactPattern s = Some (g, rest)"
  obtain w r where s: "s = w @ r" "list_all nonspace w" "ends_word r" by (rule split_word)
  have "last_eq w = Some g" "rest = r"
    using a pattern_word [OF s(2,3)] by (auto simp: s(1) split: option.splits if_splits)
  then show ?thesis using last_eq_prefix [of w g] s(1) by auto
qed

section \<open>The replacement\<close>

text \<open>
  \<^verbatim>\<open>regex_replace\<close> with the format \<^verbatim>\<open>$1=[REDACTED]\<close>: the leftmost match is replaced and the search
  goes on behind it; text outside the matches is copied.
\<close>

function regex_replace :: "string \<Rightarrow> string" where
  "regex_replace s =
     (case kRedactPattern s of
        Some (g, rest) \<Rightarrow> g @ ''=[REDACTED]'' @ regex_replace rest
      | None \<Rightarrow> (case s of [] \<Rightarrow> [] | c # s' \<Rightarrow> c # regex_replace s'))"
  by pat_completeness auto
termination by (relation "measure length") (auto dest: pattern_shorter)

declare regex_replace.simps [simp del]

definition RedactArgs :: "string \<Rightarrow> string" where
  "RedactArgs args = (if args = [] then args else regex_replace args)"

section \<open>What is redacted\<close>

definition redact_word :: "string \<Rightarrow> string" where
  "redact_word w =
     (case last_eq w of
        Some g \<Rightarrow> if contains_keyword g then g @ ''=[REDACTED]'' else w
      | None \<Rightarrow> w)"

lemma replace_copy: "kRedactPattern (c # s) = None \<Longrightarrow> regex_replace (c # s) = c # regex_replace s"
  by (subst regex_replace.simps) simp

lemma replace_Nil [simp]: "regex_replace [] = []"
  using pattern_word [of "[]" "[]"] by (subst regex_replace.simps) simp

lemma replace_space: "isspace c \<Longrightarrow> regex_replace (c # s) = c # regex_replace s"
  using pattern_word [of "[]" "c # s"] by (intro replace_copy) (simp add: nonspace_def)

lemma replace_untouched:
  assumes "ends_word rest"
  shows "list_all nonspace w \<Longrightarrow> kRedactPattern (w @ rest) = None \<Longrightarrow>
    regex_replace (w @ rest) = w @ regex_replace rest"
proof (induction w)
  case (Cons c w)
  have "kRedactPattern (w @ rest) = None"
    using Cons.prems pattern_word [OF _ assms, of "c # w"] pattern_word [OF _ assms, of w]
    by (auto split: option.splits if_splits)
  then show ?case using Cons replace_copy [of c "w @ rest"] by simp
qed simp

lemma replace_word:
  assumes "list_all nonspace w" and "ends_word rest"
  shows "regex_replace (w @ rest) = redact_word w @ regex_replace rest"
proof (cases "kRedactPattern (w @ rest)")
  case None
  then have "redact_word w = w"
    using pattern_word [OF assms] by (auto simp: redact_word_def split: option.splits if_splits)
  then show ?thesis using replace_untouched [OF assms(2,1) None] by simp
next
  case (Some m)
  obtain g where "last_eq w = Some g" "contains_keyword g" "m = (g, rest)"
    using Some pattern_word [OF assms] by (auto split: option.splits if_splits)
  then show ?thesis using Some by (subst regex_replace.simps) (simp add: redact_word_def)
qed

lemma replace_append_space:
  assumes "isspace c"
  shows "regex_replace (x @ c # y) = regex_replace x @ c # regex_replace y"
proof (induction x rule: length_induct)
  case (1 x)
  obtain w r where x: "x = w @ r" "list_all nonspace w" "ends_word r" by (rule split_word)
  show ?case
  proof (cases r)
    case Nil
    then show ?thesis
      using x replace_word [OF x(2), of "c # y"] replace_word [OF x(2), of "[]"] assms
      by (simp add: nonspace_def replace_space)
  next
    case (Cons d r')
    then have d: "isspace d" using x(3) by (simp add: nonspace_def)
    have "regex_replace (r' @ c # y) = regex_replace r' @ c # regex_replace y"
      using 1 x(1) Cons by simp
    then show ?thesis
      using x Cons replace_word [OF x(2), of "d # r' @ c # y"] replace_word [OF x(2), of "d # r'"] d
      by (simp add: nonspace_def replace_space)
  qed
qed

lemma literal_here_append: "literal_here p s \<Longrightarrow> literal_here p (s @ t)"
  by (simp add: literal_here_def)

lemma contains_keyword_append: "contains_keyword k \<Longrightarrow> contains_keyword (k @ t)"
proof (induction k)
  case (Cons c k)
  then show ?case using literal_here_append [of _ "c # k" t] by (auto simp: list_ex_iff)
qed simp

lemma last_eq_assign:
  assumes "v \<noteq> []"
  shows "last_eq (k @ CHR ''='' # v) = Some (k @ (case last_eq v of Some a \<Rightarrow> CHR ''='' # a | None \<Rightarrow> []))"
  by (rule last_eq_append) (simp add: assms split: option.split)

lemma last_eq_None: "last_eq v = None \<longleftrightarrow> CHR ''='' \<notin> set (butlast v)"
  by (induction v) (auto split: option.split)

text \<open>
  C30. Redaction of the arguments in the audit log. A word \<^verbatim>\<open>key=value\<close> whose key contains
  \<^verbatim>\<open>password\<close>, \<^verbatim>\<open>token\<close> or \<^verbatim>\<open>secret\<close> in any capitalisation loses its whole value, wherever
  it stands in the arguments, when the value has no equals sign before its last character. When it
  has one, everything up to the last of them stays in the log and only the text behind it is
  replaced: the first star of the pattern after the keyword is greedy.
\<close>

theorem redaction_hides_value:
  assumes "list_all nonspace (k @ v)" and "contains_keyword k" and "v \<noteq> []"
    and "pre = [] \<or> isspace (last pre)" and "ends_word rest"
  shows "RedactArgs (pre @ k @ ''='' @ v @ rest) =
      RedactArgs pre @ k @ (case last_eq v of Some a \<Rightarrow> ''='' @ a | None \<Rightarrow> []) @ ''=[REDACTED]'' @ RedactArgs rest
    \<and> (last_eq v = None \<longleftrightarrow> CHR ''='' \<notin> set (butlast v))"
proof -
  have R: "RedactArgs s = regex_replace s" for s by (simp add: RedactArgs_def)
  let ?w = "k @ CHR ''='' # v"
  have w: "list_all nonspace ?w" using assms(1) by (simp add: nonspace_def isspace_def)
  have g: "redact_word ?w = k @ (case last_eq v of Some a \<Rightarrow> CHR ''='' # a | None \<Rightarrow> []) @ ''=[REDACTED]''"
    using contains_keyword_append [OF assms(2)] by (simp add: redact_word_def last_eq_assign [OF assms(3)])
  have body: "regex_replace (?w @ rest) = redact_word ?w @ regex_replace rest"
    by (rule replace_word [OF w assms(5)])
  have "regex_replace (pre @ ?w @ rest) = regex_replace pre @ regex_replace (?w @ rest)"
  proof (cases "pre = []")
    case False
    then have sp: "isspace (last pre)" and p: "pre = butlast pre @ [last pre]" using assms(4) by auto
    show ?thesis
      using replace_append_space [OF sp, of "butlast pre" "?w @ rest"]
        replace_append_space [OF sp, of "butlast pre" "[]"] p
      by (metis append.assoc append_Cons append_Nil replace_Nil)
  qed simp
  then show ?thesis using body g by (simp add: R last_eq_None [symmetric] split: option.split)
qed

theorem redaction_hides_value_witness:
  "RedactArgs ''x api_Token=abc y'' = ''x api_Token=[REDACTED] y''
   \<and> RedactArgs ''x api_Token=abc== y'' = ''x api_Token=abc=[REDACTED] y''"
proof -
  have k: "contains_keyword ''api_Token''"
    by code_simp
  have sp: "list_all nonspace ''api_Tokenabc==''" "list_all nonspace ''api_Tokenabc''"
    "isspace (last ''x '')" "ends_word '' y''"
    by (simp_all add: nonspace_def isspace_def)
  have e: "RedactArgs ''x '' = ''x ''" "RedactArgs '' y'' = '' y''"
    using replace_word [of "''x''" "'' ''"] replace_word [of "''y''" "[]"]
    by (simp_all add: RedactArgs_def replace_space nonspace_def isspace_def redact_word_def)
  show ?thesis
    using redaction_hides_value [of "''api_Token''" "''abc''" "''x ''" "'' y''"]
      redaction_hides_value [of "''api_Token''" "''abc==''" "''x ''" "'' y''"] k sp e
    by simp
qed

end
