(* ===== verification/Control_Call.thy ===== *)
theory Control_Call
  imports Control_CallData Control_Redact Control_Idempotency
begin

text \<open>
  The call-control RPCs: the handlers of \<^verbatim>\<open>src/control/handlers/\<close> for Hangup, HangupMany, Hold,
  Unhold, BlindTransfer, SetVariables, Originate, Bridge and Execute, with the session guard of
  \<^verbatim>\<open>src/control/session_guard.cc\<close> and the lock of \<^verbatim>\<open>include/osw/raii/session_lock.h\<close>.

  FreeSWITCH is a parameter: its table of sessions is part of the state, and a record of functions
  gives the status it returns from each call and the sessions after it. Every call into FreeSWITCH
  and every audit record is appended to a log, in order, with the strings as FreeSWITCH reads them,
  up to their first NUL. gRPC hands the handlers non-null request and response pointers.
\<close>

section \<open>The state\<close>

text \<open>A session without a channel pointer is \<^term>\<open>Some None\<close> in the table.\<close>

record call_channel =
  cl_state :: nat
  cl_answered :: bool
  cl_hold :: bool
  cl_vars :: "string \<rightharpoonup> string"

type_synonym sessions = "string \<rightharpoonup> call_channel option"

type_synonym fs_status = nat

definition SWITCH_STATUS_SUCCESS :: fs_status where
  "SWITCH_STATUS_SUCCESS = 0"

definition CS_ROUTING :: nat where "CS_ROUTING = 2"
definition CS_EXECUTE :: nat where "CS_EXECUTE = 4"
definition CS_HANGUP :: nat where "CS_HANGUP = 8"

datatype call_action =
    Rdlock string
  | Rwunlock string
  | Set_variable string string string
  | Channel_hangup string call_cause
  | Hold_uuid string
  | Unhold_uuid string
  | Session_transfer string string "string option" "string option"
  | Uuid_bridge string string
  | Execute_application string string "string option"
  | Originate_session string u32 "string option" "string option" "(string \<times> string) list option"
  | Audit string "(string \<times> string) list"

text \<open>
  What FreeSWITCH does. An originate returns its status, its cause and the new session, None for a
  null pointer, given by its entry in the table and the uuid it reports.
\<close>

record call_env =
  ce_set :: "string \<Rightarrow> string \<Rightarrow> string \<Rightarrow> sessions \<Rightarrow> fs_status \<times> sessions"
  ce_hangup :: "string \<Rightarrow> call_cause \<Rightarrow> sessions \<Rightarrow> sessions"
  ce_hold :: "string \<Rightarrow> sessions \<Rightarrow> fs_status \<times> sessions"
  ce_unhold :: "string \<Rightarrow> sessions \<Rightarrow> fs_status \<times> sessions"
  ce_transfer :: "string \<Rightarrow> string \<Rightarrow> string option \<Rightarrow> string option \<Rightarrow> sessions \<Rightarrow> fs_status \<times> sessions"
  ce_bridge :: "string \<Rightarrow> string \<Rightarrow> sessions \<Rightarrow> fs_status \<times> sessions"
  ce_execute :: "string \<Rightarrow> string \<Rightarrow> string option \<Rightarrow> sessions \<Rightarrow> fs_status \<times> sessions"
  ce_originate :: "string \<Rightarrow> u32 \<Rightarrow> string option \<Rightarrow> string option \<Rightarrow> (string \<times> string) list option \<Rightarrow>
     sessions \<Rightarrow> (fs_status \<times> call_cause \<times> (string \<times> string option) option) \<times> sessions"
  ce_event :: "nat option"

record call_world =
  kw_sessions :: sessions
  kw_log :: "call_action list"
  kw_events :: event_heap
  kw_cache :: "idem_cache option"

definition emit :: "call_action \<Rightarrow> call_world \<Rightarrow> call_world" where
  "emit a w = w\<lparr>kw_log := kw_log w @ [a]\<rparr>"

text \<open>A call into FreeSWITCH: the log entry and the new table of sessions.\<close>

definition fs_call :: "call_action \<Rightarrow> (sessions \<Rightarrow> 'a \<times> sessions) \<Rightarrow> call_world \<Rightarrow> 'a \<times> call_world" where
  "fs_call a f w = (case f (kw_sessions w) of (x, s) \<Rightarrow> (x, (emit a w)\<lparr>kw_sessions := s\<rparr>))"

section \<open>Session locks and guards\<close>

text \<open>A lock is the session it holds; a guard adds the channel pointer read when it was taken.\<close>

type_synonym session_lock = "string option"

definition SessionLock_new :: "string \<Rightarrow> call_world \<Rightarrow> session_lock \<times> call_world" where
  "SessionLock_new uuid w =
     (case kw_sessions w (c_str uuid) of
        None \<Rightarrow> (None, w)
      | Some _ \<Rightarrow> (Some (c_str uuid), emit (Rdlock (c_str uuid)) w))"

definition SessionLock_destroy :: "session_lock \<Rightarrow> call_world \<Rightarrow> call_world" where
  "SessionLock_destroy l w = (case l of None \<Rightarrow> w | Some u \<Rightarrow> emit (Rwunlock u) w)"

definition SessionLock_reset :: "session_lock \<Rightarrow> call_world \<Rightarrow> session_lock \<times> call_world" where
  "SessionLock_reset l w = (case l of None \<Rightarrow> (None, w) | Some u \<Rightarrow> (None, emit (Rwunlock u) w))"

definition SessionLock_move :: "session_lock \<Rightarrow> session_lock \<times> session_lock" where
  "SessionLock_move other = (other, None)"

definition SessionLock_move_assign ::
  "session_lock \<Rightarrow> session_lock \<Rightarrow> call_world \<Rightarrow> session_lock \<times> session_lock \<times> call_world" where
  "SessionLock_move_assign this other w = (other, None, SessionLock_destroy this w)"

definition SessionLock_channel :: "session_lock \<Rightarrow> call_world \<Rightarrow> call_channel option" where
  "SessionLock_channel l w = (case l of None \<Rightarrow> None | Some u \<Rightarrow> Option.bind (kw_sessions w u) (\<lambda>c. c))"

record session_guard =
  sg_lock :: session_lock
  sg_channel :: "call_channel option"

definition SessionGuard_empty :: session_guard where
  "SessionGuard_empty = \<lparr>sg_lock = None, sg_channel = None\<rparr>"

definition SessionGuard_Locate :: "string \<Rightarrow> call_world \<Rightarrow> session_guard \<times> call_world" where
  "SessionGuard_Locate uuid w =
     (if uuid = [] then (SessionGuard_empty, w)
      else (case SessionLock_new uuid w of
              (None, w1) \<Rightarrow> (SessionGuard_empty, w1)
            | (Some u, w1) \<Rightarrow>
                (\<lparr>sg_lock = fst (SessionLock_move (Some u)), sg_channel = SessionLock_channel (Some u) w1\<rparr>, w1)))"

definition SessionGuard_move :: "session_guard \<Rightarrow> session_guard \<times> session_guard" where
  "SessionGuard_move other =
     (case SessionLock_move (sg_lock other) of
        (l, l') \<Rightarrow> (\<lparr>sg_lock = l, sg_channel = sg_channel other\<rparr>, \<lparr>sg_lock = l', sg_channel = None\<rparr>))"

definition SessionGuard_move_assign ::
  "session_guard \<Rightarrow> session_guard \<Rightarrow> call_world \<Rightarrow> session_guard \<times> session_guard \<times> call_world" where
  "SessionGuard_move_assign this other w =
     (case SessionLock_move_assign (sg_lock this) (sg_lock other) w of
        (l, l', w') \<Rightarrow> (\<lparr>sg_lock = l, sg_channel = sg_channel other\<rparr>, \<lparr>sg_lock = l', sg_channel = None\<rparr>, w'))"

definition SessionGuard_Valid :: "session_guard \<Rightarrow> bool" where
  "SessionGuard_Valid g \<longleftrightarrow> sg_lock g \<noteq> None"

definition SessionGuard_get :: "session_guard \<Rightarrow> string" where
  "SessionGuard_get g = (case sg_lock g of Some u \<Rightarrow> u | None \<Rightarrow> [])"

definition SessionGuard_Reset :: "session_guard \<Rightarrow> call_world \<Rightarrow> session_guard \<times> call_world" where
  "SessionGuard_Reset g w = (SessionGuard_empty, snd (SessionLock_reset (sg_lock g) w))"

text \<open>The destructor at the end of a scope, on the world of a handler's result.\<close>

definition SessionGuard_destroy :: "session_guard \<Rightarrow> 'a \<times> call_world \<Rightarrow> 'a \<times> call_world" where
  "SessionGuard_destroy g r = (fst r, SessionLock_destroy (sg_lock g) (snd r))"

section \<open>Hanging up\<close>

record hangup_request =
  hr_uuid :: string
  hr_cause :: string
  hr_variables :: "(string \<times> string) list"

text \<open>The loop over the request's variables, which stops at the first reserved name.\<close>

fun hangup_variables ::
  "call_env \<Rightarrow> string \<Rightarrow> (string \<times> string) list \<Rightarrow> call_world \<Rightarrow> grpc_status option \<times> call_world" where
  "hangup_variables env u [] w = (None, w)"
| "hangup_variables env u ((k, v) # vs) w =
     (if IsReservedVar k
      then (Some (INVALID_ARGUMENT, ''variable name is reserved: '' @ [CHR 0x27] @ k @ [CHR 0x27]), w)
      else hangup_variables env u vs
             (snd (fs_call (Set_variable u (c_str k) (c_str v)) (ce_set env u (c_str k) (c_str v)) w)))"

definition channel_hangup :: "call_env \<Rightarrow> string \<Rightarrow> call_cause \<Rightarrow> call_world \<Rightarrow> call_world" where
  "channel_hangup env u cause w =
     snd (fs_call (Channel_hangup u cause) (\<lambda>s. ((), ce_hangup env u cause s)) w)"

definition Hangup :: "call_env \<Rightarrow> hangup_request \<Rightarrow> call_world \<Rightarrow> grpc_status \<times> call_world" where
  "Hangup env req w =
     (let uuid = hr_uuid req
      in if uuid = [] then ((INVALID_ARGUMENT, ''uuid must not be empty''), w)
         else (case SessionGuard_Locate uuid w of
           (guard, w1) \<Rightarrow>
             if \<not> SessionGuard_Valid guard then ((NOT_FOUND, ''session not found: uuid='' @ uuid), w1)
             else SessionGuard_destroy guard
               (case sg_channel guard of
                  None \<Rightarrow> ((INTERNAL, ''channel pointer null''), w1)
                | Some ch \<Rightarrow>
                    (let cause = CallCause_FromString (hr_cause req)
                     in if CS_HANGUP \<le> cl_state ch
                        then ((FAILED_PRECONDITION, ''channel already hung up: uuid='' @ uuid), w1)
                        else (case hangup_variables env (SessionGuard_get guard) (hr_variables req) w1 of
                                (Some st, w2) \<Rightarrow> (st, w2)
                              | (None, w2) \<Rightarrow>
                                  (Status_OK,
                                   emit (Audit ''osw.control.hangup''
                                          [(''uuid'', uuid), (''cause'', CallCause_ToString cause)])
                                     (channel_hangup env (SessionGuard_get guard) cause w2)))))))"

definition HangupOne :: "call_env \<Rightarrow> string \<Rightarrow> call_cause \<Rightarrow> call_world \<Rightarrow> bool \<times> call_world" where
  "HangupOne env uuid cause w =
     (if uuid = [] then (False, w)
      else (case SessionGuard_Locate uuid w of
        (guard, w1) \<Rightarrow>
          if \<not> SessionGuard_Valid guard then (False, w1)
          else SessionGuard_destroy guard
            (case sg_channel guard of
               None \<Rightarrow> (False, w1)
             | Some ch \<Rightarrow>
                 if CS_HANGUP \<le> cl_state ch then (False, w1)
                 else (True, channel_hangup env (SessionGuard_get guard) cause w1))))"

fun hangup_each ::
  "call_env \<Rightarrow> call_cause \<Rightarrow> string list \<Rightarrow> string list \<Rightarrow> call_world \<Rightarrow> string list \<times> call_world" where
  "hangup_each env cause [] hungup w = (hungup, w)"
| "hangup_each env cause (uuid # uuids) hungup w =
     (case HangupOne env uuid cause w of
        (True, w1) \<Rightarrow>
          hangup_each env cause uuids (hungup @ [uuid])
            (emit (Audit ''osw.control.hangup''
                    [(''uuid'', uuid), (''cause'', CallCause_ToString cause), (''via'', ''hangup_many'')]) w1)
      | (False, w1) \<Rightarrow> hangup_each env cause uuids hungup w1)"

definition HangupMany ::
  "call_env \<Rightarrow> string list \<Rightarrow> string \<Rightarrow> call_world \<Rightarrow> grpc_status \<times> string list \<times> call_world" where
  "HangupMany env uuids cause w =
     (if uuids = [] then (Status_OK, [], w)
      else (Status_OK, hangup_each env (CallCause_FromString cause) uuids [] w))"

section \<open>Hold and unhold\<close>

definition hold_one :: "call_env \<Rightarrow> string \<Rightarrow> call_world \<Rightarrow> grpc_status \<times> call_world" where
  "hold_one env uuid w =
     (if uuid = [] then ((INVALID_ARGUMENT, ''uuid must not be empty''), w)
      else (case SessionGuard_Locate uuid w of
        (guard, w1) \<Rightarrow>
          if \<not> SessionGuard_Valid guard then ((NOT_FOUND, ''session not found: uuid='' @ uuid), w1)
          else SessionGuard_destroy guard
            (case sg_channel guard of
               None \<Rightarrow> ((INTERNAL, ''channel pointer null''), w1)
             | Some ch \<Rightarrow>
                 if \<not> cl_answered ch
                 then ((FAILED_PRECONDITION, ''channel not in answered state: uuid='' @ uuid), w1)
                 else if cl_hold ch
                 then ((FAILED_PRECONDITION, ''channel already on hold: uuid='' @ uuid), w1)
                 else (case fs_call (Hold_uuid (c_str uuid)) (ce_hold env (c_str uuid)) w1 of
                   (rc, w2) \<Rightarrow>
                     if rc \<noteq> SWITCH_STATUS_SUCCESS
                     then ((INTERNAL, ''HoldUuid failed for uuid='' @ uuid), w2)
                     else (Status_OK,
                           emit (Audit ''osw.control.hold'' [(''uuid'', uuid), (''moh_class'', [])]) w2)))))"

definition unhold_one :: "call_env \<Rightarrow> string \<Rightarrow> call_world \<Rightarrow> grpc_status \<times> call_world" where
  "unhold_one env uuid w =
     (if uuid = [] then ((INVALID_ARGUMENT, ''uuid must not be empty''), w)
      else (case SessionGuard_Locate uuid w of
        (guard, w1) \<Rightarrow>
          if \<not> SessionGuard_Valid guard then ((NOT_FOUND, ''session not found: uuid='' @ uuid), w1)
          else SessionGuard_destroy guard
            (case sg_channel guard of
               None \<Rightarrow> ((INTERNAL, ''channel pointer null''), w1)
             | Some ch \<Rightarrow>
                 if \<not> cl_hold ch
                 then ((FAILED_PRECONDITION, ''channel is not on hold: uuid='' @ uuid), w1)
                 else (case fs_call (Unhold_uuid (c_str uuid)) (ce_unhold env (c_str uuid)) w1 of
                   (rc, w2) \<Rightarrow>
                     if rc \<noteq> SWITCH_STATUS_SUCCESS
                     then ((INTERNAL, ''UnholdUuid failed for uuid='' @ uuid), w2)
                     else (Status_OK, emit (Audit ''osw.control.unhold'' [(''uuid'', uuid)]) w2)))))"

text \<open>
  The loop both handlers run: the response lists the uuids done so far and the first failure ends
  the call.
\<close>

fun each_uuid ::
  "(string \<Rightarrow> call_world \<Rightarrow> grpc_status \<times> call_world) \<Rightarrow> string list \<Rightarrow> string list \<Rightarrow> call_world \<Rightarrow>
   grpc_status \<times> string list \<times> call_world" where
  "each_uuid one [] done_uuids w = (Status_OK, done_uuids, w)"
| "each_uuid one (uuid # uuids) done_uuids w =
     (case one uuid w of
        (st, w1) \<Rightarrow>
          if st = Status_OK then each_uuid one uuids (done_uuids @ [uuid]) w1
          else (st, done_uuids, w1))"

definition Hold :: "call_env \<Rightarrow> string list \<Rightarrow> call_world \<Rightarrow> grpc_status \<times> string list \<times> call_world" where
  "Hold env uuids w =
     (if uuids = [] then ((INVALID_ARGUMENT, ''uuids list must not be empty''), [], w)
      else each_uuid (hold_one env) uuids [] w)"

definition Unhold :: "call_env \<Rightarrow> string list \<Rightarrow> call_world \<Rightarrow> grpc_status \<times> string list \<times> call_world" where
  "Unhold env uuids w =
     (if uuids = [] then ((INVALID_ARGUMENT, ''uuids list must not be empty''), [], w)
      else each_uuid (unhold_one env) uuids [] w)"

section \<open>Blind transfer and variables\<close>

record transfer_request =
  tr_uuid :: string
  tr_destination :: string
  tr_dialplan :: string
  tr_context :: string

definition OptionalStringToPtr :: "string \<Rightarrow> string option" where
  "OptionalStringToPtr s = (if s = [] then None else Some (c_str s))"

definition BlindTransfer :: "call_env \<Rightarrow> transfer_request \<Rightarrow> call_world \<Rightarrow> grpc_status \<times> call_world" where
  "BlindTransfer env req w =
     (let uuid = tr_uuid req; dest = tr_destination req; dialplan = tr_dialplan req;
          context_name = tr_context req
      in if uuid = [] then ((INVALID_ARGUMENT, ''uuid must not be empty''), w)
         else if dest = [] then ((INVALID_ARGUMENT, ''destination (extension) must not be empty''), w)
         else (case SessionGuard_Locate uuid w of
           (guard, w1) \<Rightarrow>
             if \<not> SessionGuard_Valid guard then ((NOT_FOUND, ''session not found: uuid='' @ uuid), w1)
             else SessionGuard_destroy guard
               (let u = SessionGuard_get guard; dp = OptionalStringToPtr dialplan;
                    cx = OptionalStringToPtr context_name
                in case fs_call (Session_transfer u (c_str dest) dp cx)
                          (ce_transfer env u (c_str dest) dp cx) w1 of
                     (rc, w2) \<Rightarrow>
                       if rc \<noteq> SWITCH_STATUS_SUCCESS
                       then ((FAILED_PRECONDITION, ''session_transfer failed: rc='' @ decimal rc), w2)
                       else (Status_OK,
                             emit (Audit ''osw.control.blind_transfer''
                               [(''uuid'', uuid), (''extension'', dest),
                                (''dialplan'', if dialplan = [] then ''(default)'' else dialplan),
                                (''context'', if context_name = [] then ''(default)'' else context_name)]) w2))))"

definition kMaxVariables :: nat where
  "kMaxVariables = 64"

fun validate_names :: "(string \<times> string) list \<Rightarrow> grpc_status option" where
  "validate_names [] = None"
| "validate_names ((name, _) # vars) =
     (if \<not> IsValidVarName name
      then Some (INVALID_ARGUMENT,
             ''invalid variable name: '' @ [CHR 0x27] @ name @ [CHR 0x27] @ '' (must match [A-Za-z0-9_-]+)'')
      else if IsReservedVar name
      then Some (INVALID_ARGUMENT, ''variable name is reserved: '' @ [CHR 0x27] @ name @ [CHR 0x27])
      else validate_names vars)"

fun set_each :: "call_env \<Rightarrow> string \<Rightarrow> (string \<times> string) list \<Rightarrow> call_world \<Rightarrow> call_world" where
  "set_each env u [] w = w"
| "set_each env u ((k, v) # vs) w =
     set_each env u vs
       (snd (fs_call (Set_variable u (c_str k) (c_str v)) (ce_set env u (c_str k) (c_str v)) w))"

definition SetVariables ::
  "call_env \<Rightarrow> string \<Rightarrow> (string \<times> string) list \<Rightarrow> call_world \<Rightarrow> grpc_status \<times> call_world" where
  "SetVariables env uuid vars w =
     (if uuid = [] then ((INVALID_ARGUMENT, ''uuid must not be empty''), w)
      else if vars = [] then ((INVALID_ARGUMENT, ''variables map must not be empty''), w)
      else if kMaxVariables < length vars
      then ((RESOURCE_EXHAUSTED,
             ''too many variables: max='' @ decimal kMaxVariables @ '' got='' @ decimal (length vars)), w)
      else (case validate_names vars of
        Some st \<Rightarrow> (st, w)
      | None \<Rightarrow>
          (case SessionGuard_Locate uuid w of
            (guard, w1) \<Rightarrow>
              if \<not> SessionGuard_Valid guard then ((NOT_FOUND, ''session not found: uuid='' @ uuid), w1)
              else SessionGuard_destroy guard
                (case sg_channel guard of
                   None \<Rightarrow> ((INTERNAL, ''channel pointer null''), w1)
                 | Some ch \<Rightarrow>
                     (Status_OK,
                      emit (Audit ''osw.control.set_variables''
                             [(''uuid'', uuid), (''var_count'', decimal (length vars))])
                        (set_each env (SessionGuard_get guard) vars w1))))))"

section \<open>The idempotent handlers\<close>

text \<open>
  Originate, Bridge and Execute share their frame: they look the request up in the idempotency
  cache, run their body on a miss, and at each return either store the result or cancel the
  reservation. Bodies return whether their result is definitive, the status, the response and the
  world. A response that fails to parse leaves its partial contents behind. The clock readings, and
  what the other threads do to the cache during the wait and during the body, are arguments.
\<close>

record rpc_clock =
  rc_now :: time
  rc_wait :: "idem_cache \<Rightarrow> idem_cache"
  rc_now2 :: time
  rc_now3 :: time
  rc_during :: "idem_cache \<Rightarrow> idem_cache"
  rc_later :: time

type_synonym 'r rpc_body = "'r \<Rightarrow> call_world \<Rightarrow> bool \<times> grpc_status \<times> 'r \<times> call_world"

definition idempotency_key :: "string \<Rightarrow> (string \<times> string) option \<Rightarrow> string" where
  "idempotency_key method header =
     (case header of
        None \<Rightarrow> MakeIdempotencyKey method [] []
      | Some (tenant_id, request_id) \<Rightarrow> MakeIdempotencyKey method tenant_id request_id)"

definition cache_and_return ::
  "('r \<Rightarrow> string option) \<Rightarrow> time \<Rightarrow> string \<Rightarrow> grpc_status \<Rightarrow> 'r \<Rightarrow> idem_cache \<Rightarrow> idem_cache" where
  "cache_and_return serialize later key st resp c =
     (case serialize resp of
        None \<Rightarrow> Cache_Cancel key c
      | Some bytes \<Rightarrow>
          Cache_Store key \<lparr>ie_status = st, ie_response = bytes, ie_expires_at = later + ic_ttl c\<rparr> c)"

definition idem_call ::
  "(string \<Rightarrow> bool \<times> 'r) \<Rightarrow> ('r \<Rightarrow> string option) \<Rightarrow> rpc_clock \<Rightarrow> string \<Rightarrow> (string \<times> string) option \<Rightarrow>
   'r \<Rightarrow> 'r rpc_body \<Rightarrow> call_world \<Rightarrow> grpc_status \<times> 'r \<times> call_world" where
  "idem_call parse serialize clk method header resp0 body w =
     (let key = idempotency_key method header;
          run = (\<lambda>resp c. case body resp (w\<lparr>kw_cache := Some c\<rparr>) of
                   (definitive, st, resp', w') \<Rightarrow>
                     (st, resp',
                      w'\<lparr>kw_cache := Some (if definitive
                            then cache_and_return serialize (rc_later clk) key st resp' (rc_during clk c)
                            else Cache_Cancel key (rc_during clk c))\<rparr>))
      in case (if key = [] then None else kw_cache w) of
           None \<Rightarrow> snd (body resp0 w)
         | Some c \<Rightarrow>
             (case LookupOrReserve (rc_now clk) (rc_wait clk) (rc_now2 clk) (rc_now3 clk) key c of
                (kHit e, c1) \<Rightarrow>
                  (case parse (ie_response e) of
                     (True, resp) \<Rightarrow> (ie_status e, resp, w\<lparr>kw_cache := Some c1\<rparr>)
                   | (False, resp) \<Rightarrow> run resp c1)
              | (kMiss, c1) \<Rightarrow> run resp0 c1))"

subsection \<open>Originate\<close>

definition MapOriginateFailure :: "call_cause \<Rightarrow> grpc_status" where
  "MapOriginateFailure cause =
     (if cause \<in> {487, 802, 807, 804} then (DEADLINE_EXCEEDED, ''originate timed out before answer'')
      else (FAILED_PRECONDITION, ''originate failed: cause='' @ CallCause_ToString cause))"

definition ovars_of :: "originate_options \<Rightarrow> event_heap \<Rightarrow> (string \<times> string) list option" where
  "ovars_of opts h = Option.bind (oo_ovars opts) h"

definition Originate_body :: "call_env \<Rightarrow> originate_request \<Rightarrow> string rpc_body" where
  "Originate_body env req resp w =
     (case OriginateOptions_Build (ce_event env) req (kw_events w) of
        (opts, h) \<Rightarrow>
          (let w0 = w\<lparr>kw_events := h\<rparr>;
               finish = (\<lambda>(d, st, r, w'). (d, st, r, w'\<lparr>kw_events := OriginateOptions_destroy opts (kw_events w')\<rparr>))
           in finish
             (if \<not> oo_valid opts then (True, (INVALID_ARGUMENT, oo_error opts), resp, w0)
              else
                (let dial = c_str (oo_dial_string opts); timeout = oo_timeout_sec opts;
                     cname = OptionalStringToPtr (oo_cid_name opts); cnum = OptionalStringToPtr (oo_cid_num opts);
                     ovars = ovars_of opts h
                 in case fs_call (Originate_session dial timeout cname cnum ovars)
                           (ce_originate env dial timeout cname cnum ovars) w0 of
                      ((rc, cause, bleg), w1) \<Rightarrow>
                        if rc \<noteq> SWITCH_STATUS_SUCCESS then (True, MapOriginateFailure cause, resp, w1)
                        else (case bleg of
                          None \<Rightarrow> (False, (UNAVAILABLE, ''FS returned null session''), resp, w1)
                        | Some (session, uuid_cstr) \<Rightarrow>
                            (let uuid = (case uuid_cstr of Some u \<Rightarrow> c_str u | None \<Rightarrow> []);
                                 w2 = emit (Rwunlock session) (emit (Rdlock session) w1)
                             in if uuid = []
                                then (False, (INTERNAL, ''originated session has no UUID''), resp, w2)
                                else (True, Status_OK, uuid,
                                      emit (Audit ''osw.control.originate''
                                             [(''uuid'', uuid), (''dest'', oo_dial_string opts),
                                              (''cid_name'', oo_cid_name opts), (''cid_num'', oo_cid_num opts)]) w2)))))))"

definition Originate ::
  "(string \<Rightarrow> bool \<times> string) \<Rightarrow> (string \<Rightarrow> string option) \<Rightarrow> rpc_clock \<Rightarrow> call_env \<Rightarrow> originate_request \<Rightarrow>
   call_world \<Rightarrow> grpc_status \<times> string \<times> call_world" where
  "Originate parse serialize clk env req w =
     idem_call parse serialize clk ''Originate'' (or_header req) [] (Originate_body env req) w"

subsection \<open>Bridge\<close>

definition IsChannelBridgeable :: "nat \<Rightarrow> bool" where
  "IsChannelBridgeable st \<longleftrightarrow> st = CS_ROUTING \<or> st = CS_EXECUTE"

text \<open>\<^verbatim>\<open>operator<\<close> of \<^verbatim>\<open>std::string\<close> compares unsigned bytes.\<close>

fun str_less :: "string \<Rightarrow> string \<Rightarrow> bool" where
  "str_less _ [] = False"
| "str_less [] (_ # _) = True"
| "str_less (c # s) (d # t) =
     ((of_char c :: nat) < of_char d \<or> (c = d \<and> str_less s t))"

record bridge_request =
  br_header :: "(string \<times> string) option"
  br_leg_a :: string
  br_leg_b :: string

definition Bridge_locked ::
  "call_env \<Rightarrow> string \<Rightarrow> string \<Rightarrow> string \<Rightarrow> string \<Rightarrow> session_guard \<Rightarrow> session_guard \<Rightarrow> string \<Rightarrow> call_world \<Rightarrow>
   (bool \<times> grpc_status \<times> string) \<times> call_world" where
  "Bridge_locked env a b first second g1 g2 resp w =
     (case (sg_channel g1, sg_channel g2) of
        (Some ch1, Some ch2) \<Rightarrow>
          if \<not> IsChannelBridgeable (cl_state ch1)
          then ((True, (FAILED_PRECONDITION, ''channel not in bridgeable state: uuid='' @ first), resp), w)
          else if \<not> IsChannelBridgeable (cl_state ch2)
          then ((True, (FAILED_PRECONDITION, ''channel not in bridgeable state: uuid='' @ second), resp), w)
          else (case fs_call (Uuid_bridge (c_str a) (c_str b)) (ce_bridge env (c_str a) (c_str b)) w of
                  (rc, w1) \<Rightarrow>
                    if rc \<noteq> SWITCH_STATUS_SUCCESS
                    then ((True, (FAILED_PRECONDITION,
                             ''switch_ivr_uuid_bridge failed: rc='' @ decimal rc), resp), w1)
                    else ((True, Status_OK, b),
                          emit (Audit ''osw.control.bridge'' [(''a_uuid'', a), (''b_uuid'', b)]) w1))
      | _ \<Rightarrow> ((False, (INTERNAL, ''channel pointer null''), resp), w))"

definition Bridge_body :: "call_env \<Rightarrow> bridge_request \<Rightarrow> string rpc_body" where
  "Bridge_body env req resp w =
     (let a = br_leg_a req; b = br_leg_b req;
          flat = (\<lambda>((d, st, r), w'). (d, st, r, w'))
      in if a = [] then (True, (INVALID_ARGUMENT, ''leg_a_uuid must not be empty''), resp, w)
         else if b = [] then (True, (INVALID_ARGUMENT, ''leg_b_uuid must not be empty''), resp, w)
         else if a = b
         then (True, (INVALID_ARGUMENT, ''leg_a_uuid and leg_b_uuid must be different''), resp, w)
         else
           (let a_is_lower = str_less a b;
                first = (if a_is_lower then a else b);
                second = (if a_is_lower then b else a)
            in case SessionGuard_Locate first w of
                 (g1, w1) \<Rightarrow>
                   if \<not> SessionGuard_Valid g1
                   then (True, (NOT_FOUND, ''session not found: uuid='' @ first), resp, w1)
                   else flat (SessionGuard_destroy g1
                     (case SessionGuard_Locate second w1 of
                        (g2, w2) \<Rightarrow>
                          if \<not> SessionGuard_Valid g2
                          then ((True, (NOT_FOUND, ''session not found: uuid='' @ second), resp), w2)
                          else SessionGuard_destroy g2
                                 (Bridge_locked env a b first second g1 g2 resp w2)))))"

definition Bridge ::
  "(string \<Rightarrow> bool \<times> string) \<Rightarrow> (string \<Rightarrow> string option) \<Rightarrow> rpc_clock \<Rightarrow> call_env \<Rightarrow> bridge_request \<Rightarrow>
   call_world \<Rightarrow> grpc_status \<times> string \<times> call_world" where
  "Bridge parse serialize clk env req w =
     idem_call parse serialize clk ''Bridge'' (br_header req) [] (Bridge_body env req) w"

subsection \<open>Execute\<close>

definition AllowedApps :: "string list" where
  "AllowedApps = [''playback'', ''set'', ''hangup'', ''answer'']"

definition IsAppAllowed :: "string \<Rightarrow> bool" where
  "IsAppAllowed app \<longleftrightarrow> app \<in> set AllowedApps"

record execute_request =
  ex_header :: "(string \<times> string) option"
  ex_uuid :: string
  ex_app :: string
  ex_args :: string

definition set_var_name :: "string \<Rightarrow> string" where
  "set_var_name args = (case find_char (CHR ''='') args of Some n \<Rightarrow> take n args | None \<Rightarrow> args)"

definition Execute_locked ::
  "call_env \<Rightarrow> execute_request \<Rightarrow> session_guard \<Rightarrow> unit \<Rightarrow> call_world \<Rightarrow>
   (bool \<times> grpc_status \<times> unit) \<times> call_world" where
  "Execute_locked env req guard resp w =
     (let uuid = ex_uuid req; app = ex_app req; args = ex_args req
      in case sg_channel guard of
           None \<Rightarrow> ((False, (INTERNAL, ''channel pointer null''), resp), w)
         | Some ch \<Rightarrow>
             if CS_HANGUP \<le> cl_state ch
             then ((True, (FAILED_PRECONDITION, ''channel already hung up: uuid='' @ uuid), resp), w)
             else if app = ''set'' \<and> args \<noteq> [] \<and> IsReservedVar (set_var_name args)
             then ((True, (INVALID_ARGUMENT,
                      ''variable name is reserved: '' @ [CHR 0x27] @ set_var_name args @ [CHR 0x27]), resp), w)
             else
               (let u = SessionGuard_get guard; args_cstr = OptionalStringToPtr args
                in case fs_call (Execute_application u (c_str app) args_cstr)
                          (ce_execute env u (c_str app) args_cstr) w of
                     (rc, w1) \<Rightarrow>
                       if rc \<noteq> SWITCH_STATUS_SUCCESS
                       then ((True, (FAILED_PRECONDITION,
                                ''execute_application failed: rc='' @ decimal rc), resp), w1)
                       else ((True, Status_OK, resp),
                             emit (Audit ''osw.control.execute''
                                    [(''uuid'', uuid), (''app'', app), (''args_redacted'', RedactArgs args)]) w1)))"

definition Execute_body :: "call_env \<Rightarrow> execute_request \<Rightarrow> unit rpc_body" where
  "Execute_body env req resp w =
     (let uuid = ex_uuid req; app = ex_app req
      in if uuid = [] then (True, (INVALID_ARGUMENT, ''uuid must not be empty''), resp, w)
         else if app = [] then (True, (INVALID_ARGUMENT, ''app must not be empty''), resp, w)
         else if \<not> IsAppAllowed app
         then (True, (INVALID_ARGUMENT,
                 ''app '' @ [CHR 0x27] @ app @ [CHR 0x27] @ '' is not in the V1 allow-list''), resp, w)
         else (case SessionGuard_Locate uuid w of
           (guard, w1) \<Rightarrow>
             if \<not> SessionGuard_Valid guard
             then (True, (NOT_FOUND, ''session not found: uuid='' @ uuid), resp, w1)
             else (case SessionGuard_destroy guard (Execute_locked env req guard resp w1) of
                     ((d, st, r), w2) \<Rightarrow> (d, st, r, w2))))"

definition Execute ::
  "(string \<Rightarrow> bool \<times> unit) \<Rightarrow> (unit \<Rightarrow> string option) \<Rightarrow> rpc_clock \<Rightarrow> call_env \<Rightarrow> execute_request \<Rightarrow>
   call_world \<Rightarrow> grpc_status \<times> unit \<times> call_world" where
  "Execute parse serialize clk env req w =
     idem_call parse serialize clk ''Execute'' (ex_header req) () (Execute_body env req) w"

end
