(* ===== verification/Control_CallSafety.thy ===== *)
theory Control_CallSafety
  imports Control_Call
begin

text \<open>
  Safety of the call-control RPCs: every session is used under its lock, locks are released and
  taken in order, and no RPC but Originate hands FreeSWITCH a reserved variable. The handlers are
  examined once, inside a locale over the predicate on log entries, and the locale is interpreted
  for the lock discipline alone and for the denylist.
\<close>

section \<open>The RPCs as one operation\<close>

text \<open>Protobuf's encoding of the responses is a parameter.\<close>

record rpc_codec =
  cd_parse :: "string \<Rightarrow> bool \<times> string"
  cd_serialize :: "string \<Rightarrow> string option"
  cd_parse_empty :: "string \<Rightarrow> bool \<times> unit"
  cd_serialize_empty :: "unit \<Rightarrow> string option"

datatype call_rpc =
    Rpc_Hangup hangup_request
  | Rpc_HangupMany "string list" string
  | Rpc_Hold "string list"
  | Rpc_Unhold "string list"
  | Rpc_BlindTransfer transfer_request
  | Rpc_SetVariables string "(string \<times> string) list"
  | Rpc_Originate rpc_clock originate_request
  | Rpc_Bridge rpc_clock bridge_request
  | Rpc_Execute rpc_clock execute_request

fun handle_rpc :: "rpc_codec \<Rightarrow> call_env \<Rightarrow> call_rpc \<Rightarrow> call_world \<Rightarrow> grpc_status \<times> call_world" where
  "handle_rpc cd env (Rpc_Hangup req) w = Hangup env req w"
| "handle_rpc cd env (Rpc_HangupMany uuids cause) w =
     (case HangupMany env uuids cause w of (st, _, w') \<Rightarrow> (st, w'))"
| "handle_rpc cd env (Rpc_Hold uuids) w = (case Hold env uuids w of (st, _, w') \<Rightarrow> (st, w'))"
| "handle_rpc cd env (Rpc_Unhold uuids) w = (case Unhold env uuids w of (st, _, w') \<Rightarrow> (st, w'))"
| "handle_rpc cd env (Rpc_BlindTransfer req) w = BlindTransfer env req w"
| "handle_rpc cd env (Rpc_SetVariables uuid vars) w = SetVariables env uuid vars w"
| "handle_rpc cd env (Rpc_Originate clk req) w =
     (case Originate (cd_parse cd) (cd_serialize cd) clk env req w of (st, _, w') \<Rightarrow> (st, w'))"
| "handle_rpc cd env (Rpc_Bridge clk req) w =
     (case Bridge (cd_parse cd) (cd_serialize cd) clk env req w of (st, _, w') \<Rightarrow> (st, w'))"
| "handle_rpc cd env (Rpc_Execute clk req) w =
     (case Execute (cd_parse_empty cd) (cd_serialize_empty cd) clk env req w of (st, _, w') \<Rightarrow> (st, w'))"

section \<open>The lock discipline\<close>

text \<open>
  Replays a log on the stack of held locks. A second lock has to be on a session that is not
  smaller than the first; a session is only used while it is locked, an originate, which blocks
  until the far end answers, holds no lock, and locks are released in reverse order.
\<close>

definition lock_order :: "string list \<Rightarrow> string \<Rightarrow> bool" where
  "lock_order held u \<longleftrightarrow> list_all (\<lambda>h. h = u \<or> str_less h u) held"

lemma lock_order_Nil [simp]: "lock_order [] u"
  by (simp add: lock_order_def)

fun safe_step :: "string list \<Rightarrow> call_action \<Rightarrow> string list option" where
  "safe_step held (Rdlock u) = (if lock_order held u then Some (u # held) else None)"
| "safe_step held (Rwunlock u) = (case held of h # hs \<Rightarrow> if h = u then Some hs else None | [] \<Rightarrow> None)"
| "safe_step held (Set_variable u _ _) = (if u \<in> set held then Some held else None)"
| "safe_step held (Channel_hangup u _) = (if u \<in> set held then Some held else None)"
| "safe_step held (Hold_uuid u) = (if u \<in> set held then Some held else None)"
| "safe_step held (Unhold_uuid u) = (if u \<in> set held then Some held else None)"
| "safe_step held (Session_transfer u _ _ _) = (if u \<in> set held then Some held else None)"
| "safe_step held (Uuid_bridge a b) = (if a \<in> set held \<and> b \<in> set held then Some held else None)"
| "safe_step held (Execute_application u _ _) = (if u \<in> set held then Some held else None)"
| "safe_step held (Originate_session _ _ _ _ _) = (if held = [] then Some held else None)"
| "safe_step held (Audit _ _) = Some held"

fun safe_run :: "string list \<Rightarrow> call_action list \<Rightarrow> string list option" where
  "safe_run held [] = Some held"
| "safe_run held (a # acts) = (case safe_step held a of Some held' \<Rightarrow> safe_run held' acts | None \<Rightarrow> None)"

lemma safe_run_append:
  "safe_run held (xs @ ys) = (case safe_run held xs of Some held' \<Rightarrow> safe_run held' ys | None \<Rightarrow> None)"
  by (induction xs arbitrary: held) (auto split: option.split)

definition sets_variables :: "call_action \<Rightarrow> bool" where
  "sets_variables a \<longleftrightarrow>
     (case a of Set_variable _ _ _ \<Rightarrow> True | Execute_application _ _ _ \<Rightarrow> True | _ \<Rightarrow> False)"

lemma sets_variables_simps [simp]:
  "sets_variables (Set_variable u k v)" "sets_variables (Execute_application u app args)"
  "\<not> sets_variables (Rdlock u)" "\<not> sets_variables (Rwunlock u)" "\<not> sets_variables (Channel_hangup u c)"
  "\<not> sets_variables (Hold_uuid u)" "\<not> sets_variables (Unhold_uuid u)"
  "\<not> sets_variables (Session_transfer u d p x)" "\<not> sets_variables (Uuid_bridge a b)"
  "\<not> sets_variables (Originate_session d t n m vs)" "\<not> sets_variables (Audit s fs)"
  by (simp_all add: sets_variables_def)

lemma log_simps [simp]:
  "kw_log (emit a w) = kw_log w @ [a]" "kw_log (snd (fs_call a f w)) = kw_log w @ [a]"
  "kw_log (SessionLock_destroy (Some u) w) = kw_log w @ [Rwunlock u]"
  by (simp_all add: emit_def fs_call_def SessionLock_destroy_def split: prod.split)

lemma fs_call_log: "fs_call a f w = (x, w') \<Longrightarrow> kw_log w' = kw_log w @ [a]"
  using log_simps(2) [of a f w] by simp

lemma Locate_cases:
  assumes "SessionGuard_Locate uuid w = (g, w1)"
  obtains (invalid) "\<not> SessionGuard_Valid g" "w1 = w"
  | (valid) "SessionGuard_Valid g" "sg_lock g = Some (c_str uuid)" "SessionGuard_get g = c_str uuid"
      "w1 = emit (Rdlock (c_str uuid)) w" "kw_sessions w (c_str uuid) = Some (sg_channel g)"
  using assms
  by (auto simp: SessionGuard_Locate_def SessionLock_new_def SessionGuard_Valid_def SessionGuard_empty_def
      SessionGuard_get_def SessionLock_move_def SessionLock_channel_def emit_def
      split: if_splits option.splits)

text \<open>What a handler may set, on the names as the request has them.\<close>

definition may_set :: "(call_action \<Rightarrow> bool) \<Rightarrow> string \<Rightarrow> bool" where
  "may_set P k \<longleftrightarrow> (\<not> IsReservedVar k \<longrightarrow> (\<forall>u v. P (Set_variable u (c_str k) v)))"

text \<open>The log entries of an operation: they keep the locks and satisfy \<open>P\<close>.\<close>

definition trace :: "(call_action \<Rightarrow> bool) \<Rightarrow> string list \<Rightarrow> call_world \<Rightarrow> call_world \<Rightarrow> bool" where
  "trace P held w w' \<longleftrightarrow>
     (\<exists>acts. kw_log w' = kw_log w @ acts \<and> safe_run held acts = Some held \<and> list_all P acts)"

section \<open>One pass over the handlers\<close>

locale call_log =
  fixes P :: "call_action \<Rightarrow> bool"
  assumes pass: "\<not> sets_variables a \<Longrightarrow> P a"
begin

lemma trace_refl [simp]: "trace P held w w"
  by (simp add: trace_def)

lemma trace_log: "kw_log w' = kw_log w \<Longrightarrow> trace P held w w'"
  by (simp add: trace_def)

lemma trace_trans:
  assumes "trace P held w1 w2" and "trace P held w2 w3"
  shows "trace P held w1 w3"
proof -
  obtain xs ys where
    "kw_log w2 = kw_log w1 @ xs" "safe_run held xs = Some held" "list_all P xs"
    "kw_log w3 = kw_log w2 @ ys" "safe_run held ys = Some held" "list_all P ys"
    using assms by (auto simp: trace_def)
  then show ?thesis unfolding trace_def by (intro exI [of _ "xs @ ys"]) (simp add: safe_run_append)
qed

lemma trace_step:
  assumes "kw_log w' = kw_log w @ [a]" and "safe_step held a = Some held" and "P a"
  shows "trace P held w w'"
  using assms unfolding trace_def by (intro exI [of _ "[a]"]) simp

lemma trace_guard:
  assumes "sg_lock g = Some u" and "lock_order held u"
    and "trace P (u # held) (emit (Rdlock u) w) (snd r)"
  shows "trace P held w (snd (SessionGuard_destroy g r))"
proof -
  obtain acts where a: "kw_log (snd r) = (kw_log w @ [Rdlock u]) @ acts"
    "safe_run (u # held) acts = Some (u # held)" "list_all P acts"
    using assms(3) by (auto simp: trace_def)
  show ?thesis
    unfolding trace_def using assms(1,2) a
    by (intro exI [of _ "Rdlock u # acts @ [Rwunlock u]"])
       (simp add: SessionGuard_destroy_def safe_run_append pass)
qed

lemma trace_audit: "trace P held w w1 \<Longrightarrow> trace P held w (emit (Audit n fs) w1)"
  by (erule trace_trans) (rule trace_step [of _ _ "Audit n fs"], simp_all add: pass)

lemma hangup_variables_trace:
  "\<forall>(k, v) \<in> set vars. may_set P k \<Longrightarrow> u \<in> set held \<Longrightarrow> trace P held w (snd (hangup_variables env u vars w))"
proof (induction vars arbitrary: w)
  case (Cons kv vars)
  obtain k v where kv: "kv = (k, v)" by fastforce
  show ?case
  proof (cases "IsReservedVar k")
    case False
    let ?w = "snd (fs_call (Set_variable u (c_str k) (c_str v)) (ce_set env u (c_str k) (c_str v)) w)"
    have "trace P held w ?w"
      by (rule trace_step [of _ _ "Set_variable u (c_str k) (c_str v)"])
        (use Cons.prems False kv in \<open>auto simp: may_set_def\<close>)
    moreover have "trace P held ?w (snd (hangup_variables env u vars ?w))" using Cons by simp
    ultimately show ?thesis using kv False by (auto intro: trace_trans)
  qed (simp add: kv)
qed simp

lemma set_each_trace:
  "\<forall>(k, v) \<in> set vars. \<not> IsReservedVar k \<and> may_set P k \<Longrightarrow> u \<in> set held \<Longrightarrow>
     trace P held w (set_each env u vars w)"
proof (induction vars arbitrary: w)
  case (Cons kv vars)
  obtain k v where kv: "kv = (k, v)" by fastforce
  let ?w = "snd (fs_call (Set_variable u (c_str k) (c_str v)) (ce_set env u (c_str k) (c_str v)) w)"
  have "trace P held w ?w"
    by (rule trace_step [of _ _ "Set_variable u (c_str k) (c_str v)"])
      (use Cons.prems kv in \<open>auto simp: may_set_def\<close>)
  moreover have "trace P held ?w (set_each env u vars ?w)" using Cons by simp
  ultimately show ?case using kv by (auto intro: trace_trans)
qed simp

lemma channel_hangup_trace: "u \<in> set held \<Longrightarrow> trace P held w (channel_hangup env u cause w)"
  by (rule trace_step [of _ _ "Channel_hangup u cause"]) (simp_all add: channel_hangup_def pass)

lemma Hangup_trace:
  assumes "\<forall>(k, v) \<in> set (hr_variables req). may_set P k"
  shows "trace P [] w (snd (Hangup env req w))"
proof (cases "hr_uuid req = []")
  case False
  obtain g w1 where l: "SessionGuard_Locate (hr_uuid req) w = (g, w1)" by fastforce
  then show ?thesis
  proof (cases rule: Locate_cases)
    case valid
    let ?u = "c_str (hr_uuid req)"
    have vars: "trace P [?u] w1 (snd (hangup_variables env ?u (hr_variables req) w1))"
      using assms by (intro hangup_variables_trace) auto
    have "trace P [?u] w1 (emit (Audit n fs) (channel_hangup env ?u cause (snd (hangup_variables env ?u (hr_variables req) w1))))"
      for cause n fs
      by (intro trace_audit trace_trans [OF vars] channel_hangup_trace) simp
    then show ?thesis
      using False l valid vars
      by (auto simp: Hangup_def Let_def intro!: trace_guard split: option.splits prod.splits)
  qed (use False l in \<open>simp add: Hangup_def Let_def\<close>)
qed (simp add: Hangup_def Let_def)

end

text \<open>The order of the locks survives the truncation at a NUL.\<close>

lemma str_less_total: "a \<noteq> b \<Longrightarrow> str_less a b \<or> str_less b a"
proof (induction a b rule: str_less.induct)
  case (3 c s d t)
  then show ?case
    using less_linear [of "of_char c :: nat" "of_char d"] by (cases "c = d") auto
next
  case (1 a)
  then show ?case by (cases a) auto
qed auto

lemma str_less_c_str: "str_less a b \<Longrightarrow> c_str a = c_str b \<or> str_less (c_str a) (c_str b)"
proof (induction a b rule: str_less.induct)
  case (2 d t)
  then show ?case by (auto simp: c_str_def)
next
  case (3 c s d t)
  then show ?case by (auto simp: c_str_def)
qed simp

lemma validate_names_ok:
  "validate_names vars = None \<Longrightarrow> (k, v) \<in> set vars \<Longrightarrow> IsValidVarName k \<and> \<not> IsReservedVar k"
  by (induction vars rule: validate_names.induct) (auto split: if_splits)

context call_log
begin

lemma HangupOne_trace: "trace P [] w (snd (HangupOne env uuid cause w))"
proof (cases "uuid = []")
  case False
  obtain g w1 where l: "SessionGuard_Locate uuid w = (g, w1)" by fastforce
  then show ?thesis
  proof (cases rule: Locate_cases)
    case valid
    then show ?thesis
      using False l by (auto simp: HangupOne_def intro!: trace_guard channel_hangup_trace split: option.splits)
  qed (use False l in \<open>simp add: HangupOne_def\<close>)
qed (simp add: HangupOne_def)

lemma hangup_each_trace: "trace P [] w (snd (hangup_each env cause uuids hungup w))"
proof (induction uuids arbitrary: hungup w)
  case (Cons uuid uuids)
  obtain b w1 where h: "HangupOne env uuid cause w = (b, w1)" by fastforce
  have t: "trace P [] w w1" using HangupOne_trace [of w env uuid cause] h by simp
  show ?case
    using h trace_trans [OF t Cons.IH] trace_trans [OF trace_audit [OF t] Cons.IH] by (cases b) simp_all
qed simp

lemma HangupMany_trace: "trace P [] w (snd (snd (HangupMany env uuids cause w)))"
  by (simp add: HangupMany_def hangup_each_trace)

lemma hold_one_trace: "trace P [] w (snd (hold_one env uuid w))"
proof (cases "uuid = []")
  case False
  obtain g w1 where l: "SessionGuard_Locate uuid w = (g, w1)" by fastforce
  then show ?thesis
  proof (cases rule: Locate_cases)
    case valid
    obtain rc w2 where f: "fs_call (Hold_uuid (c_str uuid)) (ce_hold env (c_str uuid)) w1 = (rc, w2)" by fastforce
    have t: "trace P [c_str uuid] w1 w2"
      by (rule trace_step [OF fs_call_log [OF f]]) (simp_all add: pass)
    show ?thesis
      using False l valid f t
      by (auto simp: hold_one_def intro!: trace_guard trace_audit split: option.splits)
  qed (use False l in \<open>simp add: hold_one_def\<close>)
qed (simp add: hold_one_def)

lemma unhold_one_trace: "trace P [] w (snd (unhold_one env uuid w))"
proof (cases "uuid = []")
  case False
  obtain g w1 where l: "SessionGuard_Locate uuid w = (g, w1)" by fastforce
  then show ?thesis
  proof (cases rule: Locate_cases)
    case valid
    obtain rc w2 where f: "fs_call (Unhold_uuid (c_str uuid)) (ce_unhold env (c_str uuid)) w1 = (rc, w2)"
      by fastforce
    have t: "trace P [c_str uuid] w1 w2"
      by (rule trace_step [OF fs_call_log [OF f]]) (simp_all add: pass)
    show ?thesis
      using False l valid f t
      by (auto simp: unhold_one_def intro!: trace_guard trace_audit split: option.splits)
  qed (use False l in \<open>simp add: unhold_one_def\<close>)
qed (simp add: unhold_one_def)

lemma each_uuid_trace:
  assumes "\<And>uuid w. trace P [] w (snd (one uuid w))"
  shows "trace P [] w (snd (snd (each_uuid one uuids d w)))"
proof (induction uuids arbitrary: d w)
  case (Cons uuid uuids)
  obtain st w1 where o: "one uuid w = (st, w1)" by fastforce
  then have "trace P [] w w1" using assms [of w uuid] by simp
  then show ?case using o Cons by (auto intro: trace_trans)
qed simp

lemma Hold_trace: "trace P [] w (snd (snd (Hold env uuids w)))"
  by (simp add: Hold_def each_uuid_trace hold_one_trace)

lemma Unhold_trace: "trace P [] w (snd (snd (Unhold env uuids w)))"
  by (simp add: Unhold_def each_uuid_trace unhold_one_trace)

lemma BlindTransfer_trace: "trace P [] w (snd (BlindTransfer env req w))"
proof (cases "tr_uuid req = [] \<or> tr_destination req = []")
  case False
  obtain g w1 where l: "SessionGuard_Locate (tr_uuid req) w = (g, w1)" by fastforce
  then show ?thesis
  proof (cases rule: Locate_cases)
    case valid
    let ?u = "c_str (tr_uuid req)" and ?d = "c_str (tr_destination req)"
    let ?p = "OptionalStringToPtr (tr_dialplan req)" and ?x = "OptionalStringToPtr (tr_context req)"
    obtain rc w2 where f: "fs_call (Session_transfer ?u ?d ?p ?x) (ce_transfer env ?u ?d ?p ?x) w1 = (rc, w2)"
      by fastforce
    have t: "trace P [?u] w1 w2"
      by (rule trace_step [OF fs_call_log [OF f]]) (simp_all add: pass)
    show ?thesis
      using False l valid f t
      by (auto simp: BlindTransfer_def Let_def intro!: trace_guard trace_audit split: option.splits)
  qed (use False l in \<open>simp add: BlindTransfer_def Let_def\<close>)
qed (auto simp: BlindTransfer_def Let_def)

lemma SetVariables_trace:
  assumes "\<forall>(k, v) \<in> set vars. IsValidVarName k \<longrightarrow> may_set P k"
  shows "trace P [] w (snd (SetVariables env uuid vars w))"
proof (cases "uuid = [] \<or> vars = [] \<or> kMaxVariables < length vars \<or> validate_names vars \<noteq> None")
  case False
  then have v: "validate_names vars = None" by blast
  obtain g w1 where l: "SessionGuard_Locate uuid w = (g, w1)" by fastforce
  then show ?thesis
  proof (cases rule: Locate_cases)
    case valid
    have "trace P [c_str uuid] w1 (set_each env (c_str uuid) vars w1)"
      using assms by (intro set_each_trace) (auto dest: validate_names_ok [OF v])
    then show ?thesis
      using False l valid
      by (auto simp: SetVariables_def intro!: trace_guard trace_audit split: option.splits)
  qed (use False l in \<open>simp add: SetVariables_def v\<close>)
qed (auto simp: SetVariables_def)

lemma idem_call_trace:
  assumes "\<And>resp w. trace P [] w (snd (snd (snd (body resp w))))"
  shows "trace P [] w (snd (snd (idem_call parse serialize clk method header resp0 body w)))"
proof -
  have run: "trace P [] w (snd (snd (snd (body resp (w\<lparr>kw_cache := Some c\<rparr>))))\<lparr>kw_cache := c'\<rparr>)"
    for resp c c' using assms [of "w\<lparr>kw_cache := Some c\<rparr>" resp] by (simp add: trace_def)
  have upd: "trace P [] w (w\<lparr>kw_cache := c'\<rparr>)" for c' by (simp add: trace_log)
  show ?thesis
    using assms [of w resp0] run upd
    by (auto simp: idem_call_def Let_def case_prod_unfold split: option.split lookup_result.split bool.split)
qed

lemma Originate_body_trace: "trace P [] w (snd (snd (snd (Originate_body env req resp w))))"
proof -
  obtain opts h where b: "OriginateOptions_Build (ce_event env) req (kw_events w) = (opts, h)" by fastforce
  let ?dial = "c_str (oo_dial_string opts)" and ?n = "OptionalStringToPtr (oo_cid_name opts)"
  let ?m = "OptionalStringToPtr (oo_cid_num opts)" and ?vs = "ovars_of opts h"
  obtain rc cause bleg w1 where
    f: "fs_call (Originate_session ?dial (oo_timeout_sec opts) ?n ?m ?vs)
          (ce_originate env ?dial (oo_timeout_sec opts) ?n ?m ?vs) (w\<lparr>kw_events := h\<rparr>) = ((rc, cause, bleg), w1)"
    by (metis prod.exhaust)
  have t1: "trace P [] w w1"
    by (rule trace_step [of _ _ "Originate_session ?dial (oo_timeout_sec opts) ?n ?m ?vs"])
      (simp_all add: fs_call_log [OF f] pass)
  have t2: "trace P [] w (emit (Rwunlock u) (emit (Rdlock u) w1))" for u
    by (rule trace_trans [OF t1]) (simp add: trace_def pass exI [of _ "[Rdlock u, Rwunlock u]"])
  have ev: "trace P [] w (w'\<lparr>kw_events := x\<rparr>)" if "trace P [] w w'" for w' x
    using that by (simp add: trace_def)
  show ?thesis
    using b f t1 t2
    by (auto simp: Originate_body_def Let_def intro!: ev trace_audit intro: trace_log
             split: prod.splits option.splits)
qed

end

text \<open>The variable an Execute may assign, on the arguments as the request has them.\<close>

definition may_execute :: "(call_action \<Rightarrow> bool) \<Rightarrow> string \<Rightarrow> string \<Rightarrow> bool" where
  "may_execute P app args \<longleftrightarrow>
     (IsAppAllowed app \<and> \<not> (app = ''set'' \<and> args \<noteq> [] \<and> IsReservedVar (set_var_name args)) \<longrightarrow>
      (\<forall>u. P (Execute_application u (c_str app) (OptionalStringToPtr args))))"

lemma bridge_order:
  assumes "a \<noteq> b"
  shows "lock_order [c_str (if str_less a b then a else b)] (c_str (if str_less a b then b else a))"
  using str_less_total [OF assms] str_less_c_str [of a b] str_less_c_str [of b a]
  by (auto simp: lock_order_def)

context call_log
begin

lemma Bridge_locked_trace:
  assumes "c_str a \<in> set held" and "c_str b \<in> set held"
  shows "trace P held w (snd (Bridge_locked env a b first second g1 g2 resp w))"
proof -
  obtain rc w2 where
    f: "fs_call (Uuid_bridge (c_str a) (c_str b)) (ce_bridge env (c_str a) (c_str b)) w = (rc, w2)" by fastforce
  have "trace P held w w2"
    by (rule trace_step [OF fs_call_log [OF f]]) (simp_all add: pass assms)
  then show ?thesis
    using f by (auto simp: Bridge_locked_def intro!: trace_audit split: option.split)
qed

lemma Bridge_body_trace: "trace P [] w (snd (snd (snd (Bridge_body env req resp w))))"
proof -
  let ?a = "br_leg_a req" and ?b = "br_leg_b req"
  define f where "f = (if str_less ?a ?b then ?a else ?b)"
  define s where "s = (if str_less ?a ?b then ?b else ?a)"
  obtain g1 w1 where l1: "SessionGuard_Locate f w = (g1, w1)" by fastforce
  obtain g2 w2 where l2: "SessionGuard_Locate s w1 = (g2, w2)" by fastforce
  have held: "c_str ?a \<in> set [c_str s, c_str f]" "c_str ?b \<in> set [c_str s, c_str f]" by (simp_all add: f_def s_def)
  let ?in = "if \<not> SessionGuard_Valid g2
     then ((True, (NOT_FOUND, ''session not found: uuid='' @ s), resp), w2)
     else SessionGuard_destroy g2 (Bridge_locked env ?a ?b f s g1 g2 resp w2)"
  have "trace P [c_str f] w1 (snd ?in)" if "?a \<noteq> ?b"
    using l2
  proof (cases rule: Locate_cases)
    case valid
    have "trace P [c_str s, c_str f] w2 (snd (Bridge_locked env ?a ?b f s g1 g2 resp w2))"
      by (rule Bridge_locked_trace [OF held])
    from trace_guard [OF valid(2) bridge_order [OF that, folded f_def s_def] this [unfolded valid(4)]] show ?thesis
      using valid by simp
  qed simp
  then have "trace P [] w (snd (SessionGuard_destroy g1 ?in))"
    if "?a \<noteq> ?b" "sg_lock g1 = Some (c_str f)" "w1 = emit (Rdlock (c_str f)) w"
    using that by (intro trace_guard [OF that(2)]) simp_all
  then show ?thesis
    unfolding Bridge_body_def Let_def f_def [symmetric] s_def [symmetric] l1 prod.case l2
    by (cases rule: Locate_cases [OF l1]) (simp_all add: case_prod_unfold)
qed

lemma Execute_body_trace:
  assumes "may_execute P (ex_app req) (ex_args req)"
  shows "trace P [] w (snd (snd (snd (Execute_body env req resp w))))"
proof (cases "ex_uuid req = [] \<or> ex_app req = [] \<or> \<not> IsAppAllowed (ex_app req)")
  case False
  obtain g w1 where l: "SessionGuard_Locate (ex_uuid req) w = (g, w1)" by fastforce
  then show ?thesis
  proof (cases rule: Locate_cases)
    case valid
    let ?u = "c_str (ex_uuid req)" and ?app = "c_str (ex_app req)" and ?args = "OptionalStringToPtr (ex_args req)"
    obtain rc w2 where
      f: "fs_call (Execute_application ?u ?app ?args) (ce_execute env ?u ?app ?args) w1 = (rc, w2)" by fastforce
    have "trace P [?u] w1 w2"
      if "\<not> (ex_app req = ''set'' \<and> ex_args req \<noteq> [] \<and> IsReservedVar (set_var_name (ex_args req)))"
      by (rule trace_step [OF fs_call_log [OF f]])
        (use assms False that in \<open>simp_all add: may_execute_def\<close>)
    then have "trace P [?u] w1 (snd (Execute_locked env req g resp w1))"
      using f valid(3) by (auto simp: Execute_locked_def Let_def intro!: trace_audit split: option.split)
    then have "trace P [] w (snd (SessionGuard_destroy g (Execute_locked env req g resp w1)))"
      using valid by (intro trace_guard) auto
    then show ?thesis using False l valid by (simp add: Execute_body_def Let_def case_prod_unfold)
  qed (use False l in \<open>simp add: Execute_body_def Let_def\<close>)
qed (auto simp: Execute_body_def Let_def)

text \<open>What a request has to satisfy for its handler to stay inside \<open>P\<close>.\<close>

lemma handle_rpc_trace:
  assumes "case rpc of
      Rpc_Hangup req \<Rightarrow> \<forall>(k, v) \<in> set (hr_variables req). may_set P k
    | Rpc_SetVariables uuid vars \<Rightarrow> \<forall>(k, v) \<in> set vars. IsValidVarName k \<longrightarrow> may_set P k
    | Rpc_Execute clk req \<Rightarrow> may_execute P (ex_app req) (ex_args req)
    | _ \<Rightarrow> True"
  shows "trace P [] w (snd (handle_rpc cd env rpc w))"
proof (cases rpc)
  case (Rpc_Hangup req)
  then show ?thesis using assms Hangup_trace by simp
next
  case (Rpc_SetVariables uuid vars)
  then show ?thesis using assms SetVariables_trace by simp
next
  case (Rpc_Execute clk req)
  then show ?thesis
    using assms idem_call_trace [where body = "Execute_body env req", OF Execute_body_trace]
    by (simp add: Execute_def case_prod_unfold)
qed (simp_all add: HangupMany_trace Hold_trace Unhold_trace BlindTransfer_trace Originate_def Bridge_def
       case_prod_unfold idem_call_trace [OF Originate_body_trace] idem_call_trace [OF Bridge_body_trace])

end

section \<open>Sequences of RPCs\<close>

text \<open>FreeSWITCH may behave differently at every RPC.\<close>

definition handle_rpcs :: "rpc_codec \<Rightarrow> (call_env \<times> call_rpc) list \<Rightarrow> call_world \<Rightarrow> call_world" where
  "handle_rpcs cd rpcs w = fold (\<lambda>(env, rpc) w. snd (handle_rpc cd env rpc w)) rpcs w"

context call_log
begin

lemma handle_rpcs_trace:
  assumes "\<And>env rpc w. (env, rpc) \<in> set rpcs \<Longrightarrow> trace P [] w (snd (handle_rpc cd env rpc w))"
  shows "trace P [] w (handle_rpcs cd rpcs w)"
  using assms
proof (induction rpcs arbitrary: w)
  case (Cons x rpcs)
  obtain env rpc where x: "x = (env, rpc)" by fastforce
  have "trace P [] w (snd (handle_rpc cd env rpc w))" using Cons.prems x by simp
  moreover have "trace P [] w' (handle_rpcs cd rpcs w')" for w' using Cons by simp
  ultimately show ?case by (auto simp: handle_rpcs_def x intro: trace_trans)
qed (simp add: handle_rpcs_def)

end

text \<open>
  Three filters on the log: any entry; entries that set no reserved variable; and entries whose
  reserved variables, as FreeSWITCH reads them, are among the four exact names.
\<close>

definition any_action :: "call_action \<Rightarrow> bool" where
  "any_action a \<longleftrightarrow> True"

definition unreserved_action :: "call_action \<Rightarrow> bool" where
  "unreserved_action a \<longleftrightarrow>
     (case a of
        Set_variable _ k _ \<Rightarrow> \<not> IsReservedVar k
      | Execute_application _ app args \<Rightarrow>
          IsAppAllowed app \<and>
          (app = ''set'' \<longrightarrow> (case args of Some s \<Rightarrow> \<not> IsReservedVar (set_var_name s) | None \<Rightarrow> True))
      | _ \<Rightarrow> True)"

definition exact_action :: "call_action \<Rightarrow> bool" where
  "exact_action a \<longleftrightarrow>
     (case a of
        Set_variable _ k _ \<Rightarrow> IsReservedVar k \<longrightarrow> map to_lower k \<in> set kReservedVarExact
      | _ \<Rightarrow> True)"

interpretation any_log: call_log any_action
  by unfold_locales (simp add: any_action_def)

interpretation deny_log: call_log unreserved_action
  by unfold_locales (auto simp: unreserved_action_def sets_variables_def split: call_action.splits)

interpretation exact_log: call_log exact_action
  by unfold_locales (auto simp: exact_action_def sets_variables_def split: call_action.splits)

text \<open>
  C10. Every call-control RPC, on every path and whatever FreeSWITCH answers, uses a session only
  while it holds that session's lock, releases the locks it took in reverse order before it
  returns, blocks in an originate without holding one, and takes a second lock (Bridge does) only
  on a session that does not come before the first, so two Bridges of the same legs in opposite
  order cannot wait for each other. After any sequence of RPCs no lock is left.
\<close>

theorem call_rpcs_lock_discipline:
  "\<exists>acts. kw_log (handle_rpcs cd rpcs w) = kw_log w @ acts \<and> safe_run [] acts = Some []"
proof -
  have "trace any_action [] w (snd (handle_rpc cd env rpc w))" for env rpc w
    by (rule any_log.handle_rpc_trace)
      (simp add: may_set_def may_execute_def any_action_def split: call_rpc.split)
  then have "trace any_action [] w (handle_rpcs cd rpcs w)" by (rule any_log.handle_rpcs_trace)
  then show ?thesis by (auto simp: trace_def)
qed

definition nul_free :: "call_rpc \<Rightarrow> bool" where
  "nul_free rpc \<longleftrightarrow>
     (case rpc of
        Rpc_Hangup req \<Rightarrow> list_all (\<lambda>(k, v). CHR 0x00 \<notin> set k) (hr_variables req)
      | Rpc_Execute clk req \<Rightarrow> CHR 0x00 \<notin> set (ex_args req)
      | _ \<Rightarrow> True)"

lemma allowed_c_str: "IsAppAllowed app \<Longrightarrow> c_str app = app"
  by (auto simp: IsAppAllowed_def AllowedApps_def intro: c_str_id)

lemma unreserved_request:
  assumes "nul_free rpc"
  shows "case rpc of
      Rpc_Hangup req \<Rightarrow> \<forall>(k, v) \<in> set (hr_variables req). may_set unreserved_action k
    | Rpc_SetVariables uuid vars \<Rightarrow> \<forall>(k, v) \<in> set vars. IsValidVarName k \<longrightarrow> may_set unreserved_action k
    | Rpc_Execute clk req \<Rightarrow> may_execute unreserved_action (ex_app req) (ex_args req)
    | _ \<Rightarrow> True"
  using assms
  by (auto simp: nul_free_def may_set_def may_execute_def unreserved_action_def valid_name_no_NUL
        allowed_c_str OptionalStringToPtr_def list_all_iff split: call_rpc.splits)

lemma exact_request:
  "case rpc of
      Rpc_Hangup req \<Rightarrow> \<forall>(k, v) \<in> set (hr_variables req). may_set exact_action k
    | Rpc_SetVariables uuid vars \<Rightarrow> \<forall>(k, v) \<in> set vars. IsValidVarName k \<longrightarrow> may_set exact_action k
    | Rpc_Execute clk req \<Rightarrow> may_execute exact_action (ex_app req) (ex_args req)
    | _ \<Rightarrow> True"
  by (auto simp: may_set_def may_execute_def exact_action_def dest: reserved_c_str split: call_rpc.splits)


section \<open>A concrete system\<close>

definition demo_call_env :: call_env where
  "demo_call_env =
     \<lparr>ce_set = (\<lambda>u k v s. (0, s(u := map_option (map_option (\<lambda>ch. ch\<lparr>cl_vars := (cl_vars ch)(k \<mapsto> v)\<rparr>)) (s u)))),
      ce_hangup = (\<lambda>u c s. s(u := map_option (map_option (\<lambda>ch. ch\<lparr>cl_state := CS_HANGUP\<rparr>)) (s u))),
      ce_hold = (\<lambda>u s. (0, s)), ce_unhold = (\<lambda>u s. (0, s)), ce_transfer = (\<lambda>u d p x s. (0, s)),
      ce_bridge = (\<lambda>a b s. (0, s)), ce_execute = (\<lambda>u app args s. (0, s)),
      ce_originate = (\<lambda>d t n m vs s. ((0, 16, Some (''new'', Some ''new'')), s)), ce_event = Some 1\<rparr>"

definition demo_call_world :: call_world where
  "demo_call_world =
     \<lparr>kw_sessions = [''u'' \<mapsto> Some \<lparr>cl_state = 4, cl_answered = True, cl_hold = False, cl_vars = Map.empty\<rparr>],
      kw_log = [], kw_events = Map.empty, kw_cache = None\<rparr>"

definition demo_codec :: rpc_codec where
  "demo_codec = \<lparr>cd_parse = (\<lambda>s. (True, s)), cd_serialize = Some, cd_parse_empty = (\<lambda>s. (True, ())),
                 cd_serialize_empty = (\<lambda>_. Some [])\<rparr>"

lemmas call_eval_defs =
  demo_call_env_def demo_call_world_def demo_codec_def handle_rpcs_def
  SessionGuard_Locate_def SessionLock_new_def SessionLock_move_def SessionLock_channel_def
  SessionGuard_Valid_def SessionGuard_get_def SessionGuard_destroy_def SessionLock_destroy_def
  SessionGuard_empty_def emit_def fs_call_def c_str_def CS_HANGUP_def CS_ROUTING_def CS_EXECUTE_def
  SWITCH_STATUS_SUCCESS_def

lemma demo_names [simp]:
  "IsValidVarName ''lang''" "\<not> IsReservedVar ''lang''"
  "\<not> IsReservedVar (''osw_tenant'' @ [CHR 0x00])" "IsReservedVar ''osw_tenant''"
  by code_simp+

definition demo_rpcs :: "(call_env \<times> call_rpc) list" where
  "demo_rpcs = [(demo_call_env, Rpc_SetVariables ''u'' [(''lang'', ''en'')])]"

lemma demo_log:
  "kw_log (handle_rpcs demo_codec demo_rpcs demo_call_world) =
     [Rdlock ''u'', Set_variable ''u'' ''lang'' ''en'',
      Audit ''osw.control.set_variables'' [(''uuid'', ''u''), (''var_count'', decimal 1)], Rwunlock ''u'']"
  by (simp add: demo_rpcs_def SetVariables_def kMaxVariables_def call_eval_defs)


text \<open>
  The two ways around the denylist. A Hangup whose variable name continues behind a NUL overwrites
  a marker of the session, which the handler compared with its whole name. Originate applies no
  denylist at all.
\<close>

lemma hangup_nul_overwrites_marker:
  "Set_variable ''u'' ''osw_tenant'' ''evil'' \<in>
     set (kw_log (snd (Hangup demo_call_env
       \<lparr>hr_uuid = ''u'', hr_cause = [], hr_variables = [(''osw_tenant'' @ [CHR 0x00], ''evil'')]\<rparr>
       demo_call_world)))"
  using demo_names(3) by (simp add: Hangup_def channel_hangup_def Let_def call_eval_defs)

lemma originate_passes_reserved_variables:
  "\<exists>t. Originate_session ''user/1'' t None None (Some [(''osw_tenant'', ''evil'')]) \<in>
     set (kw_log (snd (snd (Originate (\<lambda>s. (True, s)) Some
       \<lparr>rc_now = 0, rc_wait = id, rc_now2 = 0, rc_now3 = 0, rc_during = id, rc_later = 0\<rparr> demo_call_env
       \<lparr>or_header = None, or_endpoints = [''user/1''], or_strategy = FAILOVER, or_timeout = None, or_cid_name = [],
        or_cid_num = [], or_variables = [(''osw_tenant'', ''evil'')]\<rparr> demo_call_world))))"
  by (simp add: Originate_def idem_call_def Originate_body_def OriginateOptions_Build_def Let_def
      OriginateOptions_default_def timeout_seconds_def BuildDialString_def OptionalStringToPtr_def ovars_of_def
      OriginateOptions_destroy_def call_eval_defs)

end
