(* ===== verification/Control_CallRetry.thy ===== *)
theory Control_CallRetry
  imports Control_CallSafety
begin

text \<open>
  What the call-control RPCs do, and what a retry does: results of Originate, Bridge and Execute
  that are definitive are replayed to a retry, transient failures free the reservation, SetVariables
  is all or nothing, and the batch RPCs report exactly the uuids they acted on.
\<close>

section \<open>Replays and cancelled calls\<close>

lemma cache_and_return_frame [simp]:
  "ic_capacity (cache_and_return ser later key st resp c) = ic_capacity c"
  by (simp add: cache_and_return_def Cache_Cancel_def split: option.split)

text \<open>The first run of a request, its key unknown to the cache.\<close>

lemma idem_call_first:
  assumes "idempotency_key method hdr \<noteq> []" and "kw_cache w = Some c"
    and "map_of (ic_lru c) (idempotency_key method hdr) = None"
    and "ic_in_flight c (idempotency_key method hdr) = None"
  shows "idem_call parse serialize clk method hdr resp0 body w =
    (case body resp0 (w\<lparr>kw_cache := Some (cache_reserve (idempotency_key method hdr) (rc_now clk) c)\<rparr>) of
       (definitive, st, resp, w') \<Rightarrow>
         (st, resp,
          w'\<lparr>kw_cache := Some (let c' = rc_during clk (cache_reserve (idempotency_key method hdr) (rc_now clk) c)
               in if definitive then cache_and_return serialize (rc_later clk) (idempotency_key method hdr) st resp c'
                  else Cache_Cancel (idempotency_key method hdr) c')\<rparr>))"
  using assms lookup_fresh [OF assms(3,4,1)] by (simp add: idem_call_def Let_def)

lemma idem_call_hit:
  assumes "idempotency_key method hdr \<noteq> []" and "kw_cache w = Some c"
    and "map_of (ic_lru c) (idempotency_key method hdr) = Some e" and "rc_now clk < ie_expires_at e"
    and "parse (ie_response e) = (True, resp)"
  shows "idem_call parse serialize clk method hdr resp0 body w =
    (ie_status e, resp, w\<lparr>kw_cache := Some (cache_promote (idempotency_key method hdr) e c)\<rparr>)"
  using assms lookup_hit [OF assms(3,4,1)] by (simp add: idem_call_def Let_def)

text \<open>
  A definitive result is found by a retry, behind any results of other requests stored in between,
  fewer than the capacity.
\<close>

lemma idem_call_replay:
  fixes parse :: "string \<Rightarrow> bool \<times> 'r"
  assumes key: "key = idempotency_key method hdr" "key \<noteq> []"
    and fresh: "kw_cache w = Some c" "map_of (ic_lru c) key = None" "ic_in_flight c key = None"
    and during: "\<And>c. ic_ttl (rc_during clk c) = ic_ttl c \<and> ic_capacity (rc_during clk c) = ic_capacity c"
    and first: "idem_call parse serialize clk method hdr resp0 body w = (st, resp, w1)"
    and definitive: "\<And>w. fst (body resp0 w) \<longleftrightarrow> good (fst (snd (body resp0 w)))" "good st"
    and codec: "serialize resp = Some bytes" "parse bytes = (True, resp)"
    and others: "\<forall>(k, _) \<in> set others. k \<noteq> key" "length others < ic_capacity c"
    and second: "kw_cache w2 = map_option (fold (\<lambda>(k, e). Cache_Store k e) others) (kw_cache w1)"
      "rc_now clk' < rc_later clk + ic_ttl c"
  shows "\<exists>c'. idem_call parse serialize' clk' method hdr resp0' body' w2 = (st, resp, w2\<lparr>kw_cache := c'\<rparr>)"
proof -
  let ?c0 = "rc_during clk (cache_reserve key (rc_now clk) c)"
  let ?e = "\<lparr>ie_status = st, ie_response = bytes, ie_expires_at = rc_later clk + ic_ttl c\<rparr>"
  obtain d st' resp' w' where b: "body resp0 (w\<lparr>kw_cache := Some (cache_reserve key (rc_now clk) c)\<rparr>) = (d, st', resp', w')"
    by (metis prod.exhaust)
  have r: "st' = st" "resp' = resp"
    "kw_cache w1 = Some (if d then cache_and_return serialize (rc_later clk) key st resp ?c0 else Cache_Cancel key ?c0)"
    using first b idem_call_first [OF key(2) [unfolded key(1)] fresh(1) fresh(2,3) [unfolded key(1)],
        of parse serialize clk resp0 body]
    by (auto simp: key(1) Let_def)
  have "d" using definitive(1) [of "w\<lparr>kw_cache := Some (cache_reserve key (rc_now clk) c)\<rparr>"] definitive(2) b r(1) by simp
  with r have c1: "kw_cache w1 = Some (Cache_Store key ?e ?c0)"
    using during by (simp add: cache_and_return_def codec(1))
  let ?c1 = "Cache_Store key ?e ?c0"
  have "recent 0 key ?e ?c1" using key(2) by (simp add: recent_def Cache_Store_lru)
  then have "recent (length others) key ?e (fold (\<lambda>(k, e). Cache_Store k e) others ?c1)"
    using recent_stores [of 0 key ?e ?c1 others] others during by simp
  then have "map_of (ic_lru (fold (\<lambda>(k, e). Cache_Store k e) others ?c1)) key = Some ?e" by (rule recent_lookup)
  then show ?thesis
    using idem_call_hit [of _ _ w2 _ ?e clk' parse resp] key second codec(2) c1 by auto
qed

lemma Originate_definitive:
  "fst (Originate_body env req resp w) \<longleftrightarrow> fst (fst (snd (Originate_body env req resp w))) \<notin> {UNAVAILABLE, INTERNAL}"
  by (auto simp: Originate_body_def MapOriginateFailure_def Let_def split: prod.split option.split)

lemma idempotency_key_Nil [simp]: "idempotency_key m (Some (t, r)) = [] \<longleftrightarrow> r = []"
  by (simp add: idempotency_key_def)


definition demo_clock :: "time \<Rightarrow> rpc_clock" where
  "demo_clock t = \<lparr>rc_now = t, rc_wait = id, rc_now2 = t, rc_now3 = t, rc_during = id, rc_later = t + 1\<rparr>"

definition demo_cached_world :: call_world where
  "demo_cached_world = demo_call_world\<lparr>kw_cache := Some (IdempotencyCache_new 16 300 30)\<rparr>"

definition demo_dial :: "string \<Rightarrow> originate_request" where
  "demo_dial e =
     \<lparr>or_header = Some (''t'', ''r''), or_endpoints = [e], or_strategy = FAILOVER, or_timeout = None,
      or_cid_name = [], or_cid_num = [], or_variables = []\<rparr>"

lemma demo_first_dial:
  "\<exists>w1. Originate (\<lambda>s. (True, s)) Some (demo_clock 1) demo_call_env (demo_dial ''user/1'') demo_cached_world
     = (Status_OK, ''new'', w1)"
  by (simp add: Originate_def idem_call_def Originate_body_def OriginateOptions_Build_def Let_def demo_clock_def
      demo_cached_world_def demo_dial_def lookup_fresh IdempotencyCache_new_def
      OriginateOptions_default_def timeout_seconds_def BuildDialString_def OptionalStringToPtr_def ovars_of_def
      OriginateOptions_destroy_def call_eval_defs)


section \<open>SetVariables is all or nothing\<close>

lemma set_each_log:
  "kw_log (set_each env u vars w) = kw_log w @ map (\<lambda>(k, v). Set_variable u (c_str k) (c_str v)) vars"
proof (induction vars arbitrary: w)
  case (Cons kv vars)
  then show ?case by (cases kv) simp
qed simp

text \<open>
  SetVariables is all or nothing. When it answers OK, the session existed with a channel, the
  request had between 1 and 64 variables, all with legal and unreserved names, and FreeSWITCH was
  asked to set every one of them, in order and under the session's lock. On any other answer it was
  asked to set none, and at most the lock was taken and released.
\<close>

lemma set_variables_all_or_nothing:
  assumes "SetVariables env uuid vars w = (st, w')"
  shows "if st = Status_OK
     then (\<exists>ch. kw_sessions w (c_str uuid) = Some (Some ch)) \<and> 1 \<le> length vars \<and> length vars \<le> 64
        \<and> list_all (\<lambda>(k, v). IsValidVarName k \<and> \<not> IsReservedVar k) vars
        \<and> kw_log w' = kw_log w @ [Rdlock (c_str uuid)]
            @ map (\<lambda>(k, v). Set_variable (c_str uuid) k (c_str v)) vars
            @ [Audit ''osw.control.set_variables'' [(''uuid'', uuid), (''var_count'', decimal (length vars))],
               Rwunlock (c_str uuid)]
     else kw_sessions w' = kw_sessions w
        \<and> kw_log w' \<in> {kw_log w, kw_log w @ [Rdlock (c_str uuid), Rwunlock (c_str uuid)]}"
proof (cases "uuid = [] \<or> vars = [] \<or> kMaxVariables < length vars \<or> validate_names vars \<noteq> None")
  case True
  have "validate_names vars = Some st' \<Longrightarrow> st' \<noteq> Status_OK" for st'
    by (induction vars rule: validate_names.induct) (auto split: if_splits)
  then have "st \<noteq> Status_OK \<and> w' = w"
    using True assms by (auto simp: SetVariables_def split: if_splits option.splits)
  then show ?thesis by simp
next
  case False
  then have v: "validate_names vars = None" by blast
  have n: "1 \<le> length vars" "length vars \<le> 64" using False by (auto simp: kMaxVariables_def Suc_le_eq)
  have names: "list_all (\<lambda>(k, v). IsValidVarName k \<and> \<not> IsReservedVar k) vars"
    using validate_names_ok [OF v] by (auto simp: list_all_iff)
  then have raw: "map (\<lambda>(k, v). Set_variable u (c_str k) (c_str v)) vars
      = map (\<lambda>(k, v). Set_variable u k (c_str v)) vars" for u
    by (auto simp: list_all_iff valid_name_no_NUL)
  obtain g w1 where l: "SessionGuard_Locate uuid w = (g, w1)" by fastforce
  then show ?thesis
  proof (cases rule: Locate_cases)
    case invalid
    then show ?thesis using False assms l by (auto simp: SetVariables_def v)
  next
    case valid
    then show ?thesis
      using False assms l n names
      by (auto simp: SetVariables_def v SessionGuard_destroy_def set_each_log raw emit_def SessionLock_destroy_def
          split: option.splits)
  qed
qed

lemma set_variables_all_or_nothing_example:
  "fst (SetVariables demo_call_env ''u'' [(''lang'', ''en'')] demo_call_world) = Status_OK
   \<and> Set_variable ''u'' ''lang'' ''en'' \<in>
       set (kw_log (snd (SetVariables demo_call_env ''u'' [(''lang'', ''en'')] demo_call_world)))"
proof -
  have ok: "fst (SetVariables demo_call_env ''u'' [(''lang'', ''en'')] demo_call_world) = Status_OK"
    by (simp add: SetVariables_def kMaxVariables_def call_eval_defs)
  moreover have "c_str ''u'' = ''u''" "c_str ''en'' = ''en''" by (simp_all add: c_str_def)
  ultimately show ?thesis
    using set_variables_all_or_nothing [of demo_call_env "''u''" "[(''lang'', ''en'')]" demo_call_world
        "fst (SetVariables demo_call_env ''u'' [(''lang'', ''en'')] demo_call_world)"
        "snd (SetVariables demo_call_env ''u'' [(''lang'', ''en'')] demo_call_world)"]
    by (auto simp: prod_eq_iff)
qed

text \<open>
  Hangup is not: it sets the variables of the request one by one and stops at a reserved name, so a
  request it rejects may have changed the channel.
\<close>

lemma rejected_hangup_sets_variables:
  "fst (fst (Hangup demo_call_env
      \<lparr>hr_uuid = ''u'', hr_cause = [], hr_variables = [(''lang'', ''en''), (''osw_tenant'', ''t'')]\<rparr> demo_call_world))
     = INVALID_ARGUMENT
   \<and> Set_variable ''u'' ''lang'' ''en'' \<in>
     set (kw_log (snd (Hangup demo_call_env
      \<lparr>hr_uuid = ''u'', hr_cause = [], hr_variables = [(''lang'', ''en''), (''osw_tenant'', ''t'')]\<rparr> demo_call_world)))"
  by (simp add: Hangup_def Let_def call_eval_defs)

section \<open>The batch RPCs report what they did\<close>

definition audit_uuids :: "call_action list \<Rightarrow> string list" where
  "audit_uuids acts = List.map_filter (\<lambda>a. case a of Audit _ ((_, u) # _) \<Rightarrow> Some u | _ \<Rightarrow> None) acts"

definition hangup_uuids :: "call_action list \<Rightarrow> string list" where
  "hangup_uuids acts = List.map_filter (\<lambda>a. case a of Channel_hangup u _ \<Rightarrow> Some u | _ \<Rightarrow> None) acts"

lemma audit_uuids_simps [simp]:
  "audit_uuids [] = []" "audit_uuids (xs @ ys) = audit_uuids xs @ audit_uuids ys"
  "hangup_uuids [] = []" "hangup_uuids (xs @ ys) = hangup_uuids xs @ hangup_uuids ys"
  by (simp_all add: audit_uuids_def hangup_uuids_def List.map_filter_def)

lemma audit_uuids_single [simp]:
  "audit_uuids [Audit n ((k, u) # fs)] = [u]" "audit_uuids [Rdlock u] = []" "audit_uuids [Rwunlock u] = []"
  "audit_uuids [Hold_uuid u] = []" "audit_uuids [Unhold_uuid u] = []" "audit_uuids [Channel_hangup u c] = []"
  "hangup_uuids [Audit n fs] = []" "hangup_uuids [Rdlock u] = []" "hangup_uuids [Rwunlock u] = []"
  "hangup_uuids [Channel_hangup u c] = [u]"
  by (simp_all add: audit_uuids_def hangup_uuids_def List.map_filter_def)

definition reports :: "call_world \<Rightarrow> call_world \<Rightarrow> string list \<Rightarrow> bool" where
  "reports w w' uuids \<longleftrightarrow> (\<exists>acts. kw_log w' = kw_log w @ acts \<and> audit_uuids acts = uuids)"

lemma reports_trans: "reports w1 w2 xs \<Longrightarrow> reports w2 w3 ys \<Longrightarrow> reports w1 w3 (xs @ ys)"
  by (fastforce simp: reports_def)

lemma reports_refl [simp]: "reports w w []"
  by (simp add: reports_def)

lemma reports_step: "kw_log w' = kw_log w @ [a] \<Longrightarrow> reports w w' (audit_uuids [a])"
  by (simp add: reports_def)

lemma reports_guard:
  assumes "sg_lock g = Some u" and "reports (emit (Rdlock u) w) (snd r) xs"
  shows "reports w (snd (SessionGuard_destroy g r)) xs"
proof -
  obtain acts where "kw_log (snd r) = (kw_log w @ [Rdlock u]) @ acts" "audit_uuids acts = xs"
    using assms(2) by (auto simp: reports_def)
  moreover have "audit_uuids ([Rdlock u] @ acts @ [Rwunlock u]) = audit_uuids acts"
    unfolding audit_uuids_simps by simp
  ultimately show ?thesis
    unfolding reports_def using assms(1)
    by (intro exI [of _ "[Rdlock u] @ acts @ [Rwunlock u]"]) (simp add: SessionGuard_destroy_def)
qed

lemma guard_fst [simp]: "fst (SessionGuard_destroy g r) = fst r"
  by (simp add: SessionGuard_destroy_def)

lemma hold_one_reports:
  "reports w (snd (hold_one env uuid w)) (if fst (hold_one env uuid w) = Status_OK then [uuid] else [])"
proof (cases "uuid = []")
  case False
  obtain g w1 where l: "SessionGuard_Locate uuid w = (g, w1)" by fastforce
  then show ?thesis
  proof (cases rule: Locate_cases)
    case valid
    obtain rc w2 where f: "fs_call (Hold_uuid (c_str uuid)) (ce_hold env (c_str uuid)) w1 = (rc, w2)" by fastforce
    have t: "reports w1 w2 []" using reports_step [OF fs_call_log [OF f]] by simp
    then have "reports w1 (emit (Audit n ((k, uuid) # fs)) w2) [uuid]" for n k fs
      using reports_trans [OF t reports_step [of "emit (Audit n ((k, uuid) # fs)) w2" w2]] by simp
    then show ?thesis
      using False l valid f t by (auto simp: hold_one_def intro!: reports_guard split: option.splits)
  qed (use False l in \<open>simp add: hold_one_def\<close>)
qed (simp add: hold_one_def)

lemma unhold_one_reports:
  "reports w (snd (unhold_one env uuid w)) (if fst (unhold_one env uuid w) = Status_OK then [uuid] else [])"
proof (cases "uuid = []")
  case False
  obtain g w1 where l: "SessionGuard_Locate uuid w = (g, w1)" by fastforce
  then show ?thesis
  proof (cases rule: Locate_cases)
    case valid
    obtain rc w2 where f: "fs_call (Unhold_uuid (c_str uuid)) (ce_unhold env (c_str uuid)) w1 = (rc, w2)"
      by fastforce
    have t: "reports w1 w2 []" using reports_step [OF fs_call_log [OF f]] by simp
    then have "reports w1 (emit (Audit n ((k, uuid) # fs)) w2) [uuid]" for n k fs
      using reports_trans [OF t reports_step [of "emit (Audit n ((k, uuid) # fs)) w2" w2]] by simp
    then show ?thesis
      using False l valid f t by (auto simp: unhold_one_def intro!: reports_guard split: option.splits)
  qed (use False l in \<open>simp add: unhold_one_def\<close>)
qed (simp add: unhold_one_def)

text \<open>The loop of Hold and Unhold: the response is a prefix of the request.\<close>

lemma each_uuid_reports:
  assumes "\<And>uuid w. reports w (snd (one uuid w)) (if fst (one uuid w) = Status_OK then [uuid] else [])"
  shows "\<exists>new. fst (snd (each_uuid one uuids d w)) = d @ new \<and> prefix new uuids
    \<and> (fst (each_uuid one uuids d w) = Status_OK \<longleftrightarrow> new = uuids)
    \<and> reports w (snd (snd (each_uuid one uuids d w))) new"
proof (induction uuids arbitrary: d w)
  case (Cons uuid uuids)
  obtain st w1 where o: "one uuid w = (st, w1)" by fastforce
  have rep: "reports w w1 (if st = Status_OK then [uuid] else [])" using assms [of w uuid] o by simp
  show ?case
  proof (cases "st = Status_OK")
    case True
    obtain new where new: "fst (snd (each_uuid one uuids (d @ [uuid]) w1)) = (d @ [uuid]) @ new" "prefix new uuids"
      "fst (each_uuid one uuids (d @ [uuid]) w1) = Status_OK \<longleftrightarrow> new = uuids"
      "reports w1 (snd (snd (each_uuid one uuids (d @ [uuid]) w1))) new"
      using Cons.IH [of "d @ [uuid]" w1] by auto
    have "reports w (snd (snd (each_uuid one uuids (d @ [uuid]) w1))) ([uuid] @ new)"
      using reports_trans [OF _ new(4), of w "[uuid]"] rep True by simp
    then show ?thesis using o True new by (intro exI [of _ "uuid # new"]) auto
  next
    case False
    then show ?thesis using o rep by (intro exI [of _ "[]"]) auto
  qed
qed simp

text \<open>Channels that can still be hung up, and what FreeSWITCH does to the state of one that is.\<close>

definition live_channels :: "sessions \<Rightarrow> string set" where
  "live_channels s = {u. \<exists>ch. s u = Some (Some ch) \<and> cl_state ch < CS_HANGUP}"

definition hangup_kills :: "call_env \<Rightarrow> bool" where
  "hangup_kills env \<longleftrightarrow>
     (\<forall>u c s ch. s u = Some (Some ch) \<longrightarrow>
        (\<exists>ch'. ce_hangup env u c s = s(u \<mapsto> Some ch') \<and> CS_HANGUP \<le> cl_state ch'))"

lemma live_hangup:
  assumes "hangup_kills env" and "u \<in> live_channels s"
  shows "live_channels (ce_hangup env u c s) = live_channels s - {u}"
proof -
  obtain ch where "s u = Some (Some ch)" using assms(2) by (auto simp: live_channels_def)
  then obtain ch' where "ce_hangup env u c s = s(u \<mapsto> Some ch')" "CS_HANGUP \<le> cl_state ch'"
    using assms(1) unfolding hangup_kills_def by blast
  then show ?thesis by (auto simp: live_channels_def)
qed

lemma HangupOne_effect:
  obtains
    (hung) w' where "HangupOne env uuid cause w = (True, w')" "uuid \<noteq> []" "c_str uuid \<in> live_channels (kw_sessions w)"
      "kw_sessions w' = ce_hangup env (c_str uuid) cause (kw_sessions w)"
      "kw_log w' = kw_log w @ [Rdlock (c_str uuid), Channel_hangup (c_str uuid) cause, Rwunlock (c_str uuid)]"
  | (not_hung) w' where "HangupOne env uuid cause w = (False, w')" "uuid = [] \<or> c_str uuid \<notin> live_channels (kw_sessions w)"
      "kw_sessions w' = kw_sessions w"
      "kw_log w' \<in> {kw_log w, kw_log w @ [Rdlock (c_str uuid), Rwunlock (c_str uuid)]}"
proof (cases "uuid = []")
  case True
  then show ?thesis using not_hung [of w] by (simp add: HangupOne_def)
next
  case False
  obtain g w1 where l: "SessionGuard_Locate uuid w = (g, w1)" by fastforce
  then show ?thesis
  proof (cases rule: Locate_cases)
    case invalid
    have "kw_sessions w (c_str uuid) = None"
      using False l invalid
      by (auto simp: SessionGuard_Locate_def SessionLock_new_def SessionGuard_Valid_def SessionLock_move_def
          split: option.splits)
    then show ?thesis using False l invalid not_hung [of w] by (simp add: HangupOne_def live_channels_def)
  next
    case valid
    show ?thesis
    proof (cases "c_str uuid \<in> live_channels (kw_sessions w)")
      case True
      then obtain ch where "sg_channel g = Some ch" "cl_state ch < CS_HANGUP"
        using valid(5) by (auto simp: live_channels_def)
      then show ?thesis
        using False l valid True
        by (intro hung [of "emit (Rwunlock (c_str uuid)) (channel_hangup env (c_str uuid) cause w1)"])
           (auto simp: HangupOne_def SessionGuard_destroy_def SessionLock_destroy_def channel_hangup_def
              fs_call_def emit_def)
    next
      case dead: False
      then have "sg_channel g = None \<or> (\<exists>ch. sg_channel g = Some ch \<and> CS_HANGUP \<le> cl_state ch)"
        using valid(5) by (cases "sg_channel g") (auto simp: live_channels_def)
      then show ?thesis
        using False l valid dead
        by (intro not_hung [of "emit (Rwunlock (c_str uuid)) w1"])
           (auto simp: HangupOne_def SessionGuard_destroy_def SessionLock_destroy_def emit_def)
    qed
  qed
qed

lemma hangup_lists [simp]:
  "audit_uuids [Rdlock u, Rwunlock u] = []" "hangup_uuids [Rdlock u, Rwunlock u] = []"
  "audit_uuids [Rdlock u, Channel_hangup u c, Rwunlock u, Audit n ((k, v) # fs)] = [v]"
  "hangup_uuids [Rdlock u, Channel_hangup u c, Rwunlock u, Audit n fs] = [u]"
  by (simp_all add: audit_uuids_def hangup_uuids_def List.map_filter_def)

lemma hangup_each_effect:
  assumes "hangup_kills env"
  shows "\<exists>new acts. fst (hangup_each env cause uuids h w) = h @ new
    \<and> kw_log (snd (hangup_each env cause uuids h w)) = kw_log w @ acts
    \<and> audit_uuids acts = new \<and> hangup_uuids acts = map c_str new
    \<and> distinct (map c_str new)
    \<and> c_str ` set new = c_str ` {x \<in> set uuids. x \<noteq> []} \<inter> live_channels (kw_sessions w)"
proof (induction uuids arbitrary: h w)
  case Nil
  then show ?case by (intro exI [of _ "[]"]) simp
next
  case (Cons uuid uuids)
  show ?case
  proof (rule HangupOne_effect [of env uuid cause w])
    fix w1
    assume hung: "HangupOne env uuid cause w = (True, w1)" "uuid \<noteq> []" "c_str uuid \<in> live_channels (kw_sessions w)"
      "kw_sessions w1 = ce_hangup env (c_str uuid) cause (kw_sessions w)"
      "kw_log w1 = kw_log w @ [Rdlock (c_str uuid), Channel_hangup (c_str uuid) cause, Rwunlock (c_str uuid)]"
    define n where "n = ''osw.control.hangup''"
    define fs where "fs = [(''cause'', CallCause_ToString cause), (''via'', ''hangup_many'')]"
    let ?a = "Audit n ((''uuid'', uuid) # fs)"
    let ?w = "emit ?a w1"
    have s: "kw_sessions ?w = ce_hangup env (c_str uuid) cause (kw_sessions w)" using hung by (simp add: emit_def)
    obtain new acts where IH: "fst (hangup_each env cause uuids (h @ [uuid]) ?w) = (h @ [uuid]) @ new"
      "kw_log (snd (hangup_each env cause uuids (h @ [uuid]) ?w)) = kw_log ?w @ acts"
      "audit_uuids acts = new" "hangup_uuids acts = map c_str new" "distinct (map c_str new)"
      "c_str ` set new = c_str ` {x \<in> set uuids. x \<noteq> []} \<inter> (live_channels (kw_sessions w) - {c_str uuid})"
      using Cons.IH [of "h @ [uuid]" ?w] live_hangup [OF assms hung(3)] by (auto simp: s)
    have step: "hangup_each env cause (uuid # uuids) h w = hangup_each env cause uuids (h @ [uuid]) ?w"
      using hung(1) by (simp add: n_def fs_def)
    let ?pre = "[Rdlock (c_str uuid), Channel_hangup (c_str uuid) cause, Rwunlock (c_str uuid), ?a]"
    have "audit_uuids (?pre @ acts) = uuid # new" "hangup_uuids (?pre @ acts) = map c_str (uuid # new)"
      unfolding audit_uuids_simps hangup_lists IH(3,4) by simp_all
    moreover have "c_str ` set (uuid # new) = c_str ` {x \<in> set (uuid # uuids). x \<noteq> []} \<inter> live_channels (kw_sessions w)"
      using IH(6) hung(2,3) by auto
    moreover have "distinct (map c_str (uuid # new))" using IH(5,6) by auto
    ultimately show ?thesis
      unfolding step using IH(1,2) hung(5)
      by (intro exI [of _ "uuid # new"] exI [of _ "?pre @ acts"]) simp
  next
    fix w1
    assume not_hung: "HangupOne env uuid cause w = (False, w1)" "uuid = [] \<or> c_str uuid \<notin> live_channels (kw_sessions w)"
      "kw_sessions w1 = kw_sessions w"
      "kw_log w1 \<in> {kw_log w, kw_log w @ [Rdlock (c_str uuid), Rwunlock (c_str uuid)]}"
    obtain new acts where IH: "fst (hangup_each env cause uuids h w1) = h @ new"
      "kw_log (snd (hangup_each env cause uuids h w1)) = kw_log w1 @ acts"
      "audit_uuids acts = new" "hangup_uuids acts = map c_str new" "distinct (map c_str new)"
      "c_str ` set new = c_str ` {x \<in> set uuids. x \<noteq> []} \<inter> live_channels (kw_sessions w1)"
      using Cons.IH [of h w1] by auto
    obtain pre where pre: "kw_log w1 = kw_log w @ pre" "audit_uuids pre = []" "hangup_uuids pre = []"
      using not_hung(4) by auto
    have "c_str ` set new = c_str ` {x \<in> set (uuid # uuids). x \<noteq> []} \<inter> live_channels (kw_sessions w)"
      using IH(6) not_hung(2,3) by auto
    then show ?thesis
      using not_hung(1) IH pre by (intro exI [of _ new] exI [of _ "pre @ acts"]) simp
  qed
qed

lemma Hold_reports:
  assumes "Hold env uuids w = (st, done_uuids, w')"
  shows "prefix done_uuids uuids \<and> (st = Status_OK \<longleftrightarrow> uuids \<noteq> [] \<and> done_uuids = uuids) \<and> reports w w' done_uuids"
  using assms each_uuid_reports [of "hold_one env" uuids "[]" w, OF hold_one_reports]
  by (auto simp: Hold_def split: if_splits)

lemma Unhold_reports:
  assumes "Unhold env uuids w = (st, done_uuids, w')"
  shows "prefix done_uuids uuids \<and> (st = Status_OK \<longleftrightarrow> uuids \<noteq> [] \<and> done_uuids = uuids) \<and> reports w w' done_uuids"
  using assms each_uuid_reports [of "unhold_one env" uuids "[]" w, OF unhold_one_reports]
  by (auto simp: Unhold_def split: if_splits)

text \<open>
  The batch RPCs report what they did. HangupMany always answers OK; with a FreeSWITCH in which
  a channel that was hung up is dead, it hangs up exactly the listed channels that were live_channels, each
  once even if it is listed twice, and the response and the audit log list exactly those. Hold and
  Unhold stop at their first failure: the response and the audit log list the uuids before it, and
  the answer is OK just when that is the whole, non-empty request.
\<close>

lemma batch_rpcs_report_what_they_did:
  assumes "hangup_kills env"
  shows "(case HangupMany env uuids cause w of (st, hungup, w') \<Rightarrow>
       st = Status_OK \<and> distinct (map c_str hungup)
       \<and> c_str ` set hungup = c_str ` {x \<in> set uuids. x \<noteq> []} \<inter> live_channels (kw_sessions w)
       \<and> (\<exists>acts. kw_log w' = kw_log w @ acts \<and> audit_uuids acts = hungup \<and> hangup_uuids acts = map c_str hungup))
    \<and> (case Hold env uuids w of (st, held, w') \<Rightarrow>
       prefix held uuids \<and> (st = Status_OK \<longleftrightarrow> uuids \<noteq> [] \<and> held = uuids)
       \<and> (\<exists>acts. kw_log w' = kw_log w @ acts \<and> audit_uuids acts = held))
    \<and> (case Unhold env uuids w of (st, unheld, w') \<Rightarrow>
       prefix unheld uuids \<and> (st = Status_OK \<longleftrightarrow> uuids \<noteq> [] \<and> unheld = uuids)
       \<and> (\<exists>acts. kw_log w' = kw_log w @ acts \<and> audit_uuids acts = unheld))"
proof (intro conjI)
  show "case HangupMany env uuids cause w of (st, hungup, w') \<Rightarrow>
       st = Status_OK \<and> distinct (map c_str hungup)
       \<and> c_str ` set hungup = c_str ` {x \<in> set uuids. x \<noteq> []} \<inter> live_channels (kw_sessions w)
       \<and> (\<exists>acts. kw_log w' = kw_log w @ acts \<and> audit_uuids acts = hungup \<and> hangup_uuids acts = map c_str hungup)"
    using hangup_each_effect [OF assms, of "CallCause_FromString cause" uuids "[]" w]
    by (auto simp: HangupMany_def case_prod_unfold intro: exI [of _ "[]"])
  show "case Hold env uuids w of (st, held, w') \<Rightarrow>
       prefix held uuids \<and> (st = Status_OK \<longleftrightarrow> uuids \<noteq> [] \<and> held = uuids)
       \<and> (\<exists>acts. kw_log w' = kw_log w @ acts \<and> audit_uuids acts = held)"
    using Hold_reports [of env uuids w] by (auto simp: reports_def split: prod.split)
  show "case Unhold env uuids w of (st, unheld, w') \<Rightarrow>
       prefix unheld uuids \<and> (st = Status_OK \<longleftrightarrow> uuids \<noteq> [] \<and> unheld = uuids)
       \<and> (\<exists>acts. kw_log w' = kw_log w @ acts \<and> audit_uuids acts = unheld)"
    using Unhold_reports [of env uuids w] by (auto simp: reports_def split: prod.split)
qed

lemma batch_rpcs_report_what_they_did_example:
  "\<exists>hungup w'. HangupMany demo_call_env [''u'', ''v'', ''u''] ''USER_BUSY'' demo_call_world = (Status_OK, hungup, w')
     \<and> c_str ` set hungup = {''u''} \<and> distinct (map c_str hungup)"
proof -
  have "hangup_kills demo_call_env"
    by (auto simp: hangup_kills_def demo_call_env_def fun_eq_iff)
  moreover have "c_str ` {x \<in> set [''u'', ''v'', ''u'']. x \<noteq> []} \<inter> live_channels (kw_sessions demo_call_world) = {''u''}"
    by (auto simp: live_channels_def demo_call_world_def c_str_def CS_HANGUP_def image_iff
        intro!: exI [of _ "''u''"] split: if_splits)
  ultimately show ?thesis
    using batch_rpcs_report_what_they_did [of demo_call_env "[''u'', ''v'', ''u'']" demo_call_world "''USER_BUSY''"]
    by (auto split: prod.splits)
qed

end
