(* ===== verification/Core_Module.thy ===== *)
theory Core_Module
  imports Obs_Health Core_Validate
begin

text \<open>
  The life of the module: the state machine of \<^verbatim>\<open>src/core/lifecycle.cc\<close>, the gRPC server object of
  \<^verbatim>\<open>src/control/server.cc\<close>, and \<^verbatim>\<open>Module::Load\<close> and \<^verbatim>\<open>Module::Shutdown\<close> of
  \<^verbatim>\<open>src/core/module.cc\<close>, which build and tear down fourteen subsystems that hold raw pointers into
  each other. Load and Shutdown are scripts of steps; executing a step checks that it touches only
  live objects, so that a script that runs to its end has no dangling access.
\<close>

section \<open>Lifecycle\<close>

datatype lifecycle_state = kLoaded | kLifeServing | kLifeDraining | kStopped

record lifecycle =
  lc_state :: lifecycle_state
  lc_health :: health

text \<open>The health pointer of the module's lifecycle is never null.\<close>

definition TransitionToServing :: "lifecycle \<Rightarrow> lifecycle" where
  "TransitionToServing l =
     (let st = (if lc_state l = kLoaded then kLifeServing else lc_state l);
          h = lc_health l
      in \<lparr>lc_state = st,
          lc_health = (if h_status h = kHealthUnspecified \<or> h_status h = kServing then SetStatus kServing h else h)\<rparr>)"

definition SignalDrain :: "lifecycle \<Rightarrow> bool \<times> lifecycle" where
  "SignalDrain l =
     (if lc_state l = kLifeDraining \<or> lc_state l = kStopped then (False, l)
      else (True, \<lparr>lc_state = kLifeDraining, lc_health = SetStatus kDraining (lc_health l)\<rparr>))"

definition MarkStopped :: "lifecycle \<Rightarrow> lifecycle" where
  "MarkStopped l = \<lparr>lc_state = kStopped, lc_health = SetStatus kNotServing (lc_health l)\<rparr>"

section \<open>The gRPC server object\<close>

text \<open>
  Pointers set before \<^verbatim>\<open>Start\<close> are staged and handed to the service when it is built; the type
  \<open>'p\<close> stands for pointers. What credentials and the builder return are arguments.
\<close>

record 'p grpc_service =
  gs_cache :: "'p option"
  gs_bug_mgr :: "'p option"
  gs_streams :: "'p option"
  gs_bots :: "'p option"
  gs_config :: "'p option"
  gs_event_plane :: "('p \<times> 'p) option"

record 'p grpc_server =
  gr_service :: "'p grpc_service option"
  gr_server :: bool
  gr_worker :: bool
  gr_drained :: bool
  gr_pending_cache :: "'p option"
  gr_pending_bug_mgr :: "'p option"
  gr_pending_streams :: "'p option"
  gr_pending_bots :: "'p option"
  gr_pending_config :: "'p option"

definition GrpcServer_new :: "'p grpc_server" where
  "GrpcServer_new =
     \<lparr>gr_service = None, gr_server = False, gr_worker = False, gr_drained = False, gr_pending_cache = None,
      gr_pending_bug_mgr = None, gr_pending_streams = None, gr_pending_bots = None, gr_pending_config = None\<rparr>"

definition service_new :: "'p grpc_service" where
  "service_new = \<lparr>gs_cache = None, gs_bug_mgr = None, gs_streams = None, gs_bots = None, gs_config = None,
                  gs_event_plane = None\<rparr>"

definition GrpcServer_SetIdempotencyCache :: "'p option \<Rightarrow> 'p grpc_server \<Rightarrow> 'p grpc_server" where
  "GrpcServer_SetIdempotencyCache p g =
     g\<lparr>gr_pending_cache := p, gr_service := map_option (gs_cache_update (\<lambda>_. p)) (gr_service g)\<rparr>"

definition GrpcServer_SetMediaBugManager :: "'p option \<Rightarrow> 'p grpc_server \<Rightarrow> 'p grpc_server" where
  "GrpcServer_SetMediaBugManager p g =
     g\<lparr>gr_pending_bug_mgr := p, gr_service := map_option (gs_bug_mgr_update (\<lambda>_. p)) (gr_service g)\<rparr>"

definition GrpcServer_SetActiveMediaStreams :: "'p option \<Rightarrow> 'p grpc_server \<Rightarrow> 'p grpc_server" where
  "GrpcServer_SetActiveMediaStreams p g =
     g\<lparr>gr_pending_streams := p, gr_service := map_option (gs_streams_update (\<lambda>_. p)) (gr_service g)\<rparr>"

definition GrpcServer_SetActiveBots :: "'p option \<Rightarrow> 'p grpc_server \<Rightarrow> 'p grpc_server" where
  "GrpcServer_SetActiveBots p g =
     g\<lparr>gr_pending_bots := p, gr_service := map_option (gs_bots_update (\<lambda>_. p)) (gr_service g)\<rparr>"

definition GrpcServer_SetMediaConfig :: "'p option \<Rightarrow> 'p grpc_server \<Rightarrow> 'p grpc_server" where
  "GrpcServer_SetMediaConfig p g =
     g\<lparr>gr_pending_config := p, gr_service := map_option (gs_config_update (\<lambda>_. p)) (gr_service g)\<rparr>"

definition GrpcServer_SetEventPlane :: "'p \<Rightarrow> 'p \<Rightarrow> 'p grpc_server \<Rightarrow> 'p grpc_server" where
  "GrpcServer_SetEventPlane broadcaster rings g =
     g\<lparr>gr_service := map_option (gs_event_plane_update (\<lambda>_. Some (broadcaster, rings))) (gr_service g)\<rparr>"

definition GrpcServer_Start :: "bool \<Rightarrow> bool \<Rightarrow> 'p grpc_server \<Rightarrow> bool \<times> 'p grpc_server" where
  "GrpcServer_Start creds built g =
     (if \<not> creds then (False, g)
      else (let s0 = service_new;
                s1 = (if gr_pending_cache g \<noteq> None then s0\<lparr>gs_cache := gr_pending_cache g\<rparr> else s0);
                s2 = (if gr_pending_bug_mgr g \<noteq> None then s1\<lparr>gs_bug_mgr := gr_pending_bug_mgr g\<rparr> else s1);
                s3 = (if gr_pending_streams g \<noteq> None then s2\<lparr>gs_streams := gr_pending_streams g\<rparr> else s2);
                s4 = (if gr_pending_bots g \<noteq> None then s3\<lparr>gs_bots := gr_pending_bots g\<rparr> else s3);
                s5 = (if gr_pending_config g \<noteq> None then s4\<lparr>gs_config := gr_pending_config g\<rparr> else s4)
            in if \<not> built then (False, g\<lparr>gr_service := None, gr_server := False\<rparr>)
               else (True, g\<lparr>gr_service := Some s5, gr_server := True, gr_worker := True\<rparr>)))"

text \<open>The result tells whether the call shut the server down.\<close>

definition GrpcServer_Drain :: "'p grpc_server \<Rightarrow> bool \<times> 'p grpc_server" where
  "GrpcServer_Drain g =
     (if gr_drained g then (False, g)
      else (gr_server g, g\<lparr>gr_drained := True, gr_worker := False\<rparr>))"

section \<open>Subsystems and steps\<close>

datatype subsystem =
    S_prometheus_registry | S_health_metrics | S_rpc_metrics | S_metrics_server | S_grpc_server
  | S_idempotency_cache | S_active_media_streams | S_active_bots | S_silence_driver_registry | S_bug_manager
  | S_classifier | S_rings | S_binder | S_broadcaster

text \<open>
  \<open>Make s us\<close> constructs a subsystem with raw pointers to \<open>us\<close>, \<open>Lend s u\<close> hands \<open>s\<close> a pointer to \<open>u\<close>,
  \<open>Reset s\<close> destroys it. \<open>Start\<close> and \<open>Stop\<close> concern the four subsystems with threads or bindings;
  \<open>Stop\<close>, \<open>Reset\<close> and the drains do nothing on a null pointer. \<open>Publish\<close> is the sequence of calls
  that cannot throw from \<^verbatim>\<open>SetEventPlane\<close> to the commit of the load guard.
\<close>

datatype module_step =
    Set_pool bool
  | Install_log_sink
  | Read_config Config
  | Set_redaction
  | Set_versions string
  | Make subsystem "subsystem list"
  | Lend subsystem subsystem
  | Start subsystem
  | Stop subsystem
  | Reset subsystem
  | Link_silence bool
  | Register_hook
  | Unregister_hook
  | Drain_bots
  | Drain_silence
  | Bind_detector bool
  | Unbind_detector
  | Publish
  | Signal_drain
  | Wait_rings
  | Finish_shutdown
  | Emit_loaded

record module_state =
  mo_loaded :: bool
  mo_pool :: bool
  mo_config :: Config
  mo_lifecycle :: lifecycle
  mo_alive :: "subsystem set"
  mo_running :: "subsystem set"
  mo_refs :: "(subsystem \<times> subsystem) set"
  mo_hook :: bool
  mo_detector :: bool

definition kModuleVersion :: string where
  "kModuleVersion = ''0.1.0''"

text \<open>
  Once the server accepts RPCs, handlers store media-bug handles in the stream and bot registries
  and register streams with bots.
\<close>

definition rpc_refs :: "(subsystem \<times> subsystem) set" where
  "rpc_refs = {(S_active_media_streams, S_bug_manager), (S_active_bots, S_bug_manager),
               (S_active_bots, S_active_media_streams)}"

definition hook_refs :: "subsystem set" where
  "hook_refs = {S_active_bots, S_active_media_streams, S_bug_manager}"

text \<open>When a step touches only live objects, and destroys only stopped ones nobody points to.\<close>

fun step_ok :: "module_step \<Rightarrow> module_state \<Rightarrow> bool" where
  "step_ok (Make s us) m \<longleftrightarrow> s \<notin> mo_alive m \<and> set us \<subseteq> mo_alive m"
| "step_ok (Lend s u) m \<longleftrightarrow> s \<in> mo_alive m \<and> u \<in> mo_alive m"
| "step_ok (Start s) m \<longleftrightarrow> s \<in> mo_alive m"
| "step_ok (Reset s) m \<longleftrightarrow>
     s \<notin> mo_running m \<and> (\<forall>a. (a, s) \<in> mo_refs m \<longrightarrow> a \<notin> mo_alive m) \<and> \<not> (mo_hook m \<and> s \<in> hook_refs)"
| "step_ok (Link_silence b) m \<longleftrightarrow>
     (b \<longrightarrow> S_bug_manager \<in> mo_alive m \<and> S_silence_driver_registry \<in> mo_alive m)"
| "step_ok Register_hook m \<longleftrightarrow> hook_refs \<subseteq> mo_alive m"
| "step_ok Drain_bots m \<longleftrightarrow> (S_active_bots \<in> mo_alive m \<longrightarrow> S_active_media_streams \<in> mo_alive m)"
| "step_ok Publish m \<longleftrightarrow> {S_grpc_server, S_broadcaster, S_rings} \<subseteq> mo_alive m"
| "step_ok _ m \<longleftrightarrow> True"

fun exec_step :: "module_step \<Rightarrow> module_state \<Rightarrow> module_state" where
  "exec_step (Set_pool b) m = m\<lparr>mo_pool := b\<rparr>"
| "exec_step (Read_config c) m = m\<lparr>mo_config := c\<rparr>"
| "exec_step (Set_versions v) m =
     m\<lparr>mo_lifecycle := (mo_lifecycle m)\<lparr>lc_health := SetVersions kModuleVersion v (lc_health (mo_lifecycle m))\<rparr>\<rparr>"
| "exec_step (Make s us) m =
     m\<lparr>mo_alive := insert s (mo_alive m), mo_refs := mo_refs m \<union> Pair s ` set us\<rparr>"
| "exec_step (Lend s u) m = m\<lparr>mo_refs := insert (s, u) (mo_refs m)\<rparr>"
| "exec_step (Start s) m =
     m\<lparr>mo_running := insert s (mo_running m),
       mo_refs := (if s = S_grpc_server then mo_refs m \<union> rpc_refs else mo_refs m)\<rparr>"
| "exec_step (Stop s) m = m\<lparr>mo_running := mo_running m - {s}\<rparr>"
| "exec_step (Reset s) m =
     m\<lparr>mo_alive := mo_alive m - {s}, mo_refs := {(a, b) \<in> mo_refs m. a \<noteq> s}\<rparr>"
| "exec_step (Link_silence b) m =
     (if b then m\<lparr>mo_refs := insert (S_bug_manager, S_silence_driver_registry) (mo_refs m)\<rparr>
      else m\<lparr>mo_refs := mo_refs m - {(S_bug_manager, S_silence_driver_registry)}\<rparr>)"
| "exec_step Register_hook m = m\<lparr>mo_hook := True\<rparr>"
| "exec_step Unregister_hook m = (if S_bug_manager \<in> mo_alive m then m\<lparr>mo_hook := False\<rparr> else m)"
| "exec_step (Bind_detector b) m = m\<lparr>mo_detector := b\<rparr>"
| "exec_step Unbind_detector m = m\<lparr>mo_detector := False\<rparr>"
| "exec_step Publish m =
     m\<lparr>mo_refs := mo_refs m \<union> {(S_grpc_server, S_broadcaster), (S_grpc_server, S_rings)},
       mo_lifecycle := TransitionToServing (mo_lifecycle m), mo_loaded := True\<rparr>"
| "exec_step Signal_drain m = m\<lparr>mo_lifecycle := snd (SignalDrain (mo_lifecycle m))\<rparr>"
| "exec_step Finish_shutdown m = m\<lparr>mo_lifecycle := MarkStopped (mo_lifecycle m), mo_loaded := False\<rparr>"
| "exec_step _ m = m"

fun run_steps :: "module_step list \<Rightarrow> module_state \<Rightarrow> module_state option" where
  "run_steps [] m = Some m"
| "run_steps (s # ss) m = (if step_ok s m then run_steps ss (exec_step s m) else None)"

section \<open>Load and Shutdown\<close>

text \<open>
  What the outside decides during a load: the configuration file, the validity of the redaction
  patterns, whether the metrics port can be bound, the server started, the event binding made, the
  detector bound, and after how many steps an exception is thrown, if any.
\<close>

record load_env =
  le_parse :: xml_parser
  le_regex :: "string \<Rightarrow> string option"
  le_fs_version :: string
  le_metrics_bind :: bool
  le_grpc_start :: bool
  le_binder_init :: bool
  le_detector :: bool
  le_throw :: "nat option"

definition load_config :: "load_env \<Rightarrow> Config" where
  "load_config env = snd (LoadConfigFromFile (le_parse env))"

definition observability_steps :: "load_env \<Rightarrow> module_step list" where
  "observability_steps env =
     [Set_redaction, Set_versions (le_fs_version env), Make S_prometheus_registry [],
      Make S_health_metrics [S_prometheus_registry], Make S_rpc_metrics [S_prometheus_registry]]
     @ (if metrics_enabled (load_config env)
        then [Make S_metrics_server [S_prometheus_registry, S_health_metrics],
              if le_metrics_bind env then Start S_metrics_server else Reset S_metrics_server]
        else [])"

definition server_steps :: "module_step list" where
  "server_steps =
     [Make S_grpc_server [], Lend S_grpc_server S_rpc_metrics,
      Make S_idempotency_cache [], Lend S_grpc_server S_idempotency_cache,
      Make S_active_media_streams [], Make S_active_bots [], Make S_silence_driver_registry [],
      Make S_bug_manager [], Link_silence True, Register_hook,
      Lend S_grpc_server S_bug_manager, Lend S_grpc_server S_active_media_streams,
      Lend S_grpc_server S_active_bots]"

definition event_steps :: "module_step list" where
  "event_steps = [Make S_classifier [], Make S_rings [], Make S_binder [S_rings, S_classifier]]"

definition publish_steps :: "load_env \<Rightarrow> module_step list" where
  "publish_steps env =
     [Start S_binder, Bind_detector (le_detector env), Make S_broadcaster [S_rings], Start S_broadcaster,
      Publish, Emit_loaded]"

text \<open>The steps of a load without an exception, and its result.\<close>

definition load_script :: "load_env \<Rightarrow> module_step list \<times> bool" where
  "load_script env =
     (let start = [Set_pool True, Install_log_sink, Read_config (load_config env)]
      in if Validate (le_regex env) (load_config env) \<noteq> Ok then (start, False)
         else if \<not> le_grpc_start env then (start @ observability_steps env @ server_steps, False)
         else if \<not> le_binder_init env
         then (start @ observability_steps env @ server_steps @ [Start S_grpc_server] @ event_steps, False)
         else (start @ observability_steps env @ server_steps @ [Start S_grpc_server] @ event_steps
                 @ publish_steps env, True))"

text \<open>The destructor of the load guard.\<close>

definition guard_script :: "module_step list" where
  "guard_script =
     [Stop S_broadcaster, Reset S_broadcaster, Unbind_detector, Stop S_binder, Reset S_binder, Reset S_rings,
      Reset S_classifier, Stop S_metrics_server, Reset S_metrics_server, Stop S_grpc_server, Reset S_grpc_server,
      Reset S_idempotency_cache, Unregister_hook, Drain_bots, Reset S_active_bots, Reset S_active_media_streams,
      Link_silence False, Drain_silence, Reset S_silence_driver_registry, Reset S_bug_manager,
      Reset S_rpc_metrics, Reset S_health_metrics, Reset S_prometheus_registry, Set_pool False]"

definition executed :: "load_env \<Rightarrow> module_step list" where
  "executed env = (case le_throw env of Some n \<Rightarrow> take n (fst (load_script env)) | None \<Rightarrow> fst (load_script env))"

definition Module_Load :: "load_env \<Rightarrow> module_state \<Rightarrow> (bool \<times> module_state) option" where
  "Module_Load env m =
     (if mo_loaded m then Some (True, m)
      else (case run_steps (executed env) m of
              None \<Rightarrow> None
            | Some m1 \<Rightarrow>
                if Publish \<in> set (executed env)
                then Some (snd (load_script env) \<and> executed env = fst (load_script env), m1)
                else map_option (\<lambda>m2. (False, m2)) (run_steps guard_script m1)))"

definition shutdown_script :: "module_step list" where
  "shutdown_script =
     [Signal_drain, Unbind_detector, Stop S_binder, Wait_rings, Stop S_broadcaster,
      Stop S_metrics_server, Reset S_metrics_server, Stop S_grpc_server, Reset S_grpc_server,
      Reset S_broadcaster, Reset S_binder, Reset S_rings, Reset S_classifier, Reset S_idempotency_cache,
      Unregister_hook, Drain_bots, Reset S_active_bots, Reset S_active_media_streams, Link_silence False,
      Drain_silence, Reset S_silence_driver_registry, Reset S_bug_manager, Reset S_rpc_metrics,
      Reset S_health_metrics, Reset S_prometheus_registry, Finish_shutdown]"

text \<open>\<open>throw\<close> is the number of steps before an exception.\<close>

definition Module_Shutdown :: "nat option \<Rightarrow> module_state \<Rightarrow> (bool \<times> module_state) option" where
  "Module_Shutdown throw m =
     (if \<not> mo_loaded m then Some (True, m)
      else (case throw of
              None \<Rightarrow> map_option (Pair True) (run_steps shutdown_script m)
            | Some n \<Rightarrow>
                map_option (Pair (length shutdown_script \<le> n)) (run_steps (take n shutdown_script) m)))"

definition Module_new :: "Config \<Rightarrow> module_state" where
  "Module_new cfg =
     \<lparr>mo_loaded = False, mo_pool = False, mo_config = cfg,
      mo_lifecycle = \<lparr>lc_state = kLoaded, lc_health = Health_new\<rparr>, mo_alive = {}, mo_running = {}, mo_refs = {},
      mo_hook = False, mo_detector = False\<rparr>"

text \<open>The entry points of \<^verbatim>\<open>src/mod_open_switch.cc\<close>: \<open>iface\<close> is whether the interface could be allocated.\<close>

definition mod_open_switch_load :: "bool \<Rightarrow> load_env \<Rightarrow> module_state \<Rightarrow> (bool \<times> module_state) option" where
  "mod_open_switch_load iface env m = (if \<not> iface then Some (False, m) else Module_Load env m)"

definition mod_open_switch_shutdown :: "nat option \<Rightarrow> module_state \<Rightarrow> (bool \<times> module_state) option" where
  "mod_open_switch_shutdown throw m = Module_Shutdown throw m"

datatype module_call = Call_load bool load_env | Call_shutdown "nat option"

fun module_calls :: "module_call list \<Rightarrow> module_state \<Rightarrow> module_state option" where
  "module_calls [] m = Some m"
| "module_calls (Call_load iface env # cs) m =
     (case mod_open_switch_load iface env m of Some (_, m') \<Rightarrow> module_calls cs m' | None \<Rightarrow> None)"
| "module_calls (Call_shutdown t # cs) m =
     (case mod_open_switch_shutdown t m of Some (_, m') \<Rightarrow> module_calls cs m' | None \<Rightarrow> None)"

section \<open>Teardown order\<close>

text \<open>The pointers a subsystem may hold: before the load is published, and the two it adds.\<close>

definition static_refs :: "(subsystem \<times> subsystem) set" where
  "static_refs =
     {(S_health_metrics, S_prometheus_registry), (S_rpc_metrics, S_prometheus_registry),
      (S_metrics_server, S_prometheus_registry), (S_metrics_server, S_health_metrics),
      (S_grpc_server, S_rpc_metrics), (S_grpc_server, S_idempotency_cache), (S_grpc_server, S_bug_manager),
      (S_grpc_server, S_active_media_streams), (S_grpc_server, S_active_bots),
      (S_bug_manager, S_silence_driver_registry), (S_active_media_streams, S_bug_manager),
      (S_active_bots, S_bug_manager), (S_active_bots, S_active_media_streams),
      (S_binder, S_rings), (S_binder, S_classifier), (S_broadcaster, S_rings)}"

definition plane_refs :: "(subsystem \<times> subsystem) set" where
  "plane_refs = {(S_grpc_server, S_broadcaster), (S_grpc_server, S_rings)}"

definition threaded :: "subsystem set" where
  "threaded = {S_metrics_server, S_grpc_server, S_binder, S_broadcaster}"

definition module_inv :: "module_state \<Rightarrow> bool" where
  "module_inv m \<longleftrightarrow>
     mo_refs m \<subseteq> (if mo_loaded m then static_refs \<union> plane_refs else static_refs)
     \<and> mo_refs m \<subseteq> mo_alive m \<times> mo_alive m
     \<and> mo_running m \<subseteq> mo_alive m \<inter> threaded
     \<and> (mo_hook m \<longrightarrow> hook_refs \<subseteq> mo_alive m)
     \<and> (S_active_bots \<in> mo_alive m \<longrightarrow> S_active_media_streams \<in> mo_alive m)"

definition module_clean :: "module_state \<Rightarrow> bool" where
  "module_clean m \<longleftrightarrow>
     \<not> mo_loaded m \<and> mo_alive m = {} \<and> mo_running m = {} \<and> mo_refs m = {} \<and> \<not> mo_hook m \<and> \<not> mo_detector m"

text \<open>Every step of a script is safe and keeps the invariant.\<close>

fun keeps_inv :: "module_step list \<Rightarrow> module_state \<Rightarrow> bool" where
  "keeps_inv [] m \<longleftrightarrow> module_inv m"
| "keeps_inv (s # ss) m \<longleftrightarrow> module_inv m \<and> step_ok s m \<and> keeps_inv ss (exec_step s m)"

lemma keeps_inv_append: "keeps_inv (xs @ ys) m \<longleftrightarrow> keeps_inv xs m \<and> keeps_inv ys (fold exec_step xs m)"
proof (induction xs arbitrary: m)
  case Nil
  then show ?case by (cases ys) auto
qed simp

lemma keeps_inv_run: "keeps_inv ss m \<Longrightarrow> run_steps ss m = Some (fold exec_step ss m) \<and> module_inv (fold exec_step ss m)"
  by (induction ss arbitrary: m) auto

lemma keeps_inv_take: "keeps_inv ss m \<Longrightarrow> keeps_inv (take n ss) m"
  using keeps_inv_append [of "take n ss" "drop n ss" m] by simp

text \<open>
  A checker for teardown scripts on the pointers alone. \<open>D\<close> are the subsystems already destroyed, \<open>T\<close>
  those already stopped, \<open>off\<close> tells that the channel hook is unregistered and \<open>unl\<close> that the bug
  manager has dropped its silence registry. A subsystem may be destroyed when it is stopped and
  everything that may point to it is gone.
\<close>

definition may_refs :: "bool \<Rightarrow> (subsystem \<times> subsystem) set" where
  "may_refs ld = (if ld then static_refs \<union> plane_refs else static_refs)"

fun teardown_ok ::
  "bool \<Rightarrow> module_step list \<Rightarrow> subsystem set \<Rightarrow> subsystem set \<Rightarrow> bool \<Rightarrow> bool \<Rightarrow> bool" where
  "teardown_ok ld [] D T off unl \<longleftrightarrow> True"
| "teardown_ok ld (Reset s # ss) D T off unl \<longleftrightarrow>
     (s \<in> threaded \<longrightarrow> s \<in> T)
     \<and> (\<forall>(a, b) \<in> may_refs ld. b = s \<longrightarrow> a \<in> D \<or> (unl \<and> a = S_bug_manager \<and> b = S_silence_driver_registry))
     \<and> (s \<in> hook_refs \<longrightarrow> off) \<and> (s = S_active_media_streams \<longrightarrow> S_active_bots \<in> D)
     \<and> teardown_ok ld ss (insert s D) T off unl"
| "teardown_ok ld (Stop s # ss) D T off unl \<longleftrightarrow> teardown_ok ld ss D (insert s T) off unl"
| "teardown_ok ld (Unregister_hook # ss) D T off unl \<longleftrightarrow> teardown_ok ld ss D T True unl"
| "teardown_ok ld (Link_silence b # ss) D T off unl \<longleftrightarrow> \<not> b \<and> teardown_ok ld ss D T off True"
| "teardown_ok ld (Finish_shutdown # ss) D T off unl \<longleftrightarrow> S_grpc_server \<in> D \<and> teardown_ok False ss D T off unl"
| "teardown_ok ld (Make _ _ # ss) D T off unl \<longleftrightarrow> False"
| "teardown_ok ld (Lend _ _ # ss) D T off unl \<longleftrightarrow> False"
| "teardown_ok ld (Start _ # ss) D T off unl \<longleftrightarrow> False"
| "teardown_ok ld (Register_hook # ss) D T off unl \<longleftrightarrow> False"
| "teardown_ok ld (Publish # ss) D T off unl \<longleftrightarrow> False"
| "teardown_ok ld (_ # ss) D T off unl \<longleftrightarrow> teardown_ok ld ss D T off unl"

definition torn :: "bool \<Rightarrow> subsystem set \<Rightarrow> subsystem set \<Rightarrow> bool \<Rightarrow> bool \<Rightarrow> module_state \<Rightarrow> bool" where
  "torn ld D T off unl m \<longleftrightarrow>
     mo_loaded m = ld \<and> D \<inter> mo_alive m = {} \<and> T \<inter> mo_running m = {} \<and> (off \<longrightarrow> \<not> mo_hook m)
     \<and> (unl \<longrightarrow> (S_bug_manager, S_silence_driver_registry) \<notin> mo_refs m)"

lemma inv_refs: "module_inv m \<Longrightarrow> mo_refs m \<subseteq> may_refs (mo_loaded m)"
  by (auto simp: module_inv_def may_refs_def split: if_splits)

lemma inv_Reset:
  assumes "module_inv m" and "torn ld D T off unl m" and "s \<in> threaded \<longrightarrow> s \<in> T"
    and edges: "\<forall>(a, b) \<in> may_refs ld. b = s \<longrightarrow> a \<in> D \<or> (unl \<and> a = S_bug_manager \<and> b = S_silence_driver_registry)"
    and "s \<in> hook_refs \<longrightarrow> off" and "s = S_active_media_streams \<longrightarrow> S_active_bots \<in> D"
  shows "step_ok (Reset s) m \<and> module_inv (exec_step (Reset s) m) \<and> torn ld (insert s D) T off unl (exec_step (Reset s) m)"
proof -
  have refs: "(a, s) \<notin> mo_refs m" for a
  proof
    assume a: "(a, s) \<in> mo_refs m"
    then have "(a, s) \<in> may_refs ld" "a \<in> mo_alive m"
      using inv_refs [OF assms(1)] assms(1,2) by (auto simp: torn_def module_inv_def)
    with edges have "a \<in> D \<or> (unl \<and> a = S_bug_manager \<and> s = S_silence_driver_registry)" by fast
    then show False using a \<open>a \<in> mo_alive m\<close> assms(2) by (auto simp: torn_def)
  qed
  have "s \<notin> mo_running m" using assms(1-3) by (auto simp: module_inv_def torn_def)
  moreover have "\<not> (mo_hook m \<and> s \<in> hook_refs)" using assms(2,5) by (auto simp: torn_def)
  ultimately have ok: "step_ok (Reset s) m" using refs by auto
  have inv: "mo_refs m \<subseteq> mo_alive m \<times> mo_alive m" "mo_running m \<subseteq> mo_alive m \<inter> threaded"
    "mo_hook m \<longrightarrow> hook_refs \<subseteq> mo_alive m"
    "S_active_bots \<in> mo_alive m \<longrightarrow> S_active_media_streams \<in> mo_alive m"
    using assms(1) by (auto simp: module_inv_def)
  have "{(a, b) \<in> mo_refs m. a \<noteq> s} \<subseteq> (mo_alive m - {s}) \<times> (mo_alive m - {s})"
    using inv(1) refs by blast
  moreover have "{(a, b) \<in> mo_refs m. a \<noteq> s} \<subseteq> may_refs (mo_loaded m)" using inv_refs [OF assms(1)] by blast
  moreover have "mo_running m \<subseteq> (mo_alive m - {s}) \<inter> threaded" using inv(2) \<open>s \<notin> mo_running m\<close> by blast
  moreover have "mo_hook m \<longrightarrow> hook_refs \<subseteq> mo_alive m - {s}"
    using inv(3) \<open>\<not> (mo_hook m \<and> s \<in> hook_refs)\<close> by blast
  moreover have "S_active_bots \<in> mo_alive m - {s} \<longrightarrow> S_active_media_streams \<in> mo_alive m - {s}"
    using inv(4) assms(2,6) by (auto simp: torn_def)
  ultimately have "module_inv (exec_step (Reset s) m)" by (simp add: module_inv_def may_refs_def)
  moreover have "torn ld (insert s D) T off unl (exec_step (Reset s) m)"
    using assms(2) by (auto simp: torn_def)
  ultimately show ?thesis using ok by blast
qed

lemma module_frame:
  assumes "mo_alive m' = mo_alive m" "mo_running m' = mo_running m" "mo_refs m' = mo_refs m"
    "mo_hook m' = mo_hook m" "mo_loaded m' = mo_loaded m"
  shows "module_inv m' = module_inv m" "torn ld D T off unl m' = torn ld D T off unl m"
  by (simp_all only: assms module_inv_def torn_def)

lemma inv_Stop:
  assumes "module_inv m" and "torn ld D T off unl m"
  shows "module_inv (exec_step (Stop s) m) \<and> torn ld D (insert s T) off unl (exec_step (Stop s) m)"
proof -
  have "mo_running m - {s} \<subseteq> mo_alive m \<inter> threaded" using assms(1) by (auto simp: module_inv_def)
  then show ?thesis using assms by (simp add: module_inv_def torn_def) blast
qed

lemma inv_Unregister:
  assumes "module_inv m" and "torn ld D T off unl m"
  shows "module_inv (exec_step Unregister_hook m) \<and> torn ld D T True unl (exec_step Unregister_hook m)"
proof (cases "S_bug_manager \<in> mo_alive m")
  case True
  then show ?thesis using assms by (simp add: module_inv_def torn_def)
next
  case False
  then have "\<not> mo_hook m" using assms(1) by (auto simp: module_inv_def hook_refs_def)
  then show ?thesis using False assms by (simp add: torn_def)
qed

lemma inv_Unlink:
  assumes "module_inv m" and "torn ld D T off unl m"
  shows "module_inv (exec_step (Link_silence False) m) \<and> torn ld D T off True (exec_step (Link_silence False) m)"
proof -
  have "mo_refs m - {(S_bug_manager, S_silence_driver_registry)} \<subseteq> mo_alive m \<times> mo_alive m"
    "mo_refs m - {(S_bug_manager, S_silence_driver_registry)} \<subseteq> may_refs (mo_loaded m)"
    using assms(1) inv_refs [OF assms(1)] by (auto simp: module_inv_def)
  then show ?thesis using assms by (simp add: module_inv_def torn_def may_refs_def)
qed

lemma inv_Finish:
  assumes "module_inv m" and "torn ld D T off unl m" and "S_grpc_server \<in> D"
  shows "module_inv (exec_step Finish_shutdown m) \<and> torn False D T off unl (exec_step Finish_shutdown m)"
proof -
  have "S_grpc_server \<notin> mo_alive m" using assms(2,3) by (auto simp: torn_def)
  moreover have "mo_refs m \<subseteq> mo_alive m \<times> mo_alive m" using assms(1) by (simp add: module_inv_def)
  ultimately have "mo_refs m \<inter> plane_refs = {}" by (auto simp: plane_refs_def)
  then have "mo_refs m \<subseteq> static_refs" using inv_refs [OF assms(1)] by (auto simp: may_refs_def split: if_splits)
  then show ?thesis using assms by (simp add: module_inv_def torn_def)
qed

lemma teardown_step:
  assumes ok: "teardown_ok ld (s # ss) D T off unl" and inv: "module_inv m" and torn: "torn ld D T off unl m"
  shows "step_ok s m \<and> module_inv (exec_step s m)
    \<and> (\<exists>ld' D' T' off' unl'. teardown_ok ld' ss D' T' off' unl' \<and> torn ld' D' T' off' unl' (exec_step s m))"
proof (cases s)
  case (Reset x)
  from ok Reset have c: "x \<in> threaded \<longrightarrow> x \<in> T"
    "\<forall>(a, b) \<in> may_refs ld. b = x \<longrightarrow> a \<in> D \<or> (unl \<and> a = S_bug_manager \<and> b = S_silence_driver_registry)"
    "x \<in> hook_refs \<longrightarrow> off" "x = S_active_media_streams \<longrightarrow> S_active_bots \<in> D"
    "teardown_ok ld ss (insert x D) T off unl"
    by simp_all
  from inv_Reset [OF inv torn c(1-4)] c(5) show ?thesis unfolding Reset by blast
next
  case (Stop x)
  then show ?thesis using inv_Stop [OF inv torn, of x] ok by (simp del: exec_step.simps) blast
next
  case Unregister_hook
  then show ?thesis using inv_Unregister [OF inv torn] ok by (simp del: exec_step.simps) blast
next
  case (Link_silence b)
  then have "\<not> b" using ok by simp
  then show ?thesis using Link_silence inv_Unlink [OF inv torn] ok by (simp del: exec_step.simps) blast
next
  case Finish_shutdown
  then show ?thesis using inv_Finish [OF inv torn] ok by (simp del: exec_step.simps) blast
next
  case Drain_bots
  have "S_active_bots \<in> mo_alive m \<longrightarrow> S_active_media_streams \<in> mo_alive m" using inv by (simp add: module_inv_def)
  then show ?thesis using Drain_bots ok inv torn by simp blast
qed (use ok inv torn in \<open>simp_all add: module_frame [of "m\<lparr>mo_pool := _\<rparr>" m] module_frame [of "m\<lparr>mo_config := _\<rparr>" m]
     module_frame [of "m\<lparr>mo_lifecycle := _\<rparr>" m] module_frame [of "m\<lparr>mo_detector := _\<rparr>" m]\<close>, blast+)

lemma teardown_ok_sound:
  "teardown_ok ld ss D T off unl \<Longrightarrow> module_inv m \<Longrightarrow> torn ld D T off unl m \<Longrightarrow> keeps_inv ss m"
proof (induction ss arbitrary: ld D T off unl m)
  case (Cons s ss)
  from teardown_step [OF Cons.prems] Cons.IH Cons.prems(2) show ?case by auto
qed simp

lemma teardown_alive:
  "teardown_ok ld ss D T off unl \<Longrightarrow> mo_alive (fold exec_step ss m) = mo_alive m - {s. Reset s \<in> set ss}"
proof (induction ss arbitrary: ld D T off unl m)
  case (Cons s ss)
  have step: "mo_alive (exec_step s m) = mo_alive m - {x. s = Reset x}"
    using Cons.prems by (cases s) simp_all
  have "\<exists>ld D T off unl. teardown_ok ld ss D T off unl"
    using Cons.prems by (cases s) (simp_all, blast+)
  then have "mo_alive (fold exec_step ss (exec_step s m)) = mo_alive (exec_step s m) - {s. Reset s \<in> set ss}"
    using Cons.IH by blast
  then show ?case using step by auto
qed simp

lemma loaded_kept: "Publish \<notin> set ss \<Longrightarrow> Finish_shutdown \<notin> set ss \<Longrightarrow> mo_loaded (fold exec_step ss m) = mo_loaded m"
proof (induction ss arbitrary: m)
  case (Cons s ss)
  have "mo_loaded (exec_step s m) = mo_loaded m" using Cons.prems by (cases s) simp_all
  then show ?case using Cons by simp
qed simp

lemma detector_kept: "Bind_detector True \<notin> set ss \<Longrightarrow> \<not> mo_detector m \<Longrightarrow> \<not> mo_detector (fold exec_step ss m)"
proof (induction ss arbitrary: m)
  case (Cons s ss)
  have "\<not> mo_detector (exec_step s m)" using Cons.prems by (cases s) simp_all
  then show ?case using Cons by simp
qed simp

lemma clean_when_empty:
  "module_inv m \<Longrightarrow> mo_alive m = {} \<Longrightarrow> \<not> mo_loaded m \<Longrightarrow> \<not> mo_detector m \<Longrightarrow> module_clean m"
  by (auto simp: module_inv_def module_clean_def hook_refs_def)

lemma subsystem_UNIV:
  "s \<in> {S_prometheus_registry, S_health_metrics, S_rpc_metrics, S_metrics_server, S_grpc_server, S_idempotency_cache,
        S_active_media_streams, S_active_bots, S_silence_driver_registry, S_bug_manager, S_classifier, S_rings,
        S_binder, S_broadcaster}"
  by (cases s) simp_all

lemmas teardown_sets = static_refs_def plane_refs_def may_refs_def threaded_def hook_refs_def

lemma guard_teardown: "teardown_ok False guard_script {} {} False False"
  by (simp add: guard_script_def teardown_sets)

lemma shutdown_teardown: "teardown_ok True shutdown_script {} {} False False"
  by (simp add: shutdown_script_def teardown_sets)

lemma guard_resets: "Reset s \<in> set guard_script"
  using subsystem_UNIV [of s] by (auto simp: guard_script_def)

lemma shutdown_resets: "Reset s \<in> set shutdown_script"
  using subsystem_UNIV [of s] by (auto simp: shutdown_script_def)

lemma detector_unbound:
  assumes "Bind_detector True \<notin> set ss" and "Unbind_detector \<in> set ss"
  shows "\<not> mo_detector (fold exec_step ss m)"
proof -
  from split_list [OF assms(2)] obtain xs ys where ss: "ss = xs @ Unbind_detector # ys" by blast
  then show ?thesis using assms(1) detector_kept [of ys "exec_step Unbind_detector (fold exec_step xs m)"] by simp
qed

lemma guard_script_steps:
  "Publish \<notin> set guard_script" "Finish_shutdown \<notin> set guard_script" "Bind_detector True \<notin> set guard_script"
  "Unbind_detector \<in> set guard_script"
  by (simp_all add: guard_script_def)

lemma shutdown_script_steps:
  "Bind_detector True \<notin> set shutdown_script" "Unbind_detector \<in> set shutdown_script"
  "last shutdown_script = Finish_shutdown" "shutdown_script \<noteq> []"
  by (simp_all add: shutdown_script_def)

lemma shutdown_last:
  "fold exec_step shutdown_script m = exec_step Finish_shutdown (fold exec_step (butlast shutdown_script) m)"
proof -
  have "shutdown_script = butlast shutdown_script @ [Finish_shutdown]"
    using append_butlast_last_id [OF shutdown_script_steps(4)] shutdown_script_steps(3) by simp
  then show ?thesis by (metis fold_append fold_simps comp_apply)
qed

lemma shutdown_unloads: "\<not> mo_loaded (fold exec_step shutdown_script m)"
  unfolding shutdown_last by simp

lemma guard_cleans:
  assumes "module_inv m" and "\<not> mo_loaded m"
  shows "\<exists>m'. run_steps guard_script m = Some m' \<and> module_clean m'"
proof -
  have "torn False {} {} False False m" using assms(2) by (simp add: torn_def)
  from keeps_inv_run [OF teardown_ok_sound [OF guard_teardown assms(1) this]]
  have "run_steps guard_script m = Some (fold exec_step guard_script m)" "module_inv (fold exec_step guard_script m)"
    by simp_all
  moreover have "mo_alive (fold exec_step guard_script m) = {}"
    unfolding teardown_alive [OF guard_teardown] using guard_resets by auto
  moreover have "\<not> mo_loaded (fold exec_step guard_script m)"
    using loaded_kept [OF guard_script_steps(1,2)] assms(2) by simp
  ultimately show ?thesis using clean_when_empty detector_unbound [OF guard_script_steps(3,4)] by blast
qed

lemma shutdown_cleans:
  assumes "module_inv m" and "mo_loaded m"
  shows "\<exists>m'. run_steps shutdown_script m = Some m' \<and> module_clean m'"
proof -
  have "torn True {} {} False False m" using assms(2) by (simp add: torn_def)
  from keeps_inv_run [OF teardown_ok_sound [OF shutdown_teardown assms(1) this]]
  have "run_steps shutdown_script m = Some (fold exec_step shutdown_script m)"
    "module_inv (fold exec_step shutdown_script m)" by simp_all
  moreover have "mo_alive (fold exec_step shutdown_script m) = {}"
    unfolding teardown_alive [OF shutdown_teardown] using shutdown_resets by auto
  ultimately show ?thesis
    using clean_when_empty detector_unbound [OF shutdown_script_steps(1,2)] shutdown_unloads by blast
qed

lemma partial_shutdown:
  assumes "module_inv m" and "mo_loaded m"
  shows "\<exists>m'. run_steps (take n shutdown_script) m = Some m' \<and> module_inv m'"
proof -
  have "torn True {} {} False False m" using assms(2) by (simp add: torn_def)
  from keeps_inv_run [OF keeps_inv_take [OF teardown_ok_sound [OF shutdown_teardown assms(1) this]]]
  show ?thesis by blast
qed

section \<open>Construction order\<close>

text \<open>
  The same for a load: \<open>A\<close> are the subsystems alive, \<open>R\<close> those started. A subsystem is constructed once,
  from live ones, and the server accepts RPCs only when everything the handlers store pointers to is there.
\<close>

fun build_ok :: "bool \<Rightarrow> module_step list \<Rightarrow> subsystem set \<Rightarrow> subsystem set \<Rightarrow> bool" where
  "build_ok ld [] A R \<longleftrightarrow> True"
| "build_ok ld (Make s us # ss) A R \<longleftrightarrow>
     s \<notin> A \<and> set us \<subseteq> A \<and> Pair s ` set us \<subseteq> static_refs \<and> (s = S_active_bots \<longrightarrow> S_active_media_streams \<in> A)
     \<and> build_ok ld ss (insert s A) R"
| "build_ok ld (Lend s u # ss) A R \<longleftrightarrow> s \<in> A \<and> u \<in> A \<and> (s, u) \<in> static_refs \<and> build_ok ld ss A R"
| "build_ok ld (Start s # ss) A R \<longleftrightarrow>
     s \<in> A \<and> s \<in> threaded \<and> (s = S_grpc_server \<longrightarrow> hook_refs \<subseteq> A) \<and> build_ok ld ss A (insert s R)"
| "build_ok ld (Reset s # ss) A R \<longleftrightarrow>
     s \<notin> R \<and> s \<notin> hook_refs \<and> s \<notin> snd ` (static_refs \<union> plane_refs) \<and> build_ok ld ss (A - {s}) R"
| "build_ok ld (Link_silence b # ss) A R \<longleftrightarrow>
     b \<and> S_bug_manager \<in> A \<and> S_silence_driver_registry \<in> A \<and> build_ok ld ss A R"
| "build_ok ld (Register_hook # ss) A R \<longleftrightarrow> hook_refs \<subseteq> A \<and> build_ok ld ss A R"
| "build_ok ld (Publish # ss) A R \<longleftrightarrow> {S_grpc_server, S_broadcaster, S_rings} \<subseteq> A \<and> build_ok True ss A R"
| "build_ok ld (Stop _ # ss) A R \<longleftrightarrow> False"
| "build_ok ld (Unregister_hook # ss) A R \<longleftrightarrow> False"
| "build_ok ld (Drain_bots # ss) A R \<longleftrightarrow> False"
| "build_ok ld (Finish_shutdown # ss) A R \<longleftrightarrow> False"
| "build_ok ld (_ # ss) A R \<longleftrightarrow> build_ok ld ss A R"

definition built :: "bool \<Rightarrow> subsystem set \<Rightarrow> subsystem set \<Rightarrow> module_state \<Rightarrow> bool" where
  "built ld A R m \<longleftrightarrow> mo_loaded m = ld \<and> mo_alive m = A \<and> mo_running m = R"

lemma built_frame:
  assumes "mo_alive m' = mo_alive m" "mo_running m' = mo_running m" "mo_loaded m' = mo_loaded m"
  shows "built ld A R m' = built ld A R m"
  by (simp only: assms built_def)

lemma inv_Make:
  assumes "module_inv m" and "s \<notin> mo_alive m" and "set us \<subseteq> mo_alive m" and "Pair s ` set us \<subseteq> static_refs"
    and "s = S_active_bots \<longrightarrow> S_active_media_streams \<in> mo_alive m"
  shows "module_inv (exec_step (Make s us) m)"
proof -
  have "mo_refs m \<union> Pair s ` set us \<subseteq> insert s (mo_alive m) \<times> insert s (mo_alive m)"
    using assms(1,3) by (auto simp: module_inv_def)
  moreover have "mo_refs m \<union> Pair s ` set us \<subseteq> may_refs (mo_loaded m)"
    using inv_refs [OF assms(1)] assms(4) by (auto simp: may_refs_def)
  moreover have "mo_running m \<subseteq> insert s (mo_alive m) \<inter> threaded" "mo_hook m \<longrightarrow> hook_refs \<subseteq> insert s (mo_alive m)"
    "S_active_bots \<in> insert s (mo_alive m) \<longrightarrow> S_active_media_streams \<in> insert s (mo_alive m)"
    using assms(1,5) by (auto simp: module_inv_def)
  ultimately show ?thesis by (simp add: module_inv_def may_refs_def)
qed

lemma inv_add_refs:
  assumes "module_inv m" and "X \<subseteq> mo_alive m \<times> mo_alive m" and "X \<subseteq> may_refs (mo_loaded m)"
  shows "module_inv (m\<lparr>mo_refs := mo_refs m \<union> X\<rparr>)"
proof -
  have "mo_refs m \<union> X \<subseteq> mo_alive m \<times> mo_alive m" using assms(1,2) by (simp add: module_inv_def)
  moreover have "mo_refs m \<union> X \<subseteq> may_refs (mo_loaded m)" using inv_refs [OF assms(1)] assms(3) by blast
  ultimately show ?thesis using assms(1) by (simp add: module_inv_def may_refs_def)
qed

lemma inv_Start:
  assumes "module_inv m" and "s \<in> mo_alive m" "s \<in> threaded" and "s = S_grpc_server \<longrightarrow> hook_refs \<subseteq> mo_alive m"
  shows "module_inv (exec_step (Start s) m)"
proof -
  let ?X = "if s = S_grpc_server then rpc_refs else {}"
  have "?X \<subseteq> mo_alive m \<times> mo_alive m" using assms(4) by (auto simp: rpc_refs_def hook_refs_def)
  moreover have "?X \<subseteq> may_refs (mo_loaded m)" by (simp add: rpc_refs_def may_refs_def static_refs_def)
  ultimately have "module_inv (m\<lparr>mo_refs := mo_refs m \<union> ?X\<rparr>)" using inv_add_refs [OF assms(1)] by blast
  then show ?thesis using assms(2,3) by (simp add: module_inv_def split: if_splits)
qed

lemma inv_Unref_reset:
  assumes "module_inv m" and "s \<notin> mo_running m" "s \<notin> hook_refs" "s \<notin> snd ` (static_refs \<union> plane_refs)"
  shows "step_ok (Reset s) m \<and> module_inv (exec_step (Reset s) m)"
proof -
  have "s \<noteq> S_active_media_streams" using assms(3) by (auto simp: hook_refs_def)
  moreover have "torn (mo_loaded m) {} {s} False False m" using assms(2) by (simp add: torn_def)
  moreover have "\<forall>(a, b) \<in> may_refs (mo_loaded m). b = s \<longrightarrow> a \<in> {} \<or> (False \<and> a = S_bug_manager \<and> b = S_silence_driver_registry)"
    using assms(4) by (force simp: may_refs_def split: if_splits)
  ultimately show ?thesis using inv_Reset [OF assms(1), of "mo_loaded m" "{}" "{s}" False False s] assms(3) by simp
qed

lemma inv_Publish:
  assumes "module_inv m" and "{S_grpc_server, S_broadcaster, S_rings} \<subseteq> mo_alive m"
  shows "module_inv (exec_step Publish m)"
proof -
  have "module_inv (m\<lparr>mo_loaded := True\<rparr>)" using assms(1) by (auto simp: module_inv_def split: if_splits)
  from inv_add_refs [OF this, of plane_refs] assms(2)
  have "module_inv (m\<lparr>mo_loaded := True, mo_refs := mo_refs m \<union> plane_refs\<rparr>)"
    by (simp add: plane_refs_def may_refs_def)
  then show ?thesis by (simp add: module_inv_def plane_refs_def)
qed

lemma build_step:
  assumes ok: "build_ok ld (s # ss) A R" and inv: "module_inv m" and b: "built ld A R m"
  shows "step_ok s m \<and> module_inv (exec_step s m)
    \<and> (\<exists>ld' A' R'. build_ok ld' ss A' R' \<and> built ld' A' R' (exec_step s m))"
proof (cases s)
  case (Make x us)
  then have "module_inv (exec_step s m)" using inv_Make [OF inv, of x us] ok b by (simp add: built_def)
  then show ?thesis using Make ok b by (auto simp: built_def)
next
  case (Lend x u)
  then have "module_inv (m\<lparr>mo_refs := mo_refs m \<union> {(x, u)}\<rparr>)"
    using ok b by (intro inv_add_refs [OF inv]) (auto simp: built_def may_refs_def)
  then show ?thesis using Lend ok b by (auto simp: built_def)
next
  case (Start x)
  then have "module_inv (exec_step s m)" using inv_Start [OF inv, of x] ok b by (simp add: built_def)
  then show ?thesis using Start ok b by (auto simp: built_def)
next
  case (Reset x)
  then have "step_ok s m \<and> module_inv (exec_step s m)" using inv_Unref_reset [OF inv, of x] ok b by (simp add: built_def)
  then show ?thesis using Reset ok b by (auto simp: built_def)
next
  case (Link_silence l)
  then have "module_inv (m\<lparr>mo_refs := mo_refs m \<union> {(S_bug_manager, S_silence_driver_registry)}\<rparr>)"
    using ok b by (intro inv_add_refs [OF inv]) (auto simp: built_def may_refs_def static_refs_def)
  then show ?thesis using Link_silence ok b by (auto simp: built_def)
next
  case Register_hook
  then have "module_inv (exec_step s m)" using inv ok b by (simp add: module_inv_def built_def)
  then show ?thesis using Register_hook ok b by (auto simp: built_def)
next
  case Publish
  then have "module_inv (exec_step s m)" using inv_Publish [OF inv] ok b by (simp add: built_def)
  then show ?thesis using Publish ok b by (auto simp: built_def)
qed (use ok inv b in \<open>simp_all add: module_frame(1) [of "m\<lparr>mo_pool := _\<rparr>" m] module_frame(1) [of "m\<lparr>mo_config := _\<rparr>" m]
     module_frame(1) [of "m\<lparr>mo_lifecycle := _\<rparr>" m] module_frame(1) [of "m\<lparr>mo_detector := _\<rparr>" m]
     built_frame [of "m\<lparr>mo_pool := _\<rparr>" m] built_frame [of "m\<lparr>mo_config := _\<rparr>" m]
     built_frame [of "m\<lparr>mo_lifecycle := _\<rparr>" m] built_frame [of "m\<lparr>mo_detector := _\<rparr>" m]\<close>, blast+)

lemma build_ok_sound:
  "build_ok ld ss A R \<Longrightarrow> module_inv m \<Longrightarrow> built ld A R m \<Longrightarrow> keeps_inv ss m"
proof (induction ss arbitrary: ld A R m)
  case (Cons s ss)
  from build_step [OF Cons.prems] Cons.IH Cons.prems(2) show ?case by auto
qed simp

lemma clean_built: "module_clean m \<Longrightarrow> module_inv m \<and> built False {} {} m"
  by (auto simp: module_clean_def module_inv_def built_def)

lemmas build_sets = static_refs_def plane_refs_def threaded_def hook_refs_def

lemma load_builds: "build_ok False (fst (load_script env)) {} {}"
  by (simp add: load_script_def observability_steps_def server_steps_def event_steps_def publish_steps_def Let_def
      build_sets)

section \<open>The module never dangles\<close>

definition module_ok :: "module_state \<Rightarrow> bool" where
  "module_ok m \<longleftrightarrow> module_inv m \<and> (mo_loaded m \<or> module_clean m)"

lemma loaded_when_published:
  "Publish \<in> set ss \<Longrightarrow> Finish_shutdown \<notin> set ss \<Longrightarrow> mo_loaded (fold exec_step ss m)"
proof (induction ss arbitrary: m)
  case (Cons s ss)
  show ?case
  proof (cases "Publish \<in> set ss")
    case True
    then show ?thesis using Cons by simp
  next
    case False
    then show ?thesis using Cons.prems loaded_kept [of ss "exec_step s m"] by auto
  qed
qed simp

lemma executed_prefix: "\<exists>n. executed env = take n (fst (load_script env))"
  by (cases "le_throw env") (auto simp: executed_def intro: exI [of _ "length (fst (load_script env))"])

lemma load_never_finishes: "Finish_shutdown \<notin> set (executed env)"
proof -
  obtain n where "executed env = take n (fst (load_script env))" using executed_prefix by blast
  moreover have "Finish_shutdown \<notin> set (fst (load_script env))"
    by (simp add: load_script_def observability_steps_def server_steps_def event_steps_def publish_steps_def Let_def)
  ultimately show ?thesis by (metis in_set_takeD)
qed

lemma load_runs:
  assumes "module_clean m"
  shows "run_steps (executed env) m = Some (fold exec_step (executed env) m)
    \<and> module_inv (fold exec_step (executed env) m)"
proof -
  obtain n where "executed env = take n (fst (load_script env))" using executed_prefix by blast
  then show ?thesis
    using keeps_inv_run [OF keeps_inv_take [OF build_ok_sound [OF load_builds]]] clean_built [OF assms] by simp
qed

lemma Module_Load_ok:
  assumes "module_ok m"
  shows "\<exists>ok m'. Module_Load env m = Some (ok, m') \<and> module_ok m'"
proof (cases "mo_loaded m")
  case True
  then show ?thesis using assms by (auto simp: Module_Load_def)
next
  case False
  then have clean: "module_clean m" "\<not> mo_loaded m" using assms by (simp_all add: module_ok_def)
  let ?m = "fold exec_step (executed env) m"
  show ?thesis
  proof (cases "Publish \<in> set (executed env)")
    case True
    then show ?thesis using clean(2) load_runs [OF clean(1), of env]
        loaded_when_published [OF True load_never_finishes, of m] by (simp add: Module_Load_def module_ok_def)
  next
    case nopub: False
    have "\<not> mo_loaded ?m" using loaded_kept [OF nopub load_never_finishes, of m] clean(2) by simp
    then obtain m' where "run_steps guard_script ?m = Some m'" "module_clean m'"
      using guard_cleans [of ?m] load_runs [OF clean(1), of env] by blast
    then show ?thesis using nopub clean(2) load_runs [OF clean(1), of env] clean_built [of m']
      by (auto simp: Module_Load_def module_ok_def)
  qed
qed

lemma loaded_take_shutdown:
  "n < length shutdown_script \<Longrightarrow> mo_loaded (fold exec_step (take n shutdown_script) m) = mo_loaded m"
proof (rule loaded_kept)
  assume n: "n < length shutdown_script"
  then have "set (take n shutdown_script) \<subseteq> set (butlast shutdown_script)"
    using set_take_subset_set_take [of n "length shutdown_script - 1" shutdown_script]
    by (simp add: butlast_conv_take)
  moreover have "Publish \<notin> set (butlast shutdown_script)" "Finish_shutdown \<notin> set (butlast shutdown_script)"
    by (simp_all add: shutdown_script_def)
  ultimately show "Publish \<notin> set (take n shutdown_script)" "Finish_shutdown \<notin> set (take n shutdown_script)" by auto
qed

lemma Module_Shutdown_complete:
  assumes "module_ok m"
  shows "\<exists>m'. Module_Shutdown None m = Some (True, m') \<and> module_clean m'"
  using assms shutdown_cleans [of m] by (cases "mo_loaded m") (auto simp: Module_Shutdown_def module_ok_def)

lemma Module_Shutdown_ok:
  assumes "module_ok m"
  shows "\<exists>ok m'. Module_Shutdown throw m = Some (ok, m') \<and> module_ok m'"
proof (cases throw)
  case None
  then show ?thesis using Module_Shutdown_complete [OF assms] clean_built by (auto simp: module_ok_def)
next
  case (Some n)
  show ?thesis
  proof (cases "mo_loaded m")
    case True
    then have inv: "module_inv m" using assms by (simp add: module_ok_def)
    show ?thesis
    proof (cases "n < length shutdown_script")
      case lt: True
      have "torn True {} {} False False m" using True by (simp add: torn_def)
      from keeps_inv_run [OF keeps_inv_take [OF teardown_ok_sound [OF shutdown_teardown inv this], of n]]
      show ?thesis using Some True loaded_take_shutdown [OF lt, of m] by (simp add: Module_Shutdown_def module_ok_def)
    next
      case False
      then show ?thesis using Some True shutdown_cleans [OF inv True] clean_built
        by (auto simp: Module_Shutdown_def module_ok_def)
    qed
  next
    case False
    then show ?thesis using Some assms by (auto simp: Module_Shutdown_def)
  qed
qed

lemma module_calls_ok:
  "module_ok m \<Longrightarrow> \<exists>m'. module_calls cs m = Some m' \<and> module_ok m'"
proof (induction cs arbitrary: m)
  case (Cons c cs)
  show ?case
  proof (cases c)
    case (Call_load iface env)
    then show ?thesis using Module_Load_ok [OF Cons.prems, of env] Cons
      by (cases iface) (auto simp: mod_open_switch_load_def)
  next
    case (Call_shutdown t)
    then show ?thesis using Module_Shutdown_ok [OF Cons.prems, of t] Cons.IH
      by (auto simp: mod_open_switch_shutdown_def)
  qed
qed simp

lemma Module_new_ok: "module_ok (Module_new cfg)"
  by (simp add: module_ok_def module_inv_def module_clean_def Module_new_def)

section \<open>Results of Load and Shutdown\<close>

text \<open>
  C14. The module's lifecycle has no dangling access. Whatever sequence of load and shutdown calls
  FreeSWITCH makes, with any configuration, any failing subsystem and an exception at any point of any
  of them, no step constructs a subsystem from a dead one, destroys one that is running, that a live one
  still points to or that the channel hook may use; in between calls the module is either loaded or holds
  nothing at all (no subsystem, no thread, no hook, no detector); and from every state so reached a
  shutdown without exception succeeds and releases everything.
\<close>

theorem module_lifecycle_never_dangles:
  "\<exists>m. module_calls cs (Module_new cfg) = Some m \<and> (mo_loaded m \<or> module_clean m)
       \<and> (\<exists>m'. mod_open_switch_shutdown None m = Some (True, m') \<and> module_clean m')"
  using module_calls_ok [OF Module_new_ok, of cs cfg] Module_Shutdown_complete
  unfolding module_ok_def mod_open_switch_shutdown_def by blast

definition all_subsystems :: "bool \<Rightarrow> subsystem set" where
  "all_subsystems metrics = UNIV - (if metrics then {} else {S_metrics_server})"

lemma load_script_true:
  "snd (load_script env) \<longleftrightarrow> Validate (le_regex env) (load_config env) = Ok \<and> le_grpc_start env \<and> le_binder_init env"
  by (simp add: load_script_def Let_def)

lemma load_script_full:
  "snd (load_script env) \<Longrightarrow> fst (load_script env) =
     [Set_pool True, Install_log_sink, Read_config (load_config env)] @ observability_steps env @ server_steps
       @ [Start S_grpc_server] @ event_steps @ publish_steps env"
  by (simp add: load_script_def Let_def split: if_splits)

lemma all_subsystems_eq:
  "all_subsystems False = {S_prometheus_registry, S_health_metrics, S_rpc_metrics, S_grpc_server, S_idempotency_cache,
     S_active_media_streams, S_active_bots, S_silence_driver_registry, S_bug_manager, S_classifier, S_rings,
     S_binder, S_broadcaster}"
  "all_subsystems True = insert S_metrics_server (all_subsystems False)"
proof -
  show "all_subsystems True = insert S_metrics_server (all_subsystems False)" by (auto simp: all_subsystems_def)
  show "all_subsystems False = {S_prometheus_registry, S_health_metrics, S_rpc_metrics, S_grpc_server, S_idempotency_cache,
     S_active_media_streams, S_active_bots, S_silence_driver_registry, S_bug_manager, S_classifier, S_rings,
     S_binder, S_broadcaster}"
    using subsystem_UNIV by (auto simp: all_subsystems_def)
qed

definition metrics_up :: "load_env \<Rightarrow> bool" where
  "metrics_up env \<longleftrightarrow> metrics_enabled (load_config env) \<and> le_metrics_bind env"

lemma loaded_alive:
  assumes "module_clean m" and "snd (load_script env)"
  shows "mo_alive (fold exec_step (fst (load_script env)) m) = all_subsystems (metrics_up env)"
  using assms(1) unfolding load_script_full [OF assms(2)]
  by (cases "metrics_enabled (load_config env)"; cases "le_metrics_bind env")
     (simp_all add: observability_steps_def server_steps_def event_steps_def publish_steps_def module_clean_def
       metrics_up_def all_subsystems_eq insert_Diff_if insert_commute)

lemma loaded_running:
  assumes "module_clean m" and "snd (load_script env)"
  shows "mo_running (fold exec_step (fst (load_script env)) m) = threaded \<inter> all_subsystems (metrics_up env)"
  using assms(1) unfolding load_script_full [OF assms(2)]
  by (cases "metrics_enabled (load_config env)"; cases "le_metrics_bind env")
     (simp_all add: observability_steps_def server_steps_def event_steps_def publish_steps_def module_clean_def
       metrics_up_def all_subsystems_eq threaded_def insert_commute)

lemma loaded_rest:
  assumes "snd (load_script env)"
  shows "mo_hook (fold exec_step (fst (load_script env)) m)
    \<and> mo_config (fold exec_step (fst (load_script env)) m) = load_config env
    \<and> mo_lifecycle (fold exec_step (fst (load_script env)) m)
        = TransitionToServing ((mo_lifecycle m)\<lparr>lc_health := SetVersions kModuleVersion (le_fs_version env) (lc_health (mo_lifecycle m))\<rparr>)"
  unfolding load_script_full [OF assms]
  by (cases "metrics_enabled (load_config env)"; cases "le_metrics_bind env")
     (simp_all add: observability_steps_def server_steps_def event_steps_def publish_steps_def)

lemma load_without_exception:
  assumes "module_clean m" and "le_throw env = None" and "snd (load_script env)"
  shows "\<exists>m'. Module_Load env m = Some (True, m') \<and> mo_loaded m' \<and> module_inv m'
    \<and> mo_alive m' = all_subsystems (metrics_up env) \<and> mo_running m' = threaded \<inter> all_subsystems (metrics_up env)
    \<and> mo_hook m' \<and> mo_config m' = load_config env
    \<and> mo_lifecycle m' = TransitionToServing ((mo_lifecycle m)\<lparr>lc_health :=
         SetVersions kModuleVersion (le_fs_version env) (lc_health (mo_lifecycle m))\<rparr>)"
proof -
  have ex: "executed env = fst (load_script env)" using assms(2) by (simp add: executed_def)
  have "Publish \<in> set (executed env)" unfolding ex load_script_full [OF assms(3)] by (simp add: publish_steps_def)
  then have "Module_Load env m = Some (True, fold exec_step (fst (load_script env)) m)"
    "mo_loaded (fold exec_step (fst (load_script env)) m)"
    using assms(1,3) load_runs [OF assms(1), of env] loaded_when_published [OF _ load_never_finishes, of env m] ex
    by (simp_all add: Module_Load_def module_clean_def)
  then show ?thesis
    using loaded_alive [OF assms(1,3)] loaded_running [OF assms(1,3)] loaded_rest [OF assms(3), of m]
      load_runs [OF assms(1), of env] ex by simp
qed

lemma failed_load:
  assumes "module_clean m" and "le_throw env = None" and "\<not> snd (load_script env)"
  shows "\<exists>m'. Module_Load env m = Some (False, m') \<and> module_clean m'"
proof -
  have ex: "executed env = fst (load_script env)" using assms(2) by (simp add: executed_def)
  have nopub: "Publish \<notin> set (executed env)"
    unfolding ex using assms(3)
    by (auto simp: load_script_def observability_steps_def server_steps_def event_steps_def Let_def)
  have "\<not> mo_loaded m" using assms(1) by (simp add: module_clean_def)
  then have "\<not> mo_loaded (fold exec_step (executed env) m)"
    using loaded_kept [OF nopub load_never_finishes, of m] by simp
  then show ?thesis
    using guard_cleans load_runs [OF assms(1), of env] nopub \<open>\<not> mo_loaded m\<close> by (fastforce simp: Module_Load_def)
qed

lemma shutdown_lifecycle:
  assumes "module_inv m" and "mo_loaded m"
  shows "\<exists>m'. Module_Shutdown None m = Some (True, m') \<and> module_clean m'
    \<and> lc_state (mo_lifecycle m') = kStopped \<and> h_status (lc_health (mo_lifecycle m')) = kNotServing"
proof -
  obtain m' where m': "run_steps shutdown_script m = Some m'" "module_clean m'" using shutdown_cleans [OF assms] by blast
  have "torn True {} {} False False m" using assms(2) by (simp add: torn_def)
  from keeps_inv_run [OF teardown_ok_sound [OF shutdown_teardown assms(1) this]] m'(1)
  have "m' = fold exec_step shutdown_script m" by simp
  also have "\<dots> = exec_step Finish_shutdown (fold exec_step (butlast shutdown_script) m)"
    by (rule shutdown_last)
  finally have "lc_state (mo_lifecycle m') = kStopped \<and> h_status (lc_health (mo_lifecycle m')) = kNotServing"
    by (simp add: MarkStopped_def SetStatus_def)
  then show ?thesis using m' assms(2) by (simp add: Module_Shutdown_def)
qed

lemma Module_new_clean: "module_clean (Module_new cfg)"
  by (simp add: Module_new_def module_clean_def)


text \<open>
  C35. Serving is never reached again: when a module that loaded is shut down and loaded again without
  being destroyed in between, the second load succeeds with every subsystem running, but the lifecycle
  stays stopped and the health service keeps answering not serving.
\<close>

theorem reload_never_serves_again:
  "\<exists>m. module_calls [Call_load True (env\<lparr>le_throw := None\<rparr>), Call_shutdown None,
                       Call_load True (env\<lparr>le_throw := None\<rparr>)] (Module_new cfg) = Some m
     \<and> (if Validate (le_regex env) (load_config env) = Ok \<and> le_grpc_start env \<and> le_binder_init env
        then mo_loaded m \<and> mo_running m = threaded \<inter> all_subsystems (metrics_up env)
             \<and> lc_state (mo_lifecycle m) = kStopped \<and> h_status (lc_health (mo_lifecycle m)) = kNotServing
        else module_clean m)"
proof -
  let ?env = "env\<lparr>le_throw := None\<rparr>"
  have env: "le_throw ?env = None" "metrics_up ?env = metrics_up env"
    "snd (load_script ?env) \<longleftrightarrow> Validate (le_regex env) (load_config env) = Ok \<and> le_grpc_start env \<and> le_binder_init env"
    by (simp_all add: load_config_def metrics_up_def load_script_true)
  show ?thesis
  proof (cases "snd (load_script ?env)")
    case True
    obtain m1 where m1: "Module_Load ?env (Module_new cfg) = Some (True, m1)" "mo_loaded m1" "module_inv m1"
      using load_without_exception [OF Module_new_clean env(1) True] by blast
    obtain m2 where m2: "Module_Shutdown None m1 = Some (True, m2)" "module_clean m2"
      "lc_state (mo_lifecycle m2) = kStopped" "h_status (lc_health (mo_lifecycle m2)) = kNotServing"
      using shutdown_lifecycle [OF m1(3,2)] by blast
    from load_without_exception [OF m2(2) env(1) True] m1(1) m2 True env(2,3) show ?thesis
      by (auto simp: mod_open_switch_load_def mod_open_switch_shutdown_def TransitionToServing_def SetVersions_def Let_def)
  next
    case False
    obtain m1 where m1: "Module_Load ?env (Module_new cfg) = Some (False, m1)" "module_clean m1"
      using failed_load [OF Module_new_clean env(1) False] by blast
    then have m2: "Module_Shutdown None m1 = Some (True, m1)" by (simp add: Module_Shutdown_def module_clean_def)
    from failed_load [OF m1(2) env(1) False] m1 m2 False env(3) show ?thesis
      by (auto simp: mod_open_switch_load_def mod_open_switch_shutdown_def)
  qed
qed

text \<open>Pointers staged before the server starts are the ones its service uses.\<close>

lemma staged_pointers_reach_service:
  "gr_service (snd (GrpcServer_Start True True
     (GrpcServer_SetActiveBots (Some b) (GrpcServer_SetActiveMediaStreams (Some s)
       (GrpcServer_SetMediaBugManager (Some g) (GrpcServer_SetIdempotencyCache (Some c) GrpcServer_new))))))
   = Some (service_new\<lparr>gs_cache := Some c, gs_bug_mgr := Some g, gs_streams := Some s, gs_bots := Some b\<rparr>)"
  by (simp add: GrpcServer_Start_def GrpcServer_SetActiveBots_def GrpcServer_SetActiveMediaStreams_def
      GrpcServer_SetMediaBugManager_def GrpcServer_SetIdempotencyCache_def GrpcServer_new_def service_new_def Let_def)

end
