(* ===== verification/Media_Stream.thy ===== *)
theory Media_Stream
  imports Media_Frame "HOL-Library.Sublist" "HOL-Library.Multiset"
begin

text \<open>
  The bidirectional gRPC stream to a media service, \<^verbatim>\<open>src/media/stream_client.cc\<close>: the handshake of
  \<^verbatim>\<open>Open\<close>, the circular send ring, the writer and reader threads and \<^verbatim>\<open>Close\<close>. The threads are
  program counters of one state; a step is what a thread does between two points where another one can
  interfere. The calls made on the gRPC stream are logged in order, and so are the messages accepted
  into the ring, those it evicted and the callbacks invoked.
\<close>

section \<open>Messages, configuration and state\<close>

text \<open>Messages the client passes through without looking inside are their serialized bytes.\<close>

type_synonym proto_msg = string

record stream_config =
  stc_stream_id :: string
  stc_channel_uuid :: string
  stc_tenant_id :: string
  stc_purpose :: int
  stc_sample_rate_hz :: u32
  stc_channels :: u32
  stc_codec :: int
  stc_side :: int
  stc_traceparent :: string
  stc_start_message :: string
  stc_variables :: "string \<rightharpoonup> string"
  stc_half_close_writes_after_start :: bool
  stc_send_ring_capacity_frames :: nat

record stream_start =
  sst_channel_uuid :: string
  sst_tenant_id :: string
  sst_purpose :: int
  sst_sample_rate_hz :: u32
  sst_channels :: u32
  sst_codec :: int
  sst_side :: int
  sst_traceparent :: string
  sst_start_message :: string
  sst_variables :: "string \<rightharpoonup> string"

datatype from_module = FM_start stream_start | FM_audio proto_frame | FM_control proto_msg

datatype from_service =
    FS_ready u32 u32 string
  | FS_audio proto_frame
  | FS_control proto_msg
  | FS_transcript proto_msg
  | FS_amd proto_msg
  | FS_variables proto_msg
  | FS_not_set

text \<open>Which callbacks are set, and the callbacks invoked.\<close>

record stream_callbacks =
  cb_on_audio :: bool
  cb_on_transcript :: bool
  cb_on_amd :: bool
  cb_on_control :: bool
  cb_on_done :: bool

datatype callback_call =
    Cb_audio audio_frame
  | Cb_transcript proto_msg
  | Cb_amd proto_msg
  | Cb_control proto_msg
  | Cb_done grpc_status

text \<open>
  The calls on the gRPC objects. \<open>G_open\<close> creates context and stream, \<open>G_ready\<close> marks a completed
  handshake, \<open>G_destroy\<close> destroys stream and context; \<open>G_Write\<close> carries the result.
\<close>

datatype grpc_call =
    G_open
  | G_Write from_module bool
  | G_ready
  | G_WritesDone
  | G_Finish
  | G_TryCancel
  | G_destroy

text \<open>
  Program counters. The writer waits for an entry, writes one, is about to half-close, has released
  the lock and is about to call \<^verbatim>\<open>WritesDone\<close>. The reader reads, is in a callback, is about to call
  \<^verbatim>\<open>Finish\<close>, holds the final status, is in \<^verbatim>\<open>on_done\<close>. A thread that has run stays in its exit state
  until it is joined.
\<close>

datatype writer_pc = Wr_none | Wr_wait | Wr_write from_module | Wr_done | Wr_half | Wr_exit
datatype reader_pc = Rd_none | Rd_read | Rd_callback | Rd_finish | Rd_final grpc_status | Rd_done | Rd_exit
datatype closer_pc = Cl_none | Cl_ring | Cl_join_writer | Cl_join_reader | Cl_cancelled | Cl_reset

record stream_client =
  sc_config :: stream_config
  sc_ring :: "from_module option list"
  sc_head :: nat
  sc_tail :: nat
  sc_count :: nat
  sc_ring_closed :: bool
  sc_context :: bool
  sc_stream :: bool
  sc_open :: bool
  sc_writes_done :: bool
  sc_final_status :: grpc_status
  sc_frames_sent :: u64
  sc_frames_dropped :: u64
  sc_seq_counter :: u64
  sc_ts_counter :: u64
  sc_agreed_sample_rate_hz :: u32
  sc_agreed_channels :: u32
  sc_server_stream_id :: string
  sc_writer :: writer_pc
  sc_reader :: reader_pc
  sc_closer :: closer_pc
  sc_close_by_reader :: bool
  sc_calls :: "grpc_call list"
  sc_accepted :: "from_module list"
  sc_evicted :: "from_module list"
  sc_callbacks :: "callback_call list"

definition StreamClient_new :: "stream_config \<Rightarrow> stream_client" where
  "StreamClient_new cfg =
     \<lparr>sc_config = cfg, sc_ring = replicate (max 1 (stc_send_ring_capacity_frames cfg)) None, sc_head = 0, sc_tail = 0,
      sc_count = 0, sc_ring_closed = False, sc_context = False, sc_stream = False, sc_open = False,
      sc_writes_done = False, sc_final_status = Status_OK, sc_frames_sent = 0, sc_frames_dropped = 0,
      sc_seq_counter = 0, sc_ts_counter = 0, sc_agreed_sample_rate_hz = 0, sc_agreed_channels = 1,
      sc_server_stream_id = [], sc_writer = Wr_none, sc_reader = Rd_none, sc_closer = Cl_none,
      sc_close_by_reader = False, sc_calls = [], sc_accepted = [], sc_evicted = [], sc_callbacks = []\<rparr>"

definition NextSeq :: "stream_client \<Rightarrow> u64 \<times> stream_client" where
  "NextSeq s = (sc_seq_counter s, s\<lparr>sc_seq_counter := sc_seq_counter s + 1\<rparr>)"

definition AdvanceTimestamp :: "u32 \<Rightarrow> stream_client \<Rightarrow> u64 \<times> stream_client" where
  "AdvanceTimestamp samples s = (sc_ts_counter s, s\<lparr>sc_ts_counter := sc_ts_counter s + ucast samples\<rparr>)"

section \<open>The send ring\<close>

text \<open>The entries of the ring, oldest first.\<close>

definition ring_content :: "stream_client \<Rightarrow> from_module list" where
  "ring_content s = map (\<lambda>i. the (sc_ring s ! ((sc_tail s + i) mod length (sc_ring s)))) [0..<sc_count s]"

definition RingPushLocked :: "from_module \<Rightarrow> stream_client \<Rightarrow> stream_client" where
  "RingPushLocked entry s0 =
     (let n = length (sc_ring s0);
          s = (if sc_count s0 = n
               then s0\<lparr>sc_tail := (sc_tail s0 + 1) mod n, sc_count := sc_count s0 - 1,
                       sc_frames_dropped := sc_frames_dropped s0 + 1,
                       sc_evicted := sc_evicted s0 @ take 1 (ring_content s0)\<rparr>
               else s0)
      in s\<lparr>sc_ring := (sc_ring s)[sc_head s := Some entry], sc_head := (sc_head s + 1) mod n,
           sc_count := sc_count s + 1, sc_accepted := sc_accepted s @ [entry]\<rparr>)"

text \<open>A popped slot is left moved-from.\<close>

definition RingPopLocked :: "stream_client \<Rightarrow> from_module option \<times> stream_client" where
  "RingPopLocked s =
     (if sc_count s = 0 then (None, s)
      else (sc_ring s ! sc_tail s,
            s\<lparr>sc_ring := (sc_ring s)[sc_tail s := None], sc_tail := (sc_tail s + 1) mod length (sc_ring s),
              sc_count := sc_count s - 1\<rparr>))"

text \<open>\<^verbatim>\<open>SendAudio\<close> and \<^verbatim>\<open>SendControl\<close> repeat the body of \<^verbatim>\<open>RingPushLocked\<close>.\<close>

definition SendAudio :: "audio_frame \<Rightarrow> stream_client \<Rightarrow> bool \<times> stream_client" where
  "SendAudio frame s =
     (if sample_count frame = 0 \<or> sc_ring_closed s then (False, s)
      else (sc_count s \<noteq> length (sc_ring s), RingPushLocked (FM_audio (ToProto frame)) s))"

definition SendControl :: "proto_msg \<Rightarrow> stream_client \<Rightarrow> stream_client" where
  "SendControl msg s = (if sc_ring_closed s then s else RingPushLocked (FM_control msg) s)"

section \<open>Open\<close>

text \<open>
  What happens during the handshake: whether the stub returned a stream, whether the first write
  succeeded, what was read, the status of \<^verbatim>\<open>Finish\<close>, and whether the deadline passed before the
  handshake thread had its result.
\<close>

record open_env =
  oe_stream :: bool
  oe_write :: bool
  oe_read :: "from_service option"
  oe_finish :: grpc_status
  oe_timeout :: bool

definition StreamStart_of :: "stream_config \<Rightarrow> stream_start" where
  "StreamStart_of c =
     \<lparr>sst_channel_uuid = stc_channel_uuid c, sst_tenant_id = stc_tenant_id c, sst_purpose = stc_purpose c,
      sst_sample_rate_hz = stc_sample_rate_hz c, sst_channels = stc_channels c, sst_codec = stc_codec c,
      sst_side = stc_side c, sst_traceparent = stc_traceparent c, sst_start_message = stc_start_message c,
      sst_variables = stc_variables c\<rparr>"

abbreviation log_calls :: "grpc_call list \<Rightarrow> stream_client \<Rightarrow> stream_client" where
  "log_calls cs s \<equiv> s\<lparr>sc_calls := sc_calls s @ cs\<rparr>"

definition or_unavailable :: "grpc_status \<Rightarrow> string \<Rightarrow> grpc_status" where
  "or_unavailable st msg = (if fst st = OK then (UNAVAILABLE, msg) else st)"

definition handshake :: "open_env \<Rightarrow> stream_client \<Rightarrow> grpc_status \<times> stream_client" where
  "handshake env s =
     (let start = FM_start (StreamStart_of (sc_config s));
          s1 = log_calls [G_Write start (oe_write env)] s
      in if \<not> oe_write env
         then (or_unavailable (oe_finish env) ''Write(StreamStart) failed'', log_calls [G_Finish] s1)
         else (case oe_read env of
                 None \<Rightarrow> (or_unavailable (oe_finish env) ''no StreamReady received'', log_calls [G_Finish] s1)
               | Some (FS_ready _ _ _) \<Rightarrow>
                   (Status_OK,
                    if stc_half_close_writes_after_start (sc_config s)
                    then (log_calls [G_WritesDone] s1)\<lparr>sc_ring_closed := True, sc_writes_done := True\<rparr>
                    else s1)
               | Some _ \<Rightarrow> ((INTERNAL, ''first server message was not StreamReady''), s1)))"

definition Open :: "open_env \<Rightarrow> stream_client \<Rightarrow> grpc_status \<times> stream_client" where
  "Open env s =
     (if sc_open s then (Status_OK, s)
      else if \<not> oe_stream env
      then ((INTERNAL, ''stub->Stream returned null''), s\<lparr>sc_server_stream_id := [], sc_context := False, sc_stream := False\<rparr>)
      else (let s1 = log_calls [G_open] (s\<lparr>sc_server_stream_id := [], sc_context := True, sc_stream := True\<rparr>);
                (st0, s2) = handshake env s1;
                st = (if oe_timeout env
                      then (DEADLINE_EXCEEDED, ''Open handshake exceeded open_deadline_ms'') else st0);
                s3 = (if oe_timeout env then log_calls [G_TryCancel] s2 else s2)
            in if fst st \<noteq> OK then (st, log_calls [G_destroy] (s3\<lparr>sc_stream := False, sc_context := False\<rparr>))
               else (case oe_read env of
                       Some (FS_ready rate chans sid) \<Rightarrow>
                         (Status_OK,
                          log_calls [G_ready]
                            (s3\<lparr>sc_agreed_sample_rate_hz := rate, sc_agreed_channels := chans,
                                sc_server_stream_id := sid, sc_open := True, sc_reader := Rd_read,
                                sc_writer := (if stc_half_close_writes_after_start (sc_config s) then Wr_none
                                              else Wr_wait)\<rparr>))
                     | _ \<Rightarrow> (st, s3))))"

section \<open>The writer\<close>

definition WriterLoop_pop :: "stream_client \<Rightarrow> stream_client" where
  "WriterLoop_pop s =
     (case RingPopLocked s of
        (Some m, s') \<Rightarrow> s'\<lparr>sc_writer := Wr_write m\<rparr>
      | (None, s') \<Rightarrow> s'\<lparr>sc_writer := Wr_done\<rparr>)"

definition WriterLoop_write :: "from_module \<Rightarrow> bool \<Rightarrow> stream_client \<Rightarrow> stream_client" where
  "WriterLoop_write m ok s =
     (let s1 = log_calls [G_Write m ok] s
      in if \<not> ok then s1\<lparr>sc_writer := Wr_exit\<rparr>
         else (case m of FM_audio _ \<Rightarrow> s1\<lparr>sc_frames_sent := sc_frames_sent s1 + 1, sc_writer := Wr_wait\<rparr>
                       | _ \<Rightarrow> s1\<lparr>sc_writer := Wr_wait\<rparr>))"

text \<open>\<^verbatim>\<open>WritesDoneOnce\<close> up to the release of the lock, and the call after it.\<close>

definition WritesDoneOnce :: "stream_client \<Rightarrow> stream_client" where
  "WritesDoneOnce s =
     (if sc_writes_done s \<or> \<not> sc_stream s then s\<lparr>sc_writer := Wr_exit\<rparr>
      else s\<lparr>sc_writes_done := True, sc_writer := Wr_half\<rparr>)"

definition WritesDone_call :: "stream_client \<Rightarrow> stream_client" where
  "WritesDone_call s = (log_calls [G_WritesDone] s)\<lparr>sc_writer := Wr_exit\<rparr>"

section \<open>The reader\<close>

definition ReaderLoop_callback :: "stream_callbacks \<Rightarrow> from_service \<Rightarrow> stream_client \<Rightarrow> callback_call option" where
  "ReaderLoop_callback cb msg s =
     (case msg of
        FS_audio p \<Rightarrow>
          (if cb_on_audio cb
           then map_option Cb_audio (FromProto p (sc_agreed_sample_rate_hz s) (sc_agreed_channels s)) else None)
      | FS_transcript t \<Rightarrow> (if cb_on_transcript cb then Some (Cb_transcript t) else None)
      | FS_amd a \<Rightarrow> (if cb_on_amd cb then Some (Cb_amd a) else None)
      | FS_control c \<Rightarrow> (if cb_on_control cb then Some (Cb_control c) else None)
      | _ \<Rightarrow> None)"

definition ReaderLoop_read :: "stream_callbacks \<Rightarrow> from_service \<Rightarrow> stream_client \<Rightarrow> stream_client" where
  "ReaderLoop_read cb msg s =
     (case ReaderLoop_callback cb msg s of
        None \<Rightarrow> s
      | Some c \<Rightarrow> s\<lparr>sc_callbacks := sc_callbacks s @ [c], sc_reader := Rd_callback\<rparr>)"

definition ReaderLoop_finish :: "grpc_status \<Rightarrow> stream_client \<Rightarrow> stream_client" where
  "ReaderLoop_finish st s = (log_calls [G_Finish] s)\<lparr>sc_reader := Rd_final st\<rparr>"

definition ReaderLoop_done :: "stream_callbacks \<Rightarrow> grpc_status \<Rightarrow> stream_client \<Rightarrow> stream_client" where
  "ReaderLoop_done cb st s =
     (let s1 = s\<lparr>sc_final_status := st\<rparr>
      in if cb_on_done cb then s1\<lparr>sc_callbacks := sc_callbacks s1 @ [Cb_done st], sc_reader := Rd_done\<rparr>
         else s1\<lparr>sc_reader := Rd_exit\<rparr>)"

section \<open>Close\<close>

definition Close_begin :: "bool \<Rightarrow> stream_client \<Rightarrow> stream_client" where
  "Close_begin by_reader s =
     (if \<not> sc_open s then s else s\<lparr>sc_open := False, sc_closer := Cl_ring, sc_close_by_reader := by_reader\<rparr>)"

definition Close_ring :: "stream_client \<Rightarrow> stream_client" where
  "Close_ring s = s\<lparr>sc_ring_closed := True, sc_closer := Cl_join_writer\<rparr>"

definition Close_join_writer :: "stream_client \<Rightarrow> stream_client" where
  "Close_join_writer s = s\<lparr>sc_writer := Wr_none, sc_closer := Cl_join_reader\<rparr>"

definition Close_timeout :: "stream_client \<Rightarrow> stream_client" where
  "Close_timeout s = (log_calls (if sc_context s then [G_TryCancel] else []) s)\<lparr>sc_closer := Cl_cancelled\<rparr>"

definition Close_join_reader :: "stream_client \<Rightarrow> stream_client" where
  "Close_join_reader s = s\<lparr>sc_reader := Rd_none, sc_closer := Cl_reset\<rparr>"

definition Close_reset :: "stream_client \<Rightarrow> stream_client" where
  "Close_reset s =
     (log_calls [G_destroy] s)\<lparr>sc_stream := False, sc_context := False, sc_closer := Cl_none,
                                sc_close_by_reader := False\<rparr>"

section \<open>The ring is a bounded FIFO\<close>

definition ring_wf :: "stream_client \<Rightarrow> bool" where
  "ring_wf s \<longleftrightarrow>
     (let n = length (sc_ring s)
      in 0 < n \<and> sc_count s \<le> n \<and> sc_tail s < n \<and> sc_head s = (sc_tail s + sc_count s) mod n
         \<and> (\<forall>i < sc_count s. sc_ring s ! ((sc_tail s + i) mod n) \<noteq> None))"

lemma shift_mod_neq: "i < c \<Longrightarrow> c < n \<Longrightarrow> (t + i) mod n \<noteq> (t + c) mod (n::nat)"
proof
  assume a: "i < c" "c < n" "(t + i) mod n = (t + c) mod n"
  then have "n dvd (t + c) - (t + i)" by (metis mod_eq_dvd_iff_nat add_le_mono less_imp_le_nat le_refl)
  then show False using a(1,2) by (auto dest: dvd_imp_le)
qed

text \<open>The steps of a push: make room, then write the slot at the head.\<close>

definition drop_oldest :: "stream_client \<Rightarrow> stream_client" where
  "drop_oldest s = s\<lparr>sc_tail := (sc_tail s + 1) mod length (sc_ring s), sc_count := sc_count s - 1\<rparr>"

definition put_slot :: "from_module \<Rightarrow> stream_client \<Rightarrow> stream_client" where
  "put_slot m s = s\<lparr>sc_ring := (sc_ring s)[sc_head s := Some m], sc_head := (sc_head s + 1) mod length (sc_ring s),
                   sc_count := sc_count s + 1\<rparr>"

lemma content_cong:
  assumes "sc_ring s' = sc_ring s" "sc_tail s' = sc_tail s" "sc_count s' = sc_count s"
  shows "ring_content s' = ring_content s"
  by (simp only: assms ring_content_def)

lemma ring_wf_cong:
  assumes "sc_ring s' = sc_ring s" "sc_tail s' = sc_tail s" "sc_count s' = sc_count s" "sc_head s' = sc_head s"
  shows "ring_wf s' = ring_wf s"
  by (simp only: assms ring_wf_def)

lemma drop_oldest_ok:
  assumes "ring_wf s" and "0 < sc_count s"
  shows "ring_wf (drop_oldest s) \<and> ring_content (drop_oldest s) = tl (ring_content s)"
proof -
  let ?n = "length (sc_ring s)"
  have shift: "((sc_tail s + 1) mod ?n + i) mod ?n = (sc_tail s + Suc i) mod ?n" for i
    by (metis add_Suc_right add_Suc_shift mod_add_left_eq Suc_eq_plus1)
  have "(sc_tail s + 1) mod ?n < ?n" using assms(1) by (simp add: ring_wf_def Let_def)
  moreover have "sc_head s = ((sc_tail s + 1) mod ?n + (sc_count s - 1)) mod ?n"
    using assms shift [of "sc_count s - 1"] by (simp add: ring_wf_def Let_def)
  moreover have "sc_ring s ! (((sc_tail s + 1) mod ?n + i) mod ?n) \<noteq> None" if "i < sc_count s - 1" for i
  proof -
    have "Suc i < sc_count s" using that by simp
    then show ?thesis unfolding shift using assms(1) unfolding ring_wf_def Let_def by blast
  qed
  moreover have "sc_count s - 1 \<le> ?n" "0 < ?n" using assms(1) by (auto simp: ring_wf_def Let_def)
  ultimately have "ring_wf (drop_oldest s)" by (simp add: ring_wf_def drop_oldest_def Let_def)
  moreover have "ring_content (drop_oldest s) = tl (ring_content s)"
  proof (rule nth_equalityI)
    show "length (ring_content (drop_oldest s)) = length (tl (ring_content s))"
      by (simp add: ring_content_def drop_oldest_def)
    fix i assume "i < length (ring_content (drop_oldest s))"
    then have i: "i < sc_count s - 1" by (simp add: ring_content_def drop_oldest_def)
    then have "ring_content (drop_oldest s) ! i = the (sc_ring s ! (((sc_tail s + 1) mod ?n + i) mod ?n))"
      by (simp add: ring_content_def drop_oldest_def)
    also have "\<dots> = ring_content s ! Suc i" unfolding shift using i nth_upt [of 0 "Suc i" "sc_count s"] by (simp add: ring_content_def)
    also have "\<dots> = tl (ring_content s) ! i" using i by (simp add: nth_tl ring_content_def)
    finally show "ring_content (drop_oldest s) ! i = tl (ring_content s) ! i" .
  qed
  ultimately show ?thesis by simp
qed

lemma put_slot_ok:
  assumes "ring_wf s" and "sc_count s < length (sc_ring s)"
  shows "ring_wf (put_slot m s) \<and> ring_content (put_slot m s) = ring_content s @ [m]"
proof -
  let ?n = "length (sc_ring s)" and ?t = "sc_tail s" and ?c = "sc_count s"
  have wf: "0 < ?n" "sc_head s = (?t + ?c) mod ?n" "?t < ?n" using assms(1) by (simp_all add: ring_wf_def Let_def)
  have old: "(sc_ring s)[sc_head s := Some m] ! ((?t + i) mod ?n) = sc_ring s ! ((?t + i) mod ?n)" if "i < ?c" for i
    using shift_mod_neq [OF that assms(2), of ?t] wf(2) by simp
  have new: "(sc_ring s)[sc_head s := Some m] ! ((?t + ?c) mod ?n) = Some m" using wf by simp
  have "ring_wf (put_slot m s)"
    using assms wf old new by (auto simp: ring_wf_def put_slot_def Let_def less_Suc_eq mod_Suc_eq)
  moreover have "ring_content (put_slot m s) = ring_content s @ [m]"
    using old new by (simp add: ring_content_def put_slot_def)
  ultimately show ?thesis by simp
qed

lemma push_ok:
  assumes "ring_wf s"
  shows "ring_wf (RingPushLocked m s)
    \<and> ring_content (RingPushLocked m s)
        = (if sc_count s = length (sc_ring s) then tl (ring_content s) else ring_content s) @ [m]"
proof (cases "sc_count s = length (sc_ring s)")
  case True
  have pos: "0 < sc_count s" using assms True by (simp add: ring_wf_def Let_def)
  let ?s = "RingPushLocked m s" and ?p = "put_slot m (drop_oldest s)"
  have eq: "sc_ring ?s = sc_ring ?p" "sc_tail ?s = sc_tail ?p" "sc_count ?s = sc_count ?p" "sc_head ?s = sc_head ?p"
    using True by (simp_all add: RingPushLocked_def put_slot_def drop_oldest_def Let_def)
  have "sc_count (drop_oldest s) < length (sc_ring (drop_oldest s))" using pos True by (simp add: drop_oldest_def)
  with put_slot_ok [of "drop_oldest s" m] drop_oldest_ok [OF assms pos]
  show ?thesis using True ring_wf_cong [OF eq] content_cong [OF eq(1-3)] by simp
next
  case False
  let ?s = "RingPushLocked m s" and ?p = "put_slot m s"
  have eq: "sc_ring ?s = sc_ring ?p" "sc_tail ?s = sc_tail ?p" "sc_count ?s = sc_count ?p" "sc_head ?s = sc_head ?p"
    using False by (simp_all add: RingPushLocked_def put_slot_def Let_def)
  have "sc_count s < length (sc_ring s)" using assms False by (simp add: ring_wf_def Let_def)
  with put_slot_ok [OF assms] show ?thesis using False ring_wf_cong [OF eq] content_cong [OF eq(1-3)] by simp
qed

lemma length_content [simp]: "length (ring_content s) = sc_count s"
  by (simp add: ring_content_def)

lemma pop_empty: "sc_count s = 0 \<Longrightarrow> RingPopLocked s = (None, s)"
  by (simp add: RingPopLocked_def)

lemma pop_ok:
  assumes "ring_wf s" and "0 < sc_count s" and "RingPopLocked s = (r, s')"
  shows "\<exists>m. r = Some m \<and> ring_content s = m # ring_content s' \<and> ring_wf s'"
proof -
  let ?n = "length (sc_ring s)" and ?t = "sc_tail s"
  have wf: "0 < ?n" "sc_count s \<le> ?n" "?t < ?n" using assms(1) by (simp_all add: ring_wf_def Let_def)
  have r: "r = sc_ring s ! ?t" "s' = s\<lparr>sc_ring := (sc_ring s)[?t := None], sc_tail := (?t + 1) mod ?n, sc_count := sc_count s - 1\<rparr>"
    using assms(2,3) by (auto simp: RingPopLocked_def)
  have "sc_ring s ! ((?t + 0) mod ?n) \<noteq> None" using assms(1,2) by (auto simp: ring_wf_def Let_def)
  then obtain m where m: "sc_ring s ! ?t = Some m" using wf(3) by auto
  have kept: "(sc_ring s)[?t := None] ! (((?t + 1) mod ?n + i) mod ?n) = sc_ring s ! (((?t + 1) mod ?n + i) mod ?n)"
    if "i < sc_count s - 1" for i
  proof -
    have "((?t + 1) mod ?n + i) mod ?n = (?t + Suc i) mod ?n" by (metis add_Suc_right add_Suc_shift mod_add_left_eq Suc_eq_plus1)
    then show ?thesis using shift_mod_neq [of 0 "Suc i" ?n ?t] that wf by simp
  qed
  have dr: "ring_wf (drop_oldest s)" "ring_content (drop_oldest s) = tl (ring_content s)"
    using drop_oldest_ok [OF assms(1,2)] by simp_all
  have "ring_wf s'" using dr(1) kept by (simp add: ring_wf_def drop_oldest_def r(2) Let_def)
  moreover have "ring_content s' = ring_content (drop_oldest s)"
    using kept by (simp add: ring_content_def drop_oldest_def r(2))
  moreover have "ring_content s = m # tl (ring_content s)"
  proof -
    have "ring_content s ! 0 = m" using assms(2) m wf(3) by (simp add: ring_content_def)
    moreover have "ring_content s \<noteq> []" using assms(2) by (metis length_content length_greater_0_conv)
    ultimately show ?thesis by (cases "ring_content s") simp_all
  qed
  ultimately show ?thesis using r(1) m dr(2) by simp
qed

lemma new_ring: "ring_wf (StreamClient_new cfg) \<and> ring_content (StreamClient_new cfg) = []"
  by (simp add: ring_wf_def ring_content_def StreamClient_new_def Let_def)

section \<open>Interleavings\<close>

text \<open>
  Media threads send at any time. An \<^verbatim>\<open>Open\<close> runs when no thread of the client exists. \<^verbatim>\<open>Close\<close> is called
  by another thread, or by a callback on the reader thread, which then returns from the callback only
  when \<^verbatim>\<open>Close\<close> does; a \<^verbatim>\<open>Close\<close> on a client that is not open returns at once.
\<close>

definition in_close_by_reader :: "stream_client \<Rightarrow> bool" where
  "in_close_by_reader s \<longleftrightarrow> sc_closer s \<noteq> Cl_none \<and> sc_close_by_reader s"

inductive stream_step :: "stream_callbacks \<Rightarrow> stream_client \<Rightarrow> stream_client \<Rightarrow> bool" for cb where
  send_audio: "stream_step cb s (snd (SendAudio f s))"
| send_control: "stream_step cb s (SendControl c s)"
| take_seq: "stream_step cb s (snd (NextSeq s))"
| take_ts: "stream_step cb s (snd (AdvanceTimestamp n s))"
| open_stream: "sc_closer s = Cl_none \<Longrightarrow> sc_writer s = Wr_none \<Longrightarrow> sc_reader s = Rd_none \<Longrightarrow>
    stream_step cb s (snd (Open env s))"
| writer_pop: "sc_writer s = Wr_wait \<Longrightarrow> 0 < sc_count s \<or> sc_ring_closed s \<Longrightarrow> stream_step cb s (WriterLoop_pop s)"
| writer_write: "sc_writer s = Wr_write m \<Longrightarrow> stream_step cb s (WriterLoop_write m ok s)"
| writer_done: "sc_writer s = Wr_done \<Longrightarrow> stream_step cb s (WritesDoneOnce s)"
| writer_half: "sc_writer s = Wr_half \<Longrightarrow> stream_step cb s (WritesDone_call s)"
| reader_read: "sc_reader s = Rd_read \<Longrightarrow> stream_step cb s (ReaderLoop_read cb msg s)"
| reader_return: "sc_reader s = Rd_callback \<Longrightarrow> \<not> in_close_by_reader s \<Longrightarrow> stream_step cb s (s\<lparr>sc_reader := Rd_read\<rparr>)"
| reader_eof: "sc_reader s = Rd_read \<Longrightarrow> stream_step cb s (s\<lparr>sc_reader := Rd_finish\<rparr>)"
| reader_finish: "sc_reader s = Rd_finish \<Longrightarrow> stream_step cb s (ReaderLoop_finish st s)"
| reader_done: "sc_reader s = Rd_final st \<Longrightarrow> stream_step cb s (ReaderLoop_done cb st s)"
| reader_exit: "sc_reader s = Rd_done \<Longrightarrow> \<not> in_close_by_reader s \<Longrightarrow> stream_step cb s (s\<lparr>sc_reader := Rd_exit\<rparr>)"
| close_call: "stream_step cb s (Close_begin False s)"
| close_in_callback: "sc_reader s = Rd_callback \<or> sc_reader s = Rd_done \<Longrightarrow> stream_step cb s (Close_begin True s)"
| close_ring: "sc_closer s = Cl_ring \<Longrightarrow> stream_step cb s (Close_ring s)"
| close_join_writer: "sc_closer s = Cl_join_writer \<Longrightarrow> sc_writer s = Wr_none \<or> sc_writer s = Wr_exit \<Longrightarrow>
    stream_step cb s (Close_join_writer s)"
| close_timeout: "sc_closer s = Cl_join_reader \<Longrightarrow> stream_step cb s (Close_timeout s)"
| close_join_reader: "sc_closer s = Cl_join_reader \<or> sc_closer s = Cl_cancelled \<Longrightarrow>
    sc_reader s = Rd_none \<or> sc_reader s = Rd_exit \<Longrightarrow> stream_step cb s (Close_join_reader s)"
| close_reset: "sc_closer s = Cl_reset \<Longrightarrow> stream_step cb s (Close_reset s)"

inductive stream_reach :: "stream_config \<Rightarrow> stream_callbacks \<Rightarrow> stream_client \<Rightarrow> bool" for cfg cb where
  reach_new: "stream_reach cfg cb (StreamClient_new cfg)"
| reach_step: "stream_reach cfg cb s \<Longrightarrow> stream_step cb s s' \<Longrightarrow> stream_reach cfg cb s'"

section \<open>The gRPC protocol is respected\<close>

text \<open>
  What gRPC requires of the calls on one stream: nothing before it is created or after it is destroyed,
  at most one half-close and no write after it, at most one \<^verbatim>\<open>Finish\<close>, and a stream that completed its
  handshake is finished before it is destroyed.
\<close>

record call_state =
  cs_live :: bool
  cs_ready :: bool
  cs_done :: bool
  cs_finished :: bool

definition no_stream :: call_state where
  "no_stream = \<lparr>cs_live = False, cs_ready = False, cs_done = False, cs_finished = False\<rparr>"

fun call_allowed :: "grpc_call \<Rightarrow> call_state \<Rightarrow> bool" where
  "call_allowed G_open a \<longleftrightarrow> \<not> cs_live a"
| "call_allowed (G_Write _ _) a \<longleftrightarrow> cs_live a \<and> \<not> cs_done a"
| "call_allowed G_ready a \<longleftrightarrow> cs_live a \<and> \<not> cs_ready a"
| "call_allowed G_WritesDone a \<longleftrightarrow> cs_live a \<and> \<not> cs_done a"
| "call_allowed G_Finish a \<longleftrightarrow> cs_live a \<and> \<not> cs_finished a"
| "call_allowed G_TryCancel a \<longleftrightarrow> cs_live a"
| "call_allowed G_destroy a \<longleftrightarrow> cs_live a \<and> (cs_ready a \<longrightarrow> cs_finished a)"

fun call_next :: "grpc_call \<Rightarrow> call_state \<Rightarrow> call_state" where
  "call_next G_open a = no_stream\<lparr>cs_live := True\<rparr>"
| "call_next G_ready a = a\<lparr>cs_ready := True\<rparr>"
| "call_next G_WritesDone a = a\<lparr>cs_done := True\<rparr>"
| "call_next G_Finish a = a\<lparr>cs_finished := True\<rparr>"
| "call_next G_destroy a = no_stream"
| "call_next _ a = a"

fun calls_from :: "call_state \<Rightarrow> grpc_call list \<Rightarrow> call_state option" where
  "calls_from a [] = Some a"
| "calls_from a (c # cs) = (if call_allowed c a then calls_from (call_next c a) cs else None)"

definition protocol_ok :: "grpc_call list \<Rightarrow> bool" where
  "protocol_ok cs \<longleftrightarrow> calls_from no_stream cs \<noteq> None"

lemma calls_from_append:
  "calls_from a (xs @ ys) = (case calls_from a xs of None \<Rightarrow> None | Some b \<Rightarrow> calls_from b ys)"
  by (induction xs arbitrary: a) auto

text \<open>How the program counters and flags relate to the calls made.\<close>

definition pc_inv :: "stream_client \<Rightarrow> call_state \<Rightarrow> bool" where
  "pc_inv s a \<longleftrightarrow>
     sc_stream s = cs_live a \<and> sc_context s = cs_live a \<and> cs_live a = (sc_open s \<or> sc_closer s \<noteq> Cl_none)
     \<and> cs_ready a = cs_live a \<and> \<not> (sc_open s \<and> sc_closer s \<noteq> Cl_none)
     \<and> (\<not> cs_live a \<longrightarrow> sc_writer s = Wr_none \<and> sc_reader s = Rd_none)
     \<and> (cs_done a \<longrightarrow> sc_writer s \<in> {Wr_none, Wr_exit})
     \<and> (sc_reader s \<in> {Rd_read, Rd_callback, Rd_finish} \<longrightarrow> \<not> cs_finished a)
     \<and> (cs_live a \<and> sc_reader s \<notin> {Rd_read, Rd_callback, Rd_finish} \<longrightarrow> cs_finished a)
     \<and> (cs_live a \<longrightarrow> (sc_reader s = Rd_none) = (sc_closer s = Cl_reset))
     \<and> (sc_closer s \<in> {Cl_join_reader, Cl_cancelled, Cl_reset} \<longrightarrow> sc_writer s = Wr_none)"

definition protocol_inv :: "stream_client \<Rightarrow> bool" where
  "protocol_inv s \<longleftrightarrow> (\<exists>a. calls_from no_stream (sc_calls s) = Some a \<and> pc_inv s a)"

lemma protocol_logged:
  assumes "calls_from no_stream (sc_calls s) = Some a" and "sc_calls s' = sc_calls s @ cs"
    and "calls_from a cs = Some b" and "pc_inv s' b"
  shows "protocol_inv s'"
  unfolding protocol_inv_def using assms by (auto simp: calls_from_append)

lemma pc_inv_cong:
  assumes "sc_stream s' = sc_stream s" "sc_context s' = sc_context s" "sc_open s' = sc_open s" "sc_closer s' = sc_closer s"
    "sc_writer s' = sc_writer s" "sc_reader s' = sc_reader s"
  shows "pc_inv s' a = pc_inv s a"
  by (simp only: assms pc_inv_def)

lemma push_frame [simp]:
  "sc_stream (RingPushLocked m s) = sc_stream s" "sc_context (RingPushLocked m s) = sc_context s"
  "sc_open (RingPushLocked m s) = sc_open s" "sc_closer (RingPushLocked m s) = sc_closer s"
  "sc_writer (RingPushLocked m s) = sc_writer s" "sc_reader (RingPushLocked m s) = sc_reader s"
  "sc_calls (RingPushLocked m s) = sc_calls s" "sc_ring_closed (RingPushLocked m s) = sc_ring_closed s"
  "sc_config (RingPushLocked m s) = sc_config s" "sc_frames_sent (RingPushLocked m s) = sc_frames_sent s"
  "sc_close_by_reader (RingPushLocked m s) = sc_close_by_reader s"
  by (simp_all add: RingPushLocked_def Let_def)

lemma pop_frame:
  assumes "RingPopLocked s = (r, s')"
  shows "sc_stream s' = sc_stream s" "sc_context s' = sc_context s" "sc_open s' = sc_open s" "sc_closer s' = sc_closer s"
    "sc_writer s' = sc_writer s" "sc_reader s' = sc_reader s" "sc_calls s' = sc_calls s"
    "sc_ring_closed s' = sc_ring_closed s" "sc_config s' = sc_config s" "sc_accepted s' = sc_accepted s"
    "sc_evicted s' = sc_evicted s" "sc_frames_sent s' = sc_frames_sent s" "sc_frames_dropped s' = sc_frames_dropped s"
    "sc_close_by_reader s' = sc_close_by_reader s"
  using assms by (auto simp: RingPopLocked_def split: if_splits)

lemma protocol_quiet:
  assumes "protocol_inv s" and "sc_calls s' = sc_calls s" and "\<And>a. pc_inv s a \<Longrightarrow> pc_inv s' a"
  shows "protocol_inv s'"
  using assms by (auto simp: protocol_inv_def)

lemma protocol_call:
  assumes "protocol_inv s" and "sc_calls s' = sc_calls s @ [c]"
    and "\<And>a. pc_inv s a \<Longrightarrow> call_allowed c a \<and> pc_inv s' (call_next c a)"
  shows "protocol_inv s'"
proof -
  obtain a where a: "calls_from no_stream (sc_calls s) = Some a" "pc_inv s a" using assms(1) by (auto simp: protocol_inv_def)
  show ?thesis using assms(3) [OF a(2)] by (intro protocol_logged [OF a(1) assms(2)]) auto
qed

lemma protocol_send:
  assumes "protocol_inv s" shows "protocol_inv (snd (SendAudio f s))" "protocol_inv (SendControl c s)"
  using assms by (auto simp: SendAudio_def SendControl_def protocol_inv_def pc_inv_cong [of "RingPushLocked _ s" s])

text \<open>The calls of an \<^verbatim>\<open>Open\<close> on a closed client, and whether it succeeds.\<close>

fun is_ready :: "from_service option \<Rightarrow> bool" where
  "is_ready (Some (FS_ready _ _ _)) \<longleftrightarrow> True"
| "is_ready _ \<longleftrightarrow> False"

definition open_succeeds :: "open_env \<Rightarrow> bool" where
  "open_succeeds env \<longleftrightarrow> oe_stream env \<and> oe_write env \<and> is_ready (oe_read env) \<and> \<not> oe_timeout env"

definition open_calls :: "open_env \<Rightarrow> stream_config \<Rightarrow> grpc_call list" where
  "open_calls env cfg =
     [G_open, G_Write (FM_start (StreamStart_of cfg)) (oe_write env)]
     @ (if \<not> oe_write env \<or> oe_read env = None then [G_Finish]
        else if is_ready (oe_read env) \<and> stc_half_close_writes_after_start cfg then [G_WritesDone] else [])
     @ (if oe_timeout env then [G_TryCancel] else [])
     @ (if open_succeeds env then [G_ready] else [G_destroy])"

lemma is_ready_iff: "is_ready r \<longleftrightarrow> (\<exists>rate chans sid. r = Some (FS_ready rate chans sid))"
  by (cases r rule: is_ready.cases) auto

lemma Open_shape:
  assumes "\<not> sc_open s" and "oe_stream env"
  shows "sc_calls (snd (Open env s)) = sc_calls s @ open_calls env (sc_config s)"
    and "sc_stream (snd (Open env s)) = open_succeeds env" and "sc_context (snd (Open env s)) = open_succeeds env"
    and "sc_open (snd (Open env s)) = open_succeeds env" and "sc_closer (snd (Open env s)) = sc_closer s"
    and "sc_reader (snd (Open env s)) = (if open_succeeds env then Rd_read else sc_reader s)"
    and "sc_writer (snd (Open env s)) =
      (if \<not> open_succeeds env then sc_writer s
       else if stc_half_close_writes_after_start (sc_config s) then Wr_none else Wr_wait)"
proof -
  consider "\<not> oe_write env" | "oe_write env" "oe_read env = None"
    | r where "oe_write env" "oe_read env = Some r" "\<not> is_ready (Some r)"
    | rate chans sid where "oe_write env" "oe_read env = Some (FS_ready rate chans sid)"
    by (metis is_ready_iff option.exhaust)
  then have "sc_calls (snd (Open env s)) = sc_calls s @ open_calls env (sc_config s)
    \<and> sc_stream (snd (Open env s)) = open_succeeds env \<and> sc_context (snd (Open env s)) = open_succeeds env
    \<and> sc_open (snd (Open env s)) = open_succeeds env \<and> sc_closer (snd (Open env s)) = sc_closer s
    \<and> sc_reader (snd (Open env s)) = (if open_succeeds env then Rd_read else sc_reader s)
    \<and> sc_writer (snd (Open env s)) =
      (if \<not> open_succeeds env then sc_writer s
       else if stc_half_close_writes_after_start (sc_config s) then Wr_none else Wr_wait)"
  proof cases
    case 3
    then show ?thesis using assms
      by (cases r) (simp_all add: Open_def handshake_def open_calls_def open_succeeds_def Let_def)
  qed (use assms in \<open>simp_all add: Open_def handshake_def open_calls_def open_succeeds_def or_unavailable_def Let_def\<close>)
  then show "sc_calls (snd (Open env s)) = sc_calls s @ open_calls env (sc_config s)"
    and "sc_stream (snd (Open env s)) = open_succeeds env" and "sc_context (snd (Open env s)) = open_succeeds env"
    and "sc_open (snd (Open env s)) = open_succeeds env" and "sc_closer (snd (Open env s)) = sc_closer s"
    and "sc_reader (snd (Open env s)) = (if open_succeeds env then Rd_read else sc_reader s)"
    and "sc_writer (snd (Open env s)) =
      (if \<not> open_succeeds env then sc_writer s
       else if stc_half_close_writes_after_start (sc_config s) then Wr_none else Wr_wait)"
    by simp_all
qed

lemma open_calls_allowed:
  "\<not> cs_live a \<Longrightarrow> calls_from a (open_calls env cfg) =
     Some (if open_succeeds env
           then \<lparr>cs_live = True, cs_ready = True, cs_done = stc_half_close_writes_after_start cfg, cs_finished = False\<rparr>
           else no_stream)"
  by (cases "oe_write env"; cases "oe_read env")
     (auto simp: open_calls_def open_succeeds_def no_stream_def)

lemma protocol_open:
  assumes inv: "protocol_inv s" and idle: "sc_closer s = Cl_none" "sc_writer s = Wr_none" "sc_reader s = Rd_none"
  shows "protocol_inv (snd (Open env s))"
proof (cases "sc_open s")
  case True
  then show ?thesis using inv by (simp add: Open_def)
next
  case False
  obtain a where a: "calls_from no_stream (sc_calls s) = Some a" "pc_inv s a" using inv by (auto simp: protocol_inv_def)
  then have dead: "\<not> cs_live a" "\<not> sc_stream s" "\<not> sc_context s" using idle False by (auto simp: pc_inv_def)
  show ?thesis
  proof (cases "oe_stream env")
    case True
    show ?thesis
      by (rule protocol_logged [OF a(1) Open_shape(1) [OF False True] open_calls_allowed [OF dead(1)]])
        (simp add: pc_inv_def Open_shape [OF False True] idle no_stream_def)
  next
    case nostream: False
    have "pc_inv (snd (Open env s)) a"
      using a(2) dead False nostream by (simp add: Open_def pc_inv_def)
    moreover have "sc_calls (snd (Open env s)) = sc_calls s" using False nostream by (simp add: Open_def)
    ultimately show ?thesis using a(1) by (auto simp: protocol_inv_def)
  qed
qed

lemma protocol_writer:
  assumes "protocol_inv s"
  shows "sc_writer s = Wr_wait \<Longrightarrow> protocol_inv (WriterLoop_pop s)"
    and "sc_writer s = Wr_write m \<Longrightarrow> protocol_inv (WriterLoop_write m ok s)"
    and "sc_writer s = Wr_done \<Longrightarrow> protocol_inv (WritesDoneOnce s)"
    and "sc_writer s = Wr_half \<Longrightarrow> protocol_inv (WritesDone_call s)"
proof -
  show "protocol_inv (WriterLoop_pop s)" if w: "sc_writer s = Wr_wait"
  proof (rule protocol_quiet [OF assms])
    obtain r s' where p: "RingPopLocked s = (r, s')" by fastforce
    note fr = pop_frame [OF p]
    show "sc_calls (WriterLoop_pop s) = sc_calls s" by (simp add: WriterLoop_pop_def p fr split: option.split)
    fix a assume "pc_inv s a"
    then show "pc_inv (WriterLoop_pop s) a" using w by (cases r) (auto simp: WriterLoop_pop_def p fr pc_inv_def)
  qed
  show "protocol_inv (WriterLoop_write m ok s)" if w: "sc_writer s = Wr_write m"
  proof (rule protocol_call [OF assms, of _ "G_Write m ok"])
    show "sc_calls (WriterLoop_write m ok s) = sc_calls s @ [G_Write m ok]"
      by (simp add: WriterLoop_write_def Let_def split: from_module.split)
    fix a assume "pc_inv s a"
    then show "call_allowed (G_Write m ok) a \<and> pc_inv (WriterLoop_write m ok s) (call_next (G_Write m ok) a)"
      using w by (cases m; cases ok) (auto simp: WriterLoop_write_def Let_def pc_inv_def)
  qed
  show "protocol_inv (WritesDoneOnce s)" if w: "sc_writer s = Wr_done"
  proof (rule protocol_quiet [OF assms])
    show "sc_calls (WritesDoneOnce s) = sc_calls s" by (simp add: WritesDoneOnce_def)
    fix a assume "pc_inv s a"
    then show "pc_inv (WritesDoneOnce s) a"
      using w by (cases "sc_writes_done s \<or> \<not> sc_stream s") (auto simp: WritesDoneOnce_def pc_inv_def)
  qed
  show "protocol_inv (WritesDone_call s)" if w: "sc_writer s = Wr_half"
    using w by (intro protocol_call [OF assms, of _ G_WritesDone]) (auto simp: WritesDone_call_def pc_inv_def)
qed

lemma protocol_reader:
  assumes "protocol_inv s"
  shows "sc_reader s = Rd_read \<Longrightarrow> protocol_inv (ReaderLoop_read cb msg s)"
    and "sc_reader s = Rd_callback \<Longrightarrow> protocol_inv (s\<lparr>sc_reader := Rd_read\<rparr>)"
    and "sc_reader s = Rd_read \<Longrightarrow> protocol_inv (s\<lparr>sc_reader := Rd_finish\<rparr>)"
    and "sc_reader s = Rd_finish \<Longrightarrow> protocol_inv (ReaderLoop_finish st s)"
    and "sc_reader s = Rd_final st \<Longrightarrow> protocol_inv (ReaderLoop_done cb st s)"
    and "sc_reader s = Rd_done \<Longrightarrow> protocol_inv (s\<lparr>sc_reader := Rd_exit\<rparr>)"
proof -
  show "protocol_inv (ReaderLoop_read cb msg s)" if w: "sc_reader s = Rd_read"
    using assms w by (cases "ReaderLoop_callback cb msg s") (auto simp: ReaderLoop_read_def protocol_inv_def pc_inv_def)
  show "protocol_inv (s\<lparr>sc_reader := Rd_read\<rparr>)" if w: "sc_reader s = Rd_callback"
    using w by (intro protocol_quiet [OF assms]) (auto simp: pc_inv_def)
  show "protocol_inv (s\<lparr>sc_reader := Rd_finish\<rparr>)" if w: "sc_reader s = Rd_read"
    using w by (intro protocol_quiet [OF assms]) (auto simp: pc_inv_def)
  show "protocol_inv (ReaderLoop_finish st s)" if w: "sc_reader s = Rd_finish"
    using w by (intro protocol_call [OF assms, of _ G_Finish]) (auto simp: ReaderLoop_finish_def pc_inv_def)
  show "protocol_inv (ReaderLoop_done cb st s)" if w: "sc_reader s = Rd_final st"
    using w by (intro protocol_quiet [OF assms]) (auto simp: ReaderLoop_done_def Let_def pc_inv_def)
  show "protocol_inv (s\<lparr>sc_reader := Rd_exit\<rparr>)" if w: "sc_reader s = Rd_done"
    using w by (intro protocol_quiet [OF assms]) (auto simp: pc_inv_def)
qed

lemma protocol_close_begin:
  assumes "protocol_inv s" shows "protocol_inv (Close_begin b s)"
proof (cases "sc_open s")
  case True
  then show ?thesis by (intro protocol_quiet [OF assms]) (simp_all add: Close_begin_def pc_inv_def)
next
  case False
  then show ?thesis using assms by (simp add: Close_begin_def)
qed

lemma protocol_close_ring:
  assumes "protocol_inv s" and "sc_closer s = Cl_ring" shows "protocol_inv (Close_ring s)"
  using assms(2) by (intro protocol_quiet [OF assms(1)]) (simp_all add: Close_ring_def pc_inv_def)

lemma protocol_close_join_writer:
  assumes "protocol_inv s" and "sc_closer s = Cl_join_writer" shows "protocol_inv (Close_join_writer s)"
  using assms(2) by (intro protocol_quiet [OF assms(1)]) (simp_all add: Close_join_writer_def pc_inv_def)

lemma protocol_close_timeout:
  assumes "protocol_inv s" and "sc_closer s = Cl_join_reader" shows "protocol_inv (Close_timeout s)"
proof -
  have "sc_context s" using assms by (auto simp: protocol_inv_def pc_inv_def)
  then show ?thesis
    using assms(2) by (intro protocol_call [OF assms(1), of _ G_TryCancel]) (simp_all add: Close_timeout_def pc_inv_def)
qed

lemma protocol_close_join_reader:
  assumes "protocol_inv s" and c: "sc_closer s = Cl_join_reader \<or> sc_closer s = Cl_cancelled"
    and r: "sc_reader s = Rd_none \<or> sc_reader s = Rd_exit"
  shows "protocol_inv (Close_join_reader s)"
proof (rule protocol_quiet [OF assms(1)])
  show "sc_calls (Close_join_reader s) = sc_calls s" by (simp add: Close_join_reader_def)
  fix a assume a: "pc_inv s a"
  from c show "pc_inv (Close_join_reader s) a"
  proof
    assume "sc_closer s = Cl_join_reader"
    then show ?thesis using a r by (simp add: Close_join_reader_def pc_inv_def)
  next
    assume "sc_closer s = Cl_cancelled"
    then show ?thesis using a r by (simp add: Close_join_reader_def pc_inv_def)
  qed
qed

lemma protocol_close_reset:
  assumes "protocol_inv s" and "sc_closer s = Cl_reset" shows "protocol_inv (Close_reset s)"
  using assms(2) by (intro protocol_call [OF assms(1), of _ G_destroy]) (simp_all add: Close_reset_def pc_inv_def no_stream_def)

lemmas protocol_close = protocol_close_begin protocol_close_ring protocol_close_join_writer protocol_close_timeout
  protocol_close_join_reader protocol_close_reset

lemma protocol_step: "stream_step cb s s' \<Longrightarrow> protocol_inv s \<Longrightarrow> protocol_inv s'"
proof (induction rule: stream_step.induct)
  case (take_seq s)
  then show ?case by (auto simp: NextSeq_def protocol_inv_def pc_inv_def)
next
  case (take_ts s n)
  then show ?case by (auto simp: AdvanceTimestamp_def protocol_inv_def pc_inv_def)
qed (simp_all add: protocol_send protocol_open protocol_writer protocol_reader protocol_close)

lemma protocol_new: "protocol_inv (StreamClient_new cfg)"
  by (simp add: protocol_inv_def StreamClient_new_def pc_inv_def no_stream_def)

lemma protocol_reach: "stream_reach cfg cb s \<Longrightarrow> protocol_inv s"
  by (induction rule: stream_reach.induct) (auto intro: protocol_new protocol_step)

end
