(* ===== verification/Media_StreamFlow.thy ===== *)
theory Media_StreamFlow
  imports Media_Stream
begin

text \<open>
  What the media stream of \<^verbatim>\<open>src/media/stream_client.cc\<close> does with messages and how \<^verbatim>\<open>Close\<close> ends:
  conservation and order of the messages, the flush on close, the protocol and termination theorems.
\<close>

section \<open>Messages are conserved and keep their order\<close>

fun is_start :: "from_module \<Rightarrow> bool" where
  "is_start (FM_start _) \<longleftrightarrow> True"
| "is_start _ \<longleftrightarrow> False"

text \<open>What was handed to \<^verbatim>\<open>Write\<close> after the handshake, and the audio frames whose write succeeded.\<close>

fun written_msgs :: "grpc_call list \<Rightarrow> from_module list" where
  "written_msgs [] = []"
| "written_msgs (G_Write m ok # cs) = (if is_start m then written_msgs cs else m # written_msgs cs)"
| "written_msgs (_ # cs) = written_msgs cs"

fun audio_written :: "grpc_call list \<Rightarrow> nat" where
  "audio_written [] = 0"
| "audio_written (G_Write (FM_audio _) True # cs) = Suc (audio_written cs)"
| "audio_written (_ # cs) = audio_written cs"

lemma written_append [simp]: "written_msgs (xs @ ys) = written_msgs xs @ written_msgs ys"
  by (induction xs rule: written_msgs.induct) auto

lemma audio_append [simp]: "audio_written (xs @ ys) = audio_written xs + audio_written ys"
  by (induction xs rule: audio_written.induct) auto

definition in_flight_msg :: "stream_client \<Rightarrow> from_module list" where
  "in_flight_msg s = (case sc_writer s of Wr_write m \<Rightarrow> [m] | _ \<Rightarrow> [])"

definition out_queue :: "stream_client \<Rightarrow> from_module list" where
  "out_queue s = written_msgs (sc_calls s) @ in_flight_msg s @ ring_content s"

definition flow_inv :: "stream_client \<Rightarrow> bool" where
  "flow_inv s \<longleftrightarrow>
     ring_wf s \<and> subseq (out_queue s) (sc_accepted s)
     \<and> mset (sc_accepted s) = mset (out_queue s) + mset (sc_evicted s)
     \<and> sc_frames_dropped s = of_nat (length (sc_evicted s))
     \<and> sc_frames_sent s = of_nat (audio_written (sc_calls s))
     \<and> (\<forall>m \<in> set (sc_accepted s). \<not> is_start m)"

lemma flow_cong:
  assumes "sc_ring s' = sc_ring s" "sc_tail s' = sc_tail s" "sc_count s' = sc_count s" "sc_head s' = sc_head s"
    "sc_accepted s' = sc_accepted s" "sc_evicted s' = sc_evicted s" "sc_frames_dropped s' = sc_frames_dropped s"
    "sc_frames_sent s' = sc_frames_sent s" "written_msgs (sc_calls s') = written_msgs (sc_calls s)"
    "audio_written (sc_calls s') = audio_written (sc_calls s)" "in_flight_msg s' = in_flight_msg s"
  shows "flow_inv s' = flow_inv s"
  by (simp only: flow_inv_def out_queue_def ring_wf_cong [OF assms(1-4)] content_cong [OF assms(1-3)] assms(5-11))

lemma flow_push:
  assumes "flow_inv s" and "\<not> is_start m"
  shows "flow_inv (RingPushLocked m s)"
proof -
  let ?s = "RingPushLocked m s" and ?w = "written_msgs (sc_calls s) @ in_flight_msg s"
  have wf: "ring_wf s" using assms(1) by (simp add: flow_inv_def)
  have fl: "in_flight_msg ?s = in_flight_msg s" by (simp add: in_flight_msg_def)
  have acc: "sc_accepted ?s = sc_accepted s @ [m]" by (simp add: RingPushLocked_def Let_def)
  show ?thesis
  proof (cases "sc_count s = length (sc_ring s)")
    case False
    then have "sc_evicted ?s = sc_evicted s" "sc_frames_dropped ?s = sc_frames_dropped s"
      by (simp_all add: RingPushLocked_def Let_def)
    moreover have "out_queue ?s = out_queue s @ [m]" using push_ok [OF wf, of m] False by (simp add: out_queue_def fl)
    ultimately show ?thesis using assms push_ok [OF wf, of m] by (simp add: flow_inv_def acc)
  next
    case True
    then have "ring_content s \<noteq> []" using wf by (metis length_content length_0_conv ring_wf_def less_nat_zero_code)
    then obtain c cs where c: "ring_content s = c # cs" by (cases "ring_content s") auto
    then have ev: "sc_evicted ?s = sc_evicted s @ [c]" "sc_frames_dropped ?s = sc_frames_dropped s + 1"
      using True by (simp_all add: RingPushLocked_def Let_def)
    have q: "out_queue ?s = (?w @ cs) @ [m]" "out_queue s = ?w @ c # cs"
      using push_ok [OF wf, of m] True c by (simp_all add: out_queue_def fl)
    have "subseq (?w @ cs) (?w @ c # cs)" unfolding append_assoc [symmetric] subseq_append' by (rule list_emb_Cons) simp
    then have "subseq (?w @ cs) (sc_accepted s)" using assms(1) q(2) subseq_order.trans by (fastforce simp: flow_inv_def)
    then have "subseq (out_queue ?s) (sc_accepted ?s)" unfolding q acc by (simp only: subseq_append)
    then show ?thesis using assms push_ok [OF wf, of m] ev q by (simp add: flow_inv_def acc)
  qed
qed

lemma flow_pop:
  assumes "flow_inv s" and "sc_writer s = Wr_wait"
  shows "flow_inv (WriterLoop_pop s)"
proof (cases "sc_count s = 0")
  case True
  then show ?thesis using assms flow_cong [of "s\<lparr>sc_writer := Wr_done\<rparr>" s]
    by (simp add: WriterLoop_pop_def pop_empty in_flight_msg_def)
next
  case False
  obtain r s' where p: "RingPopLocked s = (r, s')" by fastforce
  note fr = pop_frame [OF p]
  from pop_ok [OF _ _ p] assms(1) False obtain m
    where m: "r = Some m" "ring_content s = m # ring_content s'" "ring_wf s'" by (auto simp: flow_inv_def)
  let ?s = "s'\<lparr>sc_writer := Wr_write m\<rparr>"
  have s: "WriterLoop_pop s = ?s" by (simp add: WriterLoop_pop_def p m(1))
  have "ring_content ?s = ring_content s'" "ring_wf ?s = ring_wf s'"
    by (rule content_cong; simp) (rule ring_wf_cong; simp)
  then show ?thesis unfolding s using assms m fr by (simp add: flow_inv_def out_queue_def in_flight_msg_def)
qed

lemma flow_write:
  assumes "flow_inv s" and "sc_writer s = Wr_write m"
  shows "flow_inv (WriterLoop_write m ok s)"
proof -
  let ?s = "WriterLoop_write m ok s"
  have "m \<in># mset (sc_accepted s)" using assms by (simp add: flow_inv_def out_queue_def in_flight_msg_def)
  then have m: "\<not> is_start m" using assms(1) by (simp add: flow_inv_def)
  have same: "sc_ring ?s = sc_ring s" "sc_tail ?s = sc_tail s" "sc_count ?s = sc_count s" "sc_head ?s = sc_head s"
    "sc_accepted ?s = sc_accepted s" "sc_evicted ?s = sc_evicted s" "sc_frames_dropped ?s = sc_frames_dropped s"
    "in_flight_msg ?s = []" "sc_calls ?s = sc_calls s @ [G_Write m ok]"
    by (cases m; simp add: WriterLoop_write_def in_flight_msg_def Let_def)+
  have sent: "sc_frames_sent ?s = sc_frames_sent s + of_nat (audio_written [G_Write m ok])"
    by (cases m; cases ok) (simp_all add: WriterLoop_write_def Let_def)
  show ?thesis using assms m
    by (simp add: flow_inv_def out_queue_def same sent content_cong [OF same(1-3)] ring_wf_cong [OF same(1-4)])
      (simp add: in_flight_msg_def)
qed

lemma flow_open:
  assumes "sc_writer s = Wr_none"
  shows "flow_inv (snd (Open env s)) = flow_inv s"
proof (cases "sc_open s \<or> \<not> oe_stream env")
  case True
  then show ?thesis by (intro flow_cong) (auto simp: Open_def in_flight_msg_def)
next
  case False
  then have o: "\<not> sc_open s" "oe_stream env" by simp_all
  let ?s = "snd (Open env s)"
  consider "\<not> oe_write env" | "oe_write env" "oe_read env = None"
    | r where "oe_write env" "oe_read env = Some r" by (cases "oe_read env") auto
  then have "sc_ring ?s = sc_ring s \<and> sc_tail ?s = sc_tail s \<and> sc_count ?s = sc_count s \<and> sc_head ?s = sc_head s
    \<and> sc_accepted ?s = sc_accepted s \<and> sc_evicted ?s = sc_evicted s \<and> sc_frames_dropped ?s = sc_frames_dropped s
    \<and> sc_frames_sent ?s = sc_frames_sent s"
  proof cases
    case (3 r)
    then show ?thesis using o by (cases r) (simp_all add: Open_def handshake_def Let_def)
  qed (use o in \<open>simp_all add: Open_def handshake_def or_unavailable_def Let_def\<close>)
  moreover have "in_flight_msg ?s = in_flight_msg s"
    using assms by (simp add: in_flight_msg_def Open_shape(7) [OF o])
  moreover have "written_msgs (sc_calls ?s) = written_msgs (sc_calls s)" "audio_written (sc_calls ?s) = audio_written (sc_calls s)"
    by (auto simp: Open_shape(1) [OF o] open_calls_def)
  ultimately show ?thesis by (intro flow_cong) simp_all
qed

lemma flow_keep:
  assumes "flow_inv s" and "sc_ring s' = sc_ring s" "sc_tail s' = sc_tail s" "sc_count s' = sc_count s" "sc_head s' = sc_head s"
    "sc_accepted s' = sc_accepted s" "sc_evicted s' = sc_evicted s" "sc_frames_dropped s' = sc_frames_dropped s"
    "sc_frames_sent s' = sc_frames_sent s" "written_msgs (sc_calls s') = written_msgs (sc_calls s)"
    "audio_written (sc_calls s') = audio_written (sc_calls s)" "in_flight_msg s' = in_flight_msg s"
  shows "flow_inv s'"
  using assms(1) unfolding flow_cong [OF assms(2-)] .

text \<open>The steps that touch neither the ring nor the messages.\<close>

lemmas quiet_step_defs = NextSeq_def AdvanceTimestamp_def WritesDoneOnce_def WritesDone_call_def ReaderLoop_read_def
  ReaderLoop_finish_def ReaderLoop_done_def Close_begin_def Close_ring_def Close_join_writer_def Close_timeout_def
  Close_join_reader_def Close_reset_def

lemma flow_step: "stream_step cb s s' \<Longrightarrow> flow_inv s \<Longrightarrow> flow_inv s'"
proof (induction rule: stream_step.induct)
  case (send_audio s f)
  then show ?case using flow_push [of s "FM_audio (ToProto f)"] by (simp add: SendAudio_def)
next
  case (send_control s c)
  then show ?case using flow_push [of s "FM_control c"] by (simp add: SendControl_def)
qed (simp_all add: flow_open flow_pop flow_write,
     (erule flow_keep; auto simp: quiet_step_defs in_flight_msg_def Let_def split: option.split)+)

lemma flow_new: "flow_inv (StreamClient_new cfg)"
  using new_ring [of cfg] by (simp add: flow_inv_def out_queue_def in_flight_msg_def) (simp add: StreamClient_new_def)

lemma flow_reach: "stream_reach cfg cb s \<Longrightarrow> flow_inv s"
  by (induction rule: stream_reach.induct) (auto intro: flow_new flow_step)

section \<open>Close flushes the ring\<close>

definition write_failed :: "stream_client \<Rightarrow> bool" where
  "write_failed s \<longleftrightarrow> (\<exists>m. G_Write m False \<in> set (sc_calls s))"

definition drain_inv :: "stream_client \<Rightarrow> bool" where
  "drain_inv s \<longleftrightarrow>
     (sc_closer s \<notin> {Cl_none, Cl_ring} \<longrightarrow> sc_ring_closed s)
     \<and> (\<not> stc_half_close_writes_after_start (sc_config s) \<longrightarrow>
          (sc_writer s \<in> {Wr_done, Wr_half} \<longrightarrow> sc_count s = 0 \<and> sc_ring_closed s)
          \<and> (sc_writer s = Wr_exit \<longrightarrow> write_failed s \<or> sc_count s = 0 \<and> sc_ring_closed s)
          \<and> (sc_writer s = Wr_none \<and> sc_ring_closed s \<longrightarrow> write_failed s \<or> sc_count s = 0)
          \<and> (sc_open s \<or> sc_closer s \<in> {Cl_ring, Cl_join_writer} \<longrightarrow> sc_writer s \<noteq> Wr_none))"

lemma drain_send: "drain_inv s \<Longrightarrow> drain_inv (snd (SendAudio f s)) \<and> drain_inv (SendControl c s)"
  by (auto simp: SendAudio_def SendControl_def drain_inv_def write_failed_def)

lemma Open_ring:
  "sc_config (snd (Open env s)) = sc_config s \<and> sc_count (snd (Open env s)) = sc_count s
   \<and> (\<not> stc_half_close_writes_after_start (sc_config s) \<longrightarrow> sc_ring_closed (snd (Open env s)) = sc_ring_closed s)"
proof -
  consider "sc_open s" | "\<not> sc_open s" "\<not> oe_stream env" | "\<not> sc_open s" "oe_stream env" "\<not> oe_write env"
    | "\<not> sc_open s" "oe_stream env" "oe_write env" "oe_read env = None"
    | r where "\<not> sc_open s" "oe_stream env" "oe_write env" "oe_read env = Some r"
    by (cases "oe_read env") auto
  then show ?thesis
  proof cases
    case (5 r)
    then show ?thesis by (cases r) (simp_all add: Open_def handshake_def Let_def)
  qed (simp_all add: Open_def handshake_def or_unavailable_def Let_def)
qed

lemma Open_calls_prefix: "set (sc_calls s) \<subseteq> set (sc_calls (snd (Open env s)))"
  using Open_shape(1) [of s env] by (cases "sc_open s \<or> \<not> oe_stream env") (auto simp: Open_def)

lemma drain_open:
  assumes inv: "drain_inv s" and "protocol_inv s" and idle: "sc_closer s = Cl_none" "sc_writer s = Wr_none" "sc_reader s = Rd_none"
  shows "drain_inv (snd (Open env s))"
proof (cases "sc_open s \<or> \<not> oe_stream env")
  case True
  then show ?thesis using inv by (auto simp: Open_def drain_inv_def write_failed_def)
next
  case False
  then have o: "\<not> sc_open s" "oe_stream env" by simp_all
  have "write_failed s \<longrightarrow> write_failed (snd (Open env s))"
    using Open_calls_prefix [of s env] by (auto simp: write_failed_def)
  then show ?thesis using inv idle Open_ring [of env s] by (auto simp: drain_inv_def Open_shape(4-7) [OF o])
qed

lemma drain_pop:
  assumes "drain_inv s" and "sc_writer s = Wr_wait" and "0 < sc_count s \<or> sc_ring_closed s" and "ring_wf s"
  shows "drain_inv (WriterLoop_pop s)"
proof (cases "sc_count s = 0")
  case True
  then show ?thesis using assms by (simp add: WriterLoop_pop_def pop_empty drain_inv_def)
next
  case False
  obtain r s' where p: "RingPopLocked s = (r, s')" by fastforce
  obtain m where "r = Some m" using pop_ok [OF assms(4) _ p] False by blast
  then show ?thesis using assms by (simp add: WriterLoop_pop_def p drain_inv_def pop_frame [OF p])
qed

lemma drain_write:
  "drain_inv s \<Longrightarrow> sc_writer s = Wr_write m \<Longrightarrow> drain_inv (WriterLoop_write m ok s)"
  by (cases m; cases ok) (auto simp: WriterLoop_write_def drain_inv_def write_failed_def Let_def)

lemma closing_not_open: "protocol_inv s \<Longrightarrow> sc_closer s \<noteq> Cl_none \<Longrightarrow> \<not> sc_open s"
  by (auto simp: protocol_inv_def pc_inv_def)

lemma drain_step: "stream_step cb s s' \<Longrightarrow> drain_inv s \<Longrightarrow> protocol_inv s \<Longrightarrow> ring_wf s \<Longrightarrow> drain_inv s'"
proof (induction rule: stream_step.induct)
  case (close_join_writer s)
  then have "\<not> sc_open s" using closing_not_open by simp
  then show ?case using close_join_writer by (auto simp: Close_join_writer_def drain_inv_def write_failed_def)
next
  case (close_join_reader s)
  then have "\<not> sc_open s" using closing_not_open by auto
  then show ?case using close_join_reader by (auto simp: Close_join_reader_def drain_inv_def write_failed_def)
qed (simp_all add: drain_send drain_open drain_pop drain_write,
     (auto simp: quiet_step_defs drain_inv_def write_failed_def Let_def split: option.split)+)

lemma drain_new: "drain_inv (StreamClient_new cfg)"
  by (simp add: drain_inv_def StreamClient_new_def)

lemma drain_reach: "stream_reach cfg cb s \<Longrightarrow> drain_inv s"
proof (induction rule: stream_reach.induct)
  case (reach_step s s')
  then show ?case using drain_step protocol_reach flow_reach by (auto simp: flow_inv_def)
qed (rule drain_new)

lemma Open_config: "sc_config (snd (Open env s)) = sc_config s"
  by (simp add: Open_ring)

lemma config_step: "stream_step cb s s' \<Longrightarrow> sc_config s' = sc_config s"
proof (induction rule: stream_step.induct)
  case (writer_pop s)
  obtain r s' where p: "RingPopLocked s = (r, s')" by fastforce
  show ?case by (simp add: WriterLoop_pop_def p pop_frame(9) [OF p] split: option.split)
next
  case (writer_write s m ok)
  show ?case by (simp add: WriterLoop_write_def Let_def split: from_module.split)
qed (simp_all add: SendAudio_def SendControl_def Open_config quiet_step_defs Let_def split: option.split)

lemma config_reach: "stream_reach cfg cb s \<Longrightarrow> sc_config s = cfg"
  by (induction rule: stream_reach.induct) (auto simp: StreamClient_new_def dest: config_step)

text \<open>A concrete stream: opened, one frame and one control message sent, the frame popped and written.\<close>

definition demo_stream_config :: stream_config where
  "demo_stream_config =
     \<lparr>stc_stream_id = ''s'', stc_channel_uuid = ''u'', stc_tenant_id = ''t'', stc_purpose = 2, stc_sample_rate_hz = 8000,
      stc_channels = 1, stc_codec = 1, stc_side = 1, stc_traceparent = [], stc_start_message = [], stc_variables = Map.empty,
      stc_half_close_writes_after_start = False, stc_send_ring_capacity_frames = 4\<rparr>"

definition demo_stream_callbacks :: stream_callbacks where
  "demo_stream_callbacks = \<lparr>cb_on_audio = True, cb_on_transcript = True, cb_on_amd = False, cb_on_control = True, cb_on_done = True\<rparr>"

definition demo_open_env :: open_env where
  "demo_open_env = \<lparr>oe_stream = True, oe_write = True, oe_read = Some (FS_ready 8000 1 ''srv''), oe_finish = Status_OK,
                    oe_timeout = False\<rparr>"

definition demo_opened :: stream_client where
  "demo_opened = snd (Open demo_open_env (StreamClient_new demo_stream_config))"

lemmas demo_stream_defs = demo_opened_def demo_open_env_def demo_stream_config_def demo_stream_callbacks_def
  StreamClient_new_def Open_def handshake_def StreamStart_of_def Let_def

lemma demo_opened_reach: "stream_reach demo_stream_config demo_stream_callbacks demo_opened"
  unfolding demo_opened_def
  by (rule reach_step [OF reach_new open_stream]) (simp_all add: StreamClient_new_def)

definition demo_sent :: stream_client where
  "demo_sent = WriterLoop_write (FM_control ''hi'') True (WriterLoop_pop (SendControl ''hi'' demo_opened))"

lemma demo_sent_reach: "stream_reach demo_stream_config demo_stream_callbacks demo_sent"
proof -
  have "stream_reach demo_stream_config demo_stream_callbacks (SendControl ''hi'' demo_opened)"
    by (rule reach_step [OF demo_opened_reach send_control])
  then have "stream_reach demo_stream_config demo_stream_callbacks (WriterLoop_pop (SendControl ''hi'' demo_opened))"
    by (rule reach_step [OF _ writer_pop]) (simp_all add: SendControl_def RingPushLocked_def demo_stream_defs)
  then show ?thesis unfolding demo_sent_def
    by (rule reach_step [OF _ writer_write])
      (simp add: SendControl_def RingPushLocked_def WriterLoop_pop_def RingPopLocked_def demo_stream_defs)
qed

section \<open>Properties\<close>

text \<open>
  C24. The client respects the gRPC stream protocol under every interleaving. In every state reachable by
  any number of opens, sends, closes (also from callbacks) and steps of the writer and reader threads, the
  calls made on the stream are legal: none before it is created or after it is destroyed, no write after
  the half-close, at most one half-close and one \<^verbatim>\<open>Finish\<close>, and a stream whose handshake completed is
  finished before it is destroyed.
\<close>

theorem stream_respects_grpc_protocol:
  "stream_reach cfg cb s \<Longrightarrow> protocol_ok (sc_calls s)"
  using protocol_reach [of cfg cb s] by (auto simp: protocol_inv_def protocol_ok_def)

theorem stream_respects_grpc_protocol_witness:
  "protocol_ok (sc_calls demo_sent) \<and> length (sc_calls demo_sent) = 4"
  using stream_respects_grpc_protocol [OF demo_sent_reach]
  by (simp add: demo_sent_def SendControl_def RingPushLocked_def WriterLoop_pop_def RingPopLocked_def
      WriterLoop_write_def demo_stream_defs)

text \<open>
  C23. No accepted message is lost unnoticed, duplicated or reordered. In every reachable state the
  messages written, the one being written and those in the circular ring, in this order, are a subsequence
  of the messages accepted; together with the evicted ones they are all of them; the drop counter counts
  exactly the evictions and the sent counter the audio frames whose write succeeded. When the ring is
  closed and the writer is joined, and no write failed, the ring is empty, unless the stream was
  configured to half-close after its start.
\<close>

theorem stream_conserves_messages:
  assumes "stream_reach cfg cb s"
  shows "subseq (out_queue s) (sc_accepted s)
    \<and> mset (sc_accepted s) = mset (out_queue s) + mset (sc_evicted s)
    \<and> sc_frames_dropped s = of_nat (length (sc_evicted s))
    \<and> sc_frames_sent s = of_nat (audio_written (sc_calls s))
    \<and> (\<not> stc_half_close_writes_after_start cfg \<and> sc_ring_closed s \<and> sc_writer s = Wr_none \<and> \<not> write_failed s
         \<longrightarrow> ring_content s = [])"
proof -
  have "ring_content s = []"
    if "\<not> stc_half_close_writes_after_start cfg \<and> sc_ring_closed s \<and> sc_writer s = Wr_none \<and> \<not> write_failed s"
  proof -
    have "sc_count s = 0" using that drain_reach [OF assms] config_reach [OF assms] by (simp add: drain_inv_def)
    then show ?thesis by (simp add: ring_content_def)
  qed
  then show ?thesis using flow_reach [OF assms] by (simp add: flow_inv_def)
qed

theorem stream_conserves_messages_witness:
  "out_queue demo_sent = [FM_control ''hi''] \<and> mset (sc_accepted demo_sent) = mset (out_queue demo_sent)"
  using stream_conserves_messages [OF demo_sent_reach]
  by (simp add: out_queue_def ring_content_def in_flight_msg_def demo_sent_def SendControl_def RingPushLocked_def
      WriterLoop_pop_def RingPopLocked_def WriterLoop_write_def demo_stream_defs)

section \<open>Close ends, except inside a callback\<close>

text \<open>
  The steps of a close in progress: those of the closing thread, of the writer, and of the reader when
  its \<^verbatim>\<open>Read\<close> fails or its callback returns. A \<^verbatim>\<open>Read\<close> that still delivers a message is not among them.
\<close>

inductive close_progress :: "stream_callbacks \<Rightarrow> stream_client \<Rightarrow> stream_client \<Rightarrow> bool" for cb where
  cp_pop: "sc_writer s = Wr_wait \<Longrightarrow> 0 < sc_count s \<or> sc_ring_closed s \<Longrightarrow> close_progress cb s (WriterLoop_pop s)"
| cp_write: "sc_writer s = Wr_write m \<Longrightarrow> close_progress cb s (WriterLoop_write m ok s)"
| cp_done: "sc_writer s = Wr_done \<Longrightarrow> close_progress cb s (WritesDoneOnce s)"
| cp_half: "sc_writer s = Wr_half \<Longrightarrow> close_progress cb s (WritesDone_call s)"
| cp_return: "sc_reader s = Rd_callback \<Longrightarrow> \<not> in_close_by_reader s \<Longrightarrow> close_progress cb s (s\<lparr>sc_reader := Rd_read\<rparr>)"
| cp_eof: "sc_reader s = Rd_read \<Longrightarrow> close_progress cb s (s\<lparr>sc_reader := Rd_finish\<rparr>)"
| cp_finish: "sc_reader s = Rd_finish \<Longrightarrow> close_progress cb s (ReaderLoop_finish st s)"
| cp_final: "sc_reader s = Rd_final st \<Longrightarrow> close_progress cb s (ReaderLoop_done cb st s)"
| cp_exit: "sc_reader s = Rd_done \<Longrightarrow> \<not> in_close_by_reader s \<Longrightarrow> close_progress cb s (s\<lparr>sc_reader := Rd_exit\<rparr>)"
| cp_ring: "sc_closer s = Cl_ring \<Longrightarrow> close_progress cb s (Close_ring s)"
| cp_join_writer: "sc_closer s = Cl_join_writer \<Longrightarrow> sc_writer s = Wr_none \<or> sc_writer s = Wr_exit \<Longrightarrow>
    close_progress cb s (Close_join_writer s)"
| cp_timeout: "sc_closer s = Cl_join_reader \<Longrightarrow> close_progress cb s (Close_timeout s)"
| cp_join_reader: "sc_closer s = Cl_join_reader \<or> sc_closer s = Cl_cancelled \<Longrightarrow>
    sc_reader s = Rd_none \<or> sc_reader s = Rd_exit \<Longrightarrow> close_progress cb s (Close_join_reader s)"
| cp_reset: "sc_closer s = Cl_reset \<Longrightarrow> close_progress cb s (Close_reset s)"

lemma close_progress_is_step: "close_progress cb s s' \<Longrightarrow> stream_step cb s s'"
  by (induction rule: close_progress.induct) (auto intro: stream_step.intros)

text \<open>How many such steps can be left.\<close>

fun writer_work :: "writer_pc \<Rightarrow> nat \<Rightarrow> nat" where
  "writer_work (Wr_write _) n = 2 * n + 5"
| "writer_work Wr_wait n = 2 * n + 4"
| "writer_work Wr_done n = 3"
| "writer_work Wr_half n = 2"
| "writer_work Wr_exit n = 1"
| "writer_work Wr_none n = 0"

fun reader_work :: "reader_pc \<Rightarrow> nat" where
  "reader_work Rd_callback = 6"
| "reader_work Rd_read = 5"
| "reader_work Rd_finish = 4"
| "reader_work (Rd_final _) = 3"
| "reader_work Rd_done = 2"
| "reader_work Rd_exit = 1"
| "reader_work Rd_none = 0"

fun closer_work :: "closer_pc \<Rightarrow> nat" where
  "closer_work Cl_ring = 5"
| "closer_work Cl_join_writer = 4"
| "closer_work Cl_join_reader = 3"
| "closer_work Cl_cancelled = 2"
| "closer_work Cl_reset = 1"
| "closer_work Cl_none = 0"

definition close_work :: "stream_client \<Rightarrow> nat" where
  "close_work s = writer_work (sc_writer s) (sc_count s) + reader_work (sc_reader s) + closer_work (sc_closer s)"

lemma work_pop:
  assumes "sc_writer s = Wr_wait" and "ring_wf s"
  shows "close_work (WriterLoop_pop s) < close_work s"
proof (cases "sc_count s = 0")
  case True
  then show ?thesis using assms(1) by (simp add: WriterLoop_pop_def pop_empty close_work_def)
next
  case False
  obtain r s' where p: "RingPopLocked s = (r, s')" by fastforce
  obtain m where "r = Some m" "ring_content s = m # ring_content s'" using pop_ok [OF assms(2) _ p] False by blast
  moreover from this(2) have "sc_count s = Suc (sc_count s')" by (metis length_content length_Cons)
  ultimately show ?thesis using assms(1) by (simp add: WriterLoop_pop_def p close_work_def pop_frame [OF p])
qed

lemma work_decreases: "close_progress cb s s' \<Longrightarrow> ring_wf s \<Longrightarrow> close_work s' < close_work s"
proof (induction rule: close_progress.induct)
  case (cp_write s m ok)
  then show ?case by (cases m; cases ok) (simp_all add: WriterLoop_write_def close_work_def Let_def)
qed (use work_pop in \<open>auto simp: quiet_step_defs close_work_def Let_def\<close>)

lemma close_not_stuck:
  assumes "stream_reach cfg cb s" and c: "sc_closer s \<noteq> Cl_none" and free: "\<not> sc_close_by_reader s"
  shows "\<exists>s'. close_progress cb s s'"
proof -
  have closed: "sc_closer s = Cl_join_writer \<longrightarrow> sc_ring_closed s" using drain_reach [OF assms(1)] by (auto simp: drain_inv_def)
  have cb: "\<not> in_close_by_reader s" using free by (simp add: in_close_by_reader_def)
  show ?thesis
  proof (cases "sc_closer s")
    case Cl_join_writer
    then show ?thesis
      using closed cp_pop cp_write cp_done cp_half cp_join_writer by (cases "sc_writer s") (metis+)
  next
    case Cl_cancelled
    then show ?thesis
      using cb cp_return cp_eof cp_finish cp_final cp_exit cp_join_reader by (cases "sc_reader s") (metis+)
  qed (use c cp_ring cp_timeout cp_reset in blast)+
qed

lemma progress_keeps_caller: "close_progress cb s s' \<Longrightarrow> \<not> sc_close_by_reader s \<Longrightarrow> \<not> sc_close_by_reader s'"
proof (induction rule: close_progress.induct)
  case (cp_pop s)
  obtain r s' where p: "RingPopLocked s = (r, s')" by fastforce
  then show ?case using cp_pop pop_frame(14) [OF p] by (simp add: WriterLoop_pop_def p split: option.split)
next
  case (cp_write s m ok)
  then show ?case by (simp add: WriterLoop_write_def Let_def split: from_module.split)
qed (simp_all add: quiet_step_defs Let_def)

lemma close_finishes:
  "stream_reach cfg cb s \<Longrightarrow> \<not> sc_close_by_reader s \<Longrightarrow>
     \<exists>s'. (close_progress cb)\<^sup>*\<^sup>* s s' \<and> sc_closer s' = Cl_none \<and> stream_reach cfg cb s'"
proof (induction "close_work s" arbitrary: s rule: less_induct)
  case less
  show ?case
  proof (cases "sc_closer s = Cl_none")
    case True
    then show ?thesis using less.prems by blast
  next
    case False
    then obtain t where t: "close_progress cb s t" using close_not_stuck less.prems by blast
    have "close_work t < close_work s" using work_decreases [OF t] flow_reach [OF less.prems(1)] by (simp add: flow_inv_def)
    moreover have "stream_reach cfg cb t" by (rule reach_step [OF less.prems(1) close_progress_is_step [OF t]])
    ultimately obtain s' where "(close_progress cb)\<^sup>*\<^sup>* t s'" "sc_closer s' = Cl_none" "stream_reach cfg cb s'"
      using less.hyps progress_keeps_caller [OF t less.prems(2)] by blast
    then show ?thesis using converse_rtranclp_into_rtranclp [of "close_progress cb", OF t] by blast
  qed
qed


definition demo_closing :: stream_client where
  "demo_closing = Close_begin False demo_sent"

lemma demo_closing_reach: "stream_reach demo_stream_config demo_stream_callbacks demo_closing"
  unfolding demo_closing_def by (rule reach_step [OF demo_sent_reach close_call])

lemma demo_closing_state:
  "sc_closer demo_closing = Cl_ring \<and> \<not> sc_close_by_reader demo_closing \<and> close_work demo_closing = 14"
  by (simp add: demo_closing_def Close_begin_def close_work_def demo_sent_def SendControl_def RingPushLocked_def
      WriterLoop_pop_def RingPopLocked_def WriterLoop_write_def demo_stream_defs)


text \<open>The reader thread waits for a close that waits for the reader thread.\<close>

definition self_join :: "reader_pc \<Rightarrow> stream_client \<Rightarrow> bool" where
  "self_join r s \<longleftrightarrow> sc_close_by_reader s \<and> sc_closer s \<notin> {Cl_none, Cl_reset} \<and> \<not> sc_open s \<and> sc_reader s = r"

lemma self_join_step:
  assumes "stream_step cb s s'" and "self_join r s" and "r = Rd_callback \<or> r = Rd_done"
  shows "self_join r s'"
  using assms
proof (induction rule: stream_step.induct)
  case (writer_pop s)
  obtain x s' where p: "RingPopLocked s = (x, s')" by fastforce
  then show ?case using writer_pop pop_frame [OF p] by (simp add: WriterLoop_pop_def p self_join_def split: option.split)
next
  case (writer_write s m ok)
  then show ?case by (simp add: WriterLoop_write_def self_join_def Let_def split: from_module.split)
qed (auto simp: SendAudio_def SendControl_def self_join_def in_close_by_reader_def quiet_step_defs Let_def)

text \<open>
  C36. A \<^verbatim>\<open>Close\<close> called inside a callback never returns. When a callback on the reader thread, a message
  callback or \<^verbatim>\<open>on_done\<close>, closes the open stream, then whatever the threads and the peer do, the
  close is still running and the reader is still in that callback in every state reached afterwards.
\<close>

theorem close_in_callback_never_returns:
  assumes "stream_reach cfg cb s" and "sc_open s" and "sc_reader s = Rd_callback \<or> sc_reader s = Rd_done"
    and "(stream_step cb)\<^sup>*\<^sup>* (Close_begin True s) s'"
  shows "sc_closer s' \<noteq> Cl_none \<and> sc_reader s' = sc_reader s"
proof -
  have "self_join (sc_reader s) (Close_begin True s)" using assms(2) by (simp add: self_join_def Close_begin_def)
  with assms(4) have "self_join (sc_reader s) s'"
    by (induction rule: rtranclp_induct) (use self_join_step assms(3) in blast)+
  then show ?thesis by (simp add: self_join_def)
qed

definition demo_in_callback :: stream_client where
  "demo_in_callback = ReaderLoop_read demo_stream_callbacks (FS_control ''stop'') demo_opened"

theorem close_in_callback_never_returns_witness:
  "sc_callbacks demo_in_callback = [Cb_control ''stop''] \<and> sc_closer (Close_ring (Close_begin True demo_in_callback)) \<noteq> Cl_none"
proof -
  have st: "sc_reader demo_opened = Rd_read" "sc_open demo_opened" "sc_closer demo_opened = Cl_none" "sc_callbacks demo_opened = []"
    by (simp_all add: demo_stream_defs)
  have in_cb: "demo_in_callback = demo_opened\<lparr>sc_callbacks := [Cb_control ''stop''], sc_reader := Rd_callback\<rparr>"
    using st(4) by (simp add: demo_in_callback_def ReaderLoop_read_def ReaderLoop_callback_def demo_stream_callbacks_def)
  have r: "stream_reach demo_stream_config demo_stream_callbacks demo_in_callback"
    unfolding demo_in_callback_def by (rule reach_step [OF demo_opened_reach reader_read [OF st(1)]])
  have "stream_step demo_stream_callbacks (Close_begin True demo_in_callback) (Close_ring (Close_begin True demo_in_callback))"
    by (rule stream_step.close_ring) (simp add: Close_begin_def in_cb st)
  then have "(stream_step demo_stream_callbacks)\<^sup>*\<^sup>* (Close_begin True demo_in_callback)
      (Close_ring (Close_begin True demo_in_callback))" by (rule r_into_rtranclp)
  moreover have "sc_open demo_in_callback" "sc_reader demo_in_callback = Rd_callback"
    "sc_callbacks demo_in_callback = [Cb_control ''stop'']" by (simp_all add: in_cb st)
  ultimately show ?thesis using close_in_callback_never_returns [OF r] by blast
qed

end
