(* ===== verification/Media_Fanout.thy ===== *)
theory Media_Fanout
  imports Media_Frame Control_StartBot
begin

text \<open>
  The router from one bot stream to the queues of its target channels, \<^verbatim>\<open>src/media/bug_fanout.cc\<close>. Queues
  are referred to by their position, which stands for the pointer the code keeps; the index by uuid
  that the constructor fills is never read and is left out.
\<close>

section \<open>Queues and routing\<close>

record target_queue =
  tq_channel_uuid :: string
  tq_queue :: "audio_frame list"

datatype fanout_mode = kBroadcast | kWhisper

record fanout_config =
  fc_mode :: fanout_mode
  fc_target_uuids :: "string list"
  fc_write_subset_uuids :: "string list"
  fc_capacity_frames :: u32

record bug_fanout =
  fo_cfg :: fanout_config
  fo_queues :: "target_queue list"
  fo_write_queues :: "nat list"
  fo_half_closed :: bool
  fo_total_dropped :: u64

fun find_queue :: "string \<Rightarrow> nat \<Rightarrow> target_queue list \<Rightarrow> nat option" where
  "find_queue uuid i [] = None"
| "find_queue uuid i (q # qs) = (if tq_channel_uuid q = uuid then Some i else find_queue uuid (Suc i) qs)"

definition FindQueue :: "string \<Rightarrow> target_queue list \<Rightarrow> nat option" where
  "FindQueue uuid qs = find_queue uuid 0 qs"

definition BugFanout_new :: "fanout_config \<Rightarrow> bug_fanout" where
  "BugFanout_new cfg =
     (let queues = map (\<lambda>u. \<lparr>tq_channel_uuid = u, tq_queue = []\<rparr>) (fc_target_uuids cfg)
      in \<lparr>fo_cfg = cfg, fo_queues = queues,
          fo_write_queues = (if fc_mode cfg = kBroadcast then [0..<length queues]
                             else List.map_filter (\<lambda>u. FindQueue u queues) (fc_write_subset_uuids cfg)),
          fo_half_closed = False, fo_total_dropped = 0\<rparr>)"

text \<open>Removing from the front until the queue is within the capacity, counting the removals.\<close>

fun trim :: "nat \<Rightarrow> audio_frame list \<Rightarrow> u64 \<times> audio_frame list" where
  "trim cap [] = (0, [])"
| "trim cap (f # fs) =
     (if cap < length (f # fs) then (case trim cap fs of (d, q) \<Rightarrow> (d + 1, q)) else (0, f # fs))"

definition push_target :: "nat \<Rightarrow> audio_frame \<Rightarrow> nat \<Rightarrow> u64 \<times> target_queue list \<Rightarrow> u64 \<times> target_queue list" where
  "push_target cap frame i s =
     (case s of (dropped, qs) \<Rightarrow>
       case trim cap (tq_queue (qs ! i) @ [frame]) of (d, q) \<Rightarrow> (dropped + d, qs[i := (qs ! i)\<lparr>tq_queue := q\<rparr>]))"

definition Fanout_Push :: "audio_frame \<Rightarrow> bug_fanout \<Rightarrow> u64 \<times> bug_fanout" where
  "Fanout_Push frame fo =
     (if fo_half_closed fo \<or> fo_write_queues fo = [] then (0, fo)
      else (case fold (push_target (unat (fc_capacity_frames (fo_cfg fo))) frame) (fo_write_queues fo) (0, fo_queues fo) of
              (dropped, qs) \<Rightarrow> (dropped, fo\<lparr>fo_queues := qs, fo_total_dropped := fo_total_dropped fo + dropped\<rparr>)))"

definition Fanout_Pop :: "string \<Rightarrow> bug_fanout \<Rightarrow> audio_frame option \<times> bug_fanout" where
  "Fanout_Pop uuid fo =
     (case FindQueue uuid (fo_queues fo) of
        None \<Rightarrow> (None, fo)
      | Some i \<Rightarrow>
          (case tq_queue (fo_queues fo ! i) of
             [] \<Rightarrow> (None, fo)
           | f # fs \<Rightarrow> (Some f, fo\<lparr>fo_queues := (fo_queues fo)[i := (fo_queues fo ! i)\<lparr>tq_queue := fs\<rparr>]\<rparr>)))"

definition Fanout_HalfClose :: "bug_fanout \<Rightarrow> bug_fanout" where
  "Fanout_HalfClose fo = fo\<lparr>fo_half_closed := True\<rparr>"

definition QueueDepth :: "string \<Rightarrow> bug_fanout \<Rightarrow> nat" where
  "QueueDepth uuid fo = (case FindQueue uuid (fo_queues fo) of None \<Rightarrow> 0 | Some i \<Rightarrow> length (tq_queue (fo_queues fo ! i)))"

definition TotalDropped :: "bug_fanout \<Rightarrow> u64" where
  "TotalDropped fo = fo_total_dropped fo"

section \<open>Facts about finding and trimming\<close>

lemma find_queue_shift: "find_queue u (i + k) qs = map_option ((+) k) (find_queue u i qs)"
  by (induction qs arbitrary: i) (auto simp flip: add_Suc)

lemma FindQueue_Some:
  "FindQueue u qs = Some i \<Longrightarrow> i < length qs \<and> tq_channel_uuid (qs ! i) = u"
proof (induction qs arbitrary: i)
  case (Cons q qs)
  then show ?case using find_queue_shift [of u 0 1 qs]
    by (cases "find_queue u 0 qs") (auto simp: FindQueue_def split: if_splits)
qed (simp add: FindQueue_def)

lemma FindQueue_None: "FindQueue u qs = None \<longleftrightarrow> u \<notin> tq_channel_uuid ` set qs"
proof (induction qs)
  case (Cons q qs)
  then show ?case using find_queue_shift [of u 0 1 qs] by (auto simp: FindQueue_def)
qed (simp add: FindQueue_def)

lemma FindQueue_distinct:
  assumes "distinct (map tq_channel_uuid qs)" "i < length qs"
  shows "FindQueue (tq_channel_uuid (qs ! i)) qs = Some i"
proof (cases "FindQueue (tq_channel_uuid (qs ! i)) qs")
  case None
  then show ?thesis using assms(2) by (auto simp: FindQueue_None)
next
  case (Some j)
  then show ?thesis using FindQueue_Some [OF Some] assms nth_eq_iff_index_eq [OF assms(1), of j i] by simp
qed

lemma FindQueue_cong: "map tq_channel_uuid qs = map tq_channel_uuid qs' \<Longrightarrow> FindQueue u qs = FindQueue u qs'"
proof (induction qs arbitrary: qs')
  case (Cons q qs)
  then obtain p ps where p: "qs' = p # ps" "tq_channel_uuid p = tq_channel_uuid q" "map tq_channel_uuid qs = map tq_channel_uuid ps"
    by (cases qs') auto
  then show ?case using Cons.IH [OF p(3)] find_queue_shift [of u 0 1 qs] find_queue_shift [of u 0 1 ps]
    by (simp add: FindQueue_def)
qed (simp add: FindQueue_def)

lemma trim_eq: "trim cap q = (of_nat (length q - cap), last_n cap q)"
  by (induction q) (auto simp: last_n_def Suc_diff_le)

section \<open>Refinement: every target has its own bounded queue\<close>

definition fanout_inv :: "bug_fanout \<Rightarrow> bool" where
  "fanout_inv fo \<longleftrightarrow> distinct (map tq_channel_uuid (fo_queues fo)) \<and> distinct (fo_write_queues fo)
     \<and> (\<forall>i \<in> set (fo_write_queues fo). i < length (fo_queues fo))"

definition queue_of :: "string \<Rightarrow> bug_fanout \<Rightarrow> audio_frame list" where
  "queue_of u fo = (case FindQueue u (fo_queues fo) of None \<Rightarrow> [] | Some i \<Rightarrow> tq_queue (fo_queues fo ! i))"

definition routed :: "string \<Rightarrow> bug_fanout \<Rightarrow> bool" where
  "routed u fo \<longleftrightarrow> (case FindQueue u (fo_queues fo) of None \<Rightarrow> False | Some i \<Rightarrow> i \<in> set (fo_write_queues fo))"

abbreviation fan_cap :: "bug_fanout \<Rightarrow> nat" where
  "fan_cap fo \<equiv> unat (fc_capacity_frames (fo_cfg fo))"

lemma fold_push_target:
  assumes "distinct ws" and "\<forall>i \<in> set ws. i < length qs" and "fold (push_target cap f) ws (d, qs) = (d', qs')"
  shows "map tq_channel_uuid qs' = map tq_channel_uuid qs
    \<and> (\<forall>j < length qs. tq_queue (qs' ! j) = (if j \<in> set ws then last_n cap (tq_queue (qs ! j) @ [f]) else tq_queue (qs ! j)))
    \<and> d' = d + (\<Sum>i\<leftarrow>ws. of_nat (Suc (length (tq_queue (qs ! i))) - cap))"
  using assms
proof (induction ws arbitrary: d qs)
  case (Cons i ws)
  let ?e = "of_nat (Suc (length (tq_queue (qs ! i))) - cap) :: u64"
  let ?qs = "qs[i := (qs ! i)\<lparr>tq_queue := last_n cap (tq_queue (qs ! i) @ [f])\<rparr>]"
  have step: "push_target cap f i (d, qs) = (d + ?e, ?qs)" by (simp add: push_target_def trim_eq)
  have same: "map tq_channel_uuid ?qs = map tq_channel_uuid qs"
    by (simp add: map_update) (metis list_update_id map_update)
  have sums: "(\<Sum>k\<leftarrow>ws. of_nat (Suc (length (tq_queue (?qs ! k))) - cap)) = (\<Sum>k\<leftarrow>ws. of_nat (Suc (length (tq_queue (qs ! k))) - cap) :: u64)"
  proof -
    have "?qs ! k = qs ! k" if "k \<in> set ws" for k
      using that Cons.prems(1) by (metis distinct.simps(2) nth_list_update_neq)
    then show ?thesis by (intro arg_cong [where f = sum_list] map_cong) simp_all
  qed
  have ih: "map tq_channel_uuid qs' = map tq_channel_uuid ?qs
    \<and> (\<forall>j < length ?qs. tq_queue (qs' ! j) = (if j \<in> set ws then last_n cap (tq_queue (?qs ! j) @ [f]) else tq_queue (?qs ! j)))
    \<and> d' = (d + ?e) + (\<Sum>i\<leftarrow>ws. of_nat (Suc (length (tq_queue (?qs ! i))) - cap))"
    using Cons.prems step by (intro Cons.IH) simp_all
  have "tq_queue (qs' ! j) = (if j \<in> set (i # ws) then last_n cap (tq_queue (qs ! j) @ [f]) else tq_queue (qs ! j))"
    if "j < length qs" for j
    using ih that Cons.prems(1) by (cases "j = i") auto
  then show ?case using ih same sums by (simp add: add.assoc)
qed simp

lemma inv_queue: "fanout_inv fo \<Longrightarrow> i < length (fo_queues fo) \<Longrightarrow> FindQueue (tq_channel_uuid (fo_queues fo ! i)) (fo_queues fo) = Some i"
  using FindQueue_distinct by (simp add: fanout_inv_def)

lemma push_refines:
  assumes "fanout_inv fo" and "Fanout_Push f fo = (d, fo')"
  shows "fanout_inv fo'" and "fo_half_closed fo' = fo_half_closed fo" and "fo_cfg fo' = fo_cfg fo"
    and "fo_write_queues fo' = fo_write_queues fo" and "routed u fo' = routed u fo"
    and "queue_of u fo' = (if routed u fo \<and> \<not> fo_half_closed fo then last_n (fan_cap fo) (queue_of u fo @ [f]) else queue_of u fo)"
    and "map tq_channel_uuid (fo_queues fo') = map tq_channel_uuid (fo_queues fo)"
proof -
  have "fanout_inv fo' \<and> fo_half_closed fo' = fo_half_closed fo \<and> fo_cfg fo' = fo_cfg fo
    \<and> fo_write_queues fo' = fo_write_queues fo \<and> map tq_channel_uuid (fo_queues fo') = map tq_channel_uuid (fo_queues fo)
    \<and> queue_of u fo' = (if routed u fo \<and> \<not> fo_half_closed fo then last_n (fan_cap fo) (queue_of u fo @ [f]) else queue_of u fo)"
  proof (cases "fo_half_closed fo \<or> fo_write_queues fo = []")
    case True
    moreover from this have "fo' = fo" using assms(2) by (simp add: Fanout_Push_def)
    ultimately show ?thesis using assms(1) by (auto simp: routed_def split: option.splits)
  next
    case False
    obtain qs' where f: "fold (push_target (fan_cap fo) f) (fo_write_queues fo) (0, fo_queues fo) = (d, qs')"
      "fo' = fo\<lparr>fo_queues := qs', fo_total_dropped := fo_total_dropped fo + d\<rparr>"
      using assms(2) False by (auto simp: Fanout_Push_def split: prod.splits)
    note q = fold_push_target [OF _ _ f(1)]
    have uu: "map tq_channel_uuid qs' = map tq_channel_uuid (fo_queues fo)" using q assms(1) by (simp add: fanout_inv_def)
    then have len: "length qs' = length (fo_queues fo)" by (metis length_map)
    have find: "FindQueue u qs' = FindQueue u (fo_queues fo)" by (rule FindQueue_cong [OF uu])
    have "queue_of u fo' = (if routed u fo then last_n (fan_cap fo) (queue_of u fo @ [f]) else queue_of u fo)"
    proof (cases "FindQueue u (fo_queues fo)")
      case None
      then show ?thesis by (simp add: queue_of_def routed_def f(2) find)
    next
      case (Some i)
      then have "i < length (fo_queues fo)" using FindQueue_Some by blast
      then show ?thesis using Some q assms(1) by (simp add: queue_of_def routed_def f(2) find fanout_inv_def)
    qed
    then show ?thesis using False assms(1) uu len f(2) by (simp add: fanout_inv_def)
  qed
  then show "fanout_inv fo'" "fo_half_closed fo' = fo_half_closed fo" "fo_cfg fo' = fo_cfg fo"
    "fo_write_queues fo' = fo_write_queues fo" "map tq_channel_uuid (fo_queues fo') = map tq_channel_uuid (fo_queues fo)"
    "queue_of u fo' = (if routed u fo \<and> \<not> fo_half_closed fo then last_n (fan_cap fo) (queue_of u fo @ [f]) else queue_of u fo)"
    by blast+
  then show "routed u fo' = routed u fo" using FindQueue_cong [of "fo_queues fo'" "fo_queues fo" u] by (simp add: routed_def split: option.split)
qed

lemma pop_refines:
  assumes "fanout_inv fo" and "Fanout_Pop v fo = (r, fo')"
  shows "r = (case queue_of v fo of [] \<Rightarrow> None | f # fs \<Rightarrow> Some f)"
    and "queue_of u fo' = (if u = v then tl (queue_of v fo) else queue_of u fo)"
    and "map tq_channel_uuid (fo_queues fo') = map tq_channel_uuid (fo_queues fo)"
    and "fo' = fo\<lparr>fo_queues := fo_queues fo'\<rparr>"
proof -
  have "r = (case queue_of v fo of [] \<Rightarrow> None | f # fs \<Rightarrow> Some f)
    \<and> queue_of u fo' = (if u = v then tl (queue_of v fo) else queue_of u fo)
    \<and> map tq_channel_uuid (fo_queues fo') = map tq_channel_uuid (fo_queues fo) \<and> fo' = fo\<lparr>fo_queues := fo_queues fo'\<rparr>"
  proof (cases "FindQueue v (fo_queues fo)")
    case None
    then show ?thesis using assms(2) by (auto simp: Fanout_Pop_def queue_of_def)
  next
    case (Some i)
    have i: "i < length (fo_queues fo)" "tq_channel_uuid (fo_queues fo ! i) = v" using FindQueue_Some [OF Some] by simp_all
    show ?thesis
    proof (cases "tq_queue (fo_queues fo ! i)")
      case Nil
      then show ?thesis using assms(2) Some by (auto simp: Fanout_Pop_def queue_of_def)
    next
      case (Cons f fs)
      let ?qs = "(fo_queues fo)[i := (fo_queues fo ! i)\<lparr>tq_queue := fs\<rparr>]"
      have r: "r = Some f" "fo' = fo\<lparr>fo_queues := ?qs\<rparr>" using assms(2) Some Cons by (simp_all add: Fanout_Pop_def)
      have uu: "map tq_channel_uuid ?qs = map tq_channel_uuid (fo_queues fo)"
        by (simp add: map_update) (metis list_update_id map_update)
      have "queue_of u fo' = (if u = v then tl (queue_of v fo) else queue_of u fo)"
      proof (cases "FindQueue u (fo_queues fo)")
        case None
        then show ?thesis using Some by (auto simp: queue_of_def r(2) FindQueue_cong [OF uu])
      next
        case j: (Some j)
        have "j < length (fo_queues fo)" "tq_channel_uuid (fo_queues fo ! j) = u" using FindQueue_Some [OF j] by simp_all
        then show ?thesis using Some Cons j i
          by (cases "j = i") (auto simp: queue_of_def r(2) FindQueue_cong [OF uu])
      qed
      then show ?thesis using r uu Some Cons by (simp add: queue_of_def)
    qed
  qed
  then show "r = (case queue_of v fo of [] \<Rightarrow> None | f # fs \<Rightarrow> Some f)"
    "queue_of u fo' = (if u = v then tl (queue_of v fo) else queue_of u fo)"
    "map tq_channel_uuid (fo_queues fo') = map tq_channel_uuid (fo_queues fo)" "fo' = fo\<lparr>fo_queues := fo_queues fo'\<rparr>"
    by blast+
qed

section \<open>Runs\<close>

datatype fan_op = Fan_push audio_frame | Fan_pop string | Fan_half_close

text \<open>A run of operations: the frames popped, with their targets, and the router afterwards.\<close>

fun fan_run :: "fan_op list \<Rightarrow> bug_fanout \<Rightarrow> (string \<times> audio_frame) list \<times> bug_fanout" where
  "fan_run [] fo = ([], fo)"
| "fan_run (Fan_push f # ops) fo = fan_run ops (snd (Fanout_Push f fo))"
| "fan_run (Fan_half_close # ops) fo = fan_run ops (Fanout_HalfClose fo)"
| "fan_run (Fan_pop u # ops) fo =
     (case Fanout_Pop u fo of
        (None, fo') \<Rightarrow> fan_run ops fo'
      | (Some f, fo') \<Rightarrow> (case fan_run ops fo' of (out, fo'') \<Rightarrow> ((u, f) # out, fo'')))"

text \<open>
  The specification of one target: a queue of its own with the newest \<open>cap\<close> frames, fed by every push when
  the target is routed and the router not half-closed, and emptied by its own pops only.
\<close>

fun target_run :: "bool \<Rightarrow> nat \<Rightarrow> string \<Rightarrow> fan_op list \<Rightarrow> bool \<Rightarrow> audio_frame list \<Rightarrow> audio_frame list \<times> audio_frame list" where
  "target_run rt cap u [] closed q = ([], q)"
| "target_run rt cap u (Fan_push f # ops) closed q =
     target_run rt cap u ops closed (if rt \<and> \<not> closed then last_n cap (q @ [f]) else q)"
| "target_run rt cap u (Fan_half_close # ops) closed q = target_run rt cap u ops True q"
| "target_run rt cap u (Fan_pop v # ops) closed q =
     (if u = v then (case q of [] \<Rightarrow> target_run rt cap u ops closed q
                     | f # fs \<Rightarrow> (case target_run rt cap u ops closed fs of (out, q') \<Rightarrow> (f # out, q')))
      else target_run rt cap u ops closed q)"

definition frames_of :: "string \<Rightarrow> (string \<times> audio_frame) list \<Rightarrow> audio_frame list" where
  "frames_of u log = map snd (filter (\<lambda>p. fst p = u) log)"

lemma pop_keeps:
  assumes "fanout_inv fo" and "Fanout_Pop v fo = (r, fo')"
  shows "fanout_inv fo'" "fo_half_closed fo' = fo_half_closed fo" "fo_cfg fo' = fo_cfg fo" "routed u fo' = routed u fo"
    "fo_write_queues fo' = fo_write_queues fo" "fo_total_dropped fo' = fo_total_dropped fo"
proof -
  note p = pop_refines [OF assms]
  have len: "length (fo_queues fo') = length (fo_queues fo)" using p(3) by (metis length_map)
  have f: "fo_half_closed fo' = fo_half_closed fo" "fo_cfg fo' = fo_cfg fo" "fo_write_queues fo' = fo_write_queues fo"
    "fo_total_dropped fo' = fo_total_dropped fo"
    by (subst p(4), simp)+
  then show "fo_half_closed fo' = fo_half_closed fo" "fo_cfg fo' = fo_cfg fo" "fo_write_queues fo' = fo_write_queues fo"
    "fo_total_dropped fo' = fo_total_dropped fo" by simp_all
  show "fanout_inv fo'" using assms(1) p(3) len f by (simp add: fanout_inv_def)
  show "routed u fo' = routed u fo" using FindQueue_cong [OF p(3), of u] f by (simp add: routed_def split: option.split)
qed

lemma fan_run_refines:
  assumes "fanout_inv fo" and "fan_run ops fo = (log, fo')"
  shows "target_run (routed u fo) (fan_cap fo) u ops (fo_half_closed fo) (queue_of u fo) = (frames_of u log, queue_of u fo')"
  using assms
proof (induction ops fo arbitrary: log rule: fan_run.induct)
  case (2 f ops fo)
  obtain d fo1 where p: "Fanout_Push f fo = (d, fo1)" by fastforce
  then show ?case using 2 push_refines [OF 2(2) p] by simp
next
  case (3 ops fo)
  have "fanout_inv (Fanout_HalfClose fo)" "queue_of u (Fanout_HalfClose fo) = queue_of u fo"
    "routed u (Fanout_HalfClose fo) = routed u fo"
    using 3(2) by (simp_all add: Fanout_HalfClose_def fanout_inv_def queue_of_def routed_def split: option.split)
  then show ?case using 3 by (simp add: Fanout_HalfClose_def)
next
  case (4 v ops fo)
  obtain r fo1 where p: "Fanout_Pop v fo = (r, fo1)" by fastforce
  note pr = pop_refines [OF 4(3) p] and pk = pop_keeps [OF 4(3) p]
  show ?case
  proof (cases r)
    case None
    then have "queue_of v fo = []" using pr(1) by (simp split: list.splits)
    then show ?thesis using 4(1) [of None fo1] 4(4) p None pk pr(2) [of u] by (cases "u = v") (auto simp: frames_of_def)
  next
    case (Some f)
    then obtain fs where q: "queue_of v fo = f # fs" using pr(1) by (auto split: list.splits)
    obtain out fo2 where run: "fan_run ops fo1 = (out, fo2)" by fastforce
    then show ?thesis using 4(2) [of "Some f" fo1 f out] 4(4) p Some pk pr(2) [of u] q by (auto simp: frames_of_def)
  qed
qed (auto simp: frames_of_def)

section \<open>Accounting\<close>

definition queued :: "target_queue list \<Rightarrow> nat" where
  "queued qs = (\<Sum>q\<leftarrow>qs. length (tq_queue q))"

lemma queued_update:
  "i < length qs \<Longrightarrow> queued (qs[i := q]) + length (tq_queue (qs ! i)) = queued qs + length (tq_queue q)"
proof (induction qs arbitrary: i)
  case (Cons p qs)
  then show ?case by (cases i) (auto simp: queued_def)
qed simp

lemma push_target_queued:
  assumes "i < length qs" and "push_target cap f i (d, qs) = (d', qs')"
  shows "of_nat (queued qs') + d' = of_nat (queued qs) + d + (1 :: u64) \<and> length qs' = length qs"
proof -
  let ?q = "last_n cap (tq_queue (qs ! i) @ [f])" and ?e = "Suc (length (tq_queue (qs ! i))) - cap"
  have s: "d' = d + of_nat ?e" "qs' = qs[i := (qs ! i)\<lparr>tq_queue := ?q\<rparr>]"
    using assms(2) by (simp_all add: push_target_def trim_eq)
  have "length ?q + ?e = Suc (length (tq_queue (qs ! i)))" by simp
  then have "queued qs' + ?e = Suc (queued qs)" using queued_update [OF assms(1), of "(qs ! i)\<lparr>tq_queue := ?q\<rparr>"] s(2) by simp
  then have "of_nat (queued qs') + of_nat ?e = (of_nat (Suc (queued qs)) :: u64)" by (metis of_nat_add)
  then show ?thesis using s by (simp add: add.commute add.left_commute)
qed

lemma fold_push_queued:
  assumes "\<forall>i \<in> set ws. i < length qs" and "fold (push_target cap f) ws (d, qs) = (d', qs')"
  shows "of_nat (queued qs') + d' = of_nat (queued qs) + d + (of_nat (length ws) :: u64)"
  using assms
proof (induction ws arbitrary: d qs)
  case (Cons i ws)
  obtain d1 qs1 where p: "push_target cap f i (d, qs) = (d1, qs1)" by fastforce
  have "of_nat (queued qs1) + d1 = of_nat (queued qs) + d + (1 :: u64)" "length qs1 = length qs"
    using push_target_queued [OF _ p] Cons.prems(1) by simp_all
  moreover have "of_nat (queued qs') + d' = of_nat (queued qs1) + d1 + (of_nat (length ws) :: u64)"
    using Cons.prems p calculation(2) by (intro Cons.IH) simp_all
  ultimately show ?case by (simp add: add.assoc)
qed simp

text \<open>The pushes before the half-close.\<close>

fun pushes :: "bool \<Rightarrow> fan_op list \<Rightarrow> nat" where
  "pushes closed [] = 0"
| "pushes closed (Fan_push _ # ops) = (if closed then 0 else 1) + pushes closed ops"
| "pushes closed (Fan_half_close # ops) = pushes True ops"
| "pushes closed (Fan_pop _ # ops) = pushes closed ops"

lemma push_queued:
  assumes "fanout_inv fo" and "Fanout_Push f fo = (d, fo')"
  shows "of_nat (queued (fo_queues fo')) + fo_total_dropped fo'
    = of_nat (queued (fo_queues fo)) + fo_total_dropped fo
      + (if fo_half_closed fo then 0 else of_nat (length (fo_write_queues fo)))"
proof (cases "fo_half_closed fo \<or> fo_write_queues fo = []")
  case False
  then obtain qs' where q: "fold (push_target (fan_cap fo) f) (fo_write_queues fo) (0, fo_queues fo) = (d, qs')"
    "fo' = fo\<lparr>fo_queues := qs', fo_total_dropped := fo_total_dropped fo + d\<rparr>"
    using assms(2) by (auto simp: Fanout_Push_def split: prod.splits)
  have "of_nat (queued qs') + d = of_nat (queued (fo_queues fo)) + of_nat (length (fo_write_queues fo))"
    using fold_push_queued [OF _ q(1)] assms(1) by (simp add: fanout_inv_def)
  then show ?thesis using False by (simp add: q(2) algebra_simps)
next
  case True
  then show ?thesis using assms(2) by (auto simp: Fanout_Push_def)
qed

lemma pop_queued:
  assumes "Fanout_Pop v fo = (r, fo')"
  shows "queued (fo_queues fo) = queued (fo_queues fo') + (if r = None then 0 else 1)"
proof (cases "FindQueue v (fo_queues fo)")
  case (Some i)
  show ?thesis
  proof (cases "tq_queue (fo_queues fo ! i)")
    case (Cons f fs)
    then show ?thesis using assms Some FindQueue_Some [OF Some]
        queued_update [of i "fo_queues fo" "(fo_queues fo ! i)\<lparr>tq_queue := fs\<rparr>"] by (auto simp: Fanout_Pop_def)
  qed (use assms Some in \<open>auto simp: Fanout_Pop_def\<close>)
qed (use assms in \<open>auto simp: Fanout_Pop_def\<close>)

lemma fan_run_accounting:
  assumes "fanout_inv fo" and "fan_run ops fo = (log, fo')"
  shows "of_nat (length log) + of_nat (queued (fo_queues fo')) + fo_total_dropped fo'
    = of_nat (pushes (fo_half_closed fo) ops * length (fo_write_queues fo))
      + of_nat (queued (fo_queues fo)) + fo_total_dropped fo"
  using assms
proof (induction ops fo arbitrary: log rule: fan_run.induct)
  case (2 f ops fo)
  obtain d fo1 where p: "Fanout_Push f fo = (d, fo1)" by fastforce
  note pr = push_refines [OF 2(2) p] and pq = push_queued [OF 2(2) p]
  show ?case using 2(1) [of log] 2(3) p pr pq by (cases "fo_half_closed fo") (simp_all add: algebra_simps)
next
  case (3 ops fo)
  then show ?case by (simp add: Fanout_HalfClose_def fanout_inv_def)
next
  case (4 v ops fo)
  obtain r fo1 where p: "Fanout_Pop v fo = (r, fo1)" by fastforce
  note pk = pop_keeps [OF 4(3) p] and pq = pop_queued [OF p]
  show ?case
  proof (cases r)
    case None
    then show ?thesis using 4(1) [of None fo1] 4(4) p pk pq by simp
  next
    case (Some f)
    obtain out fo2 where run: "fan_run ops fo1 = (out, fo2)" by fastforce
    then show ?thesis using 4(2) [of "Some f" fo1 f out] 4(4) p Some pk pq by (auto simp: algebra_simps)
  qed
qed auto

section \<open>Properties\<close>

lemma new_queues:
  "map tq_channel_uuid (fo_queues (BugFanout_new cfg)) = fc_target_uuids cfg"
  "queued (fo_queues (BugFanout_new cfg)) = 0" "fo_total_dropped (BugFanout_new cfg) = 0"
  "fo_half_closed (BugFanout_new cfg) = False" "fo_cfg (BugFanout_new cfg) = cfg"
  by (simp_all add: BugFanout_new_def queued_def Let_def comp_def)

lemma new_queue_empty: "queue_of u (BugFanout_new cfg) = []"
proof (cases "FindQueue u (fo_queues (BugFanout_new cfg))")
  case (Some i)
  then have "i < length (fc_target_uuids cfg)" using FindQueue_Some new_queues(1) [of cfg] by (metis length_map)
  then show ?thesis using Some by (simp add: queue_of_def BugFanout_new_def Let_def)
qed (simp add: queue_of_def)

lemma distinct_found:
  "distinct us \<Longrightarrow> distinct (List.map_filter (\<lambda>u. FindQueue u qs) us)"
proof (induction us)
  case (Cons u us)
  have "FindQueue v qs \<noteq> FindQueue u qs" if "v \<in> set us" "FindQueue u qs = Some i" for v i
    using that Cons.prems FindQueue_Some [of u qs i] FindQueue_Some [of v qs i] by auto
  then show ?case using Cons by (auto simp: List.map_filter_simps set_map_filter_iff split: option.split)
qed (simp add: List.map_filter_simps)

lemma new_inv:
  assumes "distinct (fc_target_uuids cfg)" and "fc_mode cfg = kWhisper \<longrightarrow> distinct (fc_write_subset_uuids cfg)"
  shows "fanout_inv (BugFanout_new cfg)"
proof (cases "fc_mode cfg")
  case kBroadcast
  then show ?thesis using assms(1) new_queues(1) [of cfg] by (simp add: fanout_inv_def) (simp add: BugFanout_new_def Let_def)
next
  case kWhisper
  let ?qs = "fo_queues (BugFanout_new cfg)"
  have w: "fo_write_queues (BugFanout_new cfg) = List.map_filter (\<lambda>u. FindQueue u ?qs) (fc_write_subset_uuids cfg)"
    using kWhisper by (simp add: BugFanout_new_def Let_def)
  have "\<forall>i \<in> set (fo_write_queues (BugFanout_new cfg)). i < length ?qs"
    unfolding w by (auto simp: set_map_filter_iff dest: FindQueue_Some)
  then show ?thesis using assms kWhisper new_queues(1) [of cfg] by (simp add: fanout_inv_def w distinct_found)
qed

lemma new_routed:
  "routed u (BugFanout_new cfg) \<longleftrightarrow>
     u \<in> set (fc_target_uuids cfg) \<and> (fc_mode cfg = kBroadcast \<or> u \<in> set (fc_write_subset_uuids cfg))"
proof -
  let ?qs = "fo_queues (BugFanout_new cfg)"
  have t: "tq_channel_uuid ` set ?qs = set (fc_target_uuids cfg)" using new_queues(1) [of cfg] by (metis set_map)
  have len: "length ?qs = length (fc_target_uuids cfg)" using new_queues(1) [of cfg] by (metis length_map)
  show ?thesis
  proof (cases "FindQueue u ?qs")
    case None
    then have "u \<notin> set (fc_target_uuids cfg)" using t by (simp add: FindQueue_None)
    then show ?thesis using None by (simp add: routed_def)
  next
    case (Some i)
    have u: "u \<in> set (fc_target_uuids cfg)" "i < length ?qs" "tq_channel_uuid (?qs ! i) = u"
      using Some t FindQueue_Some [OF Some] FindQueue_None [of u ?qs] by auto
    show ?thesis
    proof (cases "fc_mode cfg")
      case kBroadcast
      then have "fo_write_queues (BugFanout_new cfg) = [0..<length ?qs]" by (simp add: BugFanout_new_def Let_def)
      then show ?thesis using Some u kBroadcast by (simp add: routed_def)
    next
      case kWhisper
      then have "fo_write_queues (BugFanout_new cfg) = List.map_filter (\<lambda>u. FindQueue u ?qs) (fc_write_subset_uuids cfg)"
        by (simp add: BugFanout_new_def Let_def)
      then show ?thesis using Some u kWhisper
        by (auto simp: routed_def set_map_filter_iff dest: FindQueue_Some intro: bexI [of _ u])
    qed
  qed
qed


definition demo_fanout_config :: fanout_config where
  "demo_fanout_config = \<lparr>fc_mode = kWhisper, fc_target_uuids = [''a'', ''b''], fc_write_subset_uuids = [''b''], fc_capacity_frames = 1\<rparr>"


text \<open>
  A write target listed twice passes the validation of a bot request, and then every frame is queued twice
  for that channel.
\<close>

definition duplicate_request :: start_bot_request where
  "duplicate_request = \<lparr>sb_tenant_id = ''acme'', sb_traceparent = [], sb_target_channel_uuids = [''a'', ''b''],
     sb_upstream_endpoint = ''up:1'', sb_purpose = WHISPER, sb_write_target_channel_uuids = [''b'', ''b''],
     sb_sample_rate_hz = 8000, sb_start_message = [], sb_variables = Map.empty, sb_drain_timeout_ms = 0\<rparr>"

lemma duplicate_write_target_doubles_audio:
  "fst (fst (ValidateStartBot duplicate_request Config_default)) = OK
   \<and> queue_of ''b'' (snd (Fanout_Push f (BugFanout_new
       \<lparr>fc_mode = kWhisper, fc_target_uuids = sb_target_channel_uuids duplicate_request,
        fc_write_subset_uuids = sb_write_target_channel_uuids duplicate_request, fc_capacity_frames = 25\<rparr>))) = [f, f]"
  by (simp add: ValidateStartBot_def duplicate_request_def Config_default_def Let_def Fanout_Push_def BugFanout_new_def
      FindQueue_def List.map_filter_simps push_target_def queue_of_def)

end
