(* ===== verification/Media_BotSession.thy ===== *)
theory Media_BotSession
  imports Media_BugSafety Media_Stream Media_Fanout
begin

text \<open>
  One bot on its target channels, \<^verbatim>\<open>src/media/bot_session.cc\<close>: the upstream media stream, the fan-out of
  its audio, and the media bugs with the callback contexts they point to. A context is its address and
  the channel and rates it was built with; it is freed after the bug that points to it is detached.
\<close>

section \<open>Configuration\<close>

fun stream_purpose_number :: "stream_purpose \<Rightarrow> int" where
  "stream_purpose_number PURPOSE_UNSPECIFIED = 0"
| "stream_purpose_number TTS_PLAYBACK = 1"
| "stream_purpose_number STT_TRANSCRIBE = 2"
| "stream_purpose_number VOICEBOT_DUPLEX = 3"
| "stream_purpose_number AMD_DETECT = 4"
| "stream_purpose_number RECORDING_RELAY = 5"

datatype caller_side = CALLER_SIDE_UNSPECIFIED | CALLER_MIC | CALLER_EAR | BOTH_MIXED | STEREO

fun caller_side_number :: "caller_side \<Rightarrow> int" where
  "caller_side_number CALLER_SIDE_UNSPECIFIED = 0"
| "caller_side_number CALLER_MIC = 1"
| "caller_side_number CALLER_EAR = 2"
| "caller_side_number BOTH_MIXED = 3"
| "caller_side_number STEREO = 4"

fun MediaSideFor :: "bot_purpose \<Rightarrow> caller_side" where
  "MediaSideFor TTS_BROADCAST = CALLER_EAR"
| "MediaSideFor STT_LISTEN = CALLER_MIC"
| "MediaSideFor BOT_VOICEBOT_DUPLEX = BOTH_MIXED"
| "MediaSideFor WHISPER = BOTH_MIXED"
| "MediaSideFor BOT_UNSPECIFIED = CALLER_SIDE_UNSPECIFIED"

definition AttachFailureStatus :: "grpc_status \<Rightarrow> grpc_status" where
  "AttachFailureStatus st = (if fst st = ALREADY_EXISTS then (FAILED_PRECONDITION, snd st) else st)"

definition SessionRate :: "codec_impl option \<Rightarrow> u32" where
  "SessionRate impl =
     (case impl of None \<Rightarrow> 0
      | Some i \<Rightarrow> if actual_samples_per_second i \<noteq> 0 then actual_samples_per_second i else samples_per_second i)"

definition kDefaultPtimeMs :: u32 where
  "kDefaultPtimeMs = 20"

definition kReadStreamFlag :: u32 where
  "kReadStreamFlag = 1"

definition QueueCapacityFrames :: "bot_session_config \<Rightarrow> u32" where
  "QueueCapacityFrames cfg = max 1 (bs_target_queue_ms cfg div kDefaultPtimeMs)"

definition ShouldAttachWrite :: "bot_session_config \<Rightarrow> string \<Rightarrow> bool" where
  "ShouldAttachWrite cfg channel_uuid =
     (if \<not> SupportsWrite (bs_purpose cfg) then False
      else if bs_purpose cfg \<noteq> WHISPER then True
      else channel_uuid \<in> set (bs_write_target_channel_uuids cfg))"

definition fanout_config_of :: "bot_session_config \<Rightarrow> fanout_config" where
  "fanout_config_of cfg =
     \<lparr>fc_mode = (if bs_purpose cfg = WHISPER then kWhisper else kBroadcast),
      fc_target_uuids = bs_target_channel_uuids cfg, fc_write_subset_uuids = bs_write_target_channel_uuids cfg,
      fc_capacity_frames = QueueCapacityFrames cfg\<rparr>"

text \<open>The variables of the stream: those of the bot, then the bot id and the targets by position.\<close>

definition target_variables :: "string list \<Rightarrow> (string \<times> string) list" where
  "target_variables us = map (\<lambda>(i, u). (''osw.target.'' @ decimal i, u)) (List.enumerate 0 us)"

definition bot_stream_config :: "bot_session_config \<Rightarrow> stream_config" where
  "bot_stream_config cfg =
     \<lparr>stc_stream_id = bs_bot_id cfg, stc_channel_uuid = bs_bot_id cfg, stc_tenant_id = bs_tenant_id cfg,
      stc_purpose = stream_purpose_number (MediaPurposeFor (bs_purpose cfg)), stc_sample_rate_hz = bs_sample_rate_hz cfg,
      stc_channels = 1, stc_codec = 1, stc_side = caller_side_number (MediaSideFor (bs_purpose cfg)),
      stc_traceparent = bs_traceparent cfg, stc_start_message = bs_start_message cfg,
      stc_variables = fold (\<lambda>(k, v) m. m(k \<mapsto> v)) (target_variables (bs_target_channel_uuids cfg))
                        ((bs_variables cfg)(''osw.bot_id'' \<mapsto> bs_bot_id cfg)),
      stc_half_close_writes_after_start = (\<not> SupportsRead (bs_purpose cfg)),
      stc_send_ring_capacity_frames = 256\<rparr>"

section \<open>The session object\<close>

record bot_ctx =
  bc_addr :: nat
  bc_channel_uuid :: string
  bc_stream_rate_hz :: u32
  bc_fs_rate_hz :: u32

record bot_session =
  bz_cfg :: bot_session_config
  bz_channel :: bool
  bz_client :: "stream_client option"
  bz_fanout :: bug_fanout
  bz_handles :: "BugHandle list"
  bz_read_contexts :: "bot_ctx list"
  bz_write_contexts :: "bot_ctx list"
  bz_stopped :: bool
  bz_opened :: bool
  bz_frames_sent :: u64
  bz_frames_recv :: u64

definition BotSession_new :: "bot_session_config \<Rightarrow> bool \<Rightarrow> bot_session" where
  "BotSession_new cfg channel =
     \<lparr>bz_cfg = cfg, bz_channel = channel, bz_client = None, bz_fanout = BugFanout_new (fanout_config_of cfg),
      bz_handles = [], bz_read_contexts = [], bz_write_contexts = [], bz_stopped = False, bz_opened = False,
      bz_frames_sent = 0, bz_frames_recv = 0\<rparr>"

text \<open>A client that could not be opened is destroyed, which closes nothing.\<close>

definition BotSession_Open :: "open_env \<Rightarrow> bot_session \<Rightarrow> grpc_status \<times> bot_session" where
  "BotSession_Open env b =
     (if bz_opened b then (Status_OK, b)
      else if \<not> bz_channel b then ((UNAVAILABLE, ''grpc channel unavailable''), b)
      else if bs_bot_id (bz_cfg b) = [] then ((INVALID_ARGUMENT, ''bot_id required''), b)
      else if bs_target_channel_uuids (bz_cfg b) = [] then ((INVALID_ARGUMENT, ''target_channel_uuids required''), b)
      else (case Open env (StreamClient_new (bot_stream_config (bz_cfg b))) of (st, client) \<Rightarrow>
              if fst st \<noteq> OK then (st, b\<lparr>bz_client := None\<rparr>)
              else (Status_OK, b\<lparr>bz_client := Some client, bz_opened := True\<rparr>)))"

text \<open>The callbacks of the stream: audio from the service, with the number of frames dropped, and its end.\<close>

definition bot_on_audio :: "audio_frame \<Rightarrow> bot_session \<Rightarrow> u64 \<times> bot_session" where
  "bot_on_audio frame b =
     (if bz_stopped b then (0, b)
      else (case Fanout_Push frame (bz_fanout b) of (dropped, fo) \<Rightarrow>
              (dropped, b\<lparr>bz_fanout := fo, bz_frames_recv := bz_frames_recv b + 1\<rparr>)))"

definition bot_on_done :: "bot_session \<Rightarrow> bot_session" where
  "bot_on_done b = b\<lparr>bz_fanout := Fanout_HalfClose (bz_fanout b)\<rparr>"

definition OnTargetReadFrame :: "string \<Rightarrow> sample list \<Rightarrow> u32 \<Rightarrow> u32 \<Rightarrow> bot_session \<Rightarrow> bot_session" where
  "OnTargetReadFrame channel_uuid samples sample_rate_hz channels b =
     (case bz_client b of
        None \<Rightarrow> b
      | Some client \<Rightarrow>
          if bz_stopped b \<or> samples = [] then b
          else let safe_channels = max channels 1;
                   (seq, c1) = NextSeq client;
                   (ts, c2) = AdvanceTimestamp (word_of_nat (length samples div unat safe_channels)) c1;
                   (sent, c3) = SendAudio \<lparr>af_samples = samples, af_sample_rate_hz = sample_rate_hz, af_channels = safe_channels,
                                          af_channel = 0, af_channel_uuid = channel_uuid, af_seq = seq,
                                          af_timestamp_samples = ts\<rparr> c2
               in b\<lparr>bz_client := Some c3, bz_frames_sent := bz_frames_sent b + (if sent then 1 else 0)\<rparr>)"

definition PopWriteFrame :: "string \<Rightarrow> bot_session \<Rightarrow> audio_frame option \<times> bot_session" where
  "PopWriteFrame channel_uuid b =
     (if bz_stopped b then (None, b)
      else (case Fanout_Pop channel_uuid (bz_fanout b) of (r, fo) \<Rightarrow> (r, b\<lparr>bz_fanout := fo\<rparr>)))"

section \<open>Attaching and stopping\<close>

text \<open>
  What FreeSWITCH and the allocator decide: the sessions that can be locked, the outcome of each attach
  and the codec rates. \<open>read_cb\<close> and \<open>write_cb\<close> are the callbacks.
\<close>

record attach_env =
  ae_bug :: bug_env
  ae_session :: "string \<rightharpoonup> silence_session"
  ae_attach :: "string \<Rightarrow> Purpose \<Rightarrow> bool \<times> nat \<times> bool"
  ae_read_impl :: "string \<Rightarrow> codec_impl option"
  ae_write_impl :: "string \<Rightarrow> codec_impl option"
  ae_read_cb :: "nat option"
  ae_write_cb :: "nat option"

definition read_bug_config :: "bot_session_config \<Rightarrow> BugConfig" where
  "read_bug_config cfg =
     \<lparr>bg_purpose = (if bs_purpose cfg = STT_LISTEN then kSttTranscribe else kVoicebotDuplexRead),
      bg_fs_flags = kReadStreamFlag, bg_target_rate_hz = bs_sample_rate_hz cfg, bg_tenant_id = bs_tenant_id cfg,
      bg_stream_endpoint = bs_upstream_endpoint cfg\<rparr>"

definition write_bug_config :: "bot_session_config \<Rightarrow> BugConfig" where
  "write_bug_config cfg =
     \<lparr>bg_purpose = (if bs_purpose cfg = BOT_VOICEBOT_DUPLEX then kVoicebotDuplexWrite else kTtsPlayback),
      bg_fs_flags = kSmbfWriteReplace, bg_target_rate_hz = bs_sample_rate_hz cfg, bg_tenant_id = bs_tenant_id cfg,
      bg_stream_endpoint = bs_upstream_endpoint cfg\<rparr>"

text \<open>
  Attaching one bug and wiring its callback to the context at \<open>addr\<close>: the handle, or the status and the
  handle that is still to be destroyed.
\<close>

definition attach_one ::
  "attach_env \<Rightarrow> string \<Rightarrow> silence_session \<Rightarrow> BugConfig \<Rightarrow> nat option \<Rightarrow> nat \<Rightarrow> string \<Rightarrow> bug_world \<Rightarrow>
   (grpc_status \<times> BugHandle list + BugHandle) \<times> bug_world" where
  "attach_one env u session cfg cb addr what w =
     (case ae_attach env u (bg_purpose cfg) of (alloc_ctx, rc, alloc_rec) \<Rightarrow>
        (case Attach (ae_bug env) session cfg alloc_ctx rc alloc_rec w of
           (Inl st, w1) \<Rightarrow> (Inl (AttachFailureStatus st, []), w1)
         | (Inr h, w1) \<Rightarrow>
             (case SetBugCallback (bh_bug_id h) cb addr w1 of
                (False, w2) \<Rightarrow> (Inl ((INTERNAL, ''failed to wire '' @ what @ '' callback''), [h]), w2)
              | (True, w2) \<Rightarrow> (Inr h, w2))))"

definition clear_handles :: "bug_env \<Rightarrow> BugHandle list \<Rightarrow> bug_world \<Rightarrow> bug_world" where
  "clear_handles env hs w = fold (BugHandle_delete env) hs w"

definition bot_unwind :: "attach_env \<Rightarrow> BugHandle list \<Rightarrow> bot_session \<times> bug_world \<Rightarrow> bot_session \<times> bug_world" where
  "bot_unwind env rest s =
     (case s of (b, w) \<Rightarrow>
        (b\<lparr>bz_handles := [], bz_read_contexts := [], bz_write_contexts := []\<rparr>,
         clear_handles (ae_bug env) rest (clear_handles (ae_bug env) (bz_handles b) w)))"

text \<open>The next address for a context; live contexts have distinct addresses.\<close>

definition next_addr :: "nat \<Rightarrow> bot_session \<Rightarrow> nat" where
  "next_addr base b = base + length (bz_read_contexts b) + length (bz_write_contexts b)"

definition attach_read :: "attach_env \<Rightarrow> nat \<Rightarrow> string \<Rightarrow> silence_session \<Rightarrow> bot_session \<times> bug_world \<Rightarrow>
    (grpc_status \<times> BugHandle list) option \<times> bot_session \<times> bug_world" where
  "attach_read env base u session s =
     (case s of (b, w) \<Rightarrow>
        if \<not> SupportsRead (bs_purpose (bz_cfg b)) then (None, b, w)
        else (case attach_one env u session (read_bug_config (bz_cfg b)) (ae_read_cb env) (next_addr base b) ''read'' w of
                (Inl e, w1) \<Rightarrow> (Some e, b, w1)
              | (Inr h, w1) \<Rightarrow>
                  (None, b\<lparr>bz_handles := bz_handles b @ [h],
                           bz_read_contexts := bz_read_contexts b @
                             [\<lparr>bc_addr = next_addr base b, bc_channel_uuid = u,
                               bc_stream_rate_hz = bs_sample_rate_hz (bz_cfg b),
                               bc_fs_rate_hz = SessionRate (ae_read_impl env u)\<rparr>]\<rparr>, w1)))"

definition attach_write :: "attach_env \<Rightarrow> nat \<Rightarrow> string \<Rightarrow> silence_session \<Rightarrow> bot_session \<times> bug_world \<Rightarrow>
    (grpc_status \<times> BugHandle list) option \<times> bot_session \<times> bug_world" where
  "attach_write env base u session s =
     (case s of (b, w) \<Rightarrow>
        if \<not> ShouldAttachWrite (bz_cfg b) u then (None, b, w)
        else (case attach_one env u session (write_bug_config (bz_cfg b)) (ae_write_cb env) (next_addr base b) ''write'' w of
                (Inl e, w1) \<Rightarrow> (Some e, b, w1)
              | (Inr h, w1) \<Rightarrow>
                  (None, b\<lparr>bz_handles := bz_handles b @ [h],
                           bz_write_contexts := bz_write_contexts b @
                             [\<lparr>bc_addr = next_addr base b, bc_channel_uuid = u, bc_stream_rate_hz = 0,
                               bc_fs_rate_hz = SessionRate (ae_write_impl env u)\<rparr>]\<rparr>, w1)))"

fun attach_targets :: "attach_env \<Rightarrow> nat \<Rightarrow> string list \<Rightarrow> bot_session \<times> bug_world \<Rightarrow> grpc_status \<times> bot_session \<times> bug_world" where
  "attach_targets env base [] s = (Status_OK, s)"
| "attach_targets env base (u # us) s =
     (case ae_session env u of
        None \<Rightarrow> ((NOT_FOUND, ''channel not found: '' @ u), bot_unwind env [] s)
      | Some session \<Rightarrow>
          (case attach_read env base u session s of
             (Some (st, rest), s1) \<Rightarrow> (st, bot_unwind env rest s1)
           | (None, s1) \<Rightarrow>
               (case attach_write env base u session s1 of
                  (Some (st, rest), s2) \<Rightarrow> (st, bot_unwind env rest s2)
                | (None, s2) \<Rightarrow> attach_targets env base us s2)))"

definition BotSession_Attach :: "attach_env \<Rightarrow> nat \<Rightarrow> bot_session \<Rightarrow> bug_world \<Rightarrow> grpc_status \<times> bot_session \<times> bug_world" where
  "BotSession_Attach env base b w =
     (if bz_stopped b then ((FAILED_PRECONDITION, ''bot session stopped''), b, w)
      else if SupportsWrite (bs_purpose (bz_cfg b)) \<and> ae_write_cb env = None
      then ((INVALID_ARGUMENT, ''write callback required''), b, w)
      else if SupportsRead (bs_purpose (bz_cfg b)) \<and> ae_read_cb env = None
      then ((INVALID_ARGUMENT, ''read callback required''), b, w)
      else attach_targets env base (bs_target_channel_uuids (bz_cfg b)) (b, w))"

text \<open>
  \<^verbatim>\<open>Stop\<close>: the state just before the contexts are freed, and at the end. The client is closed and destroyed.
\<close>

definition stop_detach :: "bug_env \<Rightarrow> bot_session \<Rightarrow> bug_world \<Rightarrow> bot_session \<times> bug_world" where
  "stop_detach env b w = (b\<lparr>bz_stopped := True, bz_handles := []\<rparr>, clear_handles env (bz_handles b) w)"

definition BotSession_Stop :: "bug_env \<Rightarrow> bot_session \<Rightarrow> bug_world \<Rightarrow> bot_session \<times> bug_world" where
  "BotSession_Stop env b w =
     (if bz_stopped b then (b, w)
      else (case stop_detach env b w of (b1, w1) \<Rightarrow>
              (b1\<lparr>bz_read_contexts := [], bz_write_contexts := [], bz_fanout := Fanout_HalfClose (bz_fanout b1),
                  bz_client := None, bz_opened := False\<rparr>, w1)))"

section \<open>What attaching and detaching do to the bug manager\<close>

text \<open>No operation of the manager is in progress.\<close>

definition quiet_sys :: "bug_world \<Rightarrow> bug_sys" where
  "quiet_sys w = \<lparr>sy_world = w, sy_busy = Map.empty\<rparr>"

definition no_new_wiring :: "bug_world \<Rightarrow> bug_world \<Rightarrow> bool" where
  "no_new_wiring w w' \<longleftrightarrow> (\<forall>a c. bm_heap w' a = Some c \<and> cx_user_cb c \<noteq> None \<longrightarrow> bm_heap w a = Some c)"

lemma wiring_refl [simp]: "no_new_wiring w w"
  by (simp add: no_new_wiring_def)

lemma wiring_trans: "no_new_wiring w w' \<Longrightarrow> no_new_wiring w' w'' \<Longrightarrow> no_new_wiring w w''"
  by (simp add: no_new_wiring_def)

lemma wiring_heap: "bm_heap w' = bm_heap w \<Longrightarrow> no_new_wiring w w'"
  by (simp add: no_new_wiring_def)

lemma wiring_delete: "no_new_wiring w (delete_ctx a w)"
  by (simp add: no_new_wiring_def delete_ctx_def)

lemma same_mem_heap: "same_mem w w' \<Longrightarrow> bm_heap w' = bm_heap w"
  by (simp add: same_mem_def)

lemma bot_stop_silence_frame [simp]:
  "bm_heap (stop_silence env orphan u w) = bm_heap w" "bm_next_id (stop_silence env orphan u w) = bm_next_id w"
  by (simp_all add: stop_silence_def)

lemma delete_ctx_frame [simp]: "bm_next_id (delete_ctx a w) = bm_next_id w" "bm_by_id (delete_ctx a w) = bm_by_id w"
  by (simp_all add: delete_ctx_def)

lemma quiet_core: "sys_inv (quiet_sys w) \<Longrightarrow> idx_inv w \<and> mem_core (ran (bm_by_id w)) w"
  by (simp add: sys_inv_def quiet_sys_def owners_def)

lemma begin_wiring:
  assumes "Attach_begin session cfg alloc rc w = (res, w')"
  shows "no_new_wiring w w'" and "bm_next_id w' = bm_next_id w \<or> bm_next_id w' = bm_next_id w + 1"
  using assms
  by (auto simp: Attach_begin_def Let_def new_ctx_def delete_ctx_def no_new_wiring_def split: if_splits sum.splits)

lemma detach_world:
  assumes inv: "sys_inv (quiet_sys w)"
  shows "sys_inv (quiet_sys (Bug_Detach env i w)) \<and> bm_by_id (Bug_Detach env i w) = (bm_by_id w)(i := None)
    \<and> no_new_wiring w (Bug_Detach env i w)"
proof (cases "bm_by_id w i")
  case None
  then have "erase_record i w = (None, w)" by (simp add: erase_record_def)
  then show ?thesis using None inv by (simp add: Bug_Detach_def DetachInternal_def fun_upd_idem)
next
  case (Some r)
  have idx: "idx_inv w" and core: "mem_core (ran (bm_by_id w)) w" using quiet_core [OF inv] by simp_all
  have i: "rec_id r = i" using idx_record [OF idx Some] .
  obtain orphan where e: "erase_record i w = (Some (r, orphan), erased r w)" using erase_record_eq [OF idx Some] .
  let ?s = "\<lparr>sy_world = erased r w, sy_busy = [rec_channel_uuid r \<mapsto> Detaching r orphan]\<rparr>"
  have s: "sys_inv ?s" using inv_detach_begin [OF inv, of i r orphan] Some by (simp add: quiet_sys_def)
  have end_inv: "sys_inv (quiet_sys (remove_and_free env r orphan (erased r w)))"
    using inv_detach_end [OF s, of "rec_channel_uuid r" r orphan env] by (simp add: quiet_sys_def)
  have c: "mem_core (owners ?s) (erased r w)" "r \<in> owners ?s" "bm_by_id (erased r w) (rec_id r) = None"
    using s sys_busy [OF s, of "rec_channel_uuid r" "Detaching r orphan"] by (simp_all add: sys_inv_def)
  have ids: "bm_by_id (remove_and_free env r orphan (erased r w)) = (bm_by_id w)(i := None)"
    using remove_and_free_core(2) [OF c] i by simp
  have "bm_heap (FsMediaBugRemove env (rec_fs_bug r) (erased r w)) = bm_heap w"
    using same_mem_heap [OF remove_unregistered(2) [OF c, of env]] same_mem_heap [OF erased_frame(2) [of w r]] by simp
  then have "no_new_wiring w (remove_and_free env r orphan (erased r w))"
    using wiring_delete [of "FsMediaBugRemove env (rec_fs_bug r) (erased r w)" "rec_ctx r"]
    by (simp add: remove_and_free_def free_record_def no_new_wiring_def)
  then show ?thesis using e end_inv ids by (simp add: Bug_Detach_def DetachInternal_def)
qed

lemma clear_world:
  "sys_inv (quiet_sys w) \<Longrightarrow> \<forall>h \<in> set hs. bh_manager h \<Longrightarrow>
     sys_inv (quiet_sys (clear_handles env hs w))
     \<and> bm_by_id (clear_handles env hs w) = bm_by_id w |` (- bh_bug_id ` set hs)
     \<and> no_new_wiring w (clear_handles env hs w)"
proof (induction hs arbitrary: w)
  case (Cons h hs)
  have d: "BugHandle_delete env h w = Bug_Detach env (bh_bug_id h) w" using Cons.prems(2) by (simp add: BugHandle_delete_def)
  note dw = detach_world [OF Cons.prems(1), of env "bh_bug_id h"]
  have "sys_inv (quiet_sys (clear_handles env hs (Bug_Detach env (bh_bug_id h) w)))
     \<and> bm_by_id (clear_handles env hs (Bug_Detach env (bh_bug_id h) w))
         = bm_by_id (Bug_Detach env (bh_bug_id h) w) |` (- bh_bug_id ` set hs)
     \<and> no_new_wiring (Bug_Detach env (bh_bug_id h) w) (clear_handles env hs (Bug_Detach env (bh_bug_id h) w))"
    using dw Cons.prems(2) by (intro Cons.IH) simp_all
  then show ?case using dw wiring_trans [of w] d
    by (auto simp: clear_handles_def restrict_map_def fun_eq_iff)
qed (simp add: clear_handles_def restrict_map_def)

lemma next_id_step: "bm_next_id w \<noteq> (- 1 :: u64) \<Longrightarrow> unat (bm_next_id w + 1) = unat (bm_next_id w) + 1"
  by (metis unatSuc add.commute add_eq_0_iff Suc_eq_plus1)

lemma attach_end_world:
  assumes s: "sys_inv \<lparr>sy_world = w, sy_busy = [ss_uuid (pa_session p) \<mapsto> Attaching p]\<rparr>"
    and run: "Attach_end env p alloc w = (res, w')"
  shows "sys_inv (quiet_sys w')" and "no_new_wiring w w'" and "bm_next_id w' = bm_next_id w"
    and "res = Inl st \<Longrightarrow> bm_by_id w' = bm_by_id w"
    and "res = Inr h \<Longrightarrow> bh_manager h \<and> bh_bug_id h = pa_id p \<and> bm_by_id w (pa_id p) = None
       \<and> bm_by_id w' = (bm_by_id w)(pa_id p \<mapsto> record_of p)"
proof -
  let ?s = "\<lparr>sy_world = w, sy_busy = [ss_uuid (pa_session p) \<mapsto> Attaching p]\<rparr>"
  show "sys_inv (quiet_sys w')"
    using inv_attach_end [OF s, of "ss_uuid (pa_session p)" p env alloc] run by (simp add: quiet_sys_def)
  have c: "mem_core (owners ?s) w" "record_of p \<in> owners ?s" "bm_by_id w (rec_id (record_of p)) = None"
    using s sys_busy [OF s, of "ss_uuid (pa_session p)" "Attaching p"] by (simp_all add: sys_inv_def)
  note rm = remove_unregistered [OF c, of env]
  show "no_new_wiring w w'"
  proof (cases alloc)
    case True
    then have "bm_heap w' = bm_heap w" using run by (auto simp: Attach_end_def Let_def register_record_def)
    then show ?thesis by (rule wiring_heap)
  next
    case False
    then have "w' = delete_ctx (pa_ctx p) (FsMediaBugRemove env (pa_fs_bug p) w)" using run by (simp add: Attach_end_def)
    moreover have "bm_heap (FsMediaBugRemove env (pa_fs_bug p) w) = bm_heap w"
      using same_mem_heap [OF rm(2)] by (simp add: record_of_def)
    ultimately show ?thesis using wiring_trans [OF wiring_heap wiring_delete] by simp
  qed
  show "bm_next_id w' = bm_next_id w"
    using run rm(2) by (cases alloc) (auto simp: Attach_end_def Let_def register_record_def same_mem_def record_of_def)
  show "bm_by_id w' = bm_by_id w" if "res = Inl st"
    using run rm(1) that by (cases alloc) (auto simp: Attach_end_def Let_def same_regs_def record_of_def)
  show "bh_manager h \<and> bh_bug_id h = pa_id p \<and> bm_by_id w (pa_id p) = None
       \<and> bm_by_id w' = (bm_by_id w)(pa_id p \<mapsto> record_of p)" if "res = Inr h"
    using run that c(3) by (cases alloc) (auto simp: Attach_end_def Let_def register_record_def record_of_def)
qed

lemma attach_world:
  assumes inv: "sys_inv (quiet_sys w)" and nowrap: "bm_next_id w \<noteq> - 1"
    and run: "Attach env session cfg alloc_ctx rc alloc_rec w = (res, w')"
  shows "sys_inv (quiet_sys w') \<and> no_new_wiring w w' \<and> unat (bm_next_id w') \<le> unat (bm_next_id w) + 1
    \<and> (\<forall>st. res = Inl st \<longrightarrow> bm_by_id w' = bm_by_id w)
    \<and> (\<forall>h. res = Inr h \<longrightarrow> bh_manager h \<and> bm_by_id w (bh_bug_id h) = None
         \<and> (\<exists>r. bm_by_id w' = (bm_by_id w)(bh_bug_id h \<mapsto> r) \<and> rec_id r = bh_bug_id h))"
proof -
  obtain res1 w1 where b: "Attach_begin session cfg alloc_ctx rc w = (res1, w1)" by fastforce
  have core: "mem_core (ran (bm_by_id w)) w" using quiet_core [OF inv] by simp
  note bb = inv_attach_begin [OF inv, of session cfg alloc_ctx rc res1 w1] and bw = begin_wiring [OF b]
    and bc = Attach_begin_core [OF core nowrap b]
  have n: "unat (bm_next_id w1) \<le> unat (bm_next_id w) + 1" using bw(2) next_id_step [OF nowrap] by auto
  show ?thesis
  proof (cases res1)
    case (Inl st)
    then have "res = Inl st" "w' = w1" using run b by (simp_all add: Attach_def)
    then show ?thesis using bb(1) [OF _ _ _ Inl] nowrap b bw(1) n bc(1) by (simp add: quiet_sys_def)
  next
    case (Inr p)
    have u: "ss_uuid session = ss_uuid (pa_session p)" using bc(6) [OF Inr] by (simp add: record_of_def)
    have s: "sys_inv \<lparr>sy_world = w1, sy_busy = [ss_uuid (pa_session p) \<mapsto> Attaching p]\<rparr>"
      using bb(2) [OF _ _ _ Inr] nowrap b u by (simp add: quiet_sys_def)
    have e: "Attach_end env p alloc_rec w1 = (res, w')" using run b Inr by (simp add: Attach_def)
    note ae = attach_end_world [OF s e]
    have "bh_manager h \<and> bm_by_id w (bh_bug_id h) = None
         \<and> (\<exists>r. bm_by_id w' = (bm_by_id w)(bh_bug_id h \<mapsto> r) \<and> rec_id r = bh_bug_id h)" if "res = Inr h" for h
      using ae(5) [OF that] bc(1) by (auto simp: record_of_def)
    then show ?thesis using ae(1-4) wiring_trans [OF bw(1) ae(2)] n bc(1) by simp
  qed
qed

section \<open>Attach is all or nothing, and contexts outlive their callbacks\<close>

definition bot_ids :: "bot_session \<Rightarrow> u64 set" where
  "bot_ids b = bh_bug_id ` set (bz_handles b)"

definition bot_addrs :: "bot_session \<Rightarrow> nat set" where
  "bot_addrs b = bc_addr ` (set (bz_read_contexts b) \<union> set (bz_write_contexts b))"

text \<open>Which of the bot's contexts (addresses from \<open>base\<close> on) callbacks may still be called with.\<close>

definition wired_addrs :: "nat \<Rightarrow> bug_world \<Rightarrow> nat set" where
  "wired_addrs base w = {cx_user_data c |a c. bm_heap w a = Some c \<and> cx_user_cb c \<noteq> None \<and> base \<le> cx_user_data c}"

definition attached_inv :: "nat \<Rightarrow> bug_world \<Rightarrow> bot_session \<Rightarrow> bug_world \<Rightarrow> bool" where
  "attached_inv base w0 b w \<longleftrightarrow>
     sys_inv (quiet_sys w) \<and> (\<forall>h \<in> set (bz_handles b). bh_manager h) \<and> bot_ids b \<subseteq> dom (bm_by_id w)
     \<and> bm_by_id w |` (- bot_ids b) = bm_by_id w0
     \<and> (\<forall>a c. bm_heap w a = Some c \<and> cx_user_cb c \<noteq> None \<and> base \<le> cx_user_data c \<longrightarrow>
          cx_bug_id c \<in> bot_ids b \<and> cx_user_data c \<in> bot_addrs b)"

lemma set_callback_world:
  assumes inv: "sys_inv (quiet_sys w)" and r: "bm_by_id w i = Some r" and run: "SetBugCallback i cb d w = (ok, w')"
  shows "ok \<and> sys_inv (quiet_sys w') \<and> bm_by_id w' = bm_by_id w \<and> bm_next_id w' = bm_next_id w
    \<and> (\<forall>a c. bm_heap w' a = Some c \<longrightarrow> bm_heap w a = Some c \<or> cx_bug_id c = i \<and> cx_user_data c = d)"
proof -
  have "idx_inv w" "mem_core (ran (bm_by_id w)) w" using quiet_core [OF inv] by simp_all
  then obtain c where c: "bm_heap w (rec_ctx r) = Some c" "cx_bug_id c = i"
    using core_live [of "ran (bm_by_id w)" w r] idx_record [of w i r] r by (auto intro: ranI)
  have "sys_inv (quiet_sys w')" using inv_set_callback [OF inv, of i cb d] run by (simp add: quiet_sys_def)
  moreover have "ok" "w' = w\<lparr>bm_heap := (bm_heap w)(rec_ctx r \<mapsto> c\<lparr>cx_user_cb := cb, cx_user_data := d\<rparr>)\<rparr>"
    using run r c by (simp_all add: SetBugCallback_def)
  ultimately show ?thesis using c by auto
qed

lemma attach_one_ok:
  assumes inv: "attached_inv base w0 b w" and nowrap: "bm_next_id w \<noteq> - 1" and addr: "base \<le> addr"
    and run: "attach_one env u session cfg cb addr what w = (res, w')"
  shows "unat (bm_next_id w') \<le> unat (bm_next_id w) + 1
    \<and> (\<forall>st rest. res = Inl (st, rest) \<longrightarrow> rest = [] \<and> attached_inv base w0 b w')
    \<and> (\<forall>h b'. res = Inr h \<and> bz_handles b' = bz_handles b @ [h] \<and> bot_addrs b' = insert addr (bot_addrs b)
         \<longrightarrow> attached_inv base w0 b' w')"
proof -
  obtain x rc y where o: "ae_attach env u (bg_purpose cfg) = (x, rc, y)" by (rule prod_cases3)
  obtain res1 w1 where a: "Attach (ae_bug env) session cfg x rc y w = (res1, w1)" by fastforce
  have q: "sys_inv (quiet_sys w)" using inv by (simp add: attached_inv_def)
  note aw = attach_world [OF q nowrap a]
  show ?thesis
  proof (cases res1)
    case (Inl st)
    then have r: "res = Inl (AttachFailureStatus st, [])" "w' = w1" using run o a by (simp_all add: attach_one_def)
    have ids: "bm_by_id w1 = bm_by_id w" using aw Inl by blast
    have "attached_inv base w0 b w1"
      using inv aw ids by (simp add: attached_inv_def no_new_wiring_def) blast
    then show ?thesis using r aw by simp
  next
    case (Inr h)
    obtain r where h: "bh_manager h" "bm_by_id w (bh_bug_id h) = None" "bm_by_id w1 = (bm_by_id w)(bh_bug_id h \<mapsto> r)"
      using aw Inr by blast
    obtain ok w2 where c: "SetBugCallback (bh_bug_id h) cb addr w1 = (ok, w2)" by fastforce
    have cw: "ok \<and> sys_inv (quiet_sys w2) \<and> bm_by_id w2 = bm_by_id w1 \<and> bm_next_id w2 = bm_next_id w1
      \<and> (\<forall>a c. bm_heap w2 a = Some c \<longrightarrow> bm_heap w1 a = Some c \<or> cx_bug_id c = bh_bug_id h \<and> cx_user_data c = addr)"
      using h(3) by (intro set_callback_world [OF _ _ c, of r]) (use aw in simp_all)
    have r: "res = Inr h" "w' = w2" using run o a Inr c cw by (simp_all add: attach_one_def)
    have "attached_inv base w0 b' w2"
      if b': "bz_handles b' = bz_handles b @ [h]" "bot_addrs b' = insert addr (bot_addrs b)" for b'
    proof -
      have ids: "bot_ids b' = insert (bh_bug_id h) (bot_ids b)" using b'(1) by (simp add: bot_ids_def)
      have "bm_by_id w2 |` (- bot_ids b') = bm_by_id w |` (- bot_ids b)"
        using cw h by (auto simp: ids restrict_map_def fun_eq_iff)
      then have "bm_by_id w2 |` (- bot_ids b') = bm_by_id w0" using inv by (simp add: attached_inv_def)
      moreover have wired: "cx_bug_id c \<in> bot_ids b' \<and> cx_user_data c \<in> bot_addrs b'"
        if "bm_heap w2 a = Some c" "cx_user_cb c \<noteq> None" "base \<le> cx_user_data c" for a c
      proof (cases "bm_heap w1 a = Some c")
        case True
        then have "bm_heap w a = Some c" using aw that(2) by (simp add: no_new_wiring_def)
        then show ?thesis using inv that(2,3) by (auto simp: attached_inv_def ids b'(2))
      next
        case False
        then show ?thesis using cw that(1) by (auto simp: ids b'(2))
      qed
      moreover have "bot_ids b' \<subseteq> dom (bm_by_id w2)" using inv cw h(3) by (auto simp: attached_inv_def ids)
      moreover have "\<forall>h \<in> set (bz_handles b'). bh_manager h" using h(1) inv b'(1) by (auto simp: attached_inv_def)
      ultimately show ?thesis unfolding attached_inv_def using cw by blast
    qed
    then show ?thesis using r aw cw by simp
  qed
qed

lemma heap_bug_registered:
  assumes "sys_inv (quiet_sys w)" and "bm_heap w a = Some c"
  shows "cx_bug_id c \<in> dom (bm_by_id w)"
proof -
  have q: "idx_inv w" "mem_core (ran (bm_by_id w)) w" using quiet_core [OF assms(1)] by simp_all
  obtain r where r: "r \<in> ran (bm_by_id w)" "rec_ctx r = a" using q(2) assms(2) unfolding mem_core_def by blast
  obtain c' where "bm_heap w (rec_ctx r) = Some c'" "cx_bug_id c' = rec_id r" using core_live [OF q(2) r(1)] .
  moreover obtain i where "bm_by_id w i = Some r" using r(1) by (auto simp: ran_def)
  ultimately show ?thesis using r(2) assms(2) idx_record [OF q(1)] by auto
qed

lemma clear_attached:
  assumes "attached_inv base w0 b w"
  shows "sys_inv (quiet_sys (clear_handles env (bz_handles b) w))
    \<and> bm_by_id (clear_handles env (bz_handles b) w) = bm_by_id w0
    \<and> wired_addrs base (clear_handles env (bz_handles b) w) = {}"
proof -
  let ?w = "clear_handles env (bz_handles b) w"
  have cw: "sys_inv (quiet_sys ?w)" "bm_by_id ?w = bm_by_id w |` (- bot_ids b)" "no_new_wiring w ?w"
    using clear_world [of w "bz_handles b" env] assms by (simp_all add: attached_inv_def bot_ids_def)
  have "wired_addrs base ?w = {}"
  proof (rule equals0I)
    fix x assume "x \<in> wired_addrs base ?w"
    then obtain a c where c: "bm_heap ?w a = Some c" "cx_user_cb c \<noteq> None" "base \<le> cx_user_data c"
      unfolding wired_addrs_def by blast
    then have "bm_heap w a = Some c" using cw(3) by (simp add: no_new_wiring_def)
    then have "cx_bug_id c \<in> bot_ids b" using assms c(2,3) unfolding attached_inv_def by blast
    moreover have "cx_bug_id c \<in> dom (bm_by_id ?w)" by (rule heap_bug_registered [OF cw(1) c(1)])
    ultimately show False using cw(2) by (simp add: restrict_map_def dom_def split: if_splits)
  qed
  then show ?thesis using cw assms by (simp add: attached_inv_def)
qed

definition unwound :: "nat \<Rightarrow> bug_world \<Rightarrow> bot_session \<Rightarrow> bug_world \<Rightarrow> bool" where
  "unwound base w0 b w \<longleftrightarrow>
     bz_handles b = [] \<and> bz_read_contexts b = [] \<and> bz_write_contexts b = [] \<and> sys_inv (quiet_sys w)
     \<and> bm_by_id w = bm_by_id w0 \<and> wired_addrs base w = {}"

lemma unwind_ok:
  "attached_inv base w0 b w \<Longrightarrow> bot_unwind env [] (b, w) = (b', w') \<Longrightarrow> unwound base w0 b' w'"
  using clear_attached [of base w0 b w "ae_bug env"] by (auto simp: bot_unwind_def unwound_def clear_handles_def)

lemma attach_fails: "Attach env session cfg x rc y w = (Inl st, w') \<Longrightarrow> fst st \<noteq> OK"
  by (auto simp: Attach_def Attach_begin_def Attach_end_def check_attach_def Let_def split: if_splits sum.splits prod.splits)

lemma attach_one_fails:
  assumes "attach_one env u session cfg cb addr what w = (Inl (st, rest), w')"
  shows "fst st \<noteq> OK"
proof -
  obtain x rc y where o: "ae_attach env u (bg_purpose cfg) = (x, rc, y)" by (rule prod_cases3)
  obtain res1 w1 where a: "Attach (ae_bug env) session cfg x rc y w = (res1, w1)" by fastforce
  show ?thesis
  proof (cases res1)
    case (Inl e)
    then show ?thesis using assms o a attach_fails [of "ae_bug env" session cfg x rc y w e w1]
      by (auto simp: attach_one_def AttachFailureStatus_def split: if_splits)
  next
    case (Inr h)
    then show ?thesis using assms o a by (auto simp: attach_one_def split: prod.splits bool.splits)
  qed
qed

lemma next_addr_base: "base \<le> next_addr base b"
  by (simp add: next_addr_def)

text \<open>One direction of one target.\<close>

definition side_ok :: "nat \<Rightarrow> bug_world \<Rightarrow> bot_session \<Rightarrow> bug_world \<Rightarrow> (grpc_status \<times> BugHandle list) option \<times> bot_session \<times> bug_world \<Rightarrow> bool" where
  "side_ok base w0 b w res \<longleftrightarrow>
     (case res of (e, b', w') \<Rightarrow>
        attached_inv base w0 b' w' \<and> unat (bm_next_id w') \<le> unat (bm_next_id w) + 1 \<and> bz_cfg b' = bz_cfg b
        \<and> bz_stopped b' = bz_stopped b \<and> (case e of None \<Rightarrow> True | Some (st, rest) \<Rightarrow> fst st \<noteq> OK \<and> rest = []))"

lemma attach_read_ok:
  assumes "attached_inv base w0 b w" and "bm_next_id w \<noteq> - 1"
  shows "side_ok base w0 b w (attach_read env base u session (b, w))"
proof (cases "SupportsRead (bs_purpose (bz_cfg b))")
  case True
  obtain res w' where a: "attach_one env u session (read_bug_config (bz_cfg b)) (ae_read_cb env) (next_addr base b) ''read'' w
    = (res, w')" by fastforce
  note ao = attach_one_ok [OF assms next_addr_base a]
  show ?thesis
  proof (cases res)
    case (Inl e)
    then show ?thesis using True a ao attach_one_fails [of env u session] by (cases e) (fastforce simp: attach_read_def side_ok_def)
  next
    case (Inr h)
    let ?b = "b\<lparr>bz_handles := bz_handles b @ [h], bz_read_contexts := bz_read_contexts b @
      [\<lparr>bc_addr = next_addr base b, bc_channel_uuid = u, bc_stream_rate_hz = bs_sample_rate_hz (bz_cfg b),
        bc_fs_rate_hz = SessionRate (ae_read_impl env u)\<rparr>]\<rparr>"
    have "attached_inv base w0 ?b w'" using ao Inr by (simp add: bot_addrs_def)
    then show ?thesis using True a ao Inr by (simp add: attach_read_def side_ok_def)
  qed
qed (use assms in \<open>simp add: attach_read_def side_ok_def\<close>)

lemma attach_write_ok:
  assumes "attached_inv base w0 b w" and "bm_next_id w \<noteq> - 1"
  shows "side_ok base w0 b w (attach_write env base u session (b, w))"
proof (cases "ShouldAttachWrite (bz_cfg b) u")
  case True
  obtain res w' where a: "attach_one env u session (write_bug_config (bz_cfg b)) (ae_write_cb env) (next_addr base b) ''write'' w
    = (res, w')" by fastforce
  note ao = attach_one_ok [OF assms next_addr_base a]
  show ?thesis
  proof (cases res)
    case (Inl e)
    then show ?thesis using True a ao attach_one_fails [of env u session] by (cases e) (fastforce simp: attach_write_def side_ok_def)
  next
    case (Inr h)
    let ?b = "b\<lparr>bz_handles := bz_handles b @ [h], bz_write_contexts := bz_write_contexts b @
      [\<lparr>bc_addr = next_addr base b, bc_channel_uuid = u, bc_stream_rate_hz = 0,
        bc_fs_rate_hz = SessionRate (ae_write_impl env u)\<rparr>]\<rparr>"
    have "attached_inv base w0 ?b w'" using ao Inr by (simp add: bot_addrs_def)
    then show ?thesis using True a ao Inr by (simp add: attach_write_def side_ok_def)
  qed
qed (use assms in \<open>simp add: attach_write_def side_ok_def\<close>)

lemma not_last_id: "unat (x :: u64) + 1 < 2 ^ 64 \<Longrightarrow> x \<noteq> - 1"
proof
  assume "unat x + 1 < 2 ^ 64" "x = - 1"
  moreover have "unat (- 1 :: u64) = 2 ^ 64 - 1" by (simp only: unsigned_minus_1_eq_mask mask_eq_exp_minus_1) simp
  ultimately show False by simp
qed

lemma attach_targets_ok:
  assumes "attached_inv base w0 b w" and "unat (bm_next_id w) + 2 * length us < 2 ^ 64 - 1"
    and "attach_targets env base us (b, w) = (st, b', w')"
  shows "bz_stopped b' = bz_stopped b \<and> (if fst st = OK then attached_inv base w0 b' w' else unwound base w0 b' w')"
  using assms
proof (induction us arbitrary: b w)
  case (Cons u us)
  show ?case
  proof (cases "ae_session env u")
    case None
    then show ?thesis using Cons.prems unwind_ok [OF Cons.prems(1)] by (auto simp: bot_unwind_def)
  next
    case (Some session)
    have n1: "bm_next_id w \<noteq> - 1" using Cons.prems(2) by (intro not_last_id) simp
    obtain e1 b1 w1 where r: "attach_read env base u session (b, w) = (e1, b1, w1)" by (rule prod_cases3)
    have rk: "attached_inv base w0 b1 w1" "unat (bm_next_id w1) \<le> unat (bm_next_id w) + 1" "bz_stopped b1 = bz_stopped b"
      "case e1 of None \<Rightarrow> True | Some (st, rest) \<Rightarrow> fst st \<noteq> OK \<and> rest = []"
      using attach_read_ok [OF Cons.prems(1) n1, of env u session] by (simp_all add: side_ok_def r)
    show ?thesis
    proof (cases e1)
      case e: (Some p)
      then show ?thesis using Cons.prems(3) Some r rk unwind_ok [OF rk(1), of env]
        by (auto simp: bot_unwind_def split: prod.splits)
    next
      case none: None
      have n2: "bm_next_id w1 \<noteq> - 1" using Cons.prems(2) rk(2) by (intro not_last_id) simp
      obtain e2 b2 w2 where v: "attach_write env base u session (b1, w1) = (e2, b2, w2)" by (rule prod_cases3)
      have vk: "attached_inv base w0 b2 w2" "unat (bm_next_id w2) \<le> unat (bm_next_id w1) + 1" "bz_stopped b2 = bz_stopped b1"
        "case e2 of None \<Rightarrow> True | Some (st, rest) \<Rightarrow> fst st \<noteq> OK \<and> rest = []"
        using attach_write_ok [OF rk(1) n2, of env u session] by (simp_all add: side_ok_def v)
      show ?thesis
      proof (cases e2)
        case e: (Some p)
        then show ?thesis using Cons.prems(3) Some r none v rk(3) vk unwind_ok [OF vk(1), of env]
          by (auto simp: bot_unwind_def split: prod.splits)
      next
        case e: None
        have "unat (bm_next_id w2) + 2 * length us < 2 ^ 64 - 1" using Cons.prems(2) rk(2) vk(2) by simp
        moreover have "attach_targets env base us (b2, w2) = (st, b', w')" using Cons.prems(3) Some r none v e by simp
        ultimately show ?thesis using Cons.IH [OF vk(1)] rk(3) vk(3) by simp
      qed
    qed
  qed
qed auto

text \<open>What a successful attach leaves: a context per direction and target.\<close>

lemma attach_read_contexts:
  "attach_read env base u session (b, w) = (None, b', w') \<Longrightarrow>
     bz_cfg b' = bz_cfg b \<and> map bc_channel_uuid (bz_write_contexts b') = map bc_channel_uuid (bz_write_contexts b)
     \<and> map bc_channel_uuid (bz_read_contexts b')
         = map bc_channel_uuid (bz_read_contexts b) @ (if SupportsRead (bs_purpose (bz_cfg b)) then [u] else [])"
  by (auto simp: attach_read_def split: if_splits prod.splits sum.splits)

lemma attach_write_contexts:
  "attach_write env base u session (b, w) = (None, b', w') \<Longrightarrow>
     bz_cfg b' = bz_cfg b \<and> map bc_channel_uuid (bz_read_contexts b') = map bc_channel_uuid (bz_read_contexts b)
     \<and> map bc_channel_uuid (bz_write_contexts b')
         = map bc_channel_uuid (bz_write_contexts b) @ (if ShouldAttachWrite (bz_cfg b) u then [u] else [])"
  by (auto simp: attach_write_def split: if_splits prod.splits sum.splits)

lemma attach_read_fails: "attach_read env base u session s = (Some (st, rest), s') \<Longrightarrow> fst st \<noteq> OK"
  by (auto simp: attach_read_def split: if_splits prod.splits sum.splits dest: attach_one_fails)

lemma attach_write_fails: "attach_write env base u session s = (Some (st, rest), s') \<Longrightarrow> fst st \<noteq> OK"
  by (auto simp: attach_write_def split: if_splits prod.splits sum.splits dest: attach_one_fails)

lemma attach_targets_contexts:
  assumes "attach_targets env base us (b, w) = (st, b', w')" and "fst st = OK"
  shows "map bc_channel_uuid (bz_read_contexts b')
      = map bc_channel_uuid (bz_read_contexts b) @ (if SupportsRead (bs_purpose (bz_cfg b)) then us else [])
    \<and> map bc_channel_uuid (bz_write_contexts b')
      = map bc_channel_uuid (bz_write_contexts b) @ filter (ShouldAttachWrite (bz_cfg b)) us"
  using assms
proof (induction us arbitrary: b w)
  case (Cons u us)
  then obtain session where s: "ae_session env u = Some session" by (cases "ae_session env u") auto
  obtain e1 b1 w1 where r: "attach_read env base u session (b, w) = (e1, b1, w1)" by (rule prod_cases3)
  have e1: "e1 = None"
    using Cons.prems s r attach_read_fails [of env base u session "(b, w)"] by (cases e1) auto
  obtain e2 b2 w2 where v: "attach_write env base u session (b1, w1) = (e2, b2, w2)" by (rule prod_cases3)
  have e2: "e2 = None"
    using Cons.prems s r e1 v attach_write_fails [of env base u session "(b1, w1)"] by (cases e2) auto
  have "attach_targets env base us (b2, w2) = (st, b', w')" using Cons.prems(1) s r e1 v e2 by simp
  from Cons.IH [OF this Cons.prems(2)] show ?case
    using attach_read_contexts [of env base u session b w b1 w1] attach_write_contexts [of env base u session b1 w1 b2 w2] r e1 v e2
    by simp
qed simp


definition demo_attach_env :: attach_env where
  "demo_attach_env =
     \<lparr>ae_bug = demo_bug_env, ae_session = [''c'' \<mapsto> demo_session], ae_attach = (\<lambda>_ _. (True, 0, True)),
      ae_read_impl = (\<lambda>_. None), ae_write_impl = (\<lambda>_. None), ae_read_cb = Some 1, ae_write_cb = Some 2\<rparr>"

definition demo_listener :: bot_session where
  "demo_listener = BotSession_new (bot_session_config_of ''b'' 8000 demo_bot_request Config_default) True"

lemma demo_listener_attach:
  "fst (fst (BotSession_Attach demo_attach_env 0 demo_listener (MediaBugManager_new False))) = OK"
  by (simp add: BotSession_Attach_def demo_listener_def BotSession_new_def bot_session_config_of_def demo_bot_request_def
      SupportsRead_def SupportsWrite_def demo_attach_env_def attach_read_def attach_write_def attach_one_def ShouldAttachWrite_def
      Attach_def Attach_begin_def Attach_end_def check_attach_def read_bug_config_def demo_session_def MediaBugManager_new_def
      HasInjectBugLocked_def HasPurpose_def channel_records_def MaxRankForChannel_def new_ctx_def Let_def SetBugCallback_def
      register_record_def record_of_def write_replace_def kReadStreamFlag_def kSmbfWriteReplace_def)


end
