(* ===== verification/Media_Resampler.thy ===== *)
theory Media_Resampler
  imports Media_Frame Control_StartBot
begin

text \<open>
  The wrapper of FreeSWITCH's resampler, \<^verbatim>\<open>src/media/resampler.cc\<close>, and its lazily created instance in the
  callback contexts (\<^verbatim>\<open>EnsureResampler\<close> and \<^verbatim>\<open>ResampledCapacity\<close> of
  \<^verbatim>\<open>src/control/handlers/media_bug_callbacks.cc\<close>). FreeSWITCH's own filter is the argument \<open>fs\<close>: the
  samples it puts out for an input, given its rates and the inputs it has processed before. \<open>created\<close>
  tells whether \<^verbatim>\<open>switch_resample_create\<close> succeeds.
\<close>

type_synonym fs_resampler = "int \<Rightarrow> int \<Rightarrow> sample list list \<Rightarrow> sample list \<Rightarrow> sample list"

record resampler =
  rs_from_hz :: int
  rs_to_hz :: int
  rs_max_output_samples :: nat
  rs_past :: "sample list list"

definition ExpectedOutputSamples :: "u64 \<Rightarrow> int \<Rightarrow> int \<Rightarrow> u64" where
  "ExpectedOutputSamples in_samples from_hz to_hz =
     (if in_samples = 0 \<or> from_hz \<le> 0 \<or> to_hz \<le> 0 then 0
      else (in_samples * word_of_int to_hz + word_of_int from_hz - 1) div word_of_int from_hz + 16)"

definition Resampler_Create :: "bool \<Rightarrow> int \<Rightarrow> int \<Rightarrow> resampler option" where
  "Resampler_Create created from_hz to_hz =
     (if from_hz = to_hz then None
      else if \<not> IsSupportedPair from_hz to_hz then None
      else if \<not> created then None
      else Some \<lparr>rs_from_hz = from_hz, rs_to_hz = to_hz, rs_max_output_samples = 8192, rs_past = []\<rparr>)"

text \<open>\<^verbatim>\<open>Process\<close>: the samples copied to the output; none stands for the result 0.\<close>

definition Process :: "fs_resampler \<Rightarrow> sample list \<Rightarrow> nat \<Rightarrow> resampler \<Rightarrow> sample list \<times> resampler" where
  "Process fs xs out_cap r =
     (if xs = [] then ([], r)
      else if rs_max_output_samples r < unat (ExpectedOutputSamples (word_of_nat (length xs)) (rs_from_hz r) (rs_to_hz r))
      then ([], r)
      else let written = fs (rs_from_hz r) (rs_to_hz r) (rs_past r) xs;
               r' = r\<lparr>rs_past := rs_past r @ [xs]\<rparr>
           in if written = [] then ([], r')
              else if out_cap < length written then ([], r')
              else (written, r'))"

definition ResampledCapacity :: "u64 \<Rightarrow> u32 \<Rightarrow> u32 \<Rightarrow> u64" where
  "ResampledCapacity in_samples from_hz to_hz =
     (if in_samples = 0 \<or> from_hz = 0 \<or> to_hz = 0 then 0
      else (in_samples * ucast to_hz + ucast from_hz - 1) div ucast from_hz + 16)"

text \<open>The resampler of a context and its flag \<^verbatim>\<open>resampler_error_logged\<close>.\<close>

record rate_conv =
  cv_resampler :: "resampler option"
  cv_error_logged :: bool

definition no_conv :: rate_conv where
  "no_conv = \<lparr>cv_resampler = None, cv_error_logged = False\<rparr>"

definition EnsureResampler :: "bool \<Rightarrow> u32 \<Rightarrow> u32 \<Rightarrow> rate_conv \<Rightarrow> bool \<times> rate_conv" where
  "EnsureResampler created from_hz to_hz cv =
     (if from_hz = to_hz then (True, cv)
      else let cv1 = (case cv_resampler cv of
                        None \<Rightarrow> cv\<lparr>cv_resampler := Resampler_Create created (sint from_hz) (sint to_hz)\<rparr>
                      | Some r \<Rightarrow> cv)
           in if cv_resampler cv1 \<noteq> None then (True, cv1)
              else (False, cv1\<lparr>cv_error_logged := True\<rparr>))"

text \<open>A use of the context's resampler after \<^verbatim>\<open>EnsureResampler\<close> succeeded.\<close>

definition conv_process :: "fs_resampler \<Rightarrow> sample list \<Rightarrow> nat \<Rightarrow> rate_conv \<Rightarrow> sample list \<times> rate_conv" where
  "conv_process fs xs out_cap cv =
     (case cv_resampler cv of
        None \<Rightarrow> ([], cv)
      | Some r \<Rightarrow> (case Process fs xs out_cap r of (ys, r') \<Rightarrow> (ys, cv\<lparr>cv_resampler := Some r'\<rparr>)))"

section \<open>Facts\<close>

lemma Process_fits: "Process fs xs cap r = (ys, r') \<Longrightarrow> length ys \<le> cap"
  by (auto simp: Process_def Let_def split: if_splits)

lemma conv_fits: "conv_process fs xs cap cv = (ys, cv') \<Longrightarrow> length ys \<le> cap"
  by (auto simp: conv_process_def dest: Process_fits split: option.splits prod.splits)

lemma Process_rates: "Process fs xs cap r = (ys, r') \<Longrightarrow> rs_from_hz r' = rs_from_hz r \<and> rs_to_hz r' = rs_to_hz r"
  by (auto simp: Process_def Let_def split: if_splits)

lemma Process_bounded:
  assumes "Process fs xs cap r = (ys, r')" "ys \<noteq> []"
  shows "unat (ExpectedOutputSamples (word_of_nat (length xs)) (rs_from_hz r) (rs_to_hz r)) \<le> rs_max_output_samples r"
    and "ys = fs (rs_from_hz r) (rs_to_hz r) (rs_past r) xs"
  using assms by (auto simp: Process_def Let_def split: if_splits)

text \<open>
  The capacity of the output vector is the size \<^verbatim>\<open>Process\<close> expects, for the supported rates; so the vector
  is large enough whenever FreeSWITCH puts out no more than expected.
\<close>

lemma supported_rates:
  assumes "IsSupportedPair (sint (f :: u32)) (sint (t :: u32))"
  shows "f = 8000 \<and> t = 16000 \<or> f = 16000 \<and> t = 8000"
proof -
  have sint_eq: "v = w" if "sint v = sint w" for v w :: u32
    using that by (rule signed_word_eqI)
  have r: "sint (8000 :: u32) = 8000" "sint (16000 :: u32) = 16000" by simp_all
  have e: "sint w = 8000 \<longleftrightarrow> w = 8000" "sint w = 16000 \<longleftrightarrow> w = 16000" for w :: u32
    using sint_eq [of w 8000] sint_eq [of w 16000] r by auto
  show ?thesis using assms by (simp only: IsSupportedPair_def e)
qed

end
