(* ===== verification/Media_Callbacks.thy ===== *)
theory Media_Callbacks
  imports Media_Playout Media_BotSession Media_Resampler
begin

text \<open>
  The callbacks FreeSWITCH runs on its media threads, \<^verbatim>\<open>src/control/handlers/media_bug_callbacks.cc\<close>: the
  taps that send channel audio to a stream and the replacers that put service audio into the channel.
  A context holds what its pointers refer to. The frame FreeSWITCH hands out is an argument; a frame that
  is set back is part of the result.
\<close>

section \<open>Frames and contexts\<close>

datatype callback_type =
  ABC_TYPE_INIT | ABC_TYPE_READ | ABC_TYPE_WRITE | ABC_TYPE_WRITE_REPLACE | ABC_TYPE_READ_PING | ABC_TYPE_CLOSE
| ABC_TYPE_OTHER nat

text \<open>\<open>fr_data\<close> is the buffer behind \<^verbatim>\<open>data\<close>, \<open>None\<close> for a null pointer.\<close>

record fs_frame =
  fr_data :: "sample list option"
  fr_datalen :: u32
  fr_samples :: u32
  fr_rate :: u32
  fr_channels :: u32

record read_callback_ctx =
  rcx_client :: "stream_client option"
  rcx_stream_rate_hz :: u32
  rcx_fs_rate_hz :: u32
  rcx_conv :: rate_conv

record write_callback_ctx =
  wcx_buffer :: "playout option"
  wcx_stream_id :: string
  wcx_stream_rate_hz :: u32
  wcx_fs_rate_hz :: u32
  wcx_conv :: rate_conv
  wcx_first_set_frame_logged :: bool

definition frame_cap :: "fs_frame \<Rightarrow> nat" where
  "frame_cap fr = unat (fr_datalen fr) div 2"

definition frame_rate :: "u32 \<Rightarrow> fs_frame \<Rightarrow> u32" where
  "frame_rate fs_rate_hz fr = (if fr_rate fr \<noteq> 0 then fr_rate fr else fs_rate_hz)"

definition frame_channels :: "fs_frame \<Rightarrow> u32" where
  "frame_channels fr = (if 0 < fr_channels fr then fr_channels fr else 1)"

text \<open>What \<^verbatim>\<open>MediaBugRead\<close> delivered: the samples of a usable frame.\<close>

definition tapped :: "fs_frame option \<Rightarrow> (fs_frame \<times> sample list) option" where
  "tapped got =
     (case got of
        None \<Rightarrow> None
      | Some fr \<Rightarrow> if fr_datalen fr = 0 then None
                   else map_option (\<lambda>data. (fr, take (frame_cap fr) data)) (fr_data fr))"

text \<open>The rate conversion both taps make: the samples to send, if any.\<close>

definition tap_convert ::
  "fs_resampler \<Rightarrow> bool \<Rightarrow> u32 \<Rightarrow> u32 \<Rightarrow> u32 \<Rightarrow> sample list \<Rightarrow> rate_conv \<Rightarrow> sample list option \<times> rate_conv" where
  "tap_convert fs created in_rate out_rate ch src cv =
     (if in_rate \<noteq> out_rate then
        (if ch \<noteq> 1 then (None, cv)
         else (case EnsureResampler created in_rate out_rate cv of
                 (False, cv1) \<Rightarrow> (None, cv1)
               | (True, cv1) \<Rightarrow>
                   (case conv_process fs src (unat (ResampledCapacity (word_of_nat (length src)) in_rate out_rate)) cv1 of
                      (written, cv2) \<Rightarrow> (if written = [] then None else Some written, cv2))))
      else (Some src, cv))"

section \<open>The callbacks of a stream\<close>

definition send_tapped :: "sample list \<Rightarrow> u32 \<Rightarrow> u32 \<Rightarrow> stream_client \<Rightarrow> stream_client" where
  "send_tapped samples out_rate ch client =
     (let (seq, c1) = NextSeq client;
          (ts, c2) = AdvanceTimestamp (word_of_nat (length samples div unat ch)) c1
      in snd (SendAudio \<lparr>af_samples = samples, af_sample_rate_hz = out_rate, af_channels = ch, af_channel = 0,
                         af_channel_uuid = [], af_seq = seq, af_timestamp_samples = ts\<rparr> c2))"

definition OswStreamingReadTap ::
  "fs_resampler \<Rightarrow> bool \<Rightarrow> callback_type \<Rightarrow> fs_frame option \<Rightarrow> read_callback_ctx option \<Rightarrow> bool \<times> read_callback_ctx option" where
  "OswStreamingReadTap fs created t got ctx =
     (if t \<noteq> ABC_TYPE_READ \<and> t \<noteq> ABC_TYPE_READ_PING then (True, ctx)
      else (case ctx of
              None \<Rightarrow> (True, ctx)
            | Some cx \<Rightarrow>
                (case (rcx_client cx, tapped got) of
                   (Some client, Some (fr, src)) \<Rightarrow>
                     (let in_rate = frame_rate (rcx_fs_rate_hz cx) fr;
                          out_rate = (if rcx_stream_rate_hz cx \<noteq> 0 then rcx_stream_rate_hz cx else in_rate);
                          ch = frame_channels fr
                      in case tap_convert fs created in_rate out_rate ch src (rcx_conv cx) of
                           (None, cv) \<Rightarrow> (True, Some (cx\<lparr>rcx_conv := cv\<rparr>))
                         | (Some samples, cv) \<Rightarrow>
                             (True, Some (cx\<lparr>rcx_conv := cv, rcx_client := Some (send_tapped samples out_rate ch client)\<rparr>)))
                 | _ \<Rightarrow> (True, ctx))))"

text \<open>
  \<^verbatim>\<open>needed_at_stream_rate\<close>: the subtraction is on \<^verbatim>\<open>size_t\<close> and the result is cut to 32 bits.
\<close>

definition needed_at_stream_rate :: "u32 \<Rightarrow> u32 \<Rightarrow> u32 \<Rightarrow> u32" where
  "needed_at_stream_rate cap_samples fs_rate stream_rate =
     ucast (max 1 (ResampledCapacity (ucast cap_samples) fs_rate stream_rate - 16))"

text \<open>
  The end of both replacers: with samples in the buffer the frame is set back, otherwise FreeSWITCH keeps
  its own. \<open>out\<close> is the buffer of the frame, \<open>n\<close> the number of samples written to it.
\<close>

definition set_frame :: "u32 \<Rightarrow> nat \<Rightarrow> sample list \<Rightarrow> fs_frame \<Rightarrow> fs_frame" where
  "set_frame rate n out fr =
     fr\<lparr>fr_data := Some out, fr_samples := word_of_nat n, fr_datalen := word_of_nat n * 2, fr_rate := rate\<rparr>"

text \<open>
  The two ways of \<^verbatim>\<open>OswStreamingWriteReplace\<close> to fill the buffer. The result is the return value, the frame
  set back and the context. \<open>alloc\<close> tells whether the vector \<^verbatim>\<open>tmp\<close> could be allocated; the exception is
  caught.
\<close>

definition replace_same :: "nat \<Rightarrow> u32 \<Rightarrow> playout \<Rightarrow> fs_frame \<Rightarrow> write_callback_ctx \<Rightarrow>
    bool \<times> fs_frame option \<times> write_callback_ctx" where
  "replace_same now fs_rate buffer fr cx =
     (case fr_data fr of
        None \<Rightarrow> (\<not> pb_eos buffer, None, cx)
      | Some dst \<Rightarrow>
          (case PlayoutPop now (frame_cap fr) dst buffer of
             (written, out, buffer') \<Rightarrow>
               if written = 0 then (\<not> pb_eos buffer', None, cx\<lparr>wcx_buffer := Some buffer'\<rparr>)
               else (True, Some (set_frame fs_rate written out fr),
                     cx\<lparr>wcx_buffer := Some buffer', wcx_first_set_frame_logged := True\<rparr>)))"

definition replace_resampled :: "fs_resampler \<Rightarrow> bool \<Rightarrow> bool \<Rightarrow> nat \<Rightarrow> u32 \<Rightarrow> u32 \<Rightarrow> playout \<Rightarrow> fs_frame \<Rightarrow>
    write_callback_ctx \<Rightarrow> bool \<times> fs_frame option \<times> write_callback_ctx" where
  "replace_resampled fs created alloc now fs_rate stream_rate buffer fr cx =
     (case EnsureResampler created stream_rate fs_rate (wcx_conv cx) of
        (False, cv) \<Rightarrow> (True, None, cx\<lparr>wcx_conv := cv\<rparr>)
      | (True, cv) \<Rightarrow>
          (let needed = unat (needed_at_stream_rate (fr_datalen fr div 2) fs_rate stream_rate);
               cx1 = cx\<lparr>wcx_conv := cv\<rparr>
           in if \<not> alloc then (True, None, cx1)
              else (case PlayoutPop now needed (replicate needed 0) buffer of
                      (popped, tmp, buffer') \<Rightarrow>
                        if popped = 0 then (\<not> pb_eos buffer', None, cx1\<lparr>wcx_buffer := Some buffer'\<rparr>)
                        else (case fr_data fr of
                                None \<Rightarrow> (True, None, cx1\<lparr>wcx_buffer := Some buffer'\<rparr>)
                              | Some dst \<Rightarrow>
                                  (case conv_process fs (take popped tmp) (frame_cap fr) cv of
                                     (written, cv') \<Rightarrow>
                                       if written = [] then (True, None, cx1\<lparr>wcx_buffer := Some buffer', wcx_conv := cv'\<rparr>)
                                       else (True, Some (set_frame fs_rate (length written) (write_at dst 0 written) fr),
                                             cx1\<lparr>wcx_buffer := Some buffer', wcx_conv := cv',
                                                 wcx_first_set_frame_logged := True\<rparr>))))))"

definition OswStreamingWriteReplace ::
  "fs_resampler \<Rightarrow> bool \<Rightarrow> bool \<Rightarrow> nat \<Rightarrow> callback_type \<Rightarrow> fs_frame option \<Rightarrow> write_callback_ctx option \<Rightarrow>
   bool \<times> fs_frame option \<times> write_callback_ctx option" where
  "OswStreamingWriteReplace fs created alloc now t got ctx =
     (if t \<noteq> ABC_TYPE_WRITE_REPLACE then (True, None, ctx)
      else (case ctx of
              None \<Rightarrow> (True, None, ctx)
            | Some cx \<Rightarrow>
                (case (wcx_buffer cx, got) of
                   (Some buffer, Some fr) \<Rightarrow>
                     (let fs_rate = frame_rate (wcx_fs_rate_hz cx) fr;
                          stream_rate = (if wcx_stream_rate_hz cx \<noteq> 0 then wcx_stream_rate_hz cx else fs_rate)
                      in apsnd (apsnd Some)
                           (if fs_rate \<noteq> stream_rate
                            then replace_resampled fs created alloc now fs_rate stream_rate buffer fr cx
                            else replace_same now fs_rate buffer fr cx))
                 | _ \<Rightarrow> (True, None, ctx))))"

section \<open>The callbacks of a bot\<close>

text \<open>
  The contexts of a bs's bugs; the stream rate of a write context is not read. The bot behind the
  pointer of the context is an argument of its own, because the contexts of all its targets share it.
  Closing a target is only logged.
\<close>

record bot_callback_ctx = bot_ctx +
  bcx_conv :: rate_conv
  bcx_first_set_frame_logged :: bool

definition OswBotReadTap :: "fs_resampler \<Rightarrow> bool \<Rightarrow> callback_type \<Rightarrow> fs_frame option \<Rightarrow> bot_callback_ctx \<Rightarrow> bot_session \<Rightarrow>
    bool \<times> bot_callback_ctx \<times> bot_session" where
  "OswBotReadTap fs created t got cx bs =
     (if t \<noteq> ABC_TYPE_READ \<and> t \<noteq> ABC_TYPE_READ_PING then (True, cx, bs)
      else if bz_stopped bs then (True, cx, bs)
      else (case tapped got of
              None \<Rightarrow> (True, cx, bs)
            | Some (fr, src) \<Rightarrow>
                (let in_rate = frame_rate (bc_fs_rate_hz cx) fr;
                     out_rate = (if bc_stream_rate_hz cx \<noteq> 0 then bc_stream_rate_hz cx else in_rate);
                     ch = frame_channels fr
                 in case tap_convert fs created in_rate out_rate ch src (bcx_conv cx) of
                      (None, cv) \<Rightarrow> (True, cx\<lparr>bcx_conv := cv\<rparr>, bs)
                    | (Some samples, cv) \<Rightarrow>
                        (True, cx\<lparr>bcx_conv := cv\<rparr>, OnTargetReadFrame (bc_channel_uuid cx) samples out_rate ch bs))))"

text \<open>What \<^verbatim>\<open>OswBotWriteReplace\<close> writes into the frame's buffer: the samples, and the resampler after it.\<close>

definition bot_samples :: "fs_resampler \<Rightarrow> bool \<Rightarrow> u32 \<Rightarrow> audio_frame \<Rightarrow> fs_frame \<Rightarrow> rate_conv \<Rightarrow> sample list \<times> rate_conv" where
  "bot_samples fs created fs_rate af fr cv =
     (if fs_rate \<noteq> 0 \<and> af_sample_rate_hz af \<noteq> 0 \<and> fs_rate \<noteq> af_sample_rate_hz af
      then (case EnsureResampler created (af_sample_rate_hz af) fs_rate cv of
              (False, cv1) \<Rightarrow> ([], cv1)
            | (True, cv1) \<Rightarrow> conv_process fs (af_samples af) (frame_cap fr) cv1)
      else (take (min (frame_cap fr) (to_u32 (sample_count af))) (af_samples af), cv))"

definition OswBotWriteReplace :: "fs_resampler \<Rightarrow> bool \<Rightarrow> callback_type \<Rightarrow> fs_frame option \<Rightarrow> bot_callback_ctx \<Rightarrow> bot_session \<Rightarrow>
    bool \<times> fs_frame option \<times> bot_callback_ctx \<times> bot_session" where
  "OswBotWriteReplace fs created t got cx bs =
     (if t \<noteq> ABC_TYPE_WRITE_REPLACE then (True, None, cx, bs)
      else if bz_stopped bs then (True, None, cx, bs)
      else (case PopWriteFrame (bc_channel_uuid cx) bs of
              (None, bs') \<Rightarrow> (True, None, cx, bs')
            | (Some af, bs') \<Rightarrow>
                (case got of
                   None \<Rightarrow> (True, None, cx, bs')
                 | Some fr \<Rightarrow>
                     (case fr_data fr of
                        None \<Rightarrow> (True, None, cx, bs')
                      | Some dst \<Rightarrow>
                          if fr_datalen fr = 0 then (True, None, cx, bs')
                          else let fs_rate = frame_rate (bc_fs_rate_hz cx) fr;
                                   (written, cv) = bot_samples fs created fs_rate af fr (bcx_conv cx)
                               in if written = [] then (True, None, cx\<lparr>bcx_conv := cv\<rparr>, bs')
                                  else (True, Some (set_frame (if fs_rate \<noteq> 0 then fs_rate else af_sample_rate_hz af)
                                                      (length written) (write_at dst 0 written) fr),
                                        cx\<lparr>bcx_conv := cv, bcx_first_set_frame_logged := True\<rparr>, bs')))))"

section \<open>Numbering of the frames sent\<close>

text \<open>Frames in order, numbered from \<open>s\<close> and stamped from \<open>t\<close> with the samples sent before.\<close>

fun numbered :: "u64 \<Rightarrow> u64 \<Rightarrow> audio_frame list \<Rightarrow> bool" where
  "numbered s t [] = True"
| "numbered s t (f # fs) \<longleftrightarrow>
     af_seq f = s \<and> af_timestamp_samples f = t \<and> numbered (s + 1) (t + word_of_nat (duration_samples f)) fs"

definition sent_samples :: "audio_frame list \<Rightarrow> u64" where
  "sent_samples fs = sum_list (map (\<lambda>f. word_of_nat (duration_samples f)) fs)"

text \<open>\<open>sends fs c c'\<close>: between \<open>c\<close> and \<open>c'\<close> exactly the frames \<open>fs\<close> were accepted, numbered from the counters of \<open>c\<close>.\<close>

definition sends :: "audio_frame list \<Rightarrow> stream_client \<Rightarrow> stream_client \<Rightarrow> bool" where
  "sends fs c c' \<longleftrightarrow>
     sc_accepted c' = sc_accepted c @ map (\<lambda>f. FM_audio (ToProto f)) fs
     \<and> numbered (sc_seq_counter c) (sc_ts_counter c) fs
     \<and> sc_seq_counter c' = sc_seq_counter c + word_of_nat (length fs)
     \<and> sc_ts_counter c' = sc_ts_counter c + sent_samples fs
     \<and> sc_ring_closed c' = sc_ring_closed c"

lemma numbered_append:
  "numbered s t (fs @ gs) \<longleftrightarrow> numbered s t fs \<and> numbered (s + word_of_nat (length fs)) (t + sent_samples fs) gs"
  by (induction fs arbitrary: s t) (simp_all add: sent_samples_def add.assoc)

lemma sends_refl [simp]: "sends [] c c"
  by (simp add: sends_def sent_samples_def)

lemma sends_trans: "sends fs c c' \<Longrightarrow> sends gs c' c'' \<Longrightarrow> sends (fs @ gs) c c''"
  by (simp add: sends_def numbered_append sent_samples_def add.assoc)

lemma RingPush_frame [simp]:
  "sc_accepted (RingPushLocked e s) = sc_accepted s @ [e]" "sc_seq_counter (RingPushLocked e s) = sc_seq_counter s"
  "sc_ts_counter (RingPushLocked e s) = sc_ts_counter s" "sc_ring_closed (RingPushLocked e s) = sc_ring_closed s"
  by (simp_all add: RingPushLocked_def Let_def)

text \<open>The three calls every sender makes on the client.\<close>

lemma sends_one:
  assumes "\<not> sc_ring_closed c" "sample_count f \<noteq> 0" "0 < af_channels f"
    and "af_seq f = sc_seq_counter c" "af_timestamp_samples f = sc_ts_counter c"
    and c2: "c2 = snd (AdvanceTimestamp (word_of_nat (sample_count f div unat (af_channels f))) (snd (NextSeq c)))"
  shows "sends [f] c (snd (SendAudio f c2))"
proof -
  have "(ucast (word_of_nat n :: u32) :: u64) = word_of_nat (to_u32 n)" for n
    by (simp add: to_u32_def unsigned_of_nat take_bit_eq_mod flip: take_bit_nat_eq_self)
  then show ?thesis
    using assms by (simp add: sends_def sent_samples_def SendAudio_def AdvanceTimestamp_def NextSeq_def duration_samples_def)
qed

section \<open>The taps\<close>

text \<open>The audio a tap event brings: the samples of a usable frame of a read event.\<close>

definition tap_input :: "callback_type \<Rightarrow> fs_frame option \<Rightarrow> sample list option" where
  "tap_input t got = (if t = ABC_TYPE_READ \<or> t = ABC_TYPE_READ_PING then map_option snd (tapped got) else None)"

definition at_rate :: "u32 \<Rightarrow> u32 \<Rightarrow> fs_frame option \<Rightarrow> bool" where
  "at_rate stream_rate fs_rate got =
     (case got of None \<Rightarrow> True | Some fr \<Rightarrow> stream_rate = 0 \<or> frame_rate fs_rate fr = stream_rate)"

definition list_of_option :: "'a option \<Rightarrow> 'a list" where
  "list_of_option r = (case r of None \<Rightarrow> [] | Some x \<Rightarrow> [x])"

lemma list_of_option_simps [simp]: "list_of_option None = []" "list_of_option (Some x) = [x]"
  by (simp_all add: list_of_option_def)

lemma frame_channels_pos [simp]: "0 < frame_channels fr" "max (frame_channels fr) 1 = frame_channels fr"
proof -
  have "1 \<le> frame_channels fr" by (auto simp: frame_channels_def word_le_nat_alt unat_gt_0 word_less_nat_alt Suc_le_eq)
  then show "0 < frame_channels fr" "max (frame_channels fr) 1 = frame_channels fr"
    by (simp_all add: max_absorb1) (simp add: word_le_nat_alt word_less_nat_alt)
qed

lemma tap_convert_nonempty:
  "tap_convert fs created i out ch src cv = (Some samples, cv') \<Longrightarrow> src \<noteq> [] \<Longrightarrow> samples \<noteq> []"
  by (auto simp: tap_convert_def split: if_splits prod.splits bool.splits)

lemma tap_convert_same [simp]: "tap_convert fs created r r ch src cv = (Some src, cv)"
  by (simp add: tap_convert_def)

lemma tap_convert_at_rate:
  assumes "at_rate stream_rate fs_rate (Some fr)"
    and "tap_convert fs created (frame_rate fs_rate fr) (if stream_rate \<noteq> 0 then stream_rate else frame_rate fs_rate fr) ch src cv
         = (r, cv')"
  shows "r = Some src"
  using assms by (auto simp: at_rate_def split: if_splits)

lemma send_tapped_sends:
  assumes "\<not> sc_ring_closed c" "samples \<noteq> []" "0 < ch"
  obtains f where "af_samples f = samples" "sends [f] c (send_tapped samples r ch c)"
proof -
  let ?f = "\<lparr>af_samples = samples, af_sample_rate_hz = r, af_channels = ch, af_channel = 0, af_channel_uuid = [],
             af_seq = sc_seq_counter c, af_timestamp_samples = sc_ts_counter c\<rparr>"
  have "send_tapped samples r ch c = snd (SendAudio ?f (snd (AdvanceTimestamp
      (word_of_nat (sample_count ?f div unat (af_channels ?f))) (snd (NextSeq c)))))"
    by (simp add: send_tapped_def NextSeq_def AdvanceTimestamp_def)
  then show ?thesis using that [of ?f] sends_one [of c ?f] assms by simp
qed

lemma OnTargetReadFrame_sends:
  assumes "bz_client b = Some c" "\<not> sc_ring_closed c" "\<not> bz_stopped b" "samples \<noteq> []"
  obtains f c' where "af_samples f = samples" "af_channel_uuid f = u" "sends [f] c c'"
    "bz_client (OnTargetReadFrame u samples r ch b) = Some c'" "\<not> bz_stopped (OnTargetReadFrame u samples r ch b)"
proof -
  let ?f = "\<lparr>af_samples = samples, af_sample_rate_hz = r, af_channels = max ch 1, af_channel = 0, af_channel_uuid = u,
             af_seq = sc_seq_counter c, af_timestamp_samples = sc_ts_counter c\<rparr>"
  let ?c' = "snd (SendAudio ?f (snd (AdvanceTimestamp
      (word_of_nat (sample_count ?f div unat (af_channels ?f))) (snd (NextSeq c)))))"
  have "bz_client (OnTargetReadFrame u samples r ch b) = Some ?c'"
    "bz_stopped (OnTargetReadFrame u samples r ch b) = bz_stopped b"
    using assms by (simp_all add: OnTargetReadFrame_def NextSeq_def AdvanceTimestamp_def Let_def split: prod.split)
  moreover have "0 < max ch 1" by (simp add: max_def word_le_nat_alt word_less_nat_alt)
  ultimately show ?thesis using that [of ?f ?c'] sends_one [of c ?f] assms by simp
qed

lemma tap_input_cases:
  obtains (idle) "tap_input t got = None"
  | (audio) fr src where "t = ABC_TYPE_READ \<or> t = ABC_TYPE_READ_PING" "got = Some fr" "tapped got = Some (fr, src)"
      "tap_input t got = Some src"
proof (cases "tap_input t got")
  case (Some src)
  then obtain fr where "t = ABC_TYPE_READ \<or> t = ABC_TYPE_READ_PING" "tapped got = Some (fr, src)"
    by (auto simp: tap_input_def split: if_splits)
  then show ?thesis using audio Some by (auto simp: tapped_def split: option.splits if_splits)
qed (rule idle)

lemma read_tap_sends:
  assumes "rcx_client cx = Some c" "\<not> sc_ring_closed c" "tap_input t got \<noteq> Some []"
  obtains cx' c' frames where "OswStreamingReadTap fs created t got (Some cx) = (True, Some cx')"
    "rcx_client cx' = Some c'" "sends frames c c'"
    "rcx_stream_rate_hz cx' = rcx_stream_rate_hz cx" "rcx_fs_rate_hz cx' = rcx_fs_rate_hz cx"
    "at_rate (rcx_stream_rate_hz cx) (rcx_fs_rate_hz cx) got \<longrightarrow> map af_samples frames = list_of_option (tap_input t got)"
proof -
  show ?thesis
  proof (cases rule: tap_input_cases [of t got])
    case idle
    then show ?thesis using that [of cx c "[]"] assms(1)
      by (auto simp: OswStreamingReadTap_def tap_input_def split: if_splits)
  next
    case (audio fr src)
    let ?i = "frame_rate (rcx_fs_rate_hz cx) fr"
    let ?o = "if rcx_stream_rate_hz cx \<noteq> 0 then rcx_stream_rate_hz cx else ?i"
    note got = audio(2) and inp = audio(4)
    obtain r cv where conv: "tap_convert fs created ?i ?o (frame_channels fr) src (rcx_conv cx) = (r, cv)" by force
    have same: "at_rate (rcx_stream_rate_hz cx) (rcx_fs_rate_hz cx) got \<longrightarrow> r = Some src"
      using tap_convert_at_rate got conv by blast
    show ?thesis
    proof (cases r)
      case None
      then show ?thesis using that [of "cx\<lparr>rcx_conv := cv\<rparr>" c "[]"] assms(1) audio conv same
        by (auto simp: OswStreamingReadTap_def Let_def)
    next
      case (Some samples)
      then have ne: "samples \<noteq> []" using tap_convert_nonempty conv assms(3) inp by blast
      obtain f where f: "af_samples f = samples" "sends [f] c (send_tapped samples ?o (frame_channels fr) c)"
        using send_tapped_sends [OF assms(2) ne, of "frame_channels fr"] by (metis frame_channels_pos(1))
      show ?thesis
        using that [of "cx\<lparr>rcx_conv := cv, rcx_client := Some (send_tapped samples ?o (frame_channels fr) c)\<rparr>" _ "[f]"]
          f assms(1) audio conv Some same inp
        by (auto simp: OswStreamingReadTap_def Let_def)
    qed
  qed
qed

lemma bot_tap_sends:
  assumes "bz_client b = Some c" "\<not> sc_ring_closed c" "\<not> bz_stopped b"
  obtains cx' b' c' frames where "OswBotReadTap fs created t got cx b = (True, cx', b')"
    "bz_client b' = Some c'" "\<not> bz_stopped b'" "sends frames c c'"
    "bc_channel_uuid cx' = bc_channel_uuid cx" "bc_stream_rate_hz cx' = bc_stream_rate_hz cx" "bc_fs_rate_hz cx' = bc_fs_rate_hz cx"
    "\<forall>f\<in>set frames. af_channel_uuid f = bc_channel_uuid cx"
    "at_rate (bc_stream_rate_hz cx) (bc_fs_rate_hz cx) got \<longrightarrow>
       map af_samples frames = filter (\<lambda>xs. xs \<noteq> []) (list_of_option (tap_input t got))"
proof -
  show ?thesis
  proof (cases rule: tap_input_cases [of t got])
    case idle
    then show ?thesis using that [of cx b c "[]"] assms
      by (auto simp: OswBotReadTap_def tap_input_def split: if_splits)
  next
    case (audio fr src)
    let ?i = "frame_rate (bc_fs_rate_hz cx) fr"
    let ?o = "if bc_stream_rate_hz cx \<noteq> 0 then bc_stream_rate_hz cx else ?i"
    note got = audio(2) and inp = audio(4)
    obtain r cv where conv: "tap_convert fs created ?i ?o (frame_channels fr) src (bcx_conv cx) = (r, cv)" by force
    have same: "at_rate (bc_stream_rate_hz cx) (bc_fs_rate_hz cx) got \<longrightarrow> r = Some src"
      using tap_convert_at_rate got conv by blast
    consider (quiet) "r = None \<or> r = Some []" | (sound) samples where "r = Some samples" "samples \<noteq> []" by (cases r) auto
    then show ?thesis
    proof cases
      case quiet
      have "OnTargetReadFrame u [] x y b = b" for u x y using assms by (simp add: OnTargetReadFrame_def)
      then have "OswBotReadTap fs created t got cx b = (True, cx\<lparr>bcx_conv := cv\<rparr>, b)"
        using assms audio conv quiet by (auto simp: OswBotReadTap_def Let_def)
      then show ?thesis using that [of "cx\<lparr>bcx_conv := cv\<rparr>" b c "[]"] assms quiet same inp by auto
    next
      case sound
      obtain f c' where "af_samples f = samples" "af_channel_uuid f = bc_channel_uuid cx" "sends [f] c c'"
        "bz_client (OnTargetReadFrame (bc_channel_uuid cx) samples ?o (frame_channels fr) b) = Some c'"
        "\<not> bz_stopped (OnTargetReadFrame (bc_channel_uuid cx) samples ?o (frame_channels fr) b)"
        using OnTargetReadFrame_sends [OF assms sound(2)] by metis
      then show ?thesis
        using that [of "cx\<lparr>bcx_conv := cv\<rparr>" _ c' "[f]"] assms audio conv sound same inp
        by (auto simp: OswBotReadTap_def Let_def)
    qed
  qed
qed

text \<open>
  A run of taps: of one stream's context, and of the contexts of all targets of a bot, in the order of
  the events. An event carries whether a resampler could be created, its type and the frame read.
\<close>

type_synonym tap_event = "bool \<times> callback_type \<times> fs_frame option"

definition read_taps :: "fs_resampler \<Rightarrow> tap_event list \<Rightarrow> read_callback_ctx option \<Rightarrow> read_callback_ctx option" where
  "read_taps fs evs ctx = fold (\<lambda>(created, t, got) x. snd (OswStreamingReadTap fs created t got x)) evs ctx"

definition bot_tap_at :: "fs_resampler \<Rightarrow> nat \<times> tap_event \<Rightarrow> bot_callback_ctx list \<times> bot_session \<Rightarrow>
    bot_callback_ctx list \<times> bot_session" where
  "bot_tap_at fs ev s =
     (case (ev, s) of ((i, created, t, got), (cxs, b)) \<Rightarrow>
        (case OswBotReadTap fs created t got (cxs ! i) b of (_, cx, b') \<Rightarrow> (cxs[i := cx], b')))"

definition stream_inputs :: "tap_event list \<Rightarrow> sample list list" where
  "stream_inputs evs = concat (map (\<lambda>(created, t, got). list_of_option (tap_input t got)) evs)"

definition bot_inputs :: "string list \<Rightarrow> (nat \<times> tap_event) list \<Rightarrow> (string \<times> sample list) list" where
  "bot_inputs us evs =
     concat (map (\<lambda>(i, created, t, got). map (Pair (us ! i)) (filter (\<lambda>xs. xs \<noteq> []) (list_of_option (tap_input t got)))) evs)"

lemma read_taps_send:
  assumes "rcx_client cx = Some c" "\<not> sc_ring_closed c" "\<forall>(created, t, got)\<in>set evs. tap_input t got \<noteq> Some []"
  shows "\<exists>cx' c' frames. read_taps fs evs (Some cx) = Some cx' \<and> rcx_client cx' = Some c' \<and> sends frames c c'
    \<and> ((\<forall>(created, t, got)\<in>set evs. at_rate (rcx_stream_rate_hz cx) (rcx_fs_rate_hz cx) got)
         \<longrightarrow> map af_samples frames = stream_inputs evs)"
  using assms
proof (induction evs arbitrary: cx c)
  case Nil
  then show ?case by (auto simp: read_taps_def stream_inputs_def intro!: exI [of _ "[]"])
next
  case (Cons ev evs)
  obtain created t got where ev: "ev = (created, t, got)" by (cases ev)
  obtain cx1 c1 fs1 where 1: "OswStreamingReadTap fs created t got (Some cx) = (True, Some cx1)"
    "rcx_client cx1 = Some c1" "sends fs1 c c1"
    "rcx_stream_rate_hz cx1 = rcx_stream_rate_hz cx" "rcx_fs_rate_hz cx1 = rcx_fs_rate_hz cx"
    "at_rate (rcx_stream_rate_hz cx) (rcx_fs_rate_hz cx) got \<longrightarrow> map af_samples fs1 = list_of_option (tap_input t got)"
    by (rule read_tap_sends [OF Cons.prems(1,2), of t got fs created]) (use Cons.prems(3) ev in auto)
  have c1: "\<not> sc_ring_closed c1" using 1(3) Cons.prems(2) by (simp add: sends_def)
  have "\<forall>(created, t, got)\<in>set evs. tap_input t got \<noteq> Some []" using Cons.prems(3) by simp
  from Cons.IH [OF 1(2) c1 this, unfolded 1(4,5)] obtain cx' c' fs2 where 2: "read_taps fs evs (Some cx1) = Some cx'" "rcx_client cx' = Some c'" "sends fs2 c1 c'"
    "(\<forall>(created, t, got)\<in>set evs. at_rate (rcx_stream_rate_hz cx) (rcx_fs_rate_hz cx) got)
       \<longrightarrow> map af_samples fs2 = stream_inputs evs"
    by blast
  have "read_taps fs (ev # evs) (Some cx) = Some cx'" using 1(1) 2(1) ev by (simp add: read_taps_def)
  moreover have "sends (fs1 @ fs2) c c'" using sends_trans 1(3) 2(3) .
  ultimately show ?case using 1(6) 2(2,4) ev by (intro exI [of _ cx'] exI [of _ c'] exI [of _ "fs1 @ fs2"])
      (auto simp: stream_inputs_def)
qed

lemma bot_taps_send:
  assumes "bz_client b = Some c" "\<not> sc_ring_closed c" "\<not> bz_stopped b" "\<forall>(i, ev)\<in>set evs. i < length cxs"
  shows "\<exists>cxs' b' c' frames. fold (bot_tap_at fs) evs (cxs, b) = (cxs', b') \<and> bz_client b' = Some c' \<and> sends frames c c'
    \<and> ((\<forall>(i, created, t, got)\<in>set evs. at_rate (bc_stream_rate_hz (cxs ! i)) (bc_fs_rate_hz (cxs ! i)) got)
         \<longrightarrow> map (\<lambda>f. (af_channel_uuid f, af_samples f)) frames = bot_inputs (map bc_channel_uuid cxs) evs)"
  using assms
proof (induction evs arbitrary: cxs b c)
  case Nil
  then show ?case by (auto simp: bot_inputs_def intro!: exI [of _ "[]"])
next
  case (Cons ev evs)
  obtain i created t got where ev: "ev = (i, created, t, got)" by (cases ev)
  obtain cx1 b1 c1 fs1 where 1: "OswBotReadTap fs created t got (cxs ! i) b = (True, cx1, b1)"
    "bz_client b1 = Some c1" "\<not> bz_stopped b1" "sends fs1 c c1"
    "bc_channel_uuid cx1 = bc_channel_uuid (cxs ! i)" "bc_stream_rate_hz cx1 = bc_stream_rate_hz (cxs ! i)"
    "bc_fs_rate_hz cx1 = bc_fs_rate_hz (cxs ! i)"
    "\<forall>f\<in>set fs1. af_channel_uuid f = bc_channel_uuid (cxs ! i)"
    "at_rate (bc_stream_rate_hz (cxs ! i)) (bc_fs_rate_hz (cxs ! i)) got \<longrightarrow>
       map af_samples fs1 = filter (\<lambda>xs. xs \<noteq> []) (list_of_option (tap_input t got))"
    by (rule bot_tap_sends [OF Cons.prems(1-3), of fs created t got "cxs ! i"])
  let ?cxs = "cxs[i := cx1]"
  have il: "i < length cxs" using Cons.prems(4) ev by simp
  have keep: "bc_stream_rate_hz (?cxs ! j) = bc_stream_rate_hz (cxs ! j)" "bc_fs_rate_hz (?cxs ! j) = bc_fs_rate_hz (cxs ! j)" for j
    using 1(6,7) il by (auto simp: nth_list_update)
  have uuids: "map bc_channel_uuid ?cxs = map bc_channel_uuid cxs"
    using list_update_id [of "map bc_channel_uuid cxs" i] 1(5) il by (simp add: map_update)
  have c1: "\<not> sc_ring_closed c1" using 1(4) Cons.prems(2) by (simp add: sends_def)
  have "\<forall>(i, ev)\<in>set evs. i < length ?cxs" using Cons.prems(4) by simp
  from Cons.IH [OF 1(2) c1 1(3) this, unfolded keep uuids] obtain cxs' b' c' fs2
    where 2: "fold (bot_tap_at fs) evs (?cxs, b1) = (cxs', b')" "bz_client b' = Some c'" "sends fs2 c1 c'"
      "(\<forall>(i, created, t, got)\<in>set evs. at_rate (bc_stream_rate_hz (cxs ! i)) (bc_fs_rate_hz (cxs ! i)) got)
         \<longrightarrow> map (\<lambda>f. (af_channel_uuid f, af_samples f)) fs2 = bot_inputs (map bc_channel_uuid cxs) evs"
    by blast
  have "fold (bot_tap_at fs) (ev # evs) (cxs, b) = (cxs', b')" using 1(1) 2(1) ev by (simp add: bot_tap_at_def)
  moreover have "sends (fs1 @ fs2) c c'" using sends_trans 1(4) 2(3) .
  moreover have "map (\<lambda>f. (af_channel_uuid f, af_samples f)) (fs1 @ fs2) = bot_inputs (map bc_channel_uuid cxs) (ev # evs)"
    if r: "\<forall>(i, created, t, got)\<in>set (ev # evs). at_rate (bc_stream_rate_hz (cxs ! i)) (bc_fs_rate_hz (cxs ! i)) got"
  proof -
    have "map (\<lambda>f. (af_channel_uuid f, af_samples f)) fs1 = map (Pair (bc_channel_uuid (cxs ! i))) (map af_samples fs1)"
      using 1(8) by simp
    moreover have "map af_samples fs1 = filter (\<lambda>xs. xs \<noteq> []) (list_of_option (tap_input t got))" using 1(9) r ev by simp
    moreover have "map (\<lambda>f. (af_channel_uuid f, af_samples f)) fs2 = bot_inputs (map bc_channel_uuid cxs) evs"
      using 2(4) r by simp
    ultimately show ?thesis using ev il by (simp add: bot_inputs_def)
  qed
  ultimately show ?case using 2(2) by blast
qed

text \<open>
  The media threads of two targets run \<^verbatim>\<open>OnTargetReadFrame\<close> at the same time, and its three calls on the client
  are not one atomic operation: the frame that took its number first can be queued second, and then
  neither the numbers nor the timestamps of the queued frames are in order.
\<close>

lemma concurrent_targets_swap:
  fixes frame :: "sample list \<Rightarrow> u64 \<Rightarrow> u64 \<Rightarrow> audio_frame"
  assumes "\<not> sc_ring_closed c" "\<And>s t. sample_count (frame xs s t) \<noteq> 0" "\<And>s t. sample_count (frame ys s t) \<noteq> 0"
  shows "(let (s1, c1) = NextSeq c; (s2, c2) = NextSeq c1;
              (t2, c3) = AdvanceTimestamp n c2; (_, c4) = SendAudio (frame ys s2 t2) c3;
              (t1, c5) = AdvanceTimestamp m c4; (_, c6) = SendAudio (frame xs s1 t1) c5
          in sc_accepted c6 = sc_accepted c
               @ [FM_audio (ToProto (frame ys (sc_seq_counter c + 1) (sc_ts_counter c))),
                  FM_audio (ToProto (frame xs (sc_seq_counter c) (sc_ts_counter c + ucast n)))])"
  using assms by (simp add: NextSeq_def AdvanceTimestamp_def SendAudio_def)

section \<open>The replacers\<close>

lemma u64_div: "x < 2 ^ 64 \<Longrightarrow> y < 2 ^ 64 \<Longrightarrow> unat (word_of_nat x div word_of_nat y :: u64) = x div y"
  by (simp add: unat_div unsigned_of_nat take_bit_nat_eq_self)

lemma narrow_max:
  assumes "unat (w :: u64) < 2 ^ 32"
  shows "unat (ucast (max 1 w) :: u32) = max 1 (unat w)"
proof -
  have "unat (max 1 w) = max 1 (unat w)" by (simp add: max_def word_le_nat_alt)
  then show ?thesis using assms by (simp add: unsigned_ucast_eq unsigned_take_bit_eq take_bit_nat_eq_self)
qed

lemma needed_supported:
  assumes "IsSupportedPair (sint stream_rate) (sint fs_rate)" "0 < n" "unat n < 2 ^ 31"
  shows "unat (needed_at_stream_rate n fs_rate stream_rate) = (if fs_rate = 16000 then (unat n + 1) div 2 else 2 * unat n)"
proof -
  have n0: "0 < unat n" using assms(2) by (simp add: word_less_nat_alt)
  have "unat (ucast n :: u64) = unat n" using assms(3) by (simp add: unsigned_ucast_eq take_bit_nat_eq_self)
  then have n: "(ucast n :: u64) \<noteq> 0" using n0 by auto
  consider (up) "stream_rate = 8000" "fs_rate = 16000" | (down) "stream_rate = 16000" "fs_rate = 8000"
    using supported_rates [OF assms(1)] by blast
  then show ?thesis
  proof cases
    case up
    have "ResampledCapacity (ucast n) fs_rate stream_rate - 16 = word_of_nat (15999 + unat n * 8000) div word_of_nat 16000"
      using up n by (simp add: ResampledCapacity_def)
    moreover have "15999 + unat n * 8000 < 2 ^ 64" using assms(3) by simp
    ultimately have "unat (ResampledCapacity (ucast n) fs_rate stream_rate - 16) = (15999 + unat n * 8000) div 16000"
      using u64_div [of "15999 + unat n * 8000" 16000] by simp
    also have "\<dots> = (unat n + 1) div 2" using div_mult2_eq [of "15999 + unat n * 8000" 8000 2] by simp
    finally have w: "unat (ResampledCapacity (ucast n) fs_rate stream_rate - 16) = (unat n + 1) div 2" .
    have "(unat n + 1) div 2 < 2 ^ 32" "max 1 ((unat n + 1) div 2) = (unat n + 1) div 2" using n0 assms(3) by simp_all
    then show ?thesis unfolding needed_at_stream_rate_def if_P [OF up(2)] by (simp only: narrow_max w)
  next
    case down
    have "ResampledCapacity (ucast n) fs_rate stream_rate - 16 = word_of_nat (7999 + unat n * 16000) div word_of_nat 8000"
      using down n by (simp add: ResampledCapacity_def)
    moreover have "7999 + unat n * 16000 < 2 ^ 64" using assms(3) by simp
    ultimately have "unat (ResampledCapacity (ucast n) fs_rate stream_rate - 16) = (7999 + unat n * 16000) div 8000"
      using u64_div [of "7999 + unat n * 16000" 8000] by simp
    also have "\<dots> = 2 * unat n" by linarith
    finally have w: "unat (ResampledCapacity (ucast n) fs_rate stream_rate - 16) = 2 * unat n" .
    have "2 * unat n < 2 ^ 32" "max 1 (2 * unat n) = 2 * unat n" using n0 assms(3) by simp_all
    moreover have "fs_rate \<noteq> 16000" using down by simp
    ultimately show ?thesis unfolding needed_at_stream_rate_def by (simp only: narrow_max w if_False)
  qed
qed

text \<open>
  A frame shorter than one sample makes the callback ask for the largest vector: the subtraction in
  \<^verbatim>\<open>needed_at_stream_rate\<close> wraps around.
\<close>

lemma zero_frame_asks_for_gigabytes: "needed_at_stream_rate 0 fs_rate stream_rate = 4294967280"
proof -
  have "(1 :: u64) \<le> - 16" by (simp add: word_le_nat_alt unsigned_minus_1_eq_mask)
  then show ?thesis by (simp add: needed_at_stream_rate_def ResampledCapacity_def max_def)
qed

text \<open>The frame set back: \<open>ys\<close> at the start of its buffer, and a length within the one FreeSWITCH gave.\<close>

definition fills :: "fs_frame \<Rightarrow> sample list \<Rightarrow> u32 \<Rightarrow> sample list \<Rightarrow> fs_frame \<Rightarrow> bool" where
  "fills fr dst rate ys fr' \<longleftrightarrow>
     ys \<noteq> [] \<and> length ys \<le> frame_cap fr \<and> fr_data fr' = Some (ys @ drop (length ys) dst)
     \<and> unat (fr_samples fr') = length ys \<and> unat (fr_datalen fr') = 2 * length ys \<and> fr_rate fr' = rate"

lemma frame_cap_bound: "frame_cap fr < 2 ^ 31"
proof -
  have "unat (fr_datalen fr) < 2 ^ LENGTH(32)" by (rule unsigned_less)
  then show ?thesis by (simp add: frame_cap_def)
qed

lemma popped_rest:
  assumes "pending b' = drop (length (popped_audio cap b)) (pending b)"
  shows "pending b = popped_audio cap b @ pending b'"
proof -
  have "popped_audio cap b = take (length (popped_audio cap b)) (pending b)" by (simp add: popped_audio_def min_def)
  then show ?thesis using assms by (metis append_take_drop_id)
qed

lemma unat_u32: "k < 2 ^ 32 \<Longrightarrow> unat (word_of_nat k :: u32) = k"
  by (simp add: unsigned_of_nat take_bit_nat_eq_self)

lemma set_frame_fills:
  assumes "ys \<noteq> []" "length ys \<le> frame_cap fr"
  shows "fills fr dst rate ys (set_frame rate (length ys) (ys @ drop (length ys) dst) fr)"
proof -
  have "length ys < 2 ^ 32" "2 * length ys < 2 ^ 32" using assms(2) frame_cap_bound [of fr] by simp_all
  then have "unat (word_of_nat (length ys) :: u32) = length ys" "unat (word_of_nat (2 * length ys) :: u32) = 2 * length ys"
    by (simp_all only: unat_u32)
  then show ?thesis using assms by (simp add: fills_def set_frame_def mult.commute)
qed

lemma Pop_eos: "PlayoutPop now cap out b = (n, out', b') \<Longrightarrow> pb_eos b' = pb_eos b"
  by (auto simp: PlayoutPop_def Let_def capture_pop_def RecomputeDepth_def EmitUnderrunEvent_def DebugFlushDumpsLocked_def
      split: if_splits prod.splits option.splits)

lemma replace_same_plays:
  assumes "playout_inv b" "fr_data fr = Some dst" "0 < frame_cap fr" "frame_cap fr \<le> length dst"
    and "replace_same now rate b fr cx = (ret, res, cx')"
  obtains b' pad where "wcx_buffer cx' = Some b'" "playout_inv b'" "pb_eos b' = pb_eos b"
    "pending b = popped_audio (frame_cap fr) b @ pending b'" "ret \<longleftrightarrow> \<not> (pb_eos b \<and> pending b = [])"
    "if ret then \<exists>fr'. res = Some fr' \<and> fills fr dst rate (popped_audio (frame_cap fr) b @ pad) fr' \<and> padding_ok b' pad
                       \<and> length (popped_audio (frame_cap fr) b @ pad) = frame_cap fr
     else res = None"
proof -
  obtain n out b' where pop: "PlayoutPop now (frame_cap fr) dst b = (n, out, b')" by (metis prod_cases3)
  let ?a = "popped_audio (frame_cap fr) b"
  have ok: "pop_result_ok (frame_cap fr) dst b (n, out, b')" using pop_result [OF assms(1,3,4)] pop by metis
  then have n: "n = (if pb_eos b \<and> pending b = [] then 0 else frame_cap fr)" and b': "playout_inv b'"
    and rest: "pending b' = drop (length ?a) (pending b)"
    by (simp_all add: pop_result_ok_def)
  obtain pad where pad: "out = (if n = 0 then dst else ?a @ pad @ drop (frame_cap fr) dst)"
    "length ?a + length pad = n" "padding_ok b' pad"
    using ok by (auto simp: pop_result_ok_def)
  have eos: "pb_eos b' = pb_eos b" using Pop_eos [OF pop] .
  have "pending b = ?a @ pending b'" using popped_rest [OF rest] .
  moreover have "wcx_buffer cx' = Some b'" "ret \<longleftrightarrow> \<not> (pb_eos b \<and> pending b = [])"
    using assms(2,3,5) n eos pop by (auto simp: replace_same_def split: if_splits)
  moreover have "if ret then \<exists>fr'. res = Some fr' \<and> fills fr dst rate (?a @ pad) fr' \<and> padding_ok b' pad
                       \<and> length (?a @ pad) = frame_cap fr else res = None"
  proof (cases "pb_eos b \<and> pending b = []")
    case True
    then show ?thesis using assms(2,5) n eos pop by (auto simp: replace_same_def)
  next
    case False
    then have "n = frame_cap fr" using n by (simp only: if_False)
    moreover have "fills fr dst rate (?a @ pad) (set_frame rate (length (?a @ pad)) ((?a @ pad) @ drop (length (?a @ pad)) dst) fr)"
      using calculation pad(2) assms(3) by (intro set_frame_fills) auto
    ultimately show ?thesis using assms(2,3,5) pop pad by (auto simp: replace_same_def)
  qed
  ultimately show ?thesis using that b' eos by blast
qed

lemma replace_resampled_plays:
  assumes "playout_inv b" "fr_data fr = Some dst" "0 < needed"
    and "needed = unat (needed_at_stream_rate (fr_datalen fr div 2) rate stream_rate)" "wcx_buffer cx = Some b"
    and "replace_resampled fs created alloc now rate stream_rate b fr cx = (ret, res, cx')"
  obtains b' played where "wcx_buffer cx' = Some b'" "playout_inv b'" "pending b = played @ pending b'"
    "\<not> ret \<longrightarrow> pb_eos b \<and> pending b = [] \<and> res = None" "res = None \<or> (\<exists>ys fr'. res = Some fr' \<and> fills fr dst rate ys fr')"
proof -
  obtain ok cv where en: "EnsureResampler created stream_rate rate (wcx_conv cx) = (ok, cv)" by force
  show ?thesis
  proof (cases "ok \<and> alloc")
    case False
    then show ?thesis using that [of b "[]"] assms en by (cases ok) (auto simp: replace_resampled_def Let_def)
  next
    case True
    obtain n tmp b' where pop: "PlayoutPop now needed (replicate needed 0) b = (n, tmp, b')" by (metis prod_cases3)
    have pok: "pop_result_ok needed (replicate needed 0) b (n, tmp, b')"
      using pop_result [OF assms(1,3), of "replicate needed 0" now] pop by simp
    then have n: "n = (if pb_eos b \<and> pending b = [] then 0 else needed)" and b': "playout_inv b'"
      and "pending b' = drop (length (popped_audio needed b)) (pending b)"
      by (simp_all add: pop_result_ok_def)
    then have rest: "pending b = popped_audio needed b @ pending b'" using popped_rest by blast
    have eos: "pb_eos b' = pb_eos b" using Pop_eos [OF pop] .
    obtain ys cv' where conv: "conv_process fs (take n tmp) (frame_cap fr) cv = (ys, cv')" by force
    have fit: "length ys \<le> frame_cap fr" using conv_fits [OF conv] .
    have run: "replace_resampled fs created alloc now rate stream_rate b fr cx =
        (if n = 0 then (\<not> pb_eos b', None, cx\<lparr>wcx_conv := cv, wcx_buffer := Some b'\<rparr>)
         else if ys = [] then (True, None, cx\<lparr>wcx_conv := cv', wcx_buffer := Some b'\<rparr>)
         else (True, Some (set_frame rate (length ys) (ys @ drop (length ys) dst) fr),
               cx\<lparr>wcx_conv := cv', wcx_buffer := Some b', wcx_first_set_frame_logged := True\<rparr>))"
      using True en pop conv assms(2,4) by (simp add: replace_resampled_def write_at_def Let_def)
    have buf: "wcx_buffer cx' = Some b'" using run assms(6) by (auto split: if_splits)
    have "\<not> ret \<longrightarrow> pb_eos b \<and> pending b = [] \<and> res = None"
      using run assms(3,6) n eos by (auto split: if_splits)
    moreover have "res = None \<or> (\<exists>ys fr'. res = Some fr' \<and> fills fr dst rate ys fr')"
      using run assms(6) set_frame_fills [OF _ fit, of dst rate] by (auto split: if_splits)
    ultimately show ?thesis using that [OF buf b' rest] by blast
  qed
qed

lemma bot_samples_fit: "bot_samples fs created rate af fr cv = (ys, cv') \<Longrightarrow> length ys \<le> frame_cap fr"
  by (auto simp: bot_samples_def dest: conv_fits split: if_splits prod.splits bool.splits)

text \<open>
  What \<^verbatim>\<open>OswBotWriteReplace\<close> does with a frame of the service: it fills the frame FreeSWITCH gives, or leaves
  it as it is. At equal rates the frame holds the first samples, as many as fit.
\<close>

lemma bot_write_replaces:
  assumes "fr_data fr = Some dst" "PopWriteFrame (bc_channel_uuid cx) b = (Some af, b')" "\<not> bz_stopped b" "0 < frame_cap fr"
    and "OswBotWriteReplace fs created ABC_TYPE_WRITE_REPLACE (Some fr) cx b = (ret, res, cx', b'')"
  shows "ret" "b'' = b'" "res = None \<or> (\<exists>ys rate fr'. res = Some fr' \<and> fills fr dst rate ys fr')"
    and "frame_rate (bc_fs_rate_hz cx) fr = af_sample_rate_hz af \<Longrightarrow> sample_count af < 2 ^ 32 \<Longrightarrow> af_samples af \<noteq> [] \<Longrightarrow>
      \<exists>fr'. res = Some fr' \<and> fills fr dst (af_sample_rate_hz af) (take (frame_cap fr) (af_samples af)) fr'"
proof -
  let ?rate = "frame_rate (bc_fs_rate_hz cx) fr"
  obtain ys cv where ys: "bot_samples fs created ?rate af fr (bcx_conv cx) = (ys, cv)" by force
  let ?fr' = "set_frame (if ?rate \<noteq> 0 then ?rate else af_sample_rate_hz af) (length ys) (ys @ drop (length ys) dst) fr"
  have len: "fr_datalen fr \<noteq> 0" using assms(4) by (auto simp: frame_cap_def)
  have run: "OswBotWriteReplace fs created ABC_TYPE_WRITE_REPLACE (Some fr) cx b =
      (if ys = [] then (True, None, cx\<lparr>bcx_conv := cv\<rparr>, b')
       else (True, Some ?fr', cx\<lparr>bcx_conv := cv, bcx_first_set_frame_logged := True\<rparr>, b'))"
    using assms(1-3) len ys by (simp add: OswBotWriteReplace_def write_at_def Let_def)
  show "ret" "b'' = b'" using run assms(5) by (auto split: if_splits)
  show "res = None \<or> (\<exists>ys rate fr'. res = Some fr' \<and> fills fr dst rate ys fr')"
    using run assms(5) set_frame_fills [OF _ bot_samples_fit [OF ys]] by (auto split: if_splits)
  assume eq: "?rate = af_sample_rate_hz af" and small: "sample_count af < 2 ^ 32" and ne: "af_samples af \<noteq> []"
  have "ys = take (min (frame_cap fr) (sample_count af)) (af_samples af)"
    using ys eq to_u32_id [OF small] by (simp add: bot_samples_def)
  then have y: "ys = take (frame_cap fr) (af_samples af)" by (simp add: min_def)
  then have yne: "ys \<noteq> []" using ne assms(4) by simp
  have "(if ?rate \<noteq> 0 then ?rate else af_sample_rate_hz af) = af_sample_rate_hz af" using eq by simp
  then have "res = Some (set_frame (af_sample_rate_hz af) (length ys) (ys @ drop (length ys) dst) fr)"
    using run assms(5) yne by simp
  then show "\<exists>fr'. res = Some fr' \<and> fills fr dst (af_sample_rate_hz af) (take (frame_cap fr) (af_samples af)) fr'"
    using set_frame_fills [OF yne bot_samples_fit [OF ys], of dst "af_sample_rate_hz af"] unfolding y by blast
qed

text \<open>With no frame queued for its channel the bot leaves the call's own audio alone.\<close>

lemma silent_bot_passes_through:
  assumes "fst (PopWriteFrame (bc_channel_uuid cx) b) = None"
  shows "fst (snd (OswBotWriteReplace fs created t got cx b)) = None" "fst (snd (snd (OswBotWriteReplace fs created t got cx b))) = cx"
  using assms by (auto simp: OswBotWriteReplace_def split: prod.splits)

text \<open>
  A frame too short for one sample ends the playback although audio is waiting: \<^verbatim>\<open>Pop\<close> of no samples returns 0,
  which is taken for the end once the service has finished.
\<close>

lemma short_frame_ends_playback:
  assumes "wcx_buffer cx = Some b" "pb_eos b" "fr_data fr = Some dst" "frame_cap fr = 0"
    and "wcx_stream_rate_hz cx = frame_rate (wcx_fs_rate_hz cx) fr"
  shows "\<not> fst (OswStreamingWriteReplace fs created alloc now ABC_TYPE_WRITE_REPLACE (Some fr) (Some cx))"
  using assms by (simp add: OswStreamingWriteReplace_def replace_same_def PlayoutPop_def Let_def)

text \<open>The resampler of a context is kept when the rates change: it still converts between the old ones.\<close>

lemma rate_change_keeps_resampler:
  assumes "cv_resampler cv = Some r" "from_hz \<noteq> to_hz"
  shows "EnsureResampler created from_hz to_hz cv = (True, cv)"
  using assms by (simp add: EnsureResampler_def)

lemma write_replace_eq:
  assumes "wcx_buffer cx = Some b" "rate = frame_rate (wcx_fs_rate_hz cx) fr"
    "stream_rate = (if wcx_stream_rate_hz cx \<noteq> 0 then wcx_stream_rate_hz cx else rate)"
  shows "OswStreamingWriteReplace fs created alloc now ABC_TYPE_WRITE_REPLACE (Some fr) (Some cx) =
    apsnd (apsnd Some) (if rate \<noteq> stream_rate then replace_resampled fs created alloc now rate stream_rate b fr cx
                        else replace_same now rate b fr cx)"
  unfolding OswStreamingWriteReplace_def Let_def assms(2,3) using assms(1) by simp

section \<open>Properties\<close>



section \<open>Examples\<close>

definition demo_fs_frame :: fs_frame where
  "demo_fs_frame = \<lparr>fr_data = Some [9, 9, 9, 9, 9], fr_datalen = 8, fr_samples = 4, fr_rate = 8000, fr_channels = 1\<rparr>"

definition demo_write_ctx :: write_callback_ctx where
  "demo_write_ctx = \<lparr>wcx_buffer = Some demo_playout, wcx_stream_id = ''s'', wcx_stream_rate_hz = 8000, wcx_fs_rate_hz = 8000,
     wcx_conv = no_conv, wcx_first_set_frame_logged = False\<rparr>"

definition demo_fs_resampler :: fs_resampler where
  "demo_fs_resampler from_hz to_hz past xs = xs"


definition demo_tap_ctx :: "string \<Rightarrow> bot_callback_ctx" where
  "demo_tap_ctx u = \<lparr>bc_addr = 0, bc_channel_uuid = u, bc_stream_rate_hz = 8000, bc_fs_rate_hz = 8000, bcx_conv = no_conv,
     bcx_first_set_frame_logged = False\<rparr>"

definition demo_tap_events :: "(nat \<times> tap_event) list" where
  "demo_tap_events = [(0, True, ABC_TYPE_READ, Some demo_fs_frame), (1, True, ABC_TYPE_READ_PING, Some demo_fs_frame),
     (0, True, ABC_TYPE_CLOSE, None)]"

definition demo_open_bot :: bot_session where
  "demo_open_bot = demo_listener\<lparr>bz_client := Some (StreamClient_new (bot_stream_config (bz_cfg demo_listener)))\<rparr>"


end
