(* ===== verification/Media_Relay.thy ===== *)
theory Media_Relay
  imports Media_Stereo Media_StreamFlow Media_Callbacks
begin

text \<open>
  The recording relay, \<^verbatim>\<open>src/media/recording_relay.cc\<close>: it pairs the audio of both directions of a call into
  stereo frames, or takes the write side alone, and sends them on a stream. The clock of the pairer and of
  the audit rate limit are arguments, in nanoseconds; a last emission at 0 means none yet. The pairer is
  left before its frame is sent, so pairing and sending are separate operations.
\<close>

section \<open>The relay\<close>

record relay_config =
  rl_channel_uuid :: string
  rl_tenant_id :: string
  rl_stream_id :: string
  rl_stereo :: bool
  rl_sample_rate_hz :: u32
  rl_read_fs_rate_hz :: u32
  rl_write_fs_rate_hz :: u32
  rl_desync_warn_ms :: u32
  rl_desync_timeout_ms :: u32

record relay =
  re_client :: "stream_client option"
  re_cfg :: relay_config
  re_pairer :: pairer
  re_stopped :: bool
  re_tick_thread :: bool
  re_stopped_emitted :: bool
  re_desync_active :: bool
  re_read_conv :: rate_conv
  re_write_conv :: rate_conv
  re_last_overflow :: nat
  re_last_desync :: nat
  re_audits :: "(nat \<times> string \<times> (string \<times> string) list) list"

definition pairer_config_of :: "relay_config \<Rightarrow> pairer_config" where
  "pairer_config_of cfg = \<lparr>sc_sample_rate_hz = rl_sample_rate_hz cfg, sc_desync_warn_ms = rl_desync_warn_ms cfg,
     sc_desync_timeout_ms = rl_desync_timeout_ms cfg\<rparr>"

definition RecordingRelay_new :: "stream_client option \<Rightarrow> relay_config \<Rightarrow> relay" where
  "RecordingRelay_new client cfg =
     \<lparr>re_client = client, re_cfg = cfg,
      re_pairer = StereoFramePairer_new (pairer_config_of cfg),
      re_stopped = False, re_tick_thread = False, re_stopped_emitted = False, re_desync_active = False,
      re_read_conv = no_conv, re_write_conv = no_conv, re_last_overflow = 0, re_last_desync = 0, re_audits = []\<rparr>"

text \<open>\<open>thread_ok\<close>: the tick thread could be created. Only the stereo relay has one.\<close>

definition Relay_Start :: "bool \<Rightarrow> relay \<Rightarrow> relay" where
  "Relay_Start thread_ok r =
     (if \<not> rl_stereo (re_cfg r) then r\<lparr>re_stopped := False\<rparr>
      else if re_tick_thread r then r
      else if thread_ok then r\<lparr>re_stopped := False, re_tick_thread := True\<rparr>
      else r\<lparr>re_stopped := True\<rparr>)"

definition Relay_Stop :: "relay \<Rightarrow> relay" where
  "Relay_Stop r = r\<lparr>re_stopped := True, re_tick_thread := False\<rparr>"

definition relay_fields :: "relay_config \<Rightarrow> (string \<times> string) list" where
  "relay_fields cfg = [(''channel_uuid'', rl_channel_uuid cfg), (''stream_id'', rl_stream_id cfg), (''tenant_id'', rl_tenant_id cfg)]"

definition EmitStopped :: "nat \<Rightarrow> relay \<Rightarrow> relay" where
  "EmitStopped now r =
     (if re_stopped_emitted r then r
      else r\<lparr>re_stopped_emitted := True,
             re_audits := re_audits r @ [(now, ''osw.recording.relay_stopped'', relay_fields (re_cfg r))]\<rparr>)"

definition kAuditRateLimit :: nat where
  "kAuditRateLimit = 60000000000"

definition limited_now :: "nat \<Rightarrow> nat \<Rightarrow> bool" where
  "limited_now now last_emit \<longleftrightarrow> last_emit \<noteq> 0 \<and> now < last_emit + kAuditRateLimit"

text \<open>\<^verbatim>\<open>EmitRateLimited\<close> for the two events that use it, each with its own time of the last emission.\<close>

definition emit_overflow :: "nat \<Rightarrow> relay \<Rightarrow> relay" where
  "emit_overflow now r =
     (if limited_now now (re_last_overflow r) then r
      else r\<lparr>re_last_overflow := now,
             re_audits := re_audits r @ [(now, ''osw.recording.send_overflow'', relay_fields (re_cfg r))]\<rparr>)"

definition emit_desync :: "nat \<Rightarrow> relay \<Rightarrow> relay" where
  "emit_desync now r =
     (if limited_now now (re_last_desync r) then r
      else r\<lparr>re_last_desync := now,
             re_audits := re_audits r @ [(now, ''osw.recording.lr_desync'', relay_fields (re_cfg r))]\<rparr>)"

text \<open>\<^verbatim>\<open>ResampleIfNeeded\<close>: the result and the contents of \<^verbatim>\<open>out\<close>, empty when the rates agree.\<close>

definition ResampleIfNeeded ::
  "fs_resampler \<Rightarrow> bool \<Rightarrow> bool \<Rightarrow> u32 \<Rightarrow> sample list \<Rightarrow> relay \<Rightarrow> bool \<times> sample list \<times> relay" where
  "ResampleIfNeeded fs created left from_hz xs r =
     (if xs = [] \<or> from_hz = 0 then (False, [], r)
      else if from_hz = rl_sample_rate_hz (re_cfg r) then (True, [], r)
      else let cv = (if left then re_read_conv r else re_write_conv r);
               put = (\<lambda>cv. if left then r\<lparr>re_read_conv := cv\<rparr> else r\<lparr>re_write_conv := cv\<rparr>)
           in case EnsureResampler created from_hz (rl_sample_rate_hz (re_cfg r)) cv of
                (False, cv1) \<Rightarrow> (False, [], put cv1)
              | (True, cv1) \<Rightarrow>
                  (case conv_process fs xs (unat (ResampledCapacity (word_of_nat (length xs)) from_hz (rl_sample_rate_hz (re_cfg r)))) cv1 of
                     (ys, cv2) \<Rightarrow> (ys \<noteq> [], ys, put cv2)))"

section \<open>Sending\<close>

definition ReadInt16Le :: "u8 list \<Rightarrow> nat \<Rightarrow> sample" where
  "ReadInt16Le bytes sample_index =
     ucast (bytes ! (sample_index * 2)) OR push_bit 8 (ucast (bytes ! (sample_index * 2 + 1)))"

text \<open>The three calls on the client; a frame refused or one that evicts another is reported.\<close>

definition relay_send :: "nat \<Rightarrow> sample list \<Rightarrow> u32 \<Rightarrow> u32 \<Rightarrow> u32 \<Rightarrow> stream_client \<Rightarrow> relay \<Rightarrow> relay" where
  "relay_send now samples ts_samples channels proto_channel client r =
     (let (seq, c1) = NextSeq client;
          (ts, c2) = AdvanceTimestamp ts_samples c1;
          (sent, c3) = SendAudio \<lparr>af_samples = samples, af_sample_rate_hz = rl_sample_rate_hz (re_cfg r), af_channels = channels,
                                 af_channel = proto_channel, af_channel_uuid = [], af_seq = seq, af_timestamp_samples = ts\<rparr> c2;
          r1 = r\<lparr>re_client := Some c3\<rparr>
      in if sent then r1 else emit_overflow now r1)"

definition kBothInterleavedChannel :: u32 where
  "kBothInterleavedChannel = 3"

definition FlushPairedFrame :: "nat \<Rightarrow> paired_frame \<Rightarrow> relay \<Rightarrow> relay" where
  "FlushPairedFrame now paired r =
     (case re_client r of
        None \<Rightarrow> r
      | Some client \<Rightarrow>
          if pr_samples_per_channel paired = 0 \<or> pr_interleaved paired = [] then r
          else if rl_stereo (re_cfg r) then
            relay_send now (map (ReadInt16Le (pr_interleaved paired)) [0..<to_u32 (pr_samples_per_channel paired * 2)])
              (word_of_nat (pr_samples_per_channel paired)) 2 kBothInterleavedChannel client r
          else r)"

definition FlushMonoFrame :: "fs_resampler \<Rightarrow> bool \<Rightarrow> nat \<Rightarrow> u32 \<Rightarrow> sample list \<Rightarrow> relay \<Rightarrow> relay" where
  "FlushMonoFrame fs created now sample_rate_hz samples r =
     (case re_client r of
        None \<Rightarrow> r
      | Some client \<Rightarrow>
          if re_stopped r \<or> samples = [] then r
          else let source_rate = (if sample_rate_hz \<noteq> 0 then sample_rate_hz else rl_write_fs_rate_hz (re_cfg r))
               in case ResampleIfNeeded fs created False source_rate samples r of
                    (False, _, r1) \<Rightarrow> r1
                  | (True, out, r1) \<Rightarrow>
                      (let owned = (if out = [] then samples else out)
                       in relay_send now owned (word_of_nat (length owned)) 1 0 client r1))"

section \<open>Pairing\<close>

text \<open>What happens to the desync episode after a call of the pairer that emitted \<open>paired\<close>.\<close>

definition note_desync :: "nat \<Rightarrow> u64 \<Rightarrow> paired_frame option \<Rightarrow> relay \<Rightarrow> relay" where
  "note_desync now before_desync paired r =
     (if before_desync < sp_desync_count (re_pairer r)
      then (if re_desync_active r then r else emit_desync now (r\<lparr>re_desync_active := True\<rparr>))
      else if paired \<noteq> None then r\<lparr>re_desync_active := False\<rparr> else r)"

definition relay_pair :: "nat \<Rightarrow> pairer_op \<Rightarrow> relay \<Rightarrow> paired_frame option \<times> relay" where
  "relay_pair now op r =
     (case pairer_step op (re_pairer r) of (paired, p) \<Rightarrow>
        (paired, note_desync now (sp_desync_count (re_pairer r)) paired (r\<lparr>re_pairer := p\<rparr>)))"

definition flush_opt :: "nat \<Rightarrow> paired_frame option \<times> relay \<Rightarrow> relay" where
  "flush_opt now s = (case s of (None, r) \<Rightarrow> r | (Some paired, r) \<Rightarrow> FlushPairedFrame now paired r)"

text \<open>
  \<^verbatim>\<open>PushSide\<close>. \<open>now\<close> is the time of the audits, \<open>arrived\<close> and \<open>expiry\<close> are the two readings of the clock in the
  pairer.
\<close>

definition PushSide :: "fs_resampler \<Rightarrow> bool \<Rightarrow> nat \<Rightarrow> nat \<Rightarrow> nat \<Rightarrow> side \<Rightarrow> u64 \<Rightarrow> u32 \<Rightarrow> sample list \<Rightarrow> relay \<Rightarrow> relay" where
  "PushSide fs created arrived expiry now side fs_timestamp_samples sample_rate_hz samples r =
     (if re_stopped r \<or> re_client r = None \<or> samples = [] then r
      else let source_rate = (if sample_rate_hz \<noteq> 0 then sample_rate_hz
                              else if side = kLeft then rl_read_fs_rate_hz (re_cfg r) else rl_write_fs_rate_hz (re_cfg r))
           in case ResampleIfNeeded fs created (side = kLeft) source_rate samples r of
                (False, _, r1) \<Rightarrow> r1
              | (True, converted, r1) \<Rightarrow>
                  flush_opt now (relay_pair now (Push side arrived expiry fs_timestamp_samples
                                                   (if converted = [] then samples else converted)) r1))"

definition PushReadFrame :: "fs_resampler \<Rightarrow> bool \<Rightarrow> nat \<Rightarrow> nat \<Rightarrow> nat \<Rightarrow> u64 \<Rightarrow> u32 \<Rightarrow> sample list \<Rightarrow> relay \<Rightarrow> relay" where
  "PushReadFrame fs created arrived expiry now ts rate samples r =
     (if \<not> rl_stereo (re_cfg r) then r else PushSide fs created arrived expiry now kLeft ts rate samples r)"

definition PushWriteFrame :: "fs_resampler \<Rightarrow> bool \<Rightarrow> nat \<Rightarrow> nat \<Rightarrow> nat \<Rightarrow> u64 \<Rightarrow> u32 \<Rightarrow> sample list \<Rightarrow> relay \<Rightarrow> relay" where
  "PushWriteFrame fs created arrived expiry now ts rate samples r =
     (if \<not> rl_stereo (re_cfg r) then FlushMonoFrame fs created now rate samples r
      else PushSide fs created arrived expiry now kRight ts rate samples r)"

text \<open>One round of \<^verbatim>\<open>TickLoop\<close> after its sleep; the loop ends when the relay is stopped.\<close>

definition TickLoop_round :: "nat \<Rightarrow> nat \<Rightarrow> relay \<Rightarrow> relay" where
  "TickLoop_round expiry now r = (if re_stopped r then r else flush_opt now (relay_pair now (Timer expiry) r))"

section \<open>The taps\<close>

text \<open>The samples of the first channel: every \<^verbatim>\<open>channels\<close>-th from the start.\<close>

definition MonoSamplesFromFrame :: "fs_frame \<Rightarrow> sample list \<Rightarrow> sample list" where
  "MonoSamplesFromFrame fr data =
     (let total = frame_cap fr; channels = unat (frame_channels fr)
      in if channels \<le> 1 then take total data
         else map (\<lambda>k. data ! (k * channels)) [0..<(total + channels - 1) div channels])"

definition relay_frame :: "fs_frame option \<Rightarrow> (u32 \<times> sample list) option" where
  "relay_frame got =
     (case got of
        None \<Rightarrow> None
      | Some fr \<Rightarrow> if fr_datalen fr = 0 then None
                   else map_option (\<lambda>data. (fr_rate fr, MonoSamplesFromFrame fr data)) (fr_data fr))"

definition OswRecordingReadTap ::
  "fs_resampler \<Rightarrow> bool \<Rightarrow> nat \<Rightarrow> nat \<Rightarrow> nat \<Rightarrow> u64 \<Rightarrow> callback_type \<Rightarrow> fs_frame option \<Rightarrow> relay option \<Rightarrow> bool \<times> relay option" where
  "OswRecordingReadTap fs created arrived expiry now ts t got relay =
     (True,
      case (relay, relay_frame got) of
        (Some r, Some (rate, samples)) \<Rightarrow>
          Some (if t \<noteq> ABC_TYPE_READ \<or> re_stopped r then r else PushReadFrame fs created arrived expiry now ts rate samples r)
      | _ \<Rightarrow> relay)"

definition OswRecordingWriteTap ::
  "fs_resampler \<Rightarrow> bool \<Rightarrow> nat \<Rightarrow> nat \<Rightarrow> nat \<Rightarrow> u64 \<Rightarrow> callback_type \<Rightarrow> fs_frame option \<Rightarrow> relay option \<Rightarrow> bool \<times> relay option" where
  "OswRecordingWriteTap fs created arrived expiry now ts t got relay =
     (True,
      case (relay, relay_frame got) of
        (Some r, Some (rate, samples)) \<Rightarrow>
          Some (if t \<noteq> ABC_TYPE_WRITE \<or> re_stopped r then r else PushWriteFrame fs created arrived expiry now ts rate samples r)
      | _ \<Rightarrow> relay)"

section \<open>Frames sent by the relay\<close>

lemma emit_frame [simp]:
  "re_client (emit_overflow now r) = re_client r" "re_cfg (emit_overflow now r) = re_cfg r"
  "re_pairer (emit_overflow now r) = re_pairer r" "re_stopped (emit_overflow now r) = re_stopped r"
  "re_client (emit_desync now r) = re_client r" "re_cfg (emit_desync now r) = re_cfg r"
  "re_pairer (emit_desync now r) = re_pairer r" "re_stopped (emit_desync now r) = re_stopped r"
  by (simp_all add: emit_overflow_def emit_desync_def)

lemma note_frame [simp]:
  "re_client (note_desync now d paired r) = re_client r" "re_cfg (note_desync now d paired r) = re_cfg r"
  "re_pairer (note_desync now d paired r) = re_pairer r" "re_stopped (note_desync now d paired r) = re_stopped r"
  by (simp_all add: note_desync_def)

lemma relay_send_frame [simp]:
  "re_cfg (relay_send now xs n ch pc c r) = re_cfg r" "re_pairer (relay_send now xs n ch pc c r) = re_pairer r"
  "re_stopped (relay_send now xs n ch pc c r) = re_stopped r"
  by (simp_all add: relay_send_def Let_def split: prod.split)

lemma relay_send_sends:
  assumes "\<not> sc_ring_closed c" "samples \<noteq> []" "0 < channels"
    and "ts_samples = word_of_nat (length samples div unat channels)"
  obtains f c' where "re_client (relay_send now samples ts_samples channels pc c r) = Some c'" "sends [f] c c'"
    "af_samples f = samples" "af_channels f = channels" "af_channel f = pc"
proof -
  let ?f = "\<lparr>af_samples = samples, af_sample_rate_hz = rl_sample_rate_hz (re_cfg r), af_channels = channels, af_channel = pc,
             af_channel_uuid = [], af_seq = sc_seq_counter c, af_timestamp_samples = sc_ts_counter c\<rparr>"
  let ?c' = "snd (SendAudio ?f (snd (AdvanceTimestamp
      (word_of_nat (sample_count ?f div unat (af_channels ?f))) (snd (NextSeq c)))))"
  have "re_client (relay_send now samples ts_samples channels pc c r) = Some ?c'"
    using assms(4) by (simp add: relay_send_def Let_def NextSeq_def AdvanceTimestamp_def split: prod.split)
  then show ?thesis using that [of ?c' ?f] sends_one [of c ?f] assms by simp
qed

lemma bytes_nth:
  "i < length xs \<Longrightarrow> bytes_of_samples xs ! (2 * i) = ucast (xs ! i)
     \<and> bytes_of_samples xs ! Suc (2 * i) = ucast (drop_bit 8 (xs ! i))"
proof (induction xs arbitrary: i)
  case (Cons x xs)
  then show ?case by (cases i) simp_all
qed simp

lemma ReadInt16Le_bytes: "map (ReadInt16Le (bytes_of_samples xs)) [0..<length xs] = xs"
proof (rule nth_equalityI)
  fix i assume "i < length (map (ReadInt16Le (bytes_of_samples xs)) [0..<length xs])"
  then have "i < length xs" by simp
  then show "map (ReadInt16Le (bytes_of_samples xs)) [0..<length xs] ! i = xs ! i"
    using bytes_nth [of i xs] samples_of_bytes_of_samples [of "[xs ! i]"] by (simp add: ReadInt16Le_def mult.commute)
qed simp

text \<open>What the pairer emits is the wire form of an interleaving.\<close>

definition stereo_frame :: "sample list \<Rightarrow> paired_frame \<Rightarrow> bool" where
  "stereo_frame xs out \<longleftrightarrow> pr_interleaved out = bytes_of_samples xs \<and> pr_samples_per_channel out = to_u32 (length xs div 2)
     \<and> even (length xs)"

lemma length_stereo_samples [simp]: "length (stereo_samples l r) = 2 * max (length l) (length r)"
  by (simp add: stereo_samples_def length_concat comp_def sum_list_triv)

lemma make_shape: "\<exists>xs. stereo_frame xs (fst (MakePairedFrameLocked l r p))"
  by (rule exI [of _ "stereo_samples l r"])
    (simp add: stereo_frame_def MakePairedFrameLocked_def Let_def interleave_loop_eq, simp add: stereo_samples_def)

lemma silence_shape: "\<exists>xs. stereo_frame xs (fst (EmitSilenceFillLocked s p))"
  using make_shape by (auto simp: EmitSilenceFillLocked_def split: side.split prod.split)

lemma try_emit_shape: "TryEmitLocked now p = (Some out, p') \<Longrightarrow> \<exists>xs. stereo_frame xs out"
  using make_shape silence_shape
  by (auto simp: TryEmitLocked_def TryEmitExpiredLocked_def Let_def apfst_def map_prod_def split: if_splits prod.splits) (metis fst_conv)+

lemma emitted_shape: "pairer_step op p = (Some out, p') \<Longrightarrow> \<exists>xs. stereo_frame xs out"
  by (cases "(op, p)" rule: pairer_step.cases) (auto simp: PushLeft_def PushRight_def Tick_def split: prod.splits dest: try_emit_shape)

lemma flush_paired_sends:
  assumes "re_client r = Some c" "\<not> sc_ring_closed c" "rl_stereo (re_cfg r)" "stereo_frame xs paired" "xs \<noteq> []" "length xs < 2 ^ 32"
  obtains f c' where "re_client (FlushPairedFrame now paired r) = Some c'" "sends [f] c c'"
    "af_samples f = xs" "af_channels f = 2" "af_channel f = kBothInterleavedChannel"
proof -
  have spc: "pr_samples_per_channel paired = length xs div 2" and b: "pr_interleaved paired = bytes_of_samples xs"
    and ev: "even (length xs)"
    using assms(4,6) by (auto simp: stereo_frame_def)
  have n: "to_u32 (length xs div 2 * 2) = length xs" using ev assms(6) by simp
  have pos: "0 < length xs div 2" using assms(5) ev by (cases xs) auto
  have ne: "bytes_of_samples xs \<noteq> []" using assms(5) by (cases xs) auto
  have "FlushPairedFrame now paired r = relay_send now xs (word_of_nat (length xs div 2)) 2 kBothInterleavedChannel c r"
    using assms(1,3) spc b pos ne n by (simp add: FlushPairedFrame_def ReadInt16Le_bytes)
  then show ?thesis
    using relay_send_sends [OF assms(2,5), of 2 "word_of_nat (length xs div 2)" now kBothInterleavedChannel r] that by auto
qed

lemma FlushPaired_frame [simp]:
  "re_cfg (FlushPairedFrame now paired r) = re_cfg r" "re_pairer (FlushPairedFrame now paired r) = re_pairer r"
  "re_stopped (FlushPairedFrame now paired r) = re_stopped r"
  by (simp_all add: FlushPairedFrame_def split: option.split)

text \<open>Frames of a call: some samples, and not so many that their number in both channels exceeds 32 bits.\<close>

definition good_frame :: "pending_frame \<Rightarrow> bool" where
  "good_frame f \<longleftrightarrow> pn_samples f \<noteq> [] \<and> length (pn_samples f) < 2 ^ 31"

lemma emitted_good:
  assumes inv: "pairer_inv cfg pu outs p" "\<forall>s. \<forall>f\<in>set (pu s). good_frame f"
    and step: "pairer_step op p = (Some out, p')" "\<forall>s. \<forall>f\<in>set (pushed_by s op). good_frame f"
  obtains xs where "stereo_frame xs out" "xs \<noteq> []" "length xs < 2 ^ 32" "samples_of_bytes (pr_interleaved out) = xs"
proof -
  have i: "pairer_inv cfg (\<lambda>s. pu s @ pushed_by s op) (outs @ [out]) p'" using inv_step [OF inv(1) step(1)] by simp
  then have "list_all2 (renders cfg) (sp_log p') (outs @ [out])" "list_all (pair_ok cfg) (sp_log p')"
    and sub: "\<And>s. subseq (held s p') (pu s @ pushed_by s op)"
    by (simp_all add: pairer_inv_def emitted_ok_def)
  then obtain log l r where log: "sp_log p' = log @ [(l, r)]" "renders cfg (l, r) out" "pair_ok cfg (l, r)"
    by (auto simp: list_all2_append2 list_all2_Cons2)
  have good: "good_frame f" if "f \<in> set (held s p')" for f s
    by (rule list_emb_set [OF sub that]) (use inv(2) step(2) in auto)
  have l: "good_frame f" if "l = Some f" for f
    using that good [of f kLeft] log(1) by (simp add: held_def taken_def)
  have r: "good_frame f" if "r = Some f" for f
    using that good [of f kRight] log(1) by (simp add: held_def taken_def)
  have "0 < max (length (opt_samples l)) (length (opt_samples r)) \<and> max (length (opt_samples l)) (length (opt_samples r)) < 2 ^ 31"
    using log(3) by (cases l; cases r) (use l r in \<open>simp_all add: good_frame_def opt_samples_def less_max_iff_disj\<close>)
  then have "length (stereo_samples (opt_samples l) (opt_samples r)) < 2 ^ 32"
    "0 < length (stereo_samples (opt_samples l) (opt_samples r))"
    unfolding length_stereo_samples by simp_all
  moreover obtain xs where xs: "stereo_frame xs out" using emitted_shape [OF step(1)] by blast
  moreover have "samples_of_bytes (pr_interleaved out) = xs" using xs by (simp add: stereo_frame_def)
  moreover have "samples_of_bytes (pr_interleaved out) = stereo_samples (opt_samples l) (opt_samples r)" using log(2) by simp
  ultimately show ?thesis using that by (metis length_greater_0_conv)
qed

section \<open>Runs of the relay\<close>

datatype relay_op =
    Read_frame nat nat nat u64 u32 "sample list"
  | Write_frame nat nat nat u64 u32 "sample list"
  | Tick_round nat nat

fun relay_step :: "fs_resampler \<Rightarrow> relay_op \<Rightarrow> relay \<Rightarrow> relay" where
  "relay_step fs (Read_frame arrived expiry now ts rate xs) r = PushReadFrame fs True arrived expiry now ts rate xs r"
| "relay_step fs (Write_frame arrived expiry now ts rate xs) r = PushWriteFrame fs True arrived expiry now ts rate xs r"
| "relay_step fs (Tick_round expiry now) r = TickLoop_round expiry now r"

fun pairer_op_of :: "relay_op \<Rightarrow> pairer_op" where
  "pairer_op_of (Read_frame arrived expiry now ts rate xs) = Push kLeft arrived expiry ts xs"
| "pairer_op_of (Write_frame arrived expiry now ts rate xs) = Push kRight arrived expiry ts xs"
| "pairer_op_of (Tick_round expiry now) = Timer expiry"

text \<open>A call with audio at the rate of the stream.\<close>

fun usable_op :: "u32 \<Rightarrow> relay_op \<Rightarrow> bool" where
  "usable_op hz (Read_frame arrived expiry now ts rate xs) \<longleftrightarrow> rate = hz \<and> xs \<noteq> [] \<and> length xs < 2 ^ 31"
| "usable_op hz (Write_frame arrived expiry now ts rate xs) \<longleftrightarrow> rate = hz \<and> xs \<noteq> [] \<and> length xs < 2 ^ 31"
| "usable_op hz (Tick_round expiry now) \<longleftrightarrow> True"

fun op_time :: "relay_op \<Rightarrow> nat" where
  "op_time (Read_frame arrived expiry now ts rate xs) = now"
| "op_time (Write_frame arrived expiry now ts rate xs) = now"
| "op_time (Tick_round expiry now) = now"

lemma relay_step_eq:
  assumes "rl_stereo (re_cfg r)" "\<not> re_stopped r" "re_client r \<noteq> None" "rl_sample_rate_hz (re_cfg r) \<noteq> 0"
    and "usable_op (rl_sample_rate_hz (re_cfg r)) op"
  shows "relay_step fs op r = flush_opt (op_time op) (relay_pair (op_time op) (pairer_op_of op) r)"
  using assms
  by (cases op) (auto simp: PushReadFrame_def PushWriteFrame_def PushSide_def ResampleIfNeeded_def TickLoop_round_def Let_def)

lemma usable_pushed: "usable_op hz op \<Longrightarrow> \<forall>s. \<forall>f\<in>set (pushed_by s (pairer_op_of op)). good_frame f"
  by (cases op) (simp_all add: good_frame_def)

text \<open>What was sent for what the pairer emitted.\<close>

definition sends_pairs :: "paired_frame list \<Rightarrow> stream_client \<Rightarrow> stream_client \<Rightarrow> bool" where
  "sends_pairs outs c c' \<longleftrightarrow> (\<exists>frames. sends frames c c' \<and> map af_samples frames = map (\<lambda>out. samples_of_bytes (pr_interleaved out)) outs
     \<and> (\<forall>f\<in>set frames. af_channels f = 2 \<and> af_channel f = kBothInterleavedChannel))"

lemma sends_pairs_trans: "sends_pairs a c c' \<Longrightarrow> sends_pairs b c' c'' \<Longrightarrow> sends_pairs (a @ b) c c''"
proof -
  assume "sends_pairs a c c'" "sends_pairs b c' c''"
  then obtain fs gs where f: "sends fs c c'" "map af_samples fs = map (\<lambda>out. samples_of_bytes (pr_interleaved out)) a"
      "\<forall>f\<in>set fs. af_channels f = 2 \<and> af_channel f = kBothInterleavedChannel"
    and g: "sends gs c' c''" "map af_samples gs = map (\<lambda>out. samples_of_bytes (pr_interleaved out)) b"
      "\<forall>f\<in>set gs. af_channels f = 2 \<and> af_channel f = kBothInterleavedChannel"
    unfolding sends_pairs_def by blast
  then show ?thesis unfolding sends_pairs_def by (intro exI [of _ "fs @ gs"] conjI sends_trans [OF f(1) g(1)]) auto
qed

lemma relay_step_sends:
  assumes st: "rl_stereo (re_cfg r)" "\<not> re_stopped r" "re_client r = Some c" "\<not> sc_ring_closed c" "rl_sample_rate_hz (re_cfg r) \<noteq> 0"
    and inv: "pairer_inv cfg pu outs (re_pairer r)" "\<forall>s. \<forall>f\<in>set (pu s). good_frame f"
    and op: "usable_op (rl_sample_rate_hz (re_cfg r)) op" "pairer_step (pairer_op_of op) (re_pairer r) = (out, p')"
  obtains c' where "re_client (relay_step fs op r) = Some c'" "sends_pairs (opt_list out) c c'" "\<not> sc_ring_closed c'"
    "re_cfg (relay_step fs op r) = re_cfg r" "re_pairer (relay_step fs op r) = p'" "\<not> re_stopped (relay_step fs op r)"
proof -
  let ?r = "note_desync (op_time op) (sp_desync_count (re_pairer r)) out (r\<lparr>re_pairer := p'\<rparr>)"
  have run: "relay_step fs op r = flush_opt (op_time op) (out, ?r)"
    using relay_step_eq [OF st(1,2) _ st(5) op(1)] st(3) op(2) by (simp add: relay_pair_def)
  show ?thesis
  proof (cases out)
    case None
    then show ?thesis using that [of c] st run by (simp add: flush_opt_def sends_pairs_def exI [of _ "[]"])
  next
    case (Some paired)
    obtain xs where xs: "stereo_frame xs paired" "xs \<noteq> []" "length xs < 2 ^ 32" "samples_of_bytes (pr_interleaved paired) = xs"
      using emitted_good [OF inv op(2) [unfolded Some] usable_pushed [OF op(1)]] by blast
    obtain f c' where f: "re_client (FlushPairedFrame (op_time op) paired ?r) = Some c'" "sends [f] c c'"
      "af_samples f = xs" "af_channels f = 2" "af_channel f = kBothInterleavedChannel"
      by (rule flush_paired_sends [of ?r c xs paired "op_time op"]) (use st xs in simp_all)
    then have "sends_pairs (opt_list out) c c'" unfolding sends_pairs_def using Some xs(4) by (intro exI [of _ "[f]"]) simp
    moreover have "\<not> sc_ring_closed c'" using f(2) st(4) by (simp add: sends_def)
    ultimately show ?thesis using that [of c'] f(1) st run Some by (simp add: flush_opt_def)
  qed
qed

lemma relay_run_sends:
  assumes "rl_stereo (re_cfg r)" "\<not> re_stopped r" "re_client r = Some c" "\<not> sc_ring_closed c" "rl_sample_rate_hz (re_cfg r) \<noteq> 0"
    and "pairer_inv cfg pu outs (re_pairer r)" "\<forall>s. \<forall>f\<in>set (pu s). good_frame f"
    and "list_all (usable_op (rl_sample_rate_hz (re_cfg r))) ops" "pairer_run (map pairer_op_of ops) (re_pairer r) = (outs', p')"
  shows "\<exists>c'. re_client (fold (relay_step fs) ops r) = Some c' \<and> sends_pairs outs' c c' \<and> re_pairer (fold (relay_step fs) ops r) = p'"
  using assms
proof (induction ops arbitrary: r c pu outs outs')
  case Nil
  then show ?case by (auto simp: sends_pairs_def intro: exI [of _ "[]"])
next
  case (Cons op ops)
  obtain out p1 where 1: "pairer_step (pairer_op_of op) (re_pairer r) = (out, p1)" by (rule prod.exhaust)
  obtain outs2 p2 where 2: "pairer_run (map pairer_op_of ops) p1 = (outs2, p2)" by (rule prod.exhaust)
  have split: "outs' = opt_list out @ outs2" "p' = p2" using Cons.prems(9) 1 2 by simp_all
  have u: "usable_op (rl_sample_rate_hz (re_cfg r)) op" using Cons.prems(8) by simp
  obtain c1 where c1: "re_client (relay_step fs op r) = Some c1" "sends_pairs (opt_list out) c c1" "\<not> sc_ring_closed c1"
    "re_cfg (relay_step fs op r) = re_cfg r" "re_pairer (relay_step fs op r) = p1" "\<not> re_stopped (relay_step fs op r)"
    by (rule relay_step_sends [OF Cons.prems(1-7) u 1])
  have g: "\<forall>s. \<forall>f\<in>set (pu s @ pushed_by s (pairer_op_of op)). good_frame f"
    using Cons.prems(7) usable_pushed [OF u] by auto
  note ih = Cons.IH [of "relay_step fs op r" c1 "\<lambda>s. pu s @ pushed_by s (pairer_op_of op)" "outs @ opt_list out" outs2,
      unfolded c1(4,5), OF Cons.prems(1) c1(6,1,3) Cons.prems(5) inv_step [OF Cons.prems(6) 1] g]
  have "list_all (usable_op (rl_sample_rate_hz (re_cfg r))) ops" using Cons.prems(8) by simp
  from ih [OF this 2 [folded split(2)]] show ?case using sends_pairs_trans [OF c1(2)] split(1) by auto
qed

text \<open>
  The tap threads and the tick thread leave the pairer before they send. Two of them that paired \<open>a\<close> and
  then \<open>b\<close> can send in the other order, and the recording then has the later audio first with the lower
  number.
\<close>

lemma concurrent_flush_swaps:
  assumes "re_client r = Some c" "\<not> sc_ring_closed c" "rl_stereo (re_cfg r)"
    and "stereo_frame xs a" "xs \<noteq> []" "length xs < 2 ^ 32" "stereo_frame ys b" "ys \<noteq> []" "length ys < 2 ^ 32"
  obtains f g c' where "re_client (FlushPairedFrame t a (FlushPairedFrame t' b r)) = Some c'" "sends [g, f] c c'"
    "af_samples f = xs" "af_samples g = ys"
proof -
  obtain g c1 where g: "re_client (FlushPairedFrame t' b r) = Some c1" "sends [g] c c1" "af_samples g = ys"
    by (rule flush_paired_sends [OF assms(1-3,7-9), of t'])
  then have "\<not> sc_ring_closed c1" using assms(2) by (simp add: sends_def)
  then obtain f c' where "re_client (FlushPairedFrame t a (FlushPairedFrame t' b r)) = Some c'" "sends [f] c1 c'" "af_samples f = xs"
    using flush_paired_sends [of "FlushPairedFrame t' b r" c1 xs a t] g(1) assms by (metis FlushPaired_frame(1))
  then show ?thesis using that sends_trans [OF g(2)] g(3) by (metis append_Cons append_Nil)
qed

text \<open>
  C99. A stereo relay whose calls do not overlap puts exactly the pairs of its pairer on the stream: one
  two-channel frame per pair, in order and consecutively numbered, whose samples interleave the left and
  the right frame or silence. The recorded frames of a side are a subsequence of those the call
  delivered there, and paired frames are no further apart than the timeout.
\<close>

theorem relay_records_pairs:
  assumes "rl_stereo cfg" "rl_sample_rate_hz cfg \<noteq> 0" "\<not> sc_ring_closed c"
    and "list_all (usable_op (rl_sample_rate_hz cfg)) ops" "r = fold (relay_step fs) ops (RecordingRelay_new (Some c) cfg)"
  shows "\<exists>c' frames log. re_client r = Some c' \<and> sp_log (re_pairer r) = log
    \<and> sc_accepted c' = sc_accepted c @ map (\<lambda>f. FM_audio (ToProto f)) frames
    \<and> numbered (sc_seq_counter c) (sc_ts_counter c) frames
    \<and> list_all2 (\<lambda>(x, y) f. af_samples f = stereo_samples (opt_samples x) (opt_samples y) \<and> af_channels f = 2) log frames
    \<and> list_all (pair_ok (pairer_config_of cfg)) log
    \<and> (\<forall>s. subseq (taken s log) (Media_Stereo.pushed s (map pairer_op_of ops)))"
proof -
  let ?r = "RecordingRelay_new (Some c) cfg" and ?ops = "map pairer_op_of ops"
  obtain outs p where run: "pairer_run ?ops (re_pairer ?r) = (outs, p)" by (rule prod.exhaust)
  have p0: "re_pairer ?r = StereoFramePairer_new (pairer_config_of cfg)" by (simp add: RecordingRelay_new_def)
  have i0: "pairer_inv (pairer_config_of cfg) (\<lambda>s. []) [] (re_pairer ?r)" unfolding p0 by (rule inv_new)
  have inv: "pairer_inv (pairer_config_of cfg) (\<lambda>s. Media_Stereo.pushed s ?ops) outs p" using inv_run [OF i0 run] by simp
  have "\<exists>c'. re_client (fold (relay_step fs) ops ?r) = Some c' \<and> sends_pairs outs c c' \<and> re_pairer (fold (relay_step fs) ops ?r) = p"
    by (rule relay_run_sends [OF _ _ _ assms(3) _ i0 _ _ run]) (use assms in \<open>simp_all add: RecordingRelay_new_def\<close>)
  then obtain c' frames where s: "re_client r = Some c'" "re_pairer r = p" "sends frames c c'"
    "map af_samples frames = map (\<lambda>out. samples_of_bytes (pr_interleaved out)) outs" "\<forall>f\<in>set frames. af_channels f = 2"
    unfolding assms(5) sends_pairs_def by blast
  have outs: "list_all2 (renders (pairer_config_of cfg)) (sp_log p) outs" "list_all (pair_ok (pairer_config_of cfg)) (sp_log p)"
    "\<forall>s. subseq (held s p) (Media_Stereo.pushed s ?ops)"
    using inv by (simp_all add: pairer_inv_def emitted_ok_def)
  have len: "length frames = length outs" using arg_cong [OF s(4), of length] by simp
  have nth: "af_samples (frames ! k) = samples_of_bytes (pr_interleaved (outs ! k))" if "k < length outs" for k
    using arg_cong [OF s(4), of "\<lambda>xs. xs ! k"] that len by simp
  have "list_all2 (\<lambda>(x, y) f. af_samples f = stereo_samples (opt_samples x) (opt_samples y) \<and> af_channels f = 2) (sp_log p) frames"
    using outs(1) s(5) len nth by (force simp: list_all2_conv_all_nth split: prod.splits)
  moreover have "subseq (taken s (sp_log p)) (Media_Stereo.pushed s ?ops)" for s
  proof -
    have "subseq (taken s (sp_log p)) (held s p)" unfolding held_def by (rule subseq_rev_drop_many) simp
    then show ?thesis using outs(3) by (blast intro: subseq_order.order_trans)
  qed
  ultimately show ?thesis using s(1-3) outs(2) unfolding sends_def by blast
qed

section \<open>An example\<close>

definition demo_relay_config :: relay_config where
  "demo_relay_config = \<lparr>rl_channel_uuid = ''c'', rl_tenant_id = ''t'', rl_stream_id = ''s'', rl_stereo = True,
     rl_sample_rate_hz = 8000, rl_read_fs_rate_hz = 8000, rl_write_fs_rate_hz = 8000, rl_desync_warn_ms = 5,
     rl_desync_timeout_ms = 25\<rparr>"

definition demo_relay_ops :: "relay_op list" where
  "demo_relay_ops = [Read_frame 0 0 1 160 8000 [1, 2], Write_frame 0 0 2 160 8000 [3], Tick_round 3 3]"

theorem relay_records_pairs_witness:
  "\<exists>c' frames log. re_client (fold (relay_step demo_fs_resampler) demo_relay_ops
       (RecordingRelay_new (Some (StreamClient_new demo_stream_config)) demo_relay_config)) = Some c'
     \<and> sc_accepted c' = map (\<lambda>f. FM_audio (ToProto f)) frames \<and> numbered 0 0 frames
     \<and> list_all2 (\<lambda>(x, y) f. af_samples f = stereo_samples (opt_samples x) (opt_samples y) \<and> af_channels f = 2) log frames
     \<and> list_all (pair_ok (pairer_config_of demo_relay_config)) log
     \<and> subseq (taken kLeft log) [\<lparr>pn_timestamp = 160, pn_arrived_at = 0, pn_samples = [1, 2]\<rparr>]"
proof -
  let ?c = "StreamClient_new demo_stream_config"
  have h: "rl_stereo demo_relay_config" "rl_sample_rate_hz demo_relay_config \<noteq> 0" "\<not> sc_ring_closed ?c"
    "list_all (usable_op (rl_sample_rate_hz demo_relay_config)) demo_relay_ops"
    by (simp_all add: demo_relay_config_def StreamClient_new_def demo_relay_ops_def)
  have z: "sc_accepted ?c = []" "sc_seq_counter ?c = 0" "sc_ts_counter ?c = 0" by (simp_all add: StreamClient_new_def)
  have e: "Media_Stereo.pushed kLeft (map pairer_op_of demo_relay_ops) = [\<lparr>pn_timestamp = 160, pn_arrived_at = 0, pn_samples = [1, 2]\<rparr>]"
    by (simp add: demo_relay_ops_def)
  from relay_records_pairs [OF h refl, of demo_fs_resampler, unfolded z append_Nil] show ?thesis
    by (elim exE conjE) (intro exI conjI; (assumption | (drule spec [of _ kLeft], simp only: e)))
qed

end
