(* ===== verification/Spec2Isabelle.thy ===== *)
theory Spec2Isabelle
  imports Event_Tier Obs_Health Event_Plane Control_Idempotency Core_Validate Media_Playout Media_Stereo Media_BugOrder Control_StartBot Control_CallRetry Core_Module Media_Relay
begin

text \<open>
  Verification of open-switch.
\<close>

end
